(* ===== verification/Prelude.thy ===== *)
theory Prelude
  imports Complex_Main "HOL-Library.AList" "HOL-Library.Multiset"
begin

text \<open>
  Shared ground of the development: Python exceptions as values of a sum type, the sequencing
  of fallible computations, list indexing and slicing with Python's rules for negative and
  out-of-range positions, dictionaries as association lists, the order in which a dictionary is
  iterated (an interface, \<open>key_order\<close>), and stable sorting by a comparison; and the interfaces of systems that
  react to events (\<open>event_system\<close>) or make steps in any order (\<open>finite_system\<close>).
\<close>

section \<open>Exceptions and sequencing\<close>

datatype py_error =
    IndexError | KeyError | ValueError | TypeError | ZeroDivisionError
  | UnboundLocalError | NameError | AttributeError | AssertionError | StopIteration | PlainException
  | FileNotFoundError | OSError

type_synonym 'a result = "py_error + 'a"

definition bind_r :: "'e + 'a \<Rightarrow> ('a \<Rightarrow> 'e + 'b) \<Rightarrow> 'e + 'b" where
  "bind_r m f = (case m of Inl e \<Rightarrow> Inl e | Inr x \<Rightarrow> f x)"

fun mapM_r :: "('a \<Rightarrow> 'e + 'b) \<Rightarrow> 'a list \<Rightarrow> 'e + 'b list" where
  "mapM_r f [] = Inr []"
| "mapM_r f (x # xs) = bind_r (f x) (\<lambda>y. bind_r (mapM_r f xs) (\<lambda>ys. Inr (y # ys)))"

fun foldM_r :: "('s \<Rightarrow> 'a \<Rightarrow> 'e + 's) \<Rightarrow> 's \<Rightarrow> 'a list \<Rightarrow> 'e + 's" where
  "foldM_r f s [] = Inr s"
| "foldM_r f s (x # xs) = bind_r (f s x) (\<lambda>s'. foldM_r f s' xs)"

named_theorems result_simps \<open>rewrite rules for fallible computations\<close>

lemma bind_r_Inl [simp, result_simps]: "bind_r (Inl e) f = Inl e"
  by (simp add: bind_r_def)

lemma bind_r_Inr [simp, result_simps]: "bind_r (Inr x) f = f x"
  by (simp add: bind_r_def)

lemma bind_r_eq_Inr_iff [result_simps]:
  "bind_r m f = Inr y \<longleftrightarrow> (\<exists>x. m = Inr x \<and> f x = Inr y)"
  by (cases m) auto

lemma bind_r_eq_Inl_iff [result_simps]:
  "bind_r m f = Inl e \<longleftrightarrow> m = Inl e \<or> (\<exists>x. m = Inr x \<and> f x = Inl e)"
  by (cases m) auto

lemma bind_r_cong [fundef_cong]:
  "m = m' \<Longrightarrow> (\<And>x. m' = Inr x \<Longrightarrow> f x = g x) \<Longrightarrow> bind_r m f = bind_r m' g"
  by (cases m') auto

lemma mapM_r_Inr_iff:
  "mapM_r f xs = Inr ys \<longleftrightarrow> list_all2 (\<lambda>x y. f x = Inr y) xs ys"
  by (induction xs arbitrary: ys) (auto simp: bind_r_eq_Inr_iff list_all2_Cons1)

lemma mapM_r_cong [fundef_cong]:
  "xs = ys \<Longrightarrow> (\<And>x. x \<in> set ys \<Longrightarrow> f x = g x) \<Longrightarrow> mapM_r f xs = mapM_r g ys"
  by (induction ys arbitrary: xs) auto

lemma mapM_r_length: "mapM_r f xs = Inr ys \<Longrightarrow> length ys = length xs"
  by (auto simp: mapM_r_Inr_iff dest: list_all2_lengthD)

lemma mapM_r_Cons_iff:
  "mapM_r f (x # xs) = Inr zs \<longleftrightarrow> (\<exists>y ys. f x = Inr y \<and> mapM_r f xs = Inr ys \<and> zs = y # ys)"
  by (auto simp: bind_r_eq_Inr_iff)

lemma mapM_r_append_iff:
  "mapM_r f (xs @ ys) = Inr zs \<longleftrightarrow> (\<exists>us vs. mapM_r f xs = Inr us \<and> mapM_r f ys = Inr vs \<and> zs = us @ vs)"
  by (induction xs arbitrary: zs) (auto simp: mapM_r_Cons_iff simp del: mapM_r.simps(2))

lemma mapM_r_concat_iff:
  "mapM_r f (concat xss) = Inr zs \<longleftrightarrow> (\<exists>zss. mapM_r (mapM_r f) xss = Inr zss \<and> zs = concat zss)"
proof (induction xss arbitrary: zs)
  case (Cons xs xss)
  show ?case unfolding concat.simps mapM_r_append_iff mapM_r_Cons_iff Cons.IH by auto
qed auto

lemma mapM_r_total: "(\<And>x. x \<in> set xs \<Longrightarrow> f x = Inr (g x)) \<Longrightarrow> mapM_r f xs = Inr (map g xs)"
  by (induction xs) auto

lemma foldM_r_total: "(\<And>s x. x \<in> set xs \<Longrightarrow> f s x = Inr (g s x)) \<Longrightarrow> foldM_r f s xs = Inr (foldl g s xs)"
  by (induction xs arbitrary: s) auto

lemma foldM_r_append:
  "foldM_r f s (xs @ ys) = bind_r (foldM_r f s xs) (\<lambda>s'. foldM_r f s' ys)"
proof (induction xs arbitrary: s)
  case Nil
  show ?case by simp
next
  case (Cons x xs)
  then show ?case by (cases "f s x") auto
qed

text \<open>An invariant of the loop body is an invariant of the loop.\<close>

lemma foldM_r_invariant:
  assumes "foldM_r f s xs = Inr t" and "P s"
    and "\<And>s x s'. x \<in> set xs \<Longrightarrow> P s \<Longrightarrow> f s x = Inr s' \<Longrightarrow> P s'"
  shows "P t"
  using assms
proof (induction xs arbitrary: s)
  case Nil
  then show ?case by simp
next
  case (Cons x xs)
  from Cons.prems(1) obtain s' where s': "f s x = Inr s'" "foldM_r f s' xs = Inr t"
    by (auto simp: bind_r_eq_Inr_iff)
  from s'(2) show ?case
  proof (rule Cons.IH)
    show "P s'" using Cons.prems(2,3) s'(1) by auto
  qed (use Cons.prems(3) in auto)
qed

text \<open>
  A system that reacts to events, one after the other, until one of them fails: what holds at the start and is
  kept by every reaction holds after any sequence of events that does not fail.
\<close>

locale event_system =
  fixes react :: "'s \<Rightarrow> 'ev \<Rightarrow> 'e + 's" and inv :: "'s \<Rightarrow> bool"
  assumes react_inv: "inv s \<Longrightarrow> react s ev = Inr s' \<Longrightarrow> inv s'"
begin

lemma run_inv: "inv s \<Longrightarrow> foldM_r react s evs = Inr s' \<Longrightarrow> inv s'"
  by (rule foldM_r_invariant [of react s evs s' inv]) (auto intro: react_inv)

lemma run_prefix_inv:
  assumes "inv s" and "foldM_r react s (evs @ rest) = Inr s'"
  shows "\<exists>t. foldM_r react s evs = Inr t \<and> inv t \<and> foldM_r react t rest = Inr s'"
  using assms run_inv [of s evs] by (auto simp: foldM_r_append bind_r_eq_Inr_iff)

end

text \<open>
  A system whose steps are chosen by a scheduler: when every step keeps the invariant and lowers the rank, and no state but the
  final ones is stuck, then every run is finite, and a run that cannot go on has reached a final state.
\<close>

locale finite_system =
  fixes step :: "'s \<Rightarrow> 's \<Rightarrow> bool" and inv :: "'s \<Rightarrow> bool" and rank :: "'s \<Rightarrow> nat" and final :: "'s \<Rightarrow> bool"
  assumes step_inv: "inv s \<Longrightarrow> step s t \<Longrightarrow> inv t"
    and step_rank: "inv s \<Longrightarrow> step s t \<Longrightarrow> rank t < rank s"
    and progress: "inv s \<Longrightarrow> \<not> final s \<Longrightarrow> \<exists>t. step s t"
begin

lemma reach_inv: "step\<^sup>*\<^sup>* s t \<Longrightarrow> inv s \<Longrightarrow> inv t"
  by (induction rule: rtranclp_induct) (auto intro: step_inv)

lemma run_bound: "(step ^^ n) s t \<Longrightarrow> inv s \<Longrightarrow> n + rank t \<le> rank s \<and> inv t"
proof (induction n arbitrary: t)
  case (Suc n)
  then obtain u where u: "(step ^^ n) s u" "step u t" by auto
  with Suc.IH [OF u(1) Suc.prems(2)] step_rank [of u t] step_inv [of u t] show ?case by force
qed simp

lemma reaches_final: "inv s \<Longrightarrow> \<exists>t. step\<^sup>*\<^sup>* s t \<and> final t"
proof (induction "rank s" arbitrary: s rule: less_induct)
  case less
  show ?case
  proof (cases "final s")
    case False
    then obtain u where u: "step s u" using progress less.prems by blast
    with less.hyps [OF step_rank step_inv] less.prems obtain t where "step\<^sup>*\<^sup>* u t" "final t" by blast
    with u show ?thesis by (meson converse_rtranclp_into_rtranclp)
  qed auto
qed

lemma stuck_final: "inv s \<Longrightarrow> step\<^sup>*\<^sup>* s t \<Longrightarrow> \<not> (\<exists>u. step t u) \<Longrightarrow> final t"
  using reach_inv progress by blast

end

text \<open>Writing one entry of a list changes a sum over the list in one place.\<close>

lemma sum_list_update_add:
  fixes f :: "'a \<Rightarrow> 'b::comm_monoid_add"
  shows "i < length xs \<Longrightarrow> sum_list (map f (xs[i := x])) + f (xs ! i) = sum_list (map f xs) + f x"
  by (induction xs arbitrary: i) (auto simp: ac_simps split: nat.split)

section \<open>Indexing and slicing\<close>

text \<open>\<open>xs[i]\<close>: a negative index counts from the end, out of range raises IndexError.\<close>

definition py_index :: "'a list \<Rightarrow> int \<Rightarrow> 'a result" where
  "py_index xs i =
     (if i < - int (length xs) \<or> int (length xs) \<le> i then Inl IndexError
      else Inr (xs ! nat (if i < 0 then int (length xs) + i else i)))"

lemma py_index_nat [simp]: "k < length xs \<Longrightarrow> py_index xs (int k) = Inr (xs ! k)"
  by (simp add: py_index_def)

lemma py_index_out: "length xs \<le> k \<Longrightarrow> py_index xs (int k) = Inl IndexError"
  by (simp add: py_index_def)

lemma py_index_Inr_nat_iff: "py_index xs (int k) = Inr x \<longleftrightarrow> k < length xs \<and> xs ! k = x"
  by (auto simp: py_index_def)

text \<open>The bounds of a slice are clipped, never an error.\<close>

definition slice_bound :: "nat \<Rightarrow> int \<Rightarrow> nat" where
  "slice_bound n i = (if i < 0 then nat (max 0 (int n + i)) else min (nat i) n)"

definition py_slice :: "'a list \<Rightarrow> int \<Rightarrow> int \<Rightarrow> 'a list" where
  "py_slice xs lo hi =
     (let l = slice_bound (length xs) lo; h = slice_bound (length xs) hi
      in take (h - l) (drop l xs))"

definition py_slice_from :: "'a list \<Rightarrow> int \<Rightarrow> 'a list" where
  "py_slice_from xs lo = drop (slice_bound (length xs) lo) xs"

definition py_slice_to :: "'a list \<Rightarrow> int \<Rightarrow> 'a list" where
  "py_slice_to xs hi = take (slice_bound (length xs) hi) xs"

lemma slice_bound_le [simp]: "slice_bound n i \<le> n"
  by (auto simp: slice_bound_def)

lemma slice_bound_int [simp]: "slice_bound n (int k) = min k n"
  by (simp add: slice_bound_def)

lemma slice_bound_neg: "0 < k \<Longrightarrow> slice_bound n (- int k) = n - k"
  by (auto simp: slice_bound_def)

lemma py_slice_nat: "py_slice xs (int l) (int h) = take (h - l) (drop l xs)"
  by (cases "l \<le> length xs") (auto simp: py_slice_def Let_def min_def)

section \<open>Dictionaries\<close>

text \<open>
  A dictionary is an association list with distinct keys. \<open>AList.update\<close> overwrites the value of
  a key in place and appends a new key, as CPython does.
\<close>

type_synonym ('k, 'v) dict = "('k \<times> 'v) list"

abbreviation d_keys :: "('k, 'v) dict \<Rightarrow> 'k list" where
  "d_keys d \<equiv> map fst d"

definition d_ok :: "('k, 'v) dict \<Rightarrow> bool" where
  "d_ok d \<longleftrightarrow> distinct (d_keys d)"

definition d_getitem :: "('k, 'v) dict \<Rightarrow> 'k \<Rightarrow> 'v result" where
  "d_getitem d k = (case map_of d k of None \<Rightarrow> Inl KeyError | Some v \<Rightarrow> Inr v)"

definition d_delitem :: "('k, 'v) dict \<Rightarrow> 'k \<Rightarrow> ('k, 'v) dict result" where
  "d_delitem d k = (if k \<in> set (d_keys d) then Inr (AList.delete k d) else Inl KeyError)"

lemma d_ok_Nil [simp]: "d_ok []"
  by (simp add: d_ok_def)

lemma d_ok_update [simp]: "d_ok d \<Longrightarrow> d_ok (AList.update k v d)"
  by (simp add: d_ok_def distinct_update)

lemma d_ok_delete [simp]: "d_ok d \<Longrightarrow> d_ok (AList.delete k d)"
  unfolding d_ok_def by (induction d) (auto simp: AList.delete_eq)

lemma map_of_update [simp]: "map_of (AList.update k v d) = (map_of d)(k \<mapsto> v)"
  by (rule update_conv')

lemma map_of_delete [simp]: "map_of (AList.delete k d) = (map_of d)(k := None)"
  by (rule delete_conv')

lemma d_keys_update: "set (d_keys (AList.update k v d)) = insert k (set (d_keys d))"
  by (simp add: dom_update)

lemma d_keys_delete: "set (d_keys (AList.delete k d)) = set (d_keys d) - {k}"
  by (auto simp: delete_keys)

lemma length_delete_less: "k \<in> set (d_keys d) \<Longrightarrow> length (AList.delete k d) < length d"
  by (induction d) (force simp: AList.delete_eq less_Suc_eq_le)+

text \<open>
  The order in which a dictionary is iterated. Before CPython 3.7 it is a permutation of the keys
  that the program cannot rely on, so the code that iterates a Python 2 dictionary takes the order
  as a parameter \<open>ko\<close> and its theorems hold for every permutation.
\<close>

locale key_order =
  fixes ko :: "'k list \<Rightarrow> 'k list"
  assumes ko_perm: "mset (ko xs) = mset xs"
begin

lemma ko_set: "set (ko xs) = set xs"
  by (metis ko_perm set_mset_mset)

lemma ko_distinct: "distinct (ko xs) \<longleftrightarrow> distinct xs"
  by (metis ko_perm mset_eq_imp_distinct_iff)

lemma ko_length: "length (ko xs) = length xs"
  by (metis ko_perm size_mset)

lemma ko_Nil_iff: "ko xs = [] \<longleftrightarrow> xs = []"
  by (metis ko_length length_0_conv)

lemmas ko_simps = ko_set ko_distinct ko_length ko_Nil_iff

end

text \<open>Insertion order (CPython 3.7 and later) and ascending order are two such orders.\<close>

interpretation insertion_order: key_order "\<lambda>xs. xs"
  by unfold_locales simp

interpretation ascending_order: key_order "sort :: 'k::linorder list \<Rightarrow> 'k list"
  by unfold_locales simp

section \<open>Stable sorting by a comparison\<close>

text \<open>
  \<open>list.sort\<close> and \<open>sorted\<close> are stable and use only the strict comparison of the keys. The model is
  insertion from the left, which agrees with every stable sort on a strict weak order and keeps
  the list as it is when no two keys compare.
\<close>

fun py_insert :: "('a \<Rightarrow> 'a \<Rightarrow> bool) \<Rightarrow> 'a \<Rightarrow> 'a list \<Rightarrow> 'a list" where
  "py_insert lt x [] = [x]"
| "py_insert lt x (y # ys) = (if lt x y then x # y # ys else y # py_insert lt x ys)"

definition py_sort :: "('a \<Rightarrow> 'a \<Rightarrow> bool) \<Rightarrow> 'a list \<Rightarrow> 'a list" where
  "py_sort lt xs = foldl (\<lambda>acc x. py_insert lt x acc) [] xs"

lemma mset_py_insert [simp]: "mset (py_insert lt x ys) = add_mset x (mset ys)"
  by (induction ys) auto

lemma mset_foldl_py_insert:
  "mset (foldl (\<lambda>acc x. py_insert lt x acc) acc xs) = mset acc + mset xs"
  by (induction xs arbitrary: acc) auto

lemma mset_py_sort [simp]: "mset (py_sort lt xs) = mset xs"
  by (simp add: py_sort_def mset_foldl_py_insert)

lemma set_py_sort [simp]: "set (py_sort lt xs) = set xs"
  by (metis mset_py_sort set_mset_mset)

lemma length_py_sort [simp]: "length (py_sort lt xs) = length xs"
  by (metis mset_py_sort size_mset)

lemma py_sort_Nil_iff [simp]: "py_sort lt xs = [] \<longleftrightarrow> xs = []"
  by (metis length_0_conv length_py_sort)

lemma sorted_py_insert:
  fixes f :: "'a \<Rightarrow> 'k::linorder"
  shows "sorted (map f ys) \<Longrightarrow> sorted (map f (py_insert (\<lambda>a b. f a < f b) x ys))"
proof (induction ys)
  case Nil
  show ?case by simp
next
  case (Cons y ys)
  have "set (py_insert (\<lambda>a b. f a < f b) x ys) = insert x (set ys)"
    by (metis mset_py_insert set_mset_add_mset_insert set_mset_mset)
  with Cons show ?case by (auto simp: not_less)
qed

lemma sorted_foldl_py_insert:
  fixes f :: "'a \<Rightarrow> 'k::linorder"
  shows "sorted (map f acc) \<Longrightarrow>
    sorted (map f (foldl (\<lambda>acc x. py_insert (\<lambda>a b. f a < f b) x acc) acc xs))"
  by (induction xs arbitrary: acc) (auto intro: sorted_py_insert)

lemma sorted_py_sort:
  fixes f :: "'a \<Rightarrow> 'k::linorder"
  shows "sorted (map f (py_sort (\<lambda>a b. f a < f b) xs))"
  unfolding py_sort_def by (rule sorted_foldl_py_insert) simp

lemma py_insert_none: "(\<And>y. y \<in> set ys \<Longrightarrow> \<not> lt x y) \<Longrightarrow> py_insert lt x ys = ys @ [x]"
  by (induction ys) auto

lemma foldl_py_insert_sorted:
  assumes "sorted_wrt (\<lambda>a b. \<not> lt b a) (acc @ xs)"
  shows "foldl (\<lambda>acc x. py_insert lt x acc) acc xs = acc @ xs"
  using assms
proof (induction xs arbitrary: acc)
  case Nil
  show ?case by simp
next
  case (Cons x xs)
  from Cons.prems have "py_insert lt x acc = acc @ [x]"
    by (intro py_insert_none) (auto simp: sorted_wrt_append)
  with Cons show ?case by simp
qed

lemma set_py_insert [simp]: "set (py_insert lt x ys) = insert x (set ys)"
  by (metis mset_py_insert set_mset_add_mset_insert set_mset_mset)

lemma py_insert_cong:
  "(\<And>y. y \<in> set ys \<Longrightarrow> lt x y = lt' x y) \<Longrightarrow> py_insert lt x ys = py_insert lt' x ys"
  by (induction ys) auto

lemma foldl_py_insert_cong:
  assumes "\<And>a b. a \<in> set acc \<union> set xs \<Longrightarrow> b \<in> set acc \<union> set xs \<Longrightarrow> lt a b = lt' a b"
  shows "foldl (\<lambda>acc x. py_insert lt x acc) acc xs = foldl (\<lambda>acc x. py_insert lt' x acc) acc xs"
  using assms
proof (induction xs arbitrary: acc)
  case Nil
  show ?case by simp
next
  case (Cons x xs)
  have "py_insert lt x acc = py_insert lt' x acc" using Cons.prems by (intro py_insert_cong) auto
  moreover have "foldl (\<lambda>acc x. py_insert lt x acc) (py_insert lt x acc) xs =
      foldl (\<lambda>acc x. py_insert lt' x acc) (py_insert lt x acc) xs"
    using Cons.prems by (intro Cons.IH) auto
  ultimately show ?case by simp
qed

lemma py_sort_cong:
  "(\<And>a b. a \<in> set xs \<Longrightarrow> b \<in> set xs \<Longrightarrow> lt a b = lt' a b) \<Longrightarrow> py_sort lt xs = py_sort lt' xs"
  unfolding py_sort_def by (rule foldl_py_insert_cong) auto

text \<open>The first element of a sorted list has the least key.\<close>

lemma py_sort_hd_least:
  fixes f :: "'a \<Rightarrow> 'k::linorder"
  assumes "\<And>a b. a \<in> set xs \<Longrightarrow> b \<in> set xs \<Longrightarrow> lt a b = (f a < f b)" and "xs \<noteq> []"
  shows "py_sort lt xs ! 0 \<in> set xs \<and> (\<forall>x \<in> set xs. f (py_sort lt xs ! 0) \<le> f x)"
proof -
  have eq: "py_sort lt xs = py_sort (\<lambda>a b. f a < f b) xs" using assms(1) by (rule py_sort_cong)
  obtain y ys where y: "py_sort lt xs = y # ys" using assms(2) by (metis neq_Nil_conv py_sort_Nil_iff)
  then have "set xs = insert y (set ys)" by (metis list.set(2) set_py_sort)
  moreover have "sorted (map f (y # ys))" using sorted_py_sort [of f xs] eq y by simp
  ultimately show ?thesis using y by auto
qed

text \<open>A list that is in order already, and one whose keys never compare, stays as it is.\<close>

lemma py_sort_id: "sorted_wrt (\<lambda>a b. \<not> lt b a) xs \<Longrightarrow> py_sort lt xs = xs"
  unfolding py_sort_def using foldl_py_insert_sorted [of lt "[]" xs] by simp

text \<open>Stability: elements with the same key keep their order.\<close>

lemma filter_py_insert:
  fixes f :: "'a \<Rightarrow> 'k::linorder"
  assumes "sorted (map f ys)"
  shows "filter (\<lambda>z. f z = k) (py_insert (\<lambda>a b. f a < f b) x ys) =
         filter (\<lambda>z. f z = k) ys @ (if f x = k then [x] else [])"
  using assms
proof (induction ys)
  case Nil
  show ?case by simp
next
  case (Cons y ys)
  show ?case
  proof (cases "f x < f y")
    case True
    with Cons.prems have "\<forall>z \<in> set (y # ys). f x < f z" by auto
    then have "f x = k \<Longrightarrow> filter (\<lambda>z. f z = k) (y # ys) = []"
      by (auto simp: filter_empty_conv)
    with True show ?thesis by auto
  next
    case False
    with Cons show ?thesis by auto
  qed
qed

lemma filter_foldl_py_insert:
  fixes f :: "'a \<Rightarrow> 'k::linorder"
  assumes "sorted (map f acc)"
  shows "filter (\<lambda>z. f z = k) (foldl (\<lambda>acc x. py_insert (\<lambda>a b. f a < f b) x acc) acc xs) =
         filter (\<lambda>z. f z = k) acc @ filter (\<lambda>z. f z = k) xs"
  using assms
proof (induction xs arbitrary: acc)
  case Nil
  show ?case by simp
next
  case (Cons x xs)
  have "sorted (map f (py_insert (\<lambda>a b. f a < f b) x acc))"
    by (rule sorted_py_insert) (rule Cons.prems)
  from Cons.IH [OF this] show ?case by (simp add: filter_py_insert [OF Cons.prems])
qed

lemma py_sort_stable:
  fixes f :: "'a \<Rightarrow> 'k::linorder"
  shows "filter (\<lambda>z. f z = k) (py_sort (\<lambda>a b. f a < f b) xs) = filter (\<lambda>z. f z = k) xs"
  unfolding py_sort_def by (simp add: filter_foldl_py_insert)

section \<open>Numbers\<close>

text \<open>Python's \<open>int()\<close> on a number truncates towards zero.\<close>

definition trunc :: "rat \<Rightarrow> int" where
  "trunc x = (if x < 0 then \<lceil>x\<rceil> else \<lfloor>x\<rfloor>)"

lemma trunc_of_int [simp]: "trunc (of_int i) = i"
  by (simp add: trunc_def)

lemma trunc_nonneg: "0 \<le> x \<Longrightarrow> trunc x = \<lfloor>x\<rfloor>"
  by (simp add: trunc_def)

section \<open>Lists\<close>

text \<open>The text \<open>needle in hay\<close> on strings: a contiguous occurrence.\<close>

fun substring :: "'a list \<Rightarrow> 'a list \<Rightarrow> bool" where
  "substring needle [] \<longleftrightarrow> needle = []"
| "substring needle (h # hs) \<longleftrightarrow> take (length needle) (h # hs) = needle \<or> substring needle hs"

lemma substring_iff: "substring needle hay \<longleftrightarrow> (\<exists>a b. hay = a @ needle @ b)"
proof (induction hay)
  case Nil
  show ?case by auto
next
  case (Cons h hs)
  have "take (length needle) (h # hs) = needle \<longleftrightarrow> (\<exists>b. h # hs = needle @ b)"
    by (metis append_eq_conv_conj append_take_drop_id)
  moreover have "(\<exists>a b. h # hs = a @ needle @ b) \<longleftrightarrow>
      (\<exists>b. h # hs = needle @ b) \<or> (\<exists>a b. hs = a @ needle @ b)"
    by (metis append_Cons append_Nil list.exhaust list.sel(3))
  ultimately show ?case using Cons by simp
qed

lemma substring_refl [simp]: "substring s s"
  by (auto simp: substring_iff intro: exI [of _ "[]"])

fun index_of :: "'a list \<Rightarrow> 'a \<Rightarrow> nat option" where
  "index_of [] y = None"
| "index_of (x # xs) y = (if x = y then Some 0 else map_option Suc (index_of xs y))"

lemma index_of_Some:
  "index_of xs y = Some i \<Longrightarrow> i < length xs \<and> xs ! i = y \<and> (\<forall>j < i. xs ! j \<noteq> y)"
proof (induction xs arbitrary: i)
  case Nil
  then show ?case by simp
next
  case (Cons x xs)
  then show ?case by (auto split: if_splits simp: nth_Cons split: nat.splits)
qed

lemma index_of_None_iff: "index_of xs y = None \<longleftrightarrow> y \<notin> set xs"
  by (induction xs) auto

lemma index_of_nth: "distinct xs \<Longrightarrow> k < length xs \<Longrightarrow> index_of xs (xs ! k) = Some k"
proof -
  assume d: "distinct xs" and k: "k < length xs"
  then obtain i where i: "index_of xs (xs ! k) = Some i" by (metis index_of_None_iff not_None_eq nth_mem)
  from index_of_Some [OF i] d k have "i = k" by (metis nth_eq_iff_index_eq)
  with i show ?thesis by simp
qed

text \<open>A slice holds what a filter keeps when the filter accepts exactly the positions of the slice.\<close>

lemma filter_interval:
  assumes "\<And>k. k < length xs \<Longrightarrow> P (xs ! k) \<longleftrightarrow> i \<le> k \<and> k < n" and "n \<le> length xs" and "i \<le> n"
  shows "filter P xs = take (n - i) (drop i xs)"
proof -
  have "xs = take i xs @ take (n - i) (drop i xs) @ drop n xs"
    using assms(3) by (metis append_take_drop_id drop_drop le_add_diff_inverse2)
  moreover have "filter P (take i xs) = []"
    using assms by (auto simp: filter_empty_conv in_set_conv_nth)
  moreover have "filter P (take (n - i) (drop i xs)) = take (n - i) (drop i xs)"
    using assms by (intro filter_True) (auto simp: in_set_conv_nth)
  moreover have "filter P (drop n xs) = []"
    using assms by (auto simp: filter_empty_conv in_set_conv_nth)
  ultimately show ?thesis by (metis append_Nil append_Nil2 filter_append)
qed

end
