(* ===== verification/PyString.thy ===== *)
theory PyString
  imports Prelude
begin

text \<open>
  The string operations of Python that the modelled code uses: splitting, stripping, joining,
  positional numerals in any base with their round trip, and the conversions \<open>int(s)\<close>,
  \<open>int(s, base)\<close> and \<open>float(s)\<close>. A float is read as the exact rational number its decimal
  notation denotes; the notations \<open>inf\<close> and \<open>nan\<close> are not accepted by the model.
\<close>

section \<open>Splitting, joining, stripping\<close>

text \<open>\<open>s.split(c)\<close> for a separator of one character.\<close>

fun split_char :: "char \<Rightarrow> string \<Rightarrow> string list" where
  "split_char c [] = [[]]"
| "split_char c (x # xs) =
     (if x = c then [] # split_char c xs
      else (case split_char c xs of [] \<Rightarrow> [[x]] | w # ws \<Rightarrow> (x # w) # ws))"

fun join_char :: "char \<Rightarrow> string list \<Rightarrow> string" where
  "join_char c [] = []"
| "join_char c [w] = w"
| "join_char c (w # v # ws) = w @ c # join_char c (v # ws)"

text \<open>\<open>s.split(c, 1)\<close>: at most one split.\<close>

fun join_with :: "string \<Rightarrow> string list \<Rightarrow> string" where
  "join_with sep [] = []"
| "join_with sep [s] = s"
| "join_with sep (s # t # ss) = s @ sep @ join_with sep (t # ss)"

definition split_once :: "char \<Rightarrow> string \<Rightarrow> string list" where
  "split_once c s =
     (if c \<in> set s
      then [takeWhile (\<lambda>x. x \<noteq> c) s, tl (dropWhile (\<lambda>x. x \<noteq> c) s)]
      else [s])"

definition is_space :: "char \<Rightarrow> bool" where
  "is_space c \<longleftrightarrow> c \<in> set [CHR '' '', CHR 0x09, CHR 0x0A, CHR 0x0B, CHR 0x0C, CHR 0x0D]"

definition strip :: "string \<Rightarrow> string" where
  "strip s = rev (dropWhile is_space (rev (dropWhile is_space s)))"

definition startswith :: "string \<Rightarrow> string \<Rightarrow> bool" where
  "startswith s p \<longleftrightarrow> take (length p) s = p"

definition endswith :: "string \<Rightarrow> string \<Rightarrow> bool" where
  "endswith s p \<longleftrightarrow> length p \<le> length s \<and> drop (length s - length p) s = p"

lemma split_char_ne [simp]: "split_char c s \<noteq> []"
  by (induction s) (auto split: list.splits)

lemma split_char_no_sep: "w \<in> set (split_char c s) \<Longrightarrow> c \<notin> set w"
proof (induction s arbitrary: w)
  case Nil
  then show ?case by simp
next
  case (Cons x xs)
  obtain v vs where vs: "split_char c xs = v # vs"
    using split_char_ne [of c xs] by (cases "split_char c xs") auto
  have "c \<notin> set v" using Cons.IH [of v] vs by simp
  moreover have "u \<in> set vs \<Longrightarrow> c \<notin> set u" for u using Cons.IH [of u] vs by simp
  ultimately show ?case using Cons.prems vs by (auto split: if_splits)
qed

lemma join_split_char: "join_char c (split_char c s) = s"
proof (induction s)
  case Nil
  show ?case by simp
next
  case (Cons x xs)
  obtain v vs where vs: "split_char c xs = v # vs"
    using split_char_ne [of c xs] by (cases "split_char c xs") auto
  with Cons show ?case by (cases vs) auto
qed

lemma split_char_word: "c \<notin> set w \<Longrightarrow> split_char c w = [w]"
  by (induction w) auto

lemma split_char_append: "c \<notin> set w \<Longrightarrow> split_char c (w @ c # s) = w # split_char c s"
  by (induction w) auto

lemma split_join_char:
  "ws \<noteq> [] \<Longrightarrow> (\<And>w. w \<in> set ws \<Longrightarrow> c \<notin> set w) \<Longrightarrow> split_char c (join_char c ws) = ws"
  by (induction c ws rule: join_char.induct) (auto simp: split_char_word split_char_append)

lemma split_char_last:
  "c \<notin> set w \<Longrightarrow> split_char c (s @ w) = butlast (split_char c s) @ [last (split_char c s) @ w]"
proof (induction s)
  case Nil
  then show ?case by (simp add: split_char_word)
next
  case (Cons x xs)
  obtain v vs where vs: "split_char c xs = v # vs"
    using split_char_ne [of c xs] by (cases "split_char c xs") auto
  with Cons show ?case by (cases vs) auto
qed

section \<open>Positional numerals\<close>

fun digits_of :: "nat \<Rightarrow> nat \<Rightarrow> nat list" where
  "digits_of b n = (if b < 2 \<or> n < b then [n] else digits_of b (n div b) @ [n mod b])"

declare digits_of.simps [simp del]

definition value_of :: "nat \<Rightarrow> nat list \<Rightarrow> nat" where
  "value_of b ds = foldl (\<lambda>a d. a * b + d) 0 ds"

lemma value_of_Nil [simp]: "value_of b [] = 0"
  by (simp add: value_of_def)

lemma value_of_snoc [simp]: "value_of b (ds @ [d]) = value_of b ds * b + d"
  by (simp add: value_of_def)

lemma value_of_append: "value_of b (xs @ ys) = value_of b xs * b ^ length ys + value_of b ys"
proof (induction ys rule: rev_induct)
  case Nil
  show ?case by simp
next
  case (snoc y ys)
  then show ?case
    by (simp add: append_assoc [symmetric] algebra_simps del: append_assoc)
qed

lemma value_of_Cons: "value_of b (x # xs) = x * b ^ length xs + value_of b xs"
  using value_of_append [of b "[x]" xs] by (simp add: value_of_def)

lemma value_of_bound: "(\<And>d. d \<in> set ds \<Longrightarrow> d < b) \<Longrightarrow> value_of b ds < b ^ length ds"
proof (induction ds rule: rev_induct)
  case Nil
  show ?case by simp
next
  case (snoc d ds)
  then have "value_of b ds + 1 \<le> b ^ length ds" and d: "d < b" by (auto simp: Suc_leI)
  then have "(value_of b ds + 1) * b \<le> b ^ length ds * b" by (rule_tac mult_le_mono1)
  with d show ?case by (simp add: algebra_simps)
qed

lemma value_of_inj:
  "length xs = length ys \<Longrightarrow> (\<And>d. d \<in> set xs \<union> set ys \<Longrightarrow> d < b) \<Longrightarrow>
   value_of b xs = value_of b ys \<Longrightarrow> xs = ys"
proof (induction xs ys rule: rev_induct2)
  case (4 x xs y ys)
  then have "x < b" "y < b" by auto
  moreover have eq: "value_of b xs * b + x = value_of b ys * b + y" using 4(4) by simp
  ultimately have "x = y" by (metis mod_less mod_mult_self3 mult.commute)
  with eq \<open>x < b\<close> have "value_of b xs = value_of b ys" by auto
  with 4 \<open>x = y\<close> show ?case by auto
qed auto

lemma digits_of_bound: "2 \<le> b \<Longrightarrow> d \<in> set (digits_of b n) \<Longrightarrow> d < b"
proof (induction b n rule: digits_of.induct)
  case (1 b n)
  then show ?case by (subst (asm) digits_of.simps) (auto split: if_splits)
qed

lemma value_digits_of: "2 \<le> b \<Longrightarrow> value_of b (digits_of b n) = n"
proof (induction b n rule: digits_of.induct)
  case (1 b n)
  show ?case
  proof (cases "n < b")
    case True
    then show ?thesis by (subst digits_of.simps) (simp add: value_of_def)
  next
    case False
    with 1 show ?thesis by (subst digits_of.simps) simp
  qed
qed

lemma digits_of_ne [simp]: "digits_of b n \<noteq> []"
  by (subst digits_of.simps) simp

definition digit_char :: "nat \<Rightarrow> char" where
  "digit_char d = ''0123456789abcdef'' ! d"

definition lower :: "char \<Rightarrow> char" where
  "lower c = (case index_of ''ABCDEFGHIJKLMNOPQRSTUVWXYZ'' c of
                None \<Rightarrow> c | Some i \<Rightarrow> ''abcdefghijklmnopqrstuvwxyz'' ! i)"

definition digit_val :: "char \<Rightarrow> nat option" where
  "digit_val c = index_of ''0123456789abcdef'' (lower c)"

lemma digit_cases:
  assumes "d < (16::nat)"
  obtains "d = 0" | "d = 1" | "d = 2" | "d = 3" | "d = 4" | "d = 5" | "d = 6" | "d = 7"
    | "d = 8" | "d = 9" | "d = 10" | "d = 11" | "d = 12" | "d = 13" | "d = 14" | "d = 15"
proof -
  from assms have "d \<in> set [0..<16]" by simp
  also have "[0..<16] = [0, 1, 2, 3, 4, 5, 6, 7, 8, 9, 10, 11, 12, 13, 14, 15::nat]"
    by code_simp
  finally show ?thesis using that by auto
qed

lemma digit_val_char [simp]: "d < 16 \<Longrightarrow> digit_val (digit_char d) = Some d"
  by (erule digit_cases) (simp_all add: digit_val_def digit_char_def lower_def)

definition str_of_nat :: "nat \<Rightarrow> string" where
  "str_of_nat n = map digit_char (digits_of 10 n)"

definition str_of_int :: "int \<Rightarrow> string" where
  "str_of_int i = (if i < 0 then CHR ''-'' # str_of_nat (nat (- i)) else str_of_nat (nat i))"

section \<open>Reading numbers\<close>

text \<open>A non-empty run of digits of the base; None is Python's ValueError.\<close>

definition read_digits :: "nat \<Rightarrow> string \<Rightarrow> nat option" where
  "read_digits b s =
     (if s \<noteq> [] \<and> list_all (\<lambda>c. case digit_val c of None \<Rightarrow> False | Some d \<Rightarrow> d < b) s
      then Some (value_of b (map (\<lambda>c. the (digit_val c)) s)) else None)"

lemma read_digits_map:
  "ds \<noteq> [] \<Longrightarrow> b \<le> 16 \<Longrightarrow> (\<And>d. d \<in> set ds \<Longrightarrow> d < b) \<Longrightarrow>
   read_digits b (map digit_char ds) = Some (value_of b ds)"
proof -
  assume "ds \<noteq> []" and b: "b \<le> 16" and lt: "\<And>d. d \<in> set ds \<Longrightarrow> d < b"
  have v: "digit_val (digit_char d) = Some d" if "d \<in> set ds" for d
    using lt [OF that] b by simp
  then have "map (\<lambda>c. the (digit_val c)) (map digit_char ds) = ds"
    by (simp add: map_idI)
  with v lt \<open>ds \<noteq> []\<close> show ?thesis by (auto simp: read_digits_def list_all_iff)
qed

lemma read_str_of_nat [simp]: "read_digits 10 (str_of_nat n) = Some n"
  unfolding str_of_nat_def
  by (subst read_digits_map) (auto simp: value_digits_of dest: digits_of_bound [rotated])

fun read_signed :: "(string \<Rightarrow> 'a::uminus option) \<Rightarrow> string \<Rightarrow> 'a option" where
  "read_signed p [] = p []"
| "read_signed p (c # s) =
     (if c = CHR ''-'' then map_option uminus (p s)
      else if c = CHR ''+'' then p s else p (c # s))"

definition py_int :: "string \<Rightarrow> int result" where
  "py_int s = (case read_signed (\<lambda>t. map_option int (read_digits 10 t)) (strip s) of
                 None \<Rightarrow> Inl ValueError | Some i \<Rightarrow> Inr i)"

text \<open>\<open>int(s, 2)\<close>, with the optional prefix \<open>0b\<close>.\<close>

definition drop_0b :: "string \<Rightarrow> string" where
  "drop_0b s = (if map lower (take 2 s) = ''0b'' then drop 2 s else s)"

definition py_int2 :: "string \<Rightarrow> int result" where
  "py_int2 s = (case read_signed (\<lambda>t. map_option int (read_digits 2 (drop_0b t))) (strip s) of
                  None \<Rightarrow> Inl ValueError | Some i \<Rightarrow> Inr i)"

text \<open>\<open>float(s)\<close>: sign, digits with an optional fraction, an optional exponent.\<close>

definition read_mantissa :: "string \<Rightarrow> rat option" where
  "read_mantissa s =
     (case split_once (CHR ''.'') s of
        [w, f] \<Rightarrow>
          (if w = [] \<and> f = [] then None
           else (case (if w = [] then Some 0 else read_digits 10 w,
                       if f = [] then Some 0 else read_digits 10 f) of
                   (Some a, Some b) \<Rightarrow> Some (of_nat a + of_nat b / 10 ^ length f)
                 | _ \<Rightarrow> None))
      | _ \<Rightarrow> map_option of_nat (read_digits 10 s))"

definition scale10 :: "int \<Rightarrow> rat" where
  "scale10 e = (if e < 0 then 1 / 10 ^ nat (- e) else 10 ^ nat e)"

definition read_float :: "string \<Rightarrow> rat option" where
  "read_float s =
     (case split_once (CHR ''e'') (map lower s) of
        [m, e] \<Rightarrow>
          (case (read_mantissa m,
                 read_signed (\<lambda>t. map_option int (read_digits 10 t)) e) of
             (Some x, Some i) \<Rightarrow> Some (x * scale10 i)
           | _ \<Rightarrow> None)
      | _ \<Rightarrow> read_mantissa s)"

definition py_float :: "string \<Rightarrow> rat result" where
  "py_float s = (case read_signed read_float (strip s) of None \<Rightarrow> Inl ValueError | Some x \<Rightarrow> Inr x)"

text \<open>\<open>round\<close> to an integer, halves to even.\<close>

definition py_round :: "rat \<Rightarrow> int" where
  "py_round q =
     (let f = \<lfloor>q\<rfloor>; r = q - of_int f
      in if r < 1/2 then f else if r > 1/2 then f + 1 else if even f then f else f + 1)"

text \<open>The text of a number with a fixed number of digits after the point, as \<open>'%.2f' % q\<close> has two.\<close>

definition format_fixed :: "nat \<Rightarrow> rat \<Rightarrow> string" where
  "format_fixed d q =
     (let n = nat (py_round (\<bar>q\<bar> * 10 ^ d))
      in (if q < 0 then ''-'' else []) @ str_of_nat (n div 10 ^ d) @ ''.'' @ map (\<lambda>i. digit_char (n div 10 ^ (d - 1 - i) mod 10)) [0..<d])"

lemma digit_char_not_space [simp]: "d < 16 \<Longrightarrow> \<not> is_space (digit_char d)"
  by (erule digit_cases) (simp_all add: is_space_def digit_char_def)

lemma digit_char_no_sign [simp]:
  "d < 16 \<Longrightarrow> digit_char d \<noteq> CHR ''-''" "d < 16 \<Longrightarrow> digit_char d \<noteq> CHR ''+''"
  by (erule digit_cases; simp add: digit_char_def)+

lemma str_of_nat_chars: "c \<in> set (str_of_nat n) \<Longrightarrow> \<exists>d < 10. c = digit_char d"
  by (auto simp: str_of_nat_def dest: digits_of_bound [rotated])

lemma strip_id: "(\<And>c. c \<in> set s \<Longrightarrow> \<not> is_space c) \<Longrightarrow> strip s = s"
proof -
  assume ns: "\<And>c. c \<in> set s \<Longrightarrow> \<not> is_space c"
  have d: "(\<And>c. c \<in> set t \<Longrightarrow> \<not> is_space c) \<Longrightarrow> dropWhile is_space t = t" for t
    by (cases t) auto
  have "dropWhile is_space (rev s) = rev s" by (rule d) (use ns in auto)
  with d [OF ns] show ?thesis by (simp add: strip_def)
qed

lemma str_of_nat_ne [simp]: "str_of_nat n \<noteq> []"
  by (simp add: str_of_nat_def)

lemma str_of_nat_not_space: "c \<in> set (str_of_nat n) \<Longrightarrow> \<not> is_space c"
  by (auto dest!: str_of_nat_chars)

lemma str_of_nat_head: "str_of_nat n = c # t \<Longrightarrow> c \<noteq> CHR ''-'' \<and> c \<noteq> CHR ''+''"
proof -
  assume "str_of_nat n = c # t"
  then have "c \<in> set (str_of_nat n)" by simp
  then obtain d where "d < 10" and c: "c = digit_char d" by (auto dest!: str_of_nat_chars)
  then have "d < 16" by simp
  with c show ?thesis by simp
qed

text \<open>\<open>int(str(i)) = i\<close>.\<close>

lemma py_int_str_of_int [simp]: "py_int (str_of_int i) = Inr i"
proof -
  have strip_nat: "strip (str_of_nat n) = str_of_nat n" for n
    by (rule strip_id) (rule str_of_nat_not_space)
  show ?thesis
  proof (cases "i < 0")
    case True
    have "strip (CHR ''-'' # str_of_nat n) = CHR ''-'' # str_of_nat n" for n
      by (rule strip_id) (auto simp: is_space_def dest: str_of_nat_not_space)
    with True show ?thesis by (simp add: py_int_def str_of_int_def)
  next
    case False
    obtain c t where ct: "str_of_nat (nat i) = c # t"
      using str_of_nat_ne [of "nat i"] by (cases "str_of_nat (nat i)") auto
    have "read_digits 10 (c # t) = Some (nat i)"
      using read_str_of_nat [of "nat i"] by (simp add: ct)
    with False str_of_nat_head [OF ct] show ?thesis
      by (simp add: py_int_def str_of_int_def strip_nat ct del: read_str_of_nat)
         (simp add: strip_nat [of "nat i", unfolded ct])
  qed
qed

section \<open>Pieces of regular expressions\<close>

definition is_digit :: "char \<Rightarrow> bool" where
  "is_digit c \<longleftrightarrow> c \<in> set ''0123456789''"

text \<open>\<open>([0-9]+)\<close> followed by a separator that is not a digit: the digits and what follows.\<close>

definition re_number :: "string \<Rightarrow> string \<Rightarrow> (string \<times> string) option" where
  "re_number sep s =
     (let ds = takeWhile is_digit s; rest = dropWhile is_digit s
      in if ds \<noteq> [] \<and> startswith rest sep then Some (ds, drop (length sep) rest) else None)"

lemma startswith_Cons [simp]:
  "startswith (c # s) (d # p) \<longleftrightarrow> c = d \<and> startswith s p" "startswith s []" "\<not> startswith [] (d # p)"
  by (auto simp: startswith_def)

lemma startswith_append_same [simp]: "startswith (p @ s) p"
  by (simp add: startswith_def)

lemma is_digit_char: "d < 10 \<Longrightarrow> is_digit (digit_char d)"
proof -
  have "list_all (\<lambda>d. is_digit (digit_char d)) [0..<10]" by code_simp
  then show "d < 10 \<Longrightarrow> is_digit (digit_char d)" by (simp add: list_all_iff)
qed

lemma re_number_str:
  assumes "sep \<noteq> []" and "\<not> is_digit (hd sep)"
  shows "re_number sep (str_of_nat n @ sep @ s) = Some (str_of_nat n, s)"
proof -
  have ds: "\<forall>c \<in> set (str_of_nat n). is_digit c" using str_of_nat_chars is_digit_char by blast
  obtain x xs where sep: "sep = x # xs" using assms(1) by (cases sep) auto
  have "takeWhile is_digit (str_of_nat n @ sep @ s) = str_of_nat n" "dropWhile is_digit (str_of_nat n @ sep @ s) = sep @ s"
    using ds assms(2) by (simp_all add: sep takeWhile_append dropWhile_append)
  then show ?thesis by (simp add: re_number_def)
qed

lemma not_digits: "\<not> is_digit (CHR '','')" "\<not> is_digit (CHR '' '')"
  by (simp_all add: is_digit_def)

end
