(* ===== verification/RadBinary.thy ===== *)
theory RadBinary
  imports PyString
begin

unbundle bit_operations_syntax

text \<open>
  Binary strings of \<^verbatim>\<open>bindings/python/rad_util.py\<close>: \<open>int2bin\<close>, \<open>bin2int\<close>, \<open>reverse\<close>, \<open>lsb\<close>,
  \<open>gray_encode\<close>, \<open>random_vec\<close> and \<open>binary_range\<close>, with the round trip of the conversions, the
  counting property of \<open>binary_range\<close> and the Gray code property of \<open>gray_encode\<close>. The file is
  Python 2: \<open>hex\<close> marks a long with \<open>L\<close>, and \<open>/\<close> on integers is the floor of the quotient.
\<close>

section \<open>Binary strings\<close>

definition hex2bin :: "(char, string) dict" where
  "hex2bin =
    [(CHR ''0'', ''0000''), (CHR ''1'', ''0001''), (CHR ''2'', ''0010''), (CHR ''3'', ''0011''),
     (CHR ''4'', ''0100''), (CHR ''5'', ''0101''), (CHR ''6'', ''0110''), (CHR ''7'', ''0111''),
     (CHR ''8'', ''1000''), (CHR ''9'', ''1001''), (CHR ''a'', ''1010''), (CHR ''b'', ''1011''),
     (CHR ''c'', ''1100''), (CHR ''d'', ''1101''), (CHR ''e'', ''1110''), (CHR ''f'', ''1111'')]"

text \<open>Python 2's \<open>hex\<close>: a sign, the prefix \<open>0x\<close>, lower-case digits, and \<open>L\<close> after a long.\<close>

definition py_hex :: "int \<Rightarrow> string" where
  "py_hex i = (if i < 0 then ''-0x'' else ''0x'') @ map digit_char (digits_of 16 (nat \<bar>i\<bar>)) @
     (if - (2 ^ 63) \<le> i \<and> i < 2 ^ 63 then [] else ''L'')"

definition int2bin :: "int \<Rightarrow> int \<Rightarrow> string result" where
  "int2bin i n =
     bind_r (mapM_r (d_getitem hex2bin)
               (py_slice_from (filter (\<lambda>c. c \<noteq> CHR ''l'') (map lower (py_hex i))) 2))
       (\<lambda>parts.
          let res = concat parts
          in if CHR ''1'' \<in> set (py_slice_to res (- n)) then Inl ValueError
             else let res' = py_slice_from res (- n)
                  in Inr (replicate (nat (n - int (length res'))) (CHR ''0'') @ res'))"

definition bin2int :: "string \<Rightarrow> int result" where
  "bin2int bin_string = py_int2 bin_string"

definition reverse :: "string \<Rightarrow> string" where
  "reverse input_string = rev input_string"

definition lsb :: "int \<Rightarrow> int \<Rightarrow> int result" where
  "lsb x n = (if n < 0 then Inl TypeError else Inr (x AND (2 ^ nat n - 1)))"

definition gray_encode :: "int \<Rightarrow> int" where
  "gray_encode i = i XOR drop_bit 1 i"

text \<open>
  \<open>random_vec\<close> draws \<open>int(bits / 10) + 1\<close> numbers; \<open>rnd k\<close> is the value of the k-th call of
  \<open>random.random()\<close>.
\<close>

fun random_bits :: "(nat \<Rightarrow> rat) \<Rightarrow> nat list \<Rightarrow> string \<Rightarrow> string result" where
  "random_bits rnd [] vector = Inr vector"
| "random_bits rnd (k # ks) vector =
     bind_r (int2bin (trunc (2 ^ 10 * rnd k)) 10) (\<lambda>s. random_bits rnd ks (vector @ s))"

definition random_vec :: "(nat \<Rightarrow> rat) \<Rightarrow> nat \<Rightarrow> int option \<Rightarrow> string result" where
  "random_vec rnd bits max_value =
     bind_r (random_bits rnd [0..<bits div 10 + 1] [])
       (\<lambda>vector. bind_r
          (case max_value of
             None \<Rightarrow> Inr vector
           | Some m \<Rightarrow>
               if m \<noteq> 0 \<and> m < 2 ^ bits - 1
               then bind_r (py_int2 vector)
                      (\<lambda>v. if (2::int) ^ bits - 1 = 0 then Inl ZeroDivisionError
                           else int2bin (v div (2 ^ bits - 1) * m) (int bits))
               else Inr vector)
          (\<lambda>vector'. Inr (py_slice vector' 0 (int bits))))"

text \<open>
  \<open>binary_range\<close>: \<open>br_inner\<close> is the carry loop over the digits (least significant first),
  \<open>br_outer\<close> the loop that lists the counter until the carry leaves it. All indices stay below the
  lengths of \<open>v\<close> (\<open>bits\<close>) and \<open>toggle\<close> (\<open>bits + 1\<close>).
\<close>

function br_inner :: "nat \<Rightarrow> nat \<Rightarrow> string \<Rightarrow> nat list \<Rightarrow> string \<times> nat list" where
  "br_inner bits i v toggle =
     (if i < bits \<and> toggle ! i = 1
      then (if v ! i = CHR ''0''
            then br_inner bits (Suc i) (v[i := CHR ''1'']) (toggle[i + 1 := 0])
            else br_inner bits (Suc i) (v[i := CHR ''0'']) (toggle[i + 1 := 1]))
      else (v, toggle))"
  by pat_completeness auto
termination
  by (relation "measure (\<lambda>(bits, i, v, toggle). bits - i)") auto

declare br_inner.simps [simp del]

partial_function (option) br_outer ::
  "nat \<Rightarrow> string \<Rightarrow> nat list \<Rightarrow> string list \<Rightarrow> string list option" where
  "br_outer bits v toggle l =
     (if toggle ! bits \<noteq> 1
      then br_outer bits (fst (br_inner bits 0 v (1 # replicate bits 0)))
             (snd (br_inner bits 0 v (1 # replicate bits 0))) (l @ [rev v])
      else Some l)"

definition binary_range :: "nat \<Rightarrow> string list option" where
  "binary_range bits = br_outer bits (replicate bits (CHR ''0'')) (1 # replicate bits 0) []"

section \<open>Properties of binary strings\<close>

abbreviation bin_chars :: "char set" where
  "bin_chars \<equiv> {CHR ''0'', CHR ''1''}"

definition bits_of :: "string \<Rightarrow> nat list" where
  "bits_of s = map (\<lambda>c. if c = CHR ''1'' then 1 else 0) s"

lemma bits_of_Nil [simp]: "bits_of [] = []"
  by (simp add: bits_of_def)

lemma bits_of_append [simp]: "bits_of (s @ t) = bits_of s @ bits_of t"
  by (simp add: bits_of_def)

lemma length_bits_of [simp]: "length (bits_of s) = length s"
  by (simp add: bits_of_def)

lemma bits_of_less: "d \<in> set (bits_of s) \<Longrightarrow> d < 2"
  by (auto simp: bits_of_def split: if_splits)

lemma value_bits_of_bound: "value_of 2 (bits_of s) < 2 ^ length s"
  using value_of_bound [of "bits_of s" 2] bits_of_less by simp

lemma value_bits_of_zero:
  "set s \<subseteq> bin_chars \<Longrightarrow> CHR ''1'' \<in> set s \<longleftrightarrow> value_of 2 (bits_of s) \<noteq> 0"
proof (induction s)
  case Nil
  show ?case by simp
next
  case (Cons c s)
  then show ?case by (auto simp: bits_of_def value_of_Cons)
qed

lemma value_replicate_0 [simp]: "value_of b (replicate k 0) = 0"
  by (induction k) (auto simp: value_of_Cons)

lemma hex2bin_digit:
  "d < 16 \<Longrightarrow> \<exists>s. d_getitem hex2bin (digit_char d) = Inr s \<and> length s = 4 \<and>
     set s \<subseteq> bin_chars \<and> value_of 2 (bits_of s) = d"
  by (erule digit_cases)
     (simp_all add: d_getitem_def hex2bin_def digit_char_def bits_of_def value_of_def)

lemma hex_parts:
  "(\<And>d. d \<in> set ds \<Longrightarrow> d < 16) \<Longrightarrow>
   \<exists>parts. mapM_r (d_getitem hex2bin) (map digit_char ds) = Inr parts \<and>
     set (concat parts) \<subseteq> bin_chars \<and> length (concat parts) = 4 * length ds \<and>
     value_of 2 (bits_of (concat parts)) = value_of 16 ds"
proof (induction ds)
  case Nil
  show ?case by (simp add: bits_of_def)
next
  case (Cons d ds)
  obtain s where s: "d_getitem hex2bin (digit_char d) = Inr s" "length s = 4"
      "set s \<subseteq> bin_chars" "value_of 2 (bits_of s) = d"
    using hex2bin_digit [of d] Cons.prems by auto
  obtain parts where p: "mapM_r (d_getitem hex2bin) (map digit_char ds) = Inr parts"
      "set (concat parts) \<subseteq> bin_chars" "length (concat parts) = 4 * length ds"
      "value_of 2 (bits_of (concat parts)) = value_of 16 ds"
    using Cons by auto
  have "(2::nat) ^ (4 * length ds) = 16 ^ length ds" by (simp add: power_mult)
  then have "value_of 2 (bits_of (concat (s # parts))) = value_of 16 (d # ds)"
    using s(4) p(3,4) by (simp add: value_of_append value_of_Cons length_concat)
  then show ?case using s p by (intro exI [of _ "s # parts"]) auto
qed

lemma lower_digit_char [simp]: "d < 16 \<Longrightarrow> lower (digit_char d) = digit_char d"
  by (erule digit_cases) (simp_all add: lower_def digit_char_def)

lemma digit_char_not_l [simp]: "d < 16 \<Longrightarrow> digit_char d \<noteq> CHR ''l''"
  by (erule digit_cases) (simp_all add: digit_char_def)

lemma hex_clean:
  "(\<And>d. d \<in> set ds \<Longrightarrow> d < 16) \<Longrightarrow>
   filter (\<lambda>c. c \<noteq> CHR ''l'') (map (lower \<circ> digit_char) ds) = map digit_char ds"
  by (induction ds) auto

lemma lower_simps [simp]:
  "lower (CHR ''0'') = CHR ''0''" "lower (CHR ''1'') = CHR ''1''" "lower (CHR ''x'') = CHR ''x''"
  "lower (CHR ''L'') = CHR ''l''" "lower (CHR ''-'') = CHR ''-''"
  by (simp_all add: lower_def)

lemma digits16_less: "d \<in> set (digits_of 16 n) \<Longrightarrow> d < 16"
  by (rule digits_of_bound) simp_all

lemma py_hex_digits:
  assumes "0 \<le> i"
  shows "py_slice_from (filter (\<lambda>c. c \<noteq> CHR ''l'') (map lower (py_hex i))) 2 =
         map digit_char (digits_of 16 (nat i))"
  using assms hex_clean [of "digits_of 16 (nat i)"] digits16_less
  by (simp add: py_hex_def py_slice_from_def slice_bound_def)

lemma py_hex_negative:
  "i < 0 \<Longrightarrow> \<exists>t. py_slice_from (filter (\<lambda>c. c \<noteq> CHR ''l'') (map lower (py_hex i))) 2 =
     CHR ''x'' # t"
  by (simp add: py_hex_def py_slice_from_def slice_bound_def)

text \<open>The digits of the number, as one string of bits.\<close>

lemma int2bin_bits:
  assumes "0 \<le> i"
  obtains r where "set r \<subseteq> bin_chars" and "value_of 2 (bits_of r) = nat i"
    and "int2bin i n =
          (if CHR ''1'' \<in> set (py_slice_to r (- n)) then Inl ValueError
           else let r' = py_slice_from r (- n)
                in Inr (replicate (nat (n - int (length r'))) (CHR ''0'') @ r'))"
proof -
  obtain parts where
    "mapM_r (d_getitem hex2bin) (map digit_char (digits_of 16 (nat i))) = Inr parts"
    "set (concat parts) \<subseteq> bin_chars" "value_of 2 (bits_of (concat parts)) = nat i"
    using hex_parts [of "digits_of 16 (nat i)", OF digits16_less [of _ "nat i"]]
      value_digits_of [of 16 "nat i"]
    by auto
  then show thesis
    using that [of "concat parts"] py_hex_digits [OF assms] by (simp add: int2bin_def)
qed

text \<open>With the width 0 nothing is cut off and nothing is padded.\<close>

lemma hex_parts_length:
  "mapM_r (d_getitem hex2bin) cs = Inr parts \<Longrightarrow> length (concat parts) = 4 * length cs"
proof (induction cs arbitrary: parts)
  case (Cons c cs)
  then obtain p ps where p: "d_getitem hex2bin c = Inr p" "mapM_r (d_getitem hex2bin) cs = Inr ps" "parts = p # ps"
    by (auto simp: bind_r_eq_Inr_iff)
  from p(1) have "length p = 4" by (auto simp: d_getitem_def hex2bin_def split: if_splits)
  then show ?case using Cons.IH [OF p(2)] p(3) by simp
qed simp

lemma bin_char_simps:
  assumes "c \<in> bin_chars"
  shows "digit_val c = Some (if c = CHR ''1'' then 1 else 0)" and "lower c = c"
    and "\<not> is_space c" and "c \<noteq> CHR ''-''" and "c \<noteq> CHR ''+''" and "c \<noteq> CHR ''b''"
  using assms by (auto simp: digit_val_def is_space_def)

lemma read_bin:
  assumes "set s \<subseteq> bin_chars" and "s \<noteq> []"
  shows "py_int2 s = Inr (int (value_of 2 (bits_of s)))"
proof -
  have bc: "c \<in> set s \<Longrightarrow> c \<in> bin_chars" for c using assms(1) by auto
  have ns: "strip s = s" by (rule strip_id) (use bc bin_char_simps(3) in blast)
  have val: "c \<in> set s \<Longrightarrow> digit_val c = Some (if c = CHR ''1'' then 1 else 0)" for c
    using bc bin_char_simps(1) by blast
  then have "map (\<lambda>c. the (digit_val c)) s = bits_of s"
    by (simp add: bits_of_def)
  with val assms(2) have rd: "read_digits 2 s = Some (value_of 2 (bits_of s))"
    by (auto simp: read_digits_def list_all_iff)
  have no_prefix: "drop_0b s = s"
  proof -
    have "map lower (take 2 s) = take 2 s"
      by (rule map_idI) (meson bc bin_char_simps(2) in_set_takeD)
    moreover have "CHR ''b'' \<notin> set (take 2 s)"
      by (meson bc bin_char_simps(6) in_set_takeD)
    ultimately show ?thesis by (auto simp: drop_0b_def)
  qed
  obtain c t where ct: "s = c # t" using assms(2) by (cases s) auto
  then have "c \<noteq> CHR ''-''" "c \<noteq> CHR ''+''" using bc bin_char_simps(4,5) by auto
  with rd no_prefix ct show ?thesis using ns by (simp add: py_int2_def)
qed

lemma int2bin_width_0:
  assumes "0 \<le> i"
  shows "\<exists>s. int2bin i 0 = Inr s \<and> s \<noteq> [] \<and> 4 dvd length s \<and> set s \<subseteq> bin_chars \<and> bin2int s = Inr i"
proof -
  obtain parts where parts:
    "mapM_r (d_getitem hex2bin) (map digit_char (digits_of 16 (nat i))) = Inr parts"
    "set (concat parts) \<subseteq> bin_chars" "value_of 2 (bits_of (concat parts)) = nat i"
    using hex_parts [of "digits_of 16 (nat i)", OF digits16_less [of _ "nat i"]] value_digits_of [of 16 "nat i"] by auto
  have len: "length (concat parts) = 4 * length (digits_of 16 (nat i))" using hex_parts_length [OF parts(1)] by simp
  have "digits_of 16 (nat i) \<noteq> []" by simp
  then have ne: "concat parts \<noteq> []" using len by (metis length_0_conv mult_eq_0_iff zero_neq_numeral)
  have "int2bin i 0 = Inr (concat parts)"
    using parts(1) py_hex_digits [OF assms] by (simp add: int2bin_def py_slice_to_def py_slice_from_def slice_bound_def)
  moreover have "bin2int (concat parts) = Inr i" using read_bin [OF parts(2) ne] parts(3) assms by (simp add: bin2int_def)
  ultimately show ?thesis using parts(2) ne len by (intro exI [of _ "concat parts"]) simp
qed

lemma int2bin_split:
  assumes "0 \<le> i" and "0 < n"
  obtains r where "set r \<subseteq> bin_chars" and "value_of 2 (bits_of r) = nat i"
    and "int2bin i (int n) =
          (if CHR ''1'' \<in> set (take (length r - n) r) then Inl ValueError
           else Inr (replicate (n - length r) (CHR ''0'') @ drop (length r - n) r))"
proof -
  obtain r where r: "set r \<subseteq> bin_chars" "value_of 2 (bits_of r) = nat i"
    and eq: "int2bin i (int n) =
          (if CHR ''1'' \<in> set (py_slice_to r (- int n)) then Inl ValueError
           else let r' = py_slice_from r (- int n)
                in Inr (replicate (nat (int n - int (length r'))) (CHR ''0'') @ r'))"
    using int2bin_bits [OF assms(1), of "int n"] by metis
  have "py_slice_to r (- int n) = take (length r - n) r"
    and "py_slice_from r (- int n) = drop (length r - n) r"
    by (simp_all add: py_slice_to_def py_slice_from_def slice_bound_neg [OF assms(2)])
  with eq r show thesis by (intro that [of r]) (auto simp: nat_minus_as_int of_nat_diff)
qed

lemma int2bin_fits:
  assumes "0 \<le> i" and "0 < n" and "i < 2 ^ n"
  shows "\<exists>s. int2bin i (int n) = Inr s \<and> length s = n \<and> set s \<subseteq> bin_chars \<and>
             value_of 2 (bits_of s) = nat i"
proof -
  obtain r where r: "set r \<subseteq> bin_chars" "value_of 2 (bits_of r) = nat i"
    and eq: "int2bin i (int n) =
          (if CHR ''1'' \<in> set (take (length r - n) r) then Inl ValueError
           else Inr (replicate (n - length r) (CHR ''0'') @ drop (length r - n) r))"
    using int2bin_split [OF assms(1,2)] by metis
  let ?p = "take (length r - n) r" and ?q = "drop (length r - n) r"
  have v: "nat i = value_of 2 (bits_of ?p) * 2 ^ length ?q + value_of 2 (bits_of ?q)"
    by (metis append_take_drop_id bits_of_append length_bits_of r(2) value_of_append)
  have small: "nat i < 2 ^ n" using assms(1,3) by (simp add: nat_less_iff)
  have "value_of 2 (bits_of ?p) = 0"
  proof (cases "n \<le> length r")
    case True
    then have len: "length ?q = n" by simp
    have "value_of 2 (bits_of ?p) * 2 ^ n < 1 * 2 ^ n"
      using small unfolding v len mult_1 by (rule add_lessD1)
    then show ?thesis by (simp only: mult_less_cancel2) simp
  next
    case False
    then show ?thesis by (simp add: bits_of_def)
  qed
  moreover have "set ?p \<subseteq> bin_chars" "set ?q \<subseteq> bin_chars"
    using r(1) by (meson order_trans set_take_subset set_drop_subset)+
  ultimately have no1: "CHR ''1'' \<notin> set ?p" and val: "value_of 2 (bits_of ?q) = nat i"
    using v value_bits_of_zero [of ?p] by auto
  have "bits_of (replicate k (CHR ''0'')) = replicate k 0" for k by (simp add: bits_of_def)
  then have "value_of 2 (bits_of (replicate (n - length r) (CHR ''0'') @ ?q)) = nat i"
    using val by (simp add: value_of_append)
  moreover have "set (replicate (n - length r) (CHR ''0'') @ ?q) \<subseteq> bin_chars"
    using \<open>set ?q \<subseteq> bin_chars\<close> by auto
  ultimately show ?thesis using eq no1
    by (intro exI [of _ "replicate (n - length r) (CHR ''0'') @ ?q"]) auto
qed

lemma int2bin_overflow:
  assumes "0 \<le> i" and "0 < n" and "2 ^ n \<le> i"
  shows "int2bin i (int n) = Inl ValueError"
proof -
  obtain r where r: "set r \<subseteq> bin_chars" "value_of 2 (bits_of r) = nat i"
    and eq: "int2bin i (int n) =
          (if CHR ''1'' \<in> set (take (length r - n) r) then Inl ValueError
           else Inr (replicate (n - length r) (CHR ''0'') @ drop (length r - n) r))"
    using int2bin_split [OF assms(1,2)] by metis
  let ?p = "take (length r - n) r" and ?q = "drop (length r - n) r"
  have v: "nat i = value_of 2 (bits_of ?p) * 2 ^ length ?q + value_of 2 (bits_of ?q)"
    by (metis append_take_drop_id bits_of_append length_bits_of r(2) value_of_append)
  have "(2::nat) ^ length ?q \<le> 2 ^ n" by (rule power_increasing) auto
  then have "value_of 2 (bits_of ?q) < 2 ^ n"
    using value_bits_of_bound [of ?q] by linarith
  moreover have "2 ^ n \<le> nat i" using assms by (simp add: le_nat_iff)
  ultimately have "value_of 2 (bits_of ?p) \<noteq> 0"
    unfolding v by (metis add_0 leD mult_0)
  moreover have "set ?p \<subseteq> bin_chars" using r(1) by (meson order_trans set_take_subset)
  ultimately show ?thesis using eq value_bits_of_zero [of ?p] by simp
qed

lemma int2bin_negative: "i < 0 \<Longrightarrow> int2bin i n = Inl KeyError"
  using py_hex_negative [of i] by (auto simp: int2bin_def d_getitem_def hex2bin_def)

text \<open>The binary string of a width and a value is unique.\<close>

lemma bits_of_inj:
  "set s \<subseteq> bin_chars \<Longrightarrow> set t \<subseteq> bin_chars \<Longrightarrow> bits_of s = bits_of t \<Longrightarrow> s = t"
proof (induction s arbitrary: t)
  case Nil
  then show ?case by (simp add: bits_of_def)
next
  case (Cons c s)
  then obtain d u where t: "t = d # u" by (cases t) (auto simp: bits_of_def)
  with Cons show ?case by (auto simp: bits_of_def split: if_splits)
qed

lemma bin_string_unique:
  assumes "set s \<subseteq> bin_chars" "set t \<subseteq> bin_chars" "length s = length t"
    and "value_of 2 (bits_of s) = value_of 2 (bits_of t)"
  shows "s = t"
proof -
  have "bits_of s = bits_of t"
    by (rule value_of_inj [where b = 2]) (use assms bits_of_less in auto)
  with assms show ?thesis by (auto intro: bits_of_inj)
qed

fun bin_str :: "nat \<Rightarrow> nat \<Rightarrow> string" where
  "bin_str 0 k = []"
| "bin_str (Suc n) k = bin_str n (k div 2) @ [if odd k then CHR ''1'' else CHR ''0'']"

lemma bin_str_props:
  "length (bin_str n k) = n \<and> set (bin_str n k) \<subseteq> bin_chars \<and>
   (k < 2 ^ n \<longrightarrow> value_of 2 (bits_of (bin_str n k)) = k)"
proof (induction n arbitrary: k)
  case 0
  show ?case by simp
next
  case (Suc n)
  have "k < 2 ^ Suc n \<Longrightarrow> k div 2 < 2 ^ n" by (simp add: less_mult_imp_div_less)
  moreover have "k div 2 * 2 + (if odd k then 1 else 0) = k" by presburger
  ultimately show ?case using Suc [of "k div 2"] by (auto simp: bits_of_def)
qed

lemma bin_str_eqI:
  "set s \<subseteq> bin_chars \<Longrightarrow> length s = n \<Longrightarrow> bin_str n (value_of 2 (bits_of s)) = s"
  using bin_str_props [of n "value_of 2 (bits_of s)"] value_bits_of_bound [of s]
  by (intro bin_string_unique) auto

lemma int2bin_eq_bin_str: "k < 2 ^ n \<Longrightarrow> 0 < n \<Longrightarrow> int2bin (int k) (int n) = Inr (bin_str n k)"
proof -
  assume k: "k < 2 ^ n" and n: "0 < n"
  from k have "int k < 2 ^ n" by (metis of_nat_less_iff of_nat_numeral of_nat_power)
  with n obtain s where "int2bin (int k) (int n) = Inr s" "length s = n" "set s \<subseteq> bin_chars"
      "value_of 2 (bits_of s) = k"
    using int2bin_fits [of "int k" n] by auto
  with bin_str_eqI [of s n] show ?thesis by simp
qed

section \<open>The binary counter\<close>

fun inc :: "string \<Rightarrow> string" where
  "inc [] = []"
| "inc (c # w) = (if c = CHR ''0'' then CHR ''1'' # w else CHR ''0'' # inc w)"

abbreviation le_value :: "string \<Rightarrow> nat" where
  "le_value w \<equiv> value_of 2 (bits_of (rev w))"

lemma le_value_Cons: "le_value (c # w) = 2 * le_value w + (if c = CHR ''1'' then 1 else 0)"
  by (simp add: bits_of_def)

lemma inc_chars: "set w \<subseteq> bin_chars \<Longrightarrow> set (inc w) \<subseteq> bin_chars \<and> length (inc w) = length w"
  by (induction w) auto

lemma inc_value:
  "set w \<subseteq> bin_chars \<Longrightarrow> CHR ''0'' \<in> set w \<Longrightarrow> le_value (inc w) = Suc (le_value w)"
proof (induction w)
  case Nil
  then show ?case by simp
next
  case (Cons c w)
  then show ?case by (cases "c = CHR ''0''") (auto simp: le_value_Cons simp del: rev.simps(2))
qed

lemma le_value_all_ones: "set w \<subseteq> {CHR ''1''} \<Longrightarrow> Suc (le_value w) = 2 ^ length w"
  by (induction w) (auto simp: le_value_Cons simp del: rev.simps(2))

lemma br_inner_inc:
  assumes "length v = bits" and "length toggle = Suc bits" and "i \<le> bits"
    and "toggle ! i = 1" and "\<And>j. i < j \<Longrightarrow> j \<le> bits \<Longrightarrow> toggle ! j = 0"
    and "set v \<subseteq> bin_chars"
  shows "fst (br_inner bits i v toggle) = take i v @ inc (drop i v) \<and>
         (snd (br_inner bits i v toggle) ! bits = 1 \<longleftrightarrow> CHR ''0'' \<notin> set (drop i v))"
  using assms
proof (induction bits i v toggle rule: br_inner.induct)
  case (1 bits i v toggle)
  show ?case
  proof (cases "i < bits")
    case False
    with 1 show ?thesis by (subst (1 2) br_inner.simps) auto
  next
    case True
    have d: "drop i v = v ! i # drop (Suc i) v"
      using True "1.prems"(1) by (simp add: Cons_nth_drop_Suc)
    have tk: "take (Suc i) (v[i := c]) = take i v @ [c]" for c
      using True "1.prems"(1) by (simp add: take_Suc_conv_app_nth)
    show ?thesis
    proof (cases "v ! i = CHR ''0''")
      case zero: True
      have stop: "br_inner bits (Suc i) (v[i := CHR ''1'']) (toggle[i + 1 := 0]) =
          (v[i := CHR ''1''], toggle[i + 1 := 0])"
        using True "1.prems" by (subst br_inner.simps) auto
      have "v[i := CHR ''1''] = take i v @ CHR ''1'' # drop (Suc i) v"
        using True "1.prems"(1) by (simp add: upd_conv_take_nth_drop)
      moreover have "toggle[i + 1 := 0] ! bits = 0"
        using True "1.prems"(2,5) by (cases "i + 1 = bits") auto
      ultimately show ?thesis
        using True zero "1.prems"(4) d stop
        by (subst (1 2) br_inner.simps) (simp del: One_nat_def)
    next
      case one: False
      let ?v = "v[i := CHR ''0'']" and ?t = "toggle[i + 1 := 1]"
      have ne: "v ! i \<noteq> CHR ''0''" by (rule one)
      have IH: "fst (br_inner bits (Suc i) ?v ?t) = take (Suc i) ?v @ inc (drop (Suc i) ?v) \<and>
          (snd (br_inner bits (Suc i) ?v ?t) ! bits = 1 \<longleftrightarrow> CHR ''0'' \<notin> set (drop (Suc i) ?v))"
      proof (rule "1.IH"(2))
        show "set ?v \<subseteq> bin_chars"
          using "1.prems"(6) by (meson insertI1 order_trans set_update_subset_insert insert_subset)
        show "?t ! Suc i = 1" using True "1.prems"(2) by simp
        show "\<And>j. Suc i < j \<Longrightarrow> j \<le> bits \<Longrightarrow> ?t ! j = 0" using "1.prems"(5) by simp
      qed (use True "1.prems" ne in auto)
      show ?thesis
        using True ne "1.prems"(4) d IH tk by (subst (1 2) br_inner.simps) simp
    qed
  qed
qed

lemma br_step:
  assumes "length v = bits" and "set v \<subseteq> bin_chars"
  shows "fst (br_inner bits 0 v (1 # replicate bits 0)) = inc v"
    and "snd (br_inner bits 0 v (1 # replicate bits 0)) ! bits = 1 \<longleftrightarrow> CHR ''0'' \<notin> set v"
  using br_inner_inc [of v bits "1 # replicate bits 0" 0] assms by (auto simp: nth_Cons')

lemma br_outer_stop: "toggle ! bits = 1 \<Longrightarrow> br_outer bits v toggle l = Some l"
  by (subst br_outer.simps) simp

lemma br_outer_counts:
  assumes "length v = bits" and "set v \<subseteq> bin_chars" and "toggle ! bits \<noteq> 1"
  shows "br_outer bits v toggle l = Some (l @ map (bin_str bits) [le_value v..<2 ^ bits])"
  using assms
proof (induction "2 ^ bits - le_value v" arbitrary: v toggle l rule: less_induct)
  case less
  have bnd: "le_value v < 2 ^ bits" using value_bits_of_bound [of "rev v"] less.prems(1) by simp
  have rv: "bin_str bits (le_value v) = rev v"
    using less.prems(1,2) by (intro bin_str_eqI) auto
  let ?t = "snd (br_inner bits 0 v (1 # replicate bits 0))"
  have unf: "br_outer bits v toggle l = br_outer bits (inc v) ?t (l @ [rev v])"
    using less.prems br_step(1) [OF less.prems(1,2)] by (subst br_outer.simps) simp
  show ?case
  proof (cases "CHR ''0'' \<in> set v")
    case True
    have v1: "le_value (inc v) = Suc (le_value v)" by (rule inc_value [OF less.prems(2) True])
    have "br_outer bits (inc v) ?t (l @ [rev v]) =
        Some ((l @ [rev v]) @ map (bin_str bits) [le_value (inc v)..<2 ^ bits])"
    proof (rule less.hyps)
      show "2 ^ bits - le_value (inc v) < 2 ^ bits - le_value v" using v1 bnd by simp
    qed (use True less.prems br_step(2) inc_chars [of v] in auto)
    with unf v1 bnd rv show ?thesis by (simp add: upt_conv_Cons)
  next
    case False
    with less.prems(2) have "set v \<subseteq> {CHR ''1''}" by auto
    then have "Suc (le_value v) = 2 ^ bits" using le_value_all_ones less.prems(1) by blast
    moreover have "?t ! bits = 1" using False less.prems br_step(2) by blast
    ultimately show ?thesis using unf rv by (simp add: br_outer_stop upt_conv_Cons)
  qed
qed

lemma binary_range_pos:
  assumes "0 < bits"
  shows "binary_range bits = Some (map (bin_str bits) [0..<2 ^ bits])"
proof -
  have "le_value (replicate bits (CHR ''0'')) = 0"
    by (simp add: bits_of_def del: replicate_0)
  then show ?thesis
    using assms br_outer_counts [of "replicate bits (CHR ''0'')" bits "1 # replicate bits 0" "[]"]
    by (auto simp: binary_range_def nth_Cons')
qed

section \<open>Bit patterns\<close>

lemma xor_shift_zero: "0 \<le> x \<Longrightarrow> x XOR drop_bit 1 x = 0 \<Longrightarrow> x = (0::int)"
proof -
  assume "0 \<le> x" and "x XOR drop_bit 1 x = 0"
  then have "x = drop_bit 1 x" by (metis xor.left_neutral xor.right_neutral xor.assoc xor_self_eq)
  then have "x = x div 2" by (simp add: drop_bit_eq_div)
  with \<open>0 \<le> x\<close> show ?thesis by presburger
qed

lemma gray_xor: "gray_encode i XOR gray_encode j = (i XOR j) XOR drop_bit 1 (i XOR j)"
  by (rule bit_eqI) (auto simp: gray_encode_def bit_xor_iff bit_drop_bit_eq)

lemma gray_inj: "0 \<le> i \<Longrightarrow> 0 \<le> j \<Longrightarrow> gray_encode i = gray_encode j \<Longrightarrow> i = j"
proof -
  assume nn: "0 \<le> i" "0 \<le> j" and "gray_encode i = gray_encode j"
  then have "(i XOR j) XOR drop_bit 1 (i XOR j) = 0" using gray_xor [of i j] by simp
  moreover have "0 \<le> i XOR j" using nn by simp
  ultimately have "i XOR j = 0" by (rule xor_shift_zero [rotated])
  then show ?thesis by (metis xor.assoc xor.left_neutral xor.right_neutral xor_self_eq)
qed

lemma xor_successor: "\<exists>k. int n XOR (int n + 1) = 2 ^ Suc k - 1"
proof (induction n rule: less_induct)
  case (less n)
  show ?case
  proof (cases "even n")
    case True
    then obtain m where n: "int n = 2 * int m" by (metis evenE of_nat_mult of_nat_numeral)
    have "int n XOR (int n + 1) = 1"
      unfolding n by (simp add: xor_int_rec [of "2 * int m"])
    then show ?thesis by (intro exI [of _ 0]) simp
  next
    case False
    then obtain m where m: "n = 2 * m + 1" by (metis oddE)
    obtain k where k: "int m XOR (int m + 1) = 2 ^ Suc k - 1" using less [of m] m by auto
    have "int n XOR (int n + 1) = 1 + 2 * (int m XOR (int m + 1))"
    proof -
      have e: "int n = 1 + 2 * int m" "int n + 1 = 2 * (int m + 1)" using m by simp_all
      show ?thesis unfolding e by (subst xor_int_rec) (simp add: add.commute)
    qed
    with k show ?thesis by (intro exI [of _ "Suc k"]) simp
  qed
qed

lemma mask_xor_half: "(2 ^ Suc k - 1) XOR drop_bit 1 (2 ^ Suc k - 1 :: int) = 2 ^ k"
proof -
  have "drop_bit 1 (2 ^ Suc k - 1 :: int) = 2 ^ k - 1"
    by (simp add: drop_bit_eq_div)
  moreover have "(2 ^ Suc k - 1) XOR (2 ^ k - 1 :: int) = 2 ^ k"
    unfolding mask_eq_exp_minus_1 [symmetric]
    by (rule bit_eqI) (auto simp: bit_xor_iff bit_mask_iff bit_exp_iff)
  ultimately show ?thesis by simp
qed

section \<open>Properties\<close>

text \<open>
  C40: \<open>int2bin\<close> and \<open>bin2int\<close> are inverse, both ways. For a positive width \<open>n\<close>, a non-negative integer that fits into \<open>n\<close> bits becomes a
  string of exactly \<open>n\<close> binary digits which \<open>bin2int\<close> reads back as the integer, one that does not
  fit raises ValueError, and a negative one KeyError; and \<open>bin2int\<close> of any string of binary digits gives the integer that
  \<open>int2bin\<close> turns into that string again, for its length. The width 0 is not treated like the others: the slices by \<open>-0\<close> take nothing and everything,
  so that every non-negative integer is accepted and gives all its digits, in groups of four and at least one group.
\<close>

theorem int2bin_roundtrip:
  "(if i < 0 then int2bin i (int n) = Inl KeyError
    else if n = 0
    then \<exists>s. int2bin i 0 = Inr s \<and> s \<noteq> [] \<and> 4 dvd length s \<and> set s \<subseteq> {CHR ''0'', CHR ''1''} \<and> bin2int s = Inr i
    else if i < 2 ^ n
    then \<exists>s. int2bin i (int n) = Inr s \<and> length s = n \<and> set s \<subseteq> {CHR ''0'', CHR ''1''} \<and> bin2int s = Inr i
    else int2bin i (int n) = Inl ValueError) \<and>
   (w \<noteq> [] \<and> set w \<subseteq> {CHR ''0'', CHR ''1''} \<longrightarrow> (\<exists>k. bin2int w = Inr k \<and> int2bin k (int (length w)) = Inr w))"
proof (intro conjI impI)
  consider "i < 0" | "0 \<le> i" "n = 0" | "0 \<le> i" "i < 2 ^ n" "0 < n" | "2 ^ n \<le> i" "0 < n" "0 \<le> i" by linarith
  then show "if i < 0 then int2bin i (int n) = Inl KeyError
    else if n = 0
    then \<exists>s. int2bin i 0 = Inr s \<and> s \<noteq> [] \<and> 4 dvd length s \<and> set s \<subseteq> {CHR ''0'', CHR ''1''} \<and> bin2int s = Inr i
    else if i < 2 ^ n
    then \<exists>s. int2bin i (int n) = Inr s \<and> length s = n \<and> set s \<subseteq> {CHR ''0'', CHR ''1''} \<and> bin2int s = Inr i
    else int2bin i (int n) = Inl ValueError"
  proof cases
    case 2
    then show ?thesis using int2bin_width_0 [of i] by auto
  next
    case 3
    then obtain s where s: "int2bin i (int n) = Inr s" "length s = n" "set s \<subseteq> bin_chars" "value_of 2 (bits_of s) = nat i"
      using int2bin_fits [of i n] by auto
    with 3 have "s \<noteq> []" by auto
    with s 3 have "bin2int s = Inr i" by (simp add: bin2int_def read_bin)
    with s 3 show ?thesis by auto
  qed (use int2bin_negative [of i "int n"] int2bin_overflow [of i n] in auto)
  assume w: "w \<noteq> [] \<and> set w \<subseteq> {CHR ''0'', CHR ''1''}"
  let ?k = "value_of 2 (bits_of w)"
  have "int2bin (int ?k) (int (length w)) = Inr w"
    using int2bin_eq_bin_str [of ?k "length w"] value_bits_of_bound [of w] bin_str_eqI [of w "length w"] w by auto
  then show "\<exists>k. bin2int w = Inr k \<and> int2bin k (int (length w)) = Inr w"
    using w read_bin [of w] by (auto simp: bin2int_def)
qed

theorem int2bin_roundtrip_witness:
  "(\<exists>s. int2bin 123 (int 8) = Inr s \<and> length s = 8 \<and> bin2int s = Inr 123) \<and>
   int2bin 300 (int 8) = Inl ValueError \<and> int2bin (- 1) (int 8) = Inl KeyError \<and>
   (\<exists>s. int2bin 5 0 = Inr s \<and> s \<noteq> [] \<and> bin2int s = Inr 5) \<and>
   (\<exists>k. bin2int ''0101'' = Inr k \<and> int2bin k 4 = Inr ''0101'')"
  using int2bin_roundtrip [where i = 123 and n = 8 and w = "''0101''"] int2bin_roundtrip [where i = 300 and n = 8 and w = "''0101''"]
    int2bin_roundtrip [where i = "- 1" and n = 8 and w = "''0101''"] int2bin_roundtrip [where i = 5 and n = 0 and w = "''0101''"]
  by auto

text \<open>
  \<open>binary_range\<close> always returns, and lists every binary number of the given width in counting
  order: the k-th entry is the \<open>int2bin\<close> of k, and there are two to the power of the width entries.
  The width 0 gives the empty list.
\<close>

theorem binary_range_counts:
  "\<exists>l. binary_range bits = Some l \<and>
     (if bits = 0 then l = []
      else length l = 2 ^ bits \<and> (\<forall>k < 2 ^ bits. int2bin (int k) (int bits) = Inr (l ! k)))"
proof (cases "bits = 0")
  case True
  then show ?thesis by (simp add: binary_range_def br_outer_stop)
next
  case False
  then show ?thesis by (simp add: binary_range_pos int2bin_eq_bin_str)
qed

theorem binary_range_counts_witness:
  "\<exists>l. binary_range 3 = Some l \<and> length l = 8 \<and> int2bin 5 3 = Inr (l ! 5)"
proof -
  obtain l where l: "binary_range 3 = Some l" "length l = 2 ^ 3"
      "\<forall>k < 2 ^ 3. int2bin (int k) (int 3) = Inr (l ! k)"
    using binary_range_counts [of 3] by auto
  from l(3) have "int2bin (int 5) (int 3) = Inr (l ! 5)" by (rule allE [of _ 5]) simp
  with l show ?thesis by simp
qed

text \<open>
  \<open>gray_encode\<close> is a Gray code on the non-negative integers: it is injective there, and the codes
  of consecutive integers differ in exactly one bit.
\<close>

theorem gray_encode_gray:
  assumes "0 \<le> i" and "0 \<le> j"
  shows "(gray_encode i = gray_encode j \<longleftrightarrow> i = j) \<and>
         (\<exists>k. gray_encode i XOR gray_encode (i + 1) = 2 ^ k)"
proof
  show "gray_encode i = gray_encode j \<longleftrightarrow> i = j" using gray_inj [OF assms] by auto
  obtain k where "i XOR (i + 1) = 2 ^ Suc k - 1" using xor_successor [of "nat i"] assms(1) by auto
  then have "gray_encode i XOR gray_encode (i + 1) = 2 ^ k"
    using gray_xor [of i "i + 1"] mask_xor_half [of k] by simp
  then show "\<exists>k. gray_encode i XOR gray_encode (i + 1) = 2 ^ k" ..
qed

theorem gray_encode_gray_witness:
  "(0::int) \<le> 3 \<and> (0::int) \<le> 4 \<and> gray_encode 3 \<noteq> gray_encode 4 \<and>
   (\<exists>k. gray_encode 3 XOR gray_encode 4 = 2 ^ k)"
  using gray_encode_gray [of 3 4] by simp

text \<open>
  \<open>random_vec\<close> without a maximum returns exactly \<open>bits\<close> binary digits, whatever the random numbers
  between 0 and 1 are.
\<close>

lemma random_bits_digits:
  assumes "\<And>k. 0 \<le> rnd k \<and> rnd k < 1"
  shows "set vector \<subseteq> bin_chars \<Longrightarrow> \<exists>v. random_bits rnd ks vector = Inr v \<and>
    length v = length vector + 10 * length ks \<and> set v \<subseteq> bin_chars"
proof (induction ks arbitrary: vector)
  case Nil
  then show ?case by simp
next
  case (Cons k ks)
  have "0 \<le> trunc (2 ^ 10 * rnd k)" "trunc (2 ^ 10 * rnd k) < 2 ^ 10"
    using assms [of k] by (simp_all add: trunc_nonneg floor_less_iff)
  then obtain s where s: "int2bin (trunc (2 ^ 10 * rnd k)) 10 = Inr s" "length s = 10"
      "set s \<subseteq> bin_chars"
    using int2bin_fits [of "trunc (2 ^ 10 * rnd k)" 10] by auto
  with Cons.prems have "set (vector @ s) \<subseteq> bin_chars" by auto
  from Cons.IH [OF this] s show ?case by auto
qed

lemma random_vec_length:
  assumes "\<And>k. 0 \<le> rnd k \<and> rnd k < 1"
  shows "\<exists>v. random_vec rnd bits None = Inr v \<and> length v = bits \<and> set v \<subseteq> bin_chars"
proof -
  obtain v where v: "random_bits rnd [0..<bits div 10 + 1] [] = Inr v"
      "length v = 10 * (bits div 10 + 1)" "set v \<subseteq> bin_chars"
    using random_bits_digits [of rnd "[]" "[0..<bits div 10 + 1]"] assms by auto
  have "bits \<le> length v" unfolding v(2) by presburger
  with v show ?thesis
    by (auto simp: random_vec_def py_slice_def slice_bound_def dest!: in_set_takeD)
qed

end
