(* ===== verification/RadNumbers.thy ===== *)
theory RadNumbers
  imports PyString
begin

text \<open>
  Numbers in \<^verbatim>\<open>bindings/python/rad_util.py\<close>: integer arithmetic (\<open>gcf\<close>, \<open>lcm\<close>,
  \<open>reduce_fraction\<close>), statistics (\<open>quantile\<close>, \<open>trim\<close>), geometry (\<open>polygon_area\<close>), grids and
  ranges (\<open>round_grid\<close>, \<open>float_range\<close>) and unit prefixes (\<open>nice_units\<close>). The file is Python 2: an
  integer divided by an integer is the floor of the quotient. A float is an exact rational number.
\<close>

section \<open>Integer arithmetic\<close>

text \<open>\<open>gcf\<close> on integers; \<open>%\<close> takes the sign of the divisor, as HOL's \<open>mod\<close> does.\<close>

definition default_epsilon :: rat where
  "default_epsilon = 1 / 10 ^ 16"

function gcf_loop :: "rat \<Rightarrow> int \<Rightarrow> int \<Rightarrow> int" where
  "gcf_loop epsilon res remainder =
     (if remainder \<noteq> 0 \<and> of_int \<bar>remainder\<bar> > epsilon
      then gcf_loop epsilon remainder (res mod remainder) else res)"
  by pat_completeness auto
termination
  by (relation "measure (\<lambda>(e, r, d). nat \<bar>d\<bar>)") (auto simp: abs_mod_less)

declare gcf_loop.simps [simp del]

definition gcf :: "int \<Rightarrow> int \<Rightarrow> rat \<Rightarrow> int" where
  "gcf a b epsilon = \<bar>gcf_loop epsilon (max a b) (min a b)\<bar>"

definition lcm_py :: "int \<Rightarrow> int \<Rightarrow> int" where
  "lcm_py a b = (let denom = gcf a b default_epsilon in if denom = 0 then 0 else a * (b div denom))"

definition reduce_fraction :: "int \<times> int \<Rightarrow> (int \<times> int) result" where
  "reduce_fraction fraction =
     (let common_factor = \<bar>gcf (fst fraction) (snd fraction) default_epsilon\<bar>
      in if common_factor = 0 then Inl ZeroDivisionError
         else Inr (fst fraction div common_factor, snd fraction div common_factor))"

section \<open>Geometry and statistics\<close>

definition scale_point :: "rat \<Rightarrow> rat \<times> rat \<Rightarrow> int \<times> int" where
  "scale_point precision p = (trunc (fst p * precision), trunc (snd p * precision))"

fun shoelace :: "(int \<times> int) list \<Rightarrow> int" where
  "shoelace ((x, y) # (x', y') # ps) = x' * y - y' * x + shoelace ((x', y') # ps)"
| "shoelace _ = 0"

text \<open>The scaled and closed list of points is also what the caller's list holds afterwards.\<close>

definition polygon_area :: "(rat \<times> rat) list \<Rightarrow> int \<Rightarrow> (rat \<times> (int \<times> int) list) result" where
  "polygon_area points_list precision =
     (let ps = map (scale_point (of_int precision)) points_list
      in bind_r (py_index ps (- 1)) (\<lambda>z. bind_r (py_index ps 0) (\<lambda>a.
           let ps' = (if z \<noteq> a then ps @ [a] else ps)
           in if precision = 0 then Inl ZeroDivisionError
              else Inr (of_int \<bar>shoelace ps' div 2\<bar> / of_int (precision ^ 2), ps'))))"

definition quantile :: "rat list \<Rightarrow> rat \<Rightarrow> rat result" where
  "quantile l p =
     (let l_sort = sort l; n = int (length l); r = 1 + (of_int n - 1) * p; i = trunc r;
          f = r - of_int i
      in if i < n
         then bind_r (py_index l_sort (i - 1)) (\<lambda>a. bind_r (py_index l_sort i) (\<lambda>b.
                Inr ((1 - f) * a + f * b)))
         else py_index l_sort (i - 1))"

definition trim_median :: "rat list \<Rightarrow> rat result" where
  "trim_median l_sort =
     (let index = int (length l_sort) div 2
      in if length l_sort mod 2 = 0
         then bind_r (py_index l_sort index) (\<lambda>a. bind_r (py_index l_sort (index - 1)) (\<lambda>b.
                Inr ((a + b) / 2)))
         else py_index l_sort index)"

definition trim :: "rat list \<Rightarrow> rat list result" where
  "trim l =
     (let l_sort = sort l
      in bind_r (trim_median l_sort) (\<lambda>median.
         bind_r (quantile l_sort (1 / 4)) (\<lambda>q1.
         bind_r (quantile l_sort (3 / 4)) (\<lambda>q3.
           let iqr_extra = (q3 - q1) * (3 / 2)
           in Inr (filter (\<lambda>x. q1 - iqr_extra \<le> x \<and> x \<le> q3 + iqr_extra) l_sort)))))"

section \<open>Grids, ranges, units\<close>

definition rat_mod :: "rat \<Rightarrow> rat \<Rightarrow> rat" where
  "rat_mod a b = a - b * of_int \<lfloor>a / b\<rfloor>"

text \<open>\<open>round_grid\<close> on floats. No branch sets \<open>add_one\<close> when a value on the grid is rounded up or
  down, and the name is then unbound.\<close>

definition round_grid :: "rat \<Rightarrow> rat \<Rightarrow> int \<Rightarrow> rat result" where
  "round_grid value grid mode =
     (if grid = 0 then Inl ZeroDivisionError
      else let off_grid = rat_mod value grid;
               add_one = (if mode = 0 then Some (if off_grid \<ge> grid / 2 then 1 else 0)
                          else if mode = 1 \<and> off_grid \<noteq> 0 then Some 1
                          else if mode = - 1 \<and> off_grid \<noteq> 0 then Some 0
                          else None)
           in (case add_one of
                 None \<Rightarrow> Inl UnboundLocalError
               | Some k \<Rightarrow> Inr (of_int (trunc (value / grid) + k) * grid)))"

partial_function (option) float_range_loop ::
  "rat \<Rightarrow> rat \<Rightarrow> rat \<Rightarrow> rat list \<Rightarrow> rat list option" where
  "float_range_loop stop step cur l =
     (if cur < stop then float_range_loop stop step (cur + step) (l @ [cur]) else Some l)"

definition float_range :: "rat \<Rightarrow> rat option \<Rightarrow> rat option \<Rightarrow> rat list option" where
  "float_range start stop step =
     (let (start', stop') = (case stop of None \<Rightarrow> (0, start) | Some s \<Rightarrow> (start, s));
          step' = (case step of None \<Rightarrow> 1 | Some s \<Rightarrow> s)
      in float_range_loop stop' step' start' [])"

datatype unit_mode = Si | Bin

definition si_prefixes :: "(rat, string \<times> string) dict" where
  "si_prefixes =
    [(10 ^ 24, (''Y'', ''yotta'')), (10 ^ 21, (''Z'', ''zetta'')), (10 ^ 18, (''E'', ''exa'')),
     (10 ^ 15, (''P'', ''peta'')), (10 ^ 12, (''T'', ''tera'')), (10 ^ 9, (''G'', ''giga'')),
     (10 ^ 6, (''M'', ''mega'')), (10 ^ 3, (''k'', ''kilo'')), (1 / 10 ^ 3, (''m'', ''milli'')),
     (1 / 10 ^ 6, (''u'', ''micro'')), (1 / 10 ^ 9, (''n'', ''nano'')),
     (1 / 10 ^ 12, (''p'', ''pico'')), (1 / 10 ^ 15, (''f'', ''femto'')),
     (1 / 10 ^ 18, (''a'', ''atto'')), (1 / 10 ^ 21, (''z'', ''zepto'')),
     (1 / 10 ^ 24, (''y'', ''yocto''))]"

definition extra_prefixes :: "(rat, string \<times> string) dict" where
  "extra_prefixes =
    [(10 ^ 2, (''h'', ''hecto'')), (10, (''da'', ''deka'')), (1 / 10, (''d'', ''deci'')),
     (1 / 10 ^ 2, (''c'', ''centi''))]"

definition bin_prefixes :: "(rat, string \<times> string) dict" where
  "bin_prefixes =
    [(2 ^ 10, (''K'', ''kilo'')), (2 ^ 20, (''M'', ''mega'')), (2 ^ 30, (''G'', ''mega'')),
     (2 ^ 40, (''T'', ''tera'')), (2 ^ 50, (''P'', ''peta'')), (2 ^ 60, (''E'', ''exa''))]"

definition unit_prefixes :: "bool \<Rightarrow> unit_mode \<Rightarrow> (rat, string \<times> string) dict" where
  "unit_prefixes use_extra_prefixes mode =
     AList.update 1 ([], [])
       (if mode = Bin then bin_prefixes
        else if use_extra_prefixes then AList.updates (map fst extra_prefixes)
               (map snd extra_prefixes) si_prefixes
        else si_prefixes)"

text \<open>The first index \<open>i\<close> with \<open>multipliers[i] <= value < multipliers[i+1]\<close>, else an end.\<close>

fun find_multiplier :: "rat \<Rightarrow> rat list \<Rightarrow> nat option" where
  "find_multiplier value (lower_mult # upper_mult # ms) =
     (if lower_mult \<le> value \<and> value < upper_mult then Some 0
      else map_option Suc (find_multiplier value (upper_mult # ms)))"
| "find_multiplier value _ = None"

definition multiplier_index :: "rat \<Rightarrow> rat list \<Rightarrow> nat result" where
  "multiplier_index value multipliers =
     bind_r (py_index multipliers 0) (\<lambda>first. bind_r (py_index multipliers (- 1)) (\<lambda>final.
       if value < first then Inr 0
       else if final \<le> value then Inr (length multipliers - 1)
       else (case find_multiplier value multipliers of
               Some i \<Rightarrow> Inr i | None \<Rightarrow> Inl UnboundLocalError)))"

text \<open>
  \<open>fmt_f dp x\<close>, \<open>fmt_g sig x\<close> and \<open>rnd dp x\<close> are Python's \<open>"%.*f"\<close>, \<open>"%.*g"\<close> and \<open>round\<close>.
\<close>

definition nice_units ::
  "(nat \<Rightarrow> rat \<Rightarrow> string) \<Rightarrow> (nat \<Rightarrow> rat \<Rightarrow> string) \<Rightarrow> (nat \<Rightarrow> rat \<Rightarrow> rat) \<Rightarrow>
   rat \<Rightarrow> nat \<Rightarrow> nat option \<Rightarrow> string \<Rightarrow> string \<Rightarrow> bool \<Rightarrow> bool \<Rightarrow> unit_mode \<Rightarrow> string result" where
  "nice_units fmt_f fmt_g rnd value dp sigfigs suffix space use_extra use_full_name mode =
     (let prefixes = unit_prefixes use_extra mode;
          multipliers = sort (d_keys prefixes)
      in bind_r (multiplier_index value multipliers) (\<lambda>mult_i.
           let mult0 = multipliers ! mult_i;
               step_up = (sigfigs = None \<and> mult_i < length multipliers - 1 \<and>
                          rnd dp (value / mult0) =
                          rnd dp (multipliers ! (mult_i + 1) / mult0));
               mult = (if step_up then multipliers ! (mult_i + 1) else mult0);
               new_value = value / mult;
               str_value = (case sigfigs of None \<Rightarrow> fmt_f dp new_value | Some s \<Rightarrow> fmt_g s new_value)
           in bind_r (d_getitem prefixes mult) (\<lambda>names.
                Inr (str_value @ space @ (if use_full_name then snd names else fst names) @ suffix))))"

section \<open>Greatest common factor\<close>

lemma gcf_loop_gcd:
  assumes "0 \<le> epsilon" "epsilon < 1"
  shows "\<bar>gcf_loop epsilon a b\<bar> = gcd a b"
  using assms
proof (induction epsilon a b rule: gcf_loop.induct)
  case (1 epsilon a b)
  show ?case
  proof (cases "b = 0")
    case True
    then show ?thesis by (subst gcf_loop.simps) simp
  next
    case False
    then have "1 \<le> (of_int \<bar>b\<bar> :: rat)" by (metis of_int_1_le_iff zero_less_abs_iff int_one_le_iff_zero_less)
    then have big: "epsilon < of_int \<bar>b\<bar>" using "1.prems"(2) by linarith
    have "\<bar>gcf_loop epsilon b (a mod b)\<bar> = gcd b (a mod b)"
      using "1.IH" "1.prems" False big by simp
    also have "gcd b (a mod b) = gcd a b" by (metis gcd.commute gcd_red_int)
    finally show ?thesis using False big by (subst gcf_loop.simps) simp
  qed
qed

lemma gcf_gcd: "0 \<le> epsilon \<Longrightarrow> epsilon < 1 \<Longrightarrow> gcf a b epsilon = gcd a b"
  by (auto simp: gcf_def gcf_loop_gcd max_def min_def gcd.commute)

lemma gcf_default [simp]: "gcf a b default_epsilon = gcd a b"
  by (rule gcf_gcd) (simp_all add: default_epsilon_def)

lemma lcm_py_abs: "\<bar>lcm_py a b\<bar> = lcm a b"
proof (cases "gcd a b = 0")
  case True
  then show ?thesis by (simp add: lcm_py_def)
next
  case False
  have "a * (b div gcd a b) = a * b div gcd a b" by (simp add: div_mult_swap)
  with False show ?thesis
    by (simp add: lcm_py_def lcm_altdef_int abs_mult abs_div)
qed

section \<open>Quantiles\<close>

text \<open>The position of a quantile in the sorted list, as a natural number.\<close>

lemma quantile_position:
  assumes "l \<noteq> []" and "0 \<le> p" and "p \<le> 1"
  obtains k f where "k < length l" and "0 \<le> f" and "f < 1"
    and "1 + (of_nat (length l) - 1) * p = of_nat k + 1 + (f::rat)"
    and "Suc k < length l \<Longrightarrow> quantile l p = Inr ((1 - f) * sort l ! k + f * sort l ! Suc k)"
    and "Suc k = length l \<Longrightarrow> quantile l p = Inr (sort l ! k) \<and> f = 0"
proof -
  define n where "n = length l"
  define r where "r = 1 + (of_nat n - 1) * p"
  have n1: "1 \<le> n" using assms(1) by (simp add: n_def Suc_leI)
  have "0 \<le> (of_nat n - 1) * p" using n1 assms(2) by (intro mult_nonneg_nonneg) auto
  moreover have "(of_nat n - 1) * p \<le> (of_nat n - 1) * 1"
    using n1 assms(3) by (intro mult_left_mono) auto
  ultimately have r: "1 \<le> r" "r \<le> of_nat n" by (simp_all add: r_def)
  define k where "k = nat (\<lfloor>r\<rfloor> - 1)"
  have fl: "1 \<le> \<lfloor>r\<rfloor>" "\<lfloor>r\<rfloor> \<le> int n" using r by (simp_all add: le_floor_iff floor_le_iff)
  then have k: "\<lfloor>r\<rfloor> = int k + 1" "k < n" unfolding k_def by linarith+
  have t: "trunc r = int k + 1" using r k by (simp add: trunc_nonneg)
  define f where "f = r - of_int \<lfloor>r\<rfloor>"
  have f: "0 \<le> f" "f < 1" by (simp_all add: f_def floor_correct) linarith
  have rk: "r = of_nat k + 1 + f" using k(1) by (simp add: f_def)
  have len: "length (sort l) = n" by (simp add: n_def)
  have q: "quantile l p =
      (if k + 1 < n
       then bind_r (py_index (sort l) (int k)) (\<lambda>a. bind_r (py_index (sort l) (int k + 1)) (\<lambda>b.
              Inr ((1 - f) * a + f * b)))
       else py_index (sort l) (int k))"
    using t rk by (simp add: quantile_def Let_def n_def r_def f_def k)
  have q1: "Suc k < length l \<Longrightarrow> quantile l p = Inr ((1 - f) * sort l ! k + f * sort l ! Suc k)"
    using q py_index_nat [of k "sort l"] py_index_nat [of "Suc k" "sort l"] len
    by (simp add: n_def add.commute)
  have q2: "Suc k = length l \<Longrightarrow> quantile l p = Inr (sort l ! k) \<and> f = 0"
  proof
    assume e: "Suc k = length l"
    then show "quantile l p = Inr (sort l ! k)" using q len by (simp add: n_def)
    from e have "of_nat n = (of_nat k :: rat) + 1" by (simp add: n_def)
    with r(2) rk f show "f = 0" by linarith
  qed
  show thesis
    using that [of k f] k(2) f rk q1 q2 by (simp add: n_def r_def)
qed

lemma interpolation_bounds:
  fixes a b f :: rat
  assumes "a \<le> b" "0 \<le> f" "f \<le> 1"
  shows "a \<le> (1 - f) * a + f * b" and "(1 - f) * a + f * b \<le> b"
proof -
  have "0 \<le> f * (b - a)" using assms by simp
  then show "a \<le> (1 - f) * a + f * b" by (simp add: algebra_simps)
  have "0 \<le> (1 - f) * (b - a)" using assms by simp
  then show "(1 - f) * a + f * b \<le> b" by (simp add: algebra_simps)
qed

lemma sort_nth_mono: "i \<le> j \<Longrightarrow> j < length l \<Longrightarrow> sort l ! i \<le> sort l ! j"
  by (simp add: sorted_nth_mono)

lemma quantile_mono_aux:
  assumes "l \<noteq> []" and "0 \<le> p" and "p \<le> q" and "q \<le> 1"
  shows "\<exists>x y. quantile l p = Inr x \<and> quantile l q = Inr y \<and> x \<le> y"
proof -
  have pq: "p \<le> 1" "0 \<le> q" using assms by linarith+
  obtain k f where k: "k < length l" "0 \<le> f" "f < 1"
      "1 + (of_nat (length l) - 1) * p = of_nat k + 1 + (f::rat)"
      "Suc k < length l \<Longrightarrow> quantile l p = Inr ((1 - f) * sort l ! k + f * sort l ! Suc k)"
      "Suc k = length l \<Longrightarrow> quantile l p = Inr (sort l ! k) \<and> f = 0"
    by (rule quantile_position [OF assms(1,2) pq(1)]) auto
  obtain m g where m: "m < length l" "0 \<le> g" "g < 1"
      "1 + (of_nat (length l) - 1) * q = of_nat m + 1 + (g::rat)"
      "Suc m < length l \<Longrightarrow> quantile l q = Inr ((1 - g) * sort l ! m + g * sort l ! Suc m)"
      "Suc m = length l \<Longrightarrow> quantile l q = Inr (sort l ! m) \<and> g = 0"
    by (rule quantile_position [OF assms(1) pq(2) assms(4)]) auto
  have "1 \<le> length l" using assms(1) by (simp add: Suc_leI)
  then have "(of_nat (length l) - 1) * p \<le> (of_nat (length l) - 1) * q"
    using assms(3) by (intro mult_left_mono) auto
  with k(4) m(4) have le: "of_nat k + f \<le> of_nat m + (g::rat)" by linarith
  have "k \<le> m"
  proof (rule ccontr)
    assume "\<not> k \<le> m"
    then have "of_nat m + 1 \<le> (of_nat k :: rat)" by (metis Suc_leI not_le of_nat_Suc of_nat_le_iff add.commute)
    with le k m show False by linarith
  qed
  show ?thesis
  proof (cases "Suc k < length l")
    case False
    with k(1) \<open>k \<le> m\<close> m(1) have "Suc k = length l" "m = k" by auto
    with k(6) m(6) show ?thesis by simp
  next
    case kl: True
    let ?s = "sort l"
    show ?thesis
    proof (cases "k = m")
      case True
      with le have "f \<le> g" by simp
      moreover have "0 \<le> ?s ! Suc k - ?s ! k" using sort_nth_mono [of k "Suc k" l] kl by simp
      ultimately have "f * (?s ! Suc k - ?s ! k) \<le> g * (?s ! Suc k - ?s ! k)"
        by (rule mult_right_mono)
      then have "(1 - f) * ?s ! k + f * ?s ! Suc k \<le> (1 - g) * ?s ! k + g * ?s ! Suc k"
        by (simp add: algebra_simps)
      with True kl k(5) m(5) show ?thesis by auto
    next
      case False
      with \<open>k \<le> m\<close> have km: "Suc k \<le> m" by simp
      have "(1 - f) * ?s ! k + f * ?s ! Suc k \<le> ?s ! Suc k"
        using k kl by (intro interpolation_bounds(2)) (auto simp: sort_nth_mono)
      also have "\<dots> \<le> ?s ! m" using km m(1) by (rule sort_nth_mono)
      finally have a: "(1 - f) * ?s ! k + f * ?s ! Suc k \<le> ?s ! m" .
      show ?thesis
      proof (cases "Suc m < length l")
        case True
        have "?s ! m \<le> (1 - g) * ?s ! m + g * ?s ! Suc m"
          using m True by (intro interpolation_bounds(1)) (auto simp: sort_nth_mono)
        with a kl k(5) m(5) True show ?thesis by auto
      next
        case False
        with m(1) have "Suc m = length l" by simp
        with a kl k(5) m(6) show ?thesis by auto
      qed
    qed
  qed
qed

lemma quantile_ends:
  assumes "l \<noteq> []"
  shows "quantile l 0 = Inr (Min (set l))" and "quantile l 1 = Inr (Max (set l))"
proof -
  have sl: "sort l \<noteq> []" using assms by (metis length_0_conv length_sort)
  have mn: "sort l ! 0 = Min (set l)"
  proof -
    have "\<forall>x \<in> set (sort l). sort l ! 0 \<le> x"
      using sort_nth_mono [of 0] by (metis in_set_conv_nth le0 length_sort)
    moreover have "sort l ! 0 \<in> set (sort l)" using sl assms by (intro nth_mem) simp
    ultimately show ?thesis by (intro Min_eqI [symmetric]) auto
  qed
  have mx: "sort l ! (length l - 1) = Max (set l)"
  proof -
    have "\<forall>x \<in> set (sort l). x \<le> sort l ! (length l - 1)"
      using sort_nth_mono [of _ "length l - 1"] assms
      by (metis Suc_pred' in_set_conv_nth length_greater_0_conv length_sort less_Suc_eq_le lessI)
    moreover have "sort l ! (length l - 1) \<in> set (sort l)" using sl assms by (intro nth_mem) simp
    ultimately show ?thesis by (intro Max_eqI [symmetric]) auto
  qed
  obtain k f where k: "k < length l" "0 \<le> f" "f < 1"
      "1 + (of_nat (length l) - 1) * 0 = of_nat k + 1 + (f::rat)"
      "Suc k < length l \<Longrightarrow> quantile l 0 = Inr ((1 - f) * sort l ! k + f * sort l ! Suc k)"
      "Suc k = length l \<Longrightarrow> quantile l 0 = Inr (sort l ! k) \<and> f = 0"
    by (rule quantile_position [of l 0]) (use assms in auto)
  have "0 \<le> (of_nat k :: rat)" by simp
  with k(2,4) have "f = 0" and "(of_nat k :: rat) = 0" by linarith+
  then have "k = 0" by simp
  have "Suc k < length l \<or> Suc k = length l" using k(1) by linarith
  with k(5,6) \<open>f = 0\<close> \<open>k = 0\<close> mn show "quantile l 0 = Inr (Min (set l))" by auto
  obtain m g where m: "m < length l" "0 \<le> g" "g < 1"
      "1 + (of_nat (length l) - 1) * 1 = of_nat m + 1 + (g::rat)"
      "Suc m < length l \<Longrightarrow> quantile l 1 = Inr ((1 - g) * sort l ! m + g * sort l ! Suc m)"
      "Suc m = length l \<Longrightarrow> quantile l 1 = Inr (sort l ! m) \<and> g = 0"
    by (rule quantile_position [of l 1]) (use assms in auto)
  have "Suc m = length l"
  proof (rule ccontr)
    assume "Suc m \<noteq> length l"
    with m(1) have "Suc (Suc m) \<le> length l" by simp
    then have "of_nat m + 2 \<le> (of_nat (length l) :: rat)" by (metis of_nat_le_iff of_nat_Suc add.commute add.left_commute one_add_one)
    moreover have "of_nat (length l) = of_nat m + 1 + g" using m(4) by simp
    ultimately show False using m(3) by linarith
  qed
  with m(6) mx show "quantile l 1 = Inr (Max (set l))" by (metis diff_Suc_1)
qed

section \<open>Trimming outliers\<close>

lemma quantile_sort [simp]: "quantile (sort l) p = quantile l p"
proof -
  have "sort (sort l) = sort l" by (rule sort_key_id_if_sorted) simp
  then show ?thesis unfolding quantile_def by simp
qed

lemma trim_median_total: "l \<noteq> [] \<Longrightarrow> \<exists>m. trim_median (sort l) = Inr m"
proof -
  assume "l \<noteq> []"
  define n where "n = length (sort l)"
  have n: "0 < n" using \<open>l \<noteq> []\<close> by (simp add: n_def)
  then have lt: "n div 2 < n" by linarith
  have ix: "j < n \<Longrightarrow> py_index (sort l) (int j) = Inr (sort l ! j)" for j
    by (simp only: n_def py_index_nat)
  show ?thesis
  proof (cases "n mod 2 = 0")
    case True
    with n obtain j where j: "n div 2 = Suc j" by (cases "n div 2") auto
    then have e: "int n div 2 = int (Suc j)" "int n div 2 - 1 = int j" by linarith+
    have lts: "Suc j < n" "j < n" using lt j by linarith+
    have "py_index (sort l) (int n div 2) = Inr (sort l ! Suc j)"
      by (simp only: e(1) ix [OF lts(1)])
    moreover have "py_index (sort l) (int n div 2 - 1) = Inr (sort l ! j)"
      by (simp only: e(2) ix [OF lts(2)])
    ultimately show ?thesis
      using True by (intro exI [of _ "(sort l ! Suc j + sort l ! j) / 2"])
        (simp add: trim_median_def n_def [symmetric] Let_def del: length_sort)
  next
    case False
    have "int n div 2 = int (n div 2)" by simp
    with False ix [OF lt] show ?thesis
      by (simp add: trim_median_def n_def [symmetric] Let_def del: length_sort)
  qed
qed

lemma trim_eval:
  assumes "l \<noteq> []"
  obtains q1 q3 where "quantile l (1 / 4) = Inr q1" and "quantile l (3 / 4) = Inr q3" and "q1 \<le> q3"
    and "trim l = Inr (filter (\<lambda>x. q1 - (q3 - q1) * (3 / 2) \<le> x \<and> x \<le> q3 + (q3 - q1) * (3 / 2)) (sort l))"
proof -
  obtain q1 q3 where q: "quantile l (1 / 4) = Inr q1" "quantile l (3 / 4) = Inr q3" "q1 \<le> q3"
    using quantile_mono_aux [of l "1 / 4" "3 / 4"] assms by auto
  moreover obtain m where "trim_median (sort l) = Inr m"
    using trim_median_total [OF assms] by auto
  ultimately show thesis using that [of q1 q3] by (simp add: trim_def Let_def)
qed

definition in_fence :: "rat \<Rightarrow> rat \<Rightarrow> rat \<Rightarrow> bool" where
  "in_fence q1 q3 = (\<lambda>x. q1 - (q3 - q1) * (3 / 2) \<le> x \<and> x \<le> q3 + (q3 - q1) * (3 / 2))"

lemma in_fence_core: "q1 \<le> q3 \<Longrightarrow> q1 \<le> x \<Longrightarrow> x \<le> q3 \<Longrightarrow> in_fence q1 q3 x"
proof -
  assume "q1 \<le> q3" and x: "q1 \<le> x" "x \<le> q3"
  then have "0 \<le> (q3 - q1) * (3 / 2)" by simp
  with x show ?thesis unfolding in_fence_def by linarith
qed

lemma not_in_fence: "\<not> in_fence q1 q3 x \<Longrightarrow> x < q1 - 3 / 2 * (q3 - q1) \<or> q3 + 3 / 2 * (q3 - q1) < x"
  by (simp add: in_fence_def not_le mult.commute)

lemma in_fence_filter:
  assumes "q1 \<le> q3"
  shows "sorted (filter (in_fence q1 q3) (sort l))"
    and "mset (filter (in_fence q1 q3) (sort l)) \<subseteq># mset l"
    and "\<forall>x \<in> set l. x \<notin> set (filter (in_fence q1 q3) (sort l)) \<longrightarrow>
           x < q1 - 3 / 2 * (q3 - q1) \<or> q3 + 3 / 2 * (q3 - q1) < x"
    and "\<forall>x \<in> set l. q1 \<le> x \<and> x \<le> q3 \<longrightarrow> x \<in> set (filter (in_fence q1 q3) (sort l))"
proof -
  show "sorted (filter (in_fence q1 q3) (sort l))"
    by (rule sorted_filter [where f = "\<lambda>x. x", simplified]) simp
  show "mset (filter (in_fence q1 q3) (sort l)) \<subseteq># mset l"
    by (metis mset_filter mset_sort multiset_filter_subset)
  show "\<forall>x \<in> set l. x \<notin> set (filter (in_fence q1 q3) (sort l)) \<longrightarrow>
           x < q1 - 3 / 2 * (q3 - q1) \<or> q3 + 3 / 2 * (q3 - q1) < x"
    using not_in_fence by (simp only: set_filter set_sort) blast
  show "\<forall>x \<in> set l. q1 \<le> x \<and> x \<le> q3 \<longrightarrow> x \<in> set (filter (in_fence q1 q3) (sort l))"
    using in_fence_core [OF assms] by (simp only: set_filter set_sort) blast
qed

section \<open>Polygons with integer corners\<close>

definition int_points :: "(int \<times> int) list \<Rightarrow> (rat \<times> rat) list" where
  "int_points ps = map (\<lambda>(x, y). (of_int x, of_int y)) ps"

definition close_polygon :: "(int \<times> int) list \<Rightarrow> (int \<times> int) list" where
  "close_polygon ps = (if last ps \<noteq> hd ps then ps @ [hd ps] else ps)"

definition scale_int :: "int \<Rightarrow> int \<times> int \<Rightarrow> int \<times> int" where
  "scale_int p = (\<lambda>(x, y). (x * p, y * p))"

lemma scale_int_points:
  "map (scale_point (of_int p)) (int_points ps) = map (scale_int p) ps"
proof -
  have "trunc (of_int x * of_int p) = x * p" for x
    using trunc_of_int [of "x * p"] by simp
  then show ?thesis by (auto simp: int_points_def scale_point_def scale_int_def)
qed

lemma shoelace_scale: "shoelace (map (scale_int p) ps) = p\<^sup>2 * shoelace ps"
  by (induction ps rule: shoelace.induct) (auto simp: scale_int_def algebra_simps power2_eq_square)

lemma scale_int_eq_iff: "p \<noteq> 0 \<Longrightarrow> scale_int p a = scale_int p b \<longleftrightarrow> a = b"
  by (cases a; cases b) (simp add: scale_int_def)

lemma py_index_last: "xs \<noteq> [] \<Longrightarrow> py_index xs (- 1) = Inr (last xs)"
  by (cases xs rule: rev_cases) (simp_all add: py_index_def)

lemma py_index_hd: "xs \<noteq> [] \<Longrightarrow> py_index xs 0 = Inr (hd xs)"
  by (simp add: py_index_def hd_conv_nth)

lemma polygon_area_int:
  assumes "ps \<noteq> []" and "even p" and "p \<noteq> 0"
  shows "polygon_area (int_points ps) p =
    Inr (of_int \<bar>shoelace (close_polygon ps)\<bar> / 2, map (scale_int p) (close_polygon ps))"
proof -
  let ?qs = "map (scale_int p) ps"
  have qs: "?qs \<noteq> []" "last ?qs = scale_int p (last ps)" "hd ?qs = scale_int p (hd ps)"
    using assms(1) by (simp_all add: last_map hd_map)
  have closed: "(if last ?qs \<noteq> hd ?qs then ?qs @ [hd ?qs] else ?qs) = map (scale_int p) (close_polygon ps)"
    using qs assms(3) by (simp add: close_polygon_def scale_int_eq_iff)
  obtain h where h: "p = 2 * h" using assms(2) by (rule evenE)
  have "shoelace (map (scale_int p) (close_polygon ps)) = 2 * (2 * h\<^sup>2 * shoelace (close_polygon ps))"
    by (simp add: shoelace_scale h power2_eq_square)
  then have "shoelace (map (scale_int p) (close_polygon ps)) div 2 = 2 * h\<^sup>2 * shoelace (close_polygon ps)"
    by simp
  then have "of_int \<bar>shoelace (map (scale_int p) (close_polygon ps)) div 2\<bar> / of_int (p\<^sup>2) =
      of_int \<bar>shoelace (close_polygon ps)\<bar> / (2::rat)"
    using assms(3) h by (simp add: abs_mult power2_eq_square field_simps)
  then show ?thesis
    using assms(3) closed qs(1)
    by (simp add: polygon_area_def scale_int_points py_index_last py_index_hd Let_def)
qed

definition translate :: "int \<times> int \<Rightarrow> int \<times> int \<Rightarrow> int \<times> int" where
  "translate d p = (fst p + fst d, snd p + snd d)"

lemma shoelace_translate:
  "ps \<noteq> [] \<Longrightarrow> shoelace (map (translate d) ps) =
     shoelace ps + snd d * (fst (last ps) - fst (hd ps)) - fst d * (snd (last ps) - snd (hd ps))"
  by (induction ps rule: shoelace.induct) (auto simp: translate_def algebra_simps)

lemma close_polygon_translate:
  assumes "ps \<noteq> []"
  shows "close_polygon (map (translate d) ps) = map (translate d) (close_polygon ps)"
    and "shoelace (map (translate d) (close_polygon ps)) = shoelace (close_polygon ps)"
proof -
  have "translate d a = translate d b \<longleftrightarrow> a = b" for a b
    by (auto simp: translate_def prod_eq_iff)
  then show "close_polygon (map (translate d) ps) = map (translate d) (close_polygon ps)"
    using assms by (simp add: close_polygon_def last_map hd_map)
  have "close_polygon ps \<noteq> []" "last (close_polygon ps) = hd (close_polygon ps)"
    using assms by (auto simp: close_polygon_def)
  then show "shoelace (map (translate d) (close_polygon ps)) = shoelace (close_polygon ps)"
    by (simp add: shoelace_translate)
qed

section \<open>Grids and ranges\<close>

lemma rat_mod_bounds: "0 < g \<Longrightarrow> 0 \<le> rat_mod v g \<and> rat_mod v g < g"
proof -
  assume g: "0 < g"
  have "of_int \<lfloor>v / g\<rfloor> \<le> v / g" "v / g < of_int \<lfloor>v / g\<rfloor> + 1" by linarith+
  then have "g * of_int \<lfloor>v / g\<rfloor> \<le> g * (v / g)" "g * (v / g) < g * (of_int \<lfloor>v / g\<rfloor> + 1)"
    using g by (simp_all only: mult_le_cancel_left_pos mult_less_cancel_left_pos)
  with g show ?thesis by (simp add: rat_mod_def algebra_simps)
qed

lemma float_range_loop_some:
  assumes "0 < step"
  shows "float_range_loop stop step cur l =
    Some (l @ map (\<lambda>k. cur + of_nat k * step) [0..<nat \<lceil>(stop - cur) / step\<rceil>])"
proof (induction "nat \<lceil>(stop - cur) / step\<rceil>" arbitrary: cur l)
  case 0
  then have "(stop - cur) / step \<le> 0" by (simp add: ceiling_le_iff)
  then have "\<not> cur < stop" using assms by (simp add: field_simps)
  with 0 show ?case by (subst float_range_loop.simps) simp
next
  case (Suc n)
  have "0 < (stop - cur) / step"
  proof (rule ccontr)
    assume "\<not> 0 < (stop - cur) / step"
    then have "nat \<lceil>(stop - cur) / step\<rceil> = 0" by (simp add: ceiling_le_iff)
    with Suc.hyps(2) show False by simp
  qed
  then have lt: "cur < stop" using assms by (simp add: zero_less_divide_iff)
  have "(stop - (cur + step)) / step = (stop - cur) / step - 1" using assms by (simp add: field_simps)
  then have n: "n = nat \<lceil>(stop - (cur + step)) / step\<rceil>" using Suc.hyps(2) by (simp add: ceiling_diff_one)
  have "float_range_loop stop step cur l = float_range_loop stop step (cur + step) (l @ [cur])"
    using lt by (subst float_range_loop.simps) simp
  also have "\<dots> = Some ((l @ [cur]) @ map (\<lambda>k. (cur + step) + of_nat k * step) [0..<n])"
    using Suc.hyps(1) [OF n] n by simp
  also have "(l @ [cur]) @ map (\<lambda>k. (cur + step) + of_nat k * step) [0..<n] =
      l @ map (\<lambda>k. cur + of_nat k * step) [0..<Suc n]"
    by (simp add: upt_conv_Cons map_Suc_upt [symmetric] algebra_simps del: upt_Suc)
  finally show ?case using Suc.hyps(2) by simp
qed

lemma float_range_loop_diverges:
  assumes "step \<le> 0" and "cur < stop"
  shows "float_range_loop stop step cur l = None"
proof (rule ccontr)
  assume "float_range_loop stop step cur l \<noteq> None"
  then obtain r where ret: "float_range_loop stop step cur l = Some r" by auto
  have "step \<le> 0 \<longrightarrow> cur < stop \<longrightarrow> False"
  proof (rule float_range_loop.raw_induct [where P = "\<lambda>stop step cur l r. step \<le> 0 \<longrightarrow> cur < stop \<longrightarrow> False", OF _ ret])
    fix f stop step cur l r
    assume IH: "\<And>stop step cur l r. f stop step cur l = Some r \<Longrightarrow> step \<le> 0 \<longrightarrow> cur < stop \<longrightarrow> False"
      and eq: "(if cur < stop then f stop step (cur + step) (l @ [cur]) else Some l) = Some (r :: rat list)"
    show "step \<le> (0::rat) \<longrightarrow> cur < stop \<longrightarrow> False"
    proof (intro impI)
      assume "step \<le> 0" "cur < stop"
      with eq have "f stop step (cur + step) (l @ [cur]) = Some r" by simp
      with IH \<open>step \<le> 0\<close> \<open>cur < stop\<close> show False by (metis add_less_same_cancel1 add_mono_thms_linordered_semiring(1) add.commute le_less_trans add_0_right add_left_mono)
    qed
  qed
  with assms show False by simp
qed

section \<open>Choosing a unit\<close>

lemma find_multiplier_Some:
  "find_multiplier v ms = Some i \<Longrightarrow>
   Suc i < length ms \<and> ms ! i \<le> v \<and> v < ms ! Suc i"
proof (induction v ms arbitrary: i rule: find_multiplier.induct)
  case (1 v a b ms)
  then show ?case by (auto split: if_splits)
qed auto

lemma find_multiplier_None:
  "find_multiplier v (m # ms) = None \<Longrightarrow> m \<le> v \<Longrightarrow> last (m # ms) \<le> v"
proof (induction ms arbitrary: m)
  case Nil
  then show ?case by simp
next
  case (Cons b ms)
  then show ?case by (auto split: if_splits simp: not_less)
qed

lemma multiplier_index_correct:
  assumes "ms \<noteq> []"
  shows "\<exists>i. multiplier_index v ms = Inr i \<and> i < length ms \<and>
    (v < hd ms \<longrightarrow> i = 0) \<and>
    (hd ms \<le> v \<longrightarrow> sorted ms \<longrightarrow> ms ! i \<le> v \<and> (Suc i < length ms \<longrightarrow> v < ms ! Suc i))"
proof -
  obtain m t where mt: "ms = m # t" using assms by (cases ms) auto
  show ?thesis
  proof (cases "v < m \<or> last ms \<le> v")
    case True
    have "last ms = ms ! (length ms - 1)" using assms by (rule last_conv_nth)
    with True assms mt show ?thesis
      by (auto simp: multiplier_index_def py_index_hd py_index_last intro!: exI [of _ "length t"] exI [of _ 0])
  next
    case False
    with find_multiplier_None [of v m t] mt obtain i where i: "find_multiplier v ms = Some i"
      by (cases "find_multiplier v ms") auto
    with find_multiplier_Some [OF i] False mt assms show ?thesis
      by (auto simp: multiplier_index_def py_index_hd py_index_last)
  qed
qed

section \<open>Properties\<close>

text \<open>
  \<open>gcf\<close> computes the greatest common divisor of any two integers for every tolerance below 1,
  \<open>lcm\<close> the least common multiple up to sign, and \<open>reduce_fraction\<close> an equal fraction in lowest
  terms, except for 0/0, which raises ZeroDivisionError.
\<close>

theorem gcf_lcm_reduce:
  assumes "0 \<le> epsilon" and "epsilon < 1"
  shows "gcf a b epsilon = gcd a b \<and> \<bar>lcm_py a b\<bar> = lcm a b \<and>
    (if a = 0 \<and> b = 0 then reduce_fraction (a, b) = Inl ZeroDivisionError
     else \<exists>n d. reduce_fraction (a, b) = Inr (n, d) \<and> coprime n d \<and> n * b = a * d \<and>
            0 \<le> n * a \<and> 0 \<le> d * b)"
proof (intro conjI)
  show "gcf a b epsilon = gcd a b" by (rule gcf_gcd [OF assms])
  show "\<bar>lcm_py a b\<bar> = lcm a b" by (rule lcm_py_abs)
  show "if a = 0 \<and> b = 0 then reduce_fraction (a, b) = Inl ZeroDivisionError
     else \<exists>n d. reduce_fraction (a, b) = Inr (n, d) \<and> coprime n d \<and> n * b = a * d \<and>
            0 \<le> n * a \<and> 0 \<le> d * b"
  proof (cases "gcd a b = 0")
    case True
    then show ?thesis by (simp add: reduce_fraction_def)
  next
    case False
    let ?g = "gcd a b"
    have g: "0 < ?g" using False by simp
    obtain n d where nd: "a = n * ?g" "b = d * ?g" by (metis dvd_def gcd_dvd1 gcd_dvd2 mult.commute)
    then have q: "a div ?g = n" "b div ?g = d" using False by (metis nonzero_mult_div_cancel_right)+
    have "coprime n d" using q False by (metis div_gcd_coprime gcd_eq_0_iff)
    moreover have "n * b = a * d" using nd by (metis mult.assoc mult.commute)
    moreover have "0 \<le> n * a" "0 \<le> d * b" using nd g by (metis zero_le_mult_iff zero_le_square mult.assoc less_imp_le)+
    ultimately show ?thesis using q False by (auto simp: reduce_fraction_def Let_def)
  qed
qed

theorem gcf_lcm_reduce_witness:
  "(0::rat) \<le> 1 / 2 \<and> (1 / 2::rat) < 1 \<and> gcf (- 2) 4 (1 / 2) = gcd (- 2) 4 \<and>
   reduce_fraction (0, 0) = Inl ZeroDivisionError"
proof -
  have h: "(0::rat) \<le> 1 / 2" "(1 / 2::rat) < 1" by simp_all
  show ?thesis
    using h gcf_lcm_reduce [OF h, of "- 2" 4] gcf_lcm_reduce [OF h, of 0 0] by simp
qed

text \<open>
  \<open>quantile\<close> of a non-empty list is defined for every \<open>p\<close> between 0 and 1, grows with \<open>p\<close>, is the
  minimum of the list at 0 and the maximum at 1.
\<close>

theorem quantile_monotone:
  assumes "l \<noteq> []" and "0 \<le> p" and "p \<le> q" and "q \<le> 1"
  shows "\<exists>x y. quantile l p = Inr x \<and> quantile l q = Inr y \<and> x \<le> y \<and>
    quantile l 0 = Inr (Min (set l)) \<and> quantile l 1 = Inr (Max (set l)) \<and>
    Min (set l) \<le> x \<and> y \<le> Max (set l)"
proof -
  obtain x y where xy: "quantile l p = Inr x" "quantile l q = Inr y" "x \<le> y"
    using quantile_mono_aux [OF assms] by auto
  have "p \<le> 1" "0 \<le> q" using assms by linarith+
  then have "Min (set l) \<le> x" "y \<le> Max (set l)"
    using quantile_mono_aux [of l 0 p] quantile_mono_aux [of l q 1] quantile_ends [of l] xy assms
    by auto
  with xy quantile_ends [OF assms(1)] show ?thesis by auto
qed

theorem quantile_monotone_witness:
  "[3, 1, 2::rat] \<noteq> [] \<and> (\<exists>x y. quantile [3, 1, 2] (1 / 4) = Inr x \<and>
     quantile [3, 1, 2] (3 / 4) = Inr y \<and> x \<le> y)"
  using quantile_monotone [of "[3, 1, 2]" "1 / 4" "3 / 4"] by auto

text \<open>
  \<open>trim\<close> of a non-empty list returns a sorted part of it, nothing is added, every discarded value
  lies more than one and a half interquartile ranges outside the quartiles, and no value between the
  quartiles is lost. On the empty list it raises IndexError.
\<close>

theorem trim_keeps_core:
  "trim [] = Inl IndexError \<and>
   (l \<noteq> [] \<longrightarrow> (\<exists>q1 q3 r. quantile l (1 / 4) = Inr q1 \<and> quantile l (3 / 4) = Inr q3 \<and> q1 \<le> q3 \<and>
      trim l = Inr r \<and> sorted r \<and> mset r \<subseteq># mset l \<and>
      (\<forall>x \<in> set l. x \<notin> set r \<longrightarrow> x < q1 - 3 / 2 * (q3 - q1) \<or> q3 + 3 / 2 * (q3 - q1) < x) \<and>
      (\<forall>x \<in> set l. q1 \<le> x \<and> x \<le> q3 \<longrightarrow> x \<in> set r)))"
proof (intro conjI impI)
  show "trim [] = Inl IndexError"
    by (simp add: trim_def trim_median_def py_index_def)
  assume "l \<noteq> []"
  then obtain q1 q3 where q: "quantile l (1 / 4) = Inr q1" "quantile l (3 / 4) = Inr q3" "q1 \<le> q3"
      and t: "trim l = Inr (filter (in_fence q1 q3) (sort l))"
    unfolding in_fence_def by (rule trim_eval) auto
  show "\<exists>q1 q3 r. quantile l (1 / 4) = Inr q1 \<and> quantile l (3 / 4) = Inr q3 \<and> q1 \<le> q3 \<and>
      trim l = Inr r \<and> sorted r \<and> mset r \<subseteq># mset l \<and>
      (\<forall>x \<in> set l. x \<notin> set r \<longrightarrow> x < q1 - 3 / 2 * (q3 - q1) \<or> q3 + 3 / 2 * (q3 - q1) < x) \<and>
      (\<forall>x \<in> set l. q1 \<le> x \<and> x \<le> q3 \<longrightarrow> x \<in> set r)"
    using q t in_fence_filter [OF q(3), of l] by (auto intro!: exI [of _ "filter (in_fence q1 q3) (sort l)"])
qed

theorem trim_keeps_core_witness:
  "\<exists>r. trim [5, 1, 2, 100, 3] = Inr r \<and> sorted r \<and> mset r \<subseteq># mset [5, 1, 2, 100, 3]"
  using trim_keeps_core [of "[5, 1, 2, 100, 3]"] by blast

text \<open>
  \<open>polygon_area\<close> is exact for corners with integer coordinates and an even precision (the default
  is 100): it is half the absolute value of the shoelace sum of the closed polygon, it does not change
  when the polygon is moved, and the caller's list is left scaled and closed.
\<close>

theorem polygon_area_exact:
  assumes "ps \<noteq> []" and "even p" and "p \<noteq> 0"
  shows "polygon_area (int_points ps) p =
           Inr (of_int \<bar>shoelace (close_polygon ps)\<bar> / 2, map (scale_int p) (close_polygon ps)) \<and>
         (\<exists>qs. polygon_area (int_points (map (translate d) ps)) p =
           Inr (of_int \<bar>shoelace (close_polygon ps)\<bar> / 2, qs))"
  using polygon_area_int [OF assms] polygon_area_int [of "map (translate d) ps" p] assms
  by (simp add: close_polygon_translate)

theorem polygon_area_exact_witness:
  "even (100::int) \<and> (100::int) \<noteq> 0 \<and>
   (\<exists>qs. polygon_area (int_points [(0, 0), (0, 1), (1, 1), (1, 2), (2, 2), (2, 0)]) 100 = Inr (3, qs)) \<and>
   (\<exists>qs. polygon_area (int_points (map (translate (5, - 7))
      [(0, 0), (0, 1), (1, 1), (1, 2), (2, 2), (2, 0)])) 100 = Inr (3, qs))"
  using polygon_area_exact [of "[(0, 0), (0, 1), (1, 1), (1, 2), (2, 2), (2, 0)]" 100 "(5, - 7)"]
  by (simp add: close_polygon_def)

text \<open>
  \<open>round_grid\<close> on a non-negative value and a positive grid: mode 0 gives a multiple of the grid at
  most half a grid away; for a value off the grid modes 1 and -1 give the next multiple above and the
  last one below; for a value on the grid modes 1 and -1 raise UnboundLocalError, because no branch
  sets \<open>add_one\<close>.
\<close>

theorem round_grid_modes:
  assumes "0 < grid" and "0 \<le> v"
  shows "\<exists>k j m. round_grid v grid 0 = Inr (of_int k * grid) \<and> \<bar>of_int k * grid - v\<bar> \<le> grid / 2 \<and>
    (if rat_mod v grid = 0
     then round_grid v grid 1 = Inl UnboundLocalError \<and> round_grid v grid (- 1) = Inl UnboundLocalError
     else round_grid v grid 1 = Inr (of_int j * grid) \<and> v < of_int j * grid \<and>
          of_int j * grid < v + grid \<and>
          round_grid v grid (- 1) = Inr (of_int m * grid) \<and> of_int m * grid < v \<and>
          v < of_int m * grid + grid)"
proof -
  define m where "m = \<lfloor>v / grid\<rfloor>"
  define off where "off = rat_mod v grid"
  have off: "0 \<le> off" "off < grid" using rat_mod_bounds [OF assms(1), of v] by (simp_all add: off_def)
  have v: "v = of_int m * grid + off" by (simp add: off_def rat_mod_def m_def)
  have t: "trunc (v / grid) = m" using assms by (simp add: m_def trunc_nonneg)
  define k where "k = m + (if off \<ge> grid / 2 then 1 else 0)"
  have modes: "round_grid v grid 0 = Inr (of_int k * grid)"
      "off \<noteq> 0 \<Longrightarrow> round_grid v grid 1 = Inr (of_int (m + 1) * grid)"
      "off \<noteq> 0 \<Longrightarrow> round_grid v grid (- 1) = Inr (of_int m * grid)"
      "off = 0 \<Longrightarrow> round_grid v grid 1 = Inl UnboundLocalError"
      "off = 0 \<Longrightarrow> round_grid v grid (- 1) = Inl UnboundLocalError"
    using assms(1) by (simp_all add: round_grid_def t k_def off_def [symmetric] Let_def)
  have "\<bar>of_int k * grid - v\<bar> \<le> grid / 2"
    using off v by (auto simp: k_def algebra_simps)
  moreover have "off \<noteq> 0 \<Longrightarrow> v < of_int (m + 1) * grid \<and> of_int (m + 1) * grid < v + grid \<and>
      of_int m * grid < v \<and> v < of_int m * grid + grid"
    using off v by (auto simp: algebra_simps)
  ultimately show ?thesis
    using modes unfolding off_def [symmetric]
    by (intro exI [of _ k] exI [of _ "m + 1"] exI [of _ m]) auto
qed

theorem round_grid_modes_witness:
  "(0::rat) < 5 \<and> (0::rat) \<le> 10 \<and> round_grid 10 5 1 = Inl UnboundLocalError"
proof -
  have "rat_mod 10 5 = 0" by (simp add: rat_mod_def)
  then show ?thesis using round_grid_modes [of 5 10] by auto
qed

text \<open>
  for a negative value off the grid \<open>round_grid\<close> in mode 0 does not round to the nearest multiple:
  the quotient is truncated towards zero while the offset is measured from below, so -7 on a grid
  of 5 gives 0.
\<close>

theorem round_grid_negative: "round_grid (- 7) 5 0 = Inr 0"
proof -
  have "\<lfloor>- (7 / 5) :: rat\<rfloor> = - 2" "\<lceil>- (7 / 5) :: rat\<rceil> = - 1"
    by (simp_all add: floor_eq_iff ceiling_eq_iff)
  then show ?thesis by (simp add: round_grid_def rat_mod_def trunc_def)
qed

text \<open>
  \<open>float_range\<close> returns for every positive step, with the arithmetic progression from the start
  that stays below the stop, and never returns when the step is not positive and the start lies below
  the stop.
\<close>

theorem float_range_progression:
  "(0 < step \<longrightarrow> float_range start (Some stop) (Some step) =
      Some (map (\<lambda>k. start + of_nat k * step) [0..<nat \<lceil>(stop - start) / step\<rceil>])) \<and>
   (step \<le> 0 \<and> start < stop \<longrightarrow> float_range start (Some stop) (Some step) = None)"
  by (simp add: float_range_def float_range_loop_some float_range_loop_diverges)

theorem float_range_progression_witness:
  "float_range 0 (Some 1) (Some (1 / 4)) = Some [0, 1 / 4, 1 / 2, 3 / 4] \<and>
   float_range 0 (Some 1) (Some 0) = None"
proof -
  have "[0..<4] = [0, 1, 2, 3::nat]" by (simp add: upt_rec)
  then show ?thesis
    using float_range_progression [of "1 / 4" 0 1] float_range_progression [of 0 0 1] by simp
qed

text \<open>
  \<open>nice_units\<close> labels two to the power of 30 in the binary mode with the full name \<open>mega\<close>; the
  symbol of the same entry is \<open>G\<close>.
\<close>

theorem nice_units_giga_is_mega:
  "nice_units fmt_f fmt_g rnd (2 ^ 30) dp (Some s) suffix space False True Bin =
     Inr (fmt_g s 1 @ space @ ''mega'' @ suffix) \<and>
   nice_units fmt_f fmt_g rnd (2 ^ 30) dp (Some s) suffix space False False Bin =
     Inr (fmt_g s 1 @ space @ ''G'' @ suffix)"
proof -
  have ks: "sort (d_keys (unit_prefixes False Bin)) = [1, 2 ^ 10, 2 ^ 20, 2 ^ 30, 2 ^ 40, 2 ^ 50, 2 ^ 60]"
    by (simp add: unit_prefixes_def bin_prefixes_def)
  have ix: "multiplier_index (2 ^ 30) [1, 2 ^ 10, 2 ^ 20, 2 ^ 30, 2 ^ 40, 2 ^ 50, 2 ^ 60] = Inr 3"
    by (simp add: multiplier_index_def py_index_def)
  have nth: "[1, 2 ^ 10, 2 ^ 20, 2 ^ 30, 2 ^ 40, 2 ^ 50, 2 ^ 60] ! 3 = (2 ^ 30 :: rat)"
    by (simp add: eval_nat_numeral)
  have "d_getitem (unit_prefixes False Bin) (2 ^ 30) = Inr (''G'', ''mega'')"
    by (simp add: unit_prefixes_def bin_prefixes_def d_getitem_def)
  then show ?thesis by (simp only: nice_units_def Let_def ks ix bind_r_Inr nth) simp
qed

end
