(* ===== verification/RadSequences.thy ===== *)
theory RadSequences
  imports PyString "HOL-Library.Sublist"
begin

text \<open>
  Sequences and dictionaries of \<^verbatim>\<open>bindings/python/rad_util.py\<close>: \<open>transpose\<close>, \<open>permutations\<close>,
  \<open>uniquify\<close>, \<open>reverse_dict\<close>, \<open>find_common_fixes\<close>, \<open>is_rotated\<close>, \<open>get_args\<close> and \<open>pt2str\<close>. The
  iteration order of a Python 2 dictionary is the parameter \<open>ko\<close>.
\<close>

section \<open>Definitions\<close>

text \<open>\<open>zip\<close> stops with the shortest row.\<close>

definition transpose_py :: "'a list list \<Rightarrow> 'a list list" where
  "transpose_py matrix =
     (if matrix = [] then []
      else map (\<lambda>i. map (\<lambda>row. row ! i) matrix) [0..<Min (set (map length matrix))])"

definition pt2str :: "('a \<Rightarrow> string) \<Rightarrow> 'a \<times> 'a \<Rightarrow> string" where
  "pt2str str point = ''('' @ str (fst point) @ '', '' @ str (snd point) @ '')''"

definition list_insert :: "nat \<Rightarrow> 'a \<Rightarrow> 'a list \<Rightarrow> 'a list" where
  "list_insert i x xs = take i xs @ x # drop i xs"

fun permutations :: "'a list \<Rightarrow> 'a list list" where
  "permutations (item # y # rest) =
     concat (map (\<lambda>sub_list. map (\<lambda>i. list_insert i item sub_list) [0..<length (item # y # rest)])
       (permutations (y # rest)))"
| "permutations input_list = [input_list]"

fun uniq_ordered :: "('a, nat) dict \<Rightarrow> 'a list \<Rightarrow> 'a list" where
  "uniq_ordered d [] = []"
| "uniq_ordered d (x # seq) =
     (if x \<in> set (d_keys d) then uniq_ordered d seq
      else x # uniq_ordered (AList.update x 0 d) seq)"

definition uniq_slow :: "'a list \<Rightarrow> 'a list" where
  "uniq_slow seq = foldl (\<lambda>result x. if x \<in> set result then result else result @ [x]) [] seq"

text \<open>An unhashable item raises TypeError in the fast algorithm, and the slow one starts over.\<close>

definition uniquify :: "('a list \<Rightarrow> 'a list) \<Rightarrow> ('a \<Rightarrow> bool) \<Rightarrow> 'a list \<Rightarrow> bool \<Rightarrow> 'a list" where
  "uniquify ko hashable seq preserve_order =
     (if list_all hashable seq
      then (if preserve_order then uniq_ordered [] seq
            else ko (d_keys (foldl (\<lambda>d x. AList.update x (0::nat) d) [] seq)))
      else uniq_slow seq)"

definition reverse_dict :: "(('k \<times> 'v) list \<Rightarrow> ('k \<times> 'v) list) \<Rightarrow> ('k, 'v) dict \<Rightarrow> ('v, 'k) dict" where
  "reverse_dict ko d = foldl (\<lambda>result (key, v). AList.update v key result) [] (ko d)"

text \<open>The two loops of \<open>find_common_fixes\<close>; the indices stay inside both sequences.\<close>

function cf_prefix :: "'a list \<Rightarrow> 'a list \<Rightarrow> nat \<Rightarrow> nat \<Rightarrow> 'a list \<Rightarrow> 'a list" where
  "cf_prefix s1 s2 common_len i acc =
     (if i < common_len
      then (if s1 ! i \<noteq> s2 ! i then acc else cf_prefix s1 s2 common_len (Suc i) (acc @ [s1 ! i]))
      else acc)"
  by pat_completeness auto
termination
  by (relation "measure (\<lambda>(s1, s2, c, i, acc). c - i)") auto

function cf_suffix :: "'a list \<Rightarrow> 'a list \<Rightarrow> nat \<Rightarrow> nat \<Rightarrow> 'a list \<Rightarrow> 'a list" where
  "cf_suffix s1 s2 common_len i acc =
     (if i < common_len + 1
      then (if s1 ! (length s1 - i) \<noteq> s2 ! (length s2 - i) then acc
            else cf_suffix s1 s2 common_len (Suc i) (acc @ [s1 ! (length s1 - i)]))
      else acc)"
  by pat_completeness auto
termination
  by (relation "measure (\<lambda>(s1, s2, c, i, acc). c + 1 - i)") auto

declare cf_prefix.simps [simp del] cf_suffix.simps [simp del]

definition find_common_fixes :: "'a list \<Rightarrow> 'a list \<Rightarrow> 'a list \<times> 'a list" where
  "find_common_fixes s1 s2 =
     (let common_len = min (length s1) (length s2)
      in (cf_prefix s1 s2 common_len 0 [], rev (cf_suffix s1 s2 common_len 1 [])))"

definition is_rotated :: "'a list \<Rightarrow> 'a list \<Rightarrow> bool result" where
  "is_rotated seq1 seq2 =
     (if length seq1 \<noteq> length seq2 then Inr False
      else bind_r (py_index seq2 0) (\<lambda>head_item.
        let start_indexes = filter (\<lambda>i. seq1 ! i = head_item) [0..<length seq1];
            double_seq1 = seq1 @ seq1
        in Inr (list_ex (\<lambda>i. py_slice double_seq1 (int i) (int (i + length seq1)) = seq2)
                  start_indexes)))"

datatype arg_value = ArgNone | ArgStr string | ArgList "string list"

definition get_args :: "string list \<Rightarrow> (string, arg_value) dict" where
  "get_args argv =
     (let (d, args) = foldl
        (\<lambda>(d, args) arg.
           if startswith arg ''-''
           then (let parts = split_char (CHR ''='') (dropWhile (\<lambda>c. c = CHR ''-'') arg)
                 in if length parts = 2 then (AList.update (parts ! 0) (ArgStr (parts ! 1)) d, args)
                    else (AList.update (parts ! 0) ArgNone d, args))
           else (d, args @ [arg]))
        ([], []) argv
      in AList.update ''args'' (ArgList args) d)"

section \<open>Transposition\<close>

definition rectangular :: "nat \<Rightarrow> 'a list list \<Rightarrow> bool" where
  "rectangular n matrix \<longleftrightarrow> (\<forall>row \<in> set matrix. length row = n)"

lemma transpose_rectangular:
  assumes "matrix \<noteq> []" and "rectangular n matrix"
  shows "transpose_py matrix = map (\<lambda>i. map (\<lambda>row. row ! i) matrix) [0..<n]"
proof -
  have "set (map length matrix) = {n}"
    using assms by (cases matrix) (auto simp: rectangular_def)
  with assms(1) show ?thesis by (simp add: transpose_py_def)
qed

lemma transpose_involution:
  assumes "matrix \<noteq> []" and "0 < n" and "rectangular n matrix"
  shows "transpose_py (transpose_py matrix) = matrix"
proof -
  let ?t = "map (\<lambda>i. map (\<lambda>row. row ! i) matrix) [0..<n]"
  have t: "transpose_py matrix = ?t" using assms by (intro transpose_rectangular)
  have "?t \<noteq> []" "rectangular (length matrix) ?t" using assms(2) by (auto simp: rectangular_def)
  then have "transpose_py ?t = map (\<lambda>j. map (\<lambda>col. col ! j) ?t) [0..<length matrix]"
    by (rule transpose_rectangular)
  also have "\<dots> = map (\<lambda>j. matrix ! j) [0..<length matrix]"
  proof (rule map_cong [OF refl])
    fix j assume "j \<in> set [0..<length matrix]"
    then have j: "j < length matrix" by simp
    then have "length (matrix ! j) = n" using assms(3) by (simp add: rectangular_def)
    with j show "map (\<lambda>col. col ! j) ?t = matrix ! j" by (intro nth_equalityI) auto
  qed
  also have "\<dots> = matrix" by (rule map_nth)
  finally show ?thesis by (simp only: t)
qed

section \<open>Permutations\<close>

lemma list_insert_mset: "mset (list_insert i x xs) = add_mset x (mset xs)"
  by (metis append_take_drop_id list_insert_def mset.simps(2) mset_append union_mset_add_mset_right)

lemma permutations_Cons:
  "xs \<noteq> [] \<Longrightarrow> permutations (x # xs) =
     concat (map (\<lambda>sub. map (\<lambda>i. list_insert i x sub) [0..<Suc (length xs)]) (permutations xs))"
  by (cases xs) auto

lemma set_permutations: "set (permutations xs) = {ys. mset ys = mset xs}"
proof (induction xs)
  case Nil
  show ?case by auto
next
  case (Cons x xs)
  show ?case
  proof (cases "xs = []")
    case True
    then show ?thesis by (auto dest: mset_eq_length simp: length_Suc_conv)
  next
    case False
    have "ys \<in> set (permutations (x # xs)) \<longleftrightarrow> mset ys = mset (x # xs)" for ys
    proof
      assume "ys \<in> set (permutations (x # xs))"
      then show "mset ys = mset (x # xs)"
        using Cons False by (auto simp: permutations_Cons list_insert_mset simp del: upt_Suc)
    next
      assume ys: "mset ys = mset (x # xs)"
      then have "x \<in> set ys" by (metis list.set_intros(1) set_mset_mset)
      then obtain a b where ab: "ys = a @ x # b" by (auto dest: split_list)
      with ys have perm: "mset (a @ b) = mset xs" by simp
      then have len: "length (a @ b) = length xs" by (rule mset_eq_length)
      then have "length a \<in> set [0..<Suc (length xs)]" by (simp del: upt_Suc)
      moreover have "ys = list_insert (length a) x (a @ b)" by (simp add: ab list_insert_def)
      ultimately have "ys \<in> (\<lambda>i. list_insert i x (a @ b)) ` set [0..<Suc (length xs)]"
        by (intro image_eqI)
      moreover have "a @ b \<in> set (permutations xs)" unfolding Cons using perm by (rule CollectI)
      ultimately have "\<exists>sub \<in> set (permutations xs). ys \<in> (\<lambda>i. list_insert i x sub) ` set [0..<Suc (length xs)]"
        by (intro bexI)
      then show "ys \<in> set (permutations (x # xs))"
        by (simp only: permutations_Cons [OF False] set_concat set_map image_image UN_iff)
    qed
    then show ?thesis by blast
  qed
qed

lemma length_permutations: "length (permutations xs) = fact (length xs)"
proof (induction xs)
  case Nil
  show ?case by simp
next
  case (Cons x xs)
  show ?case
  proof (cases "xs = []")
    case True
    then show ?thesis by simp
  next
    case False
    have "length (concat (map (\<lambda>sub. map (\<lambda>i. list_insert i x sub) [0..<n]) yss)) = n * length yss" for n yss
      by (induction yss) auto
    with Cons False show ?thesis by (simp add: permutations_Cons del: upt_Suc)
  qed
qed

lemma distinct_permutations:
  assumes "distinct xs"
  shows "distinct (permutations xs)"
proof -
  let ?A = "{ys. length ys = length xs \<and> distinct ys \<and> set ys \<subseteq> set xs}"
  have "mset ys = mset xs \<longleftrightarrow> length ys = length xs \<and> distinct ys \<and> set ys \<subseteq> set xs" for ys
    using assms by (metis List.finite_set card_subset_eq distinct_card mset_eq_length
        mset_eq_setD mset_set_set mset_eq_imp_distinct_iff order_refl)
  then have "card (set (permutations xs)) = card ?A" by (simp add: set_permutations)
  also have "\<dots> = \<Prod>{length xs - length xs + 1..length xs}"
    using card_lists_distinct_length_eq [of "set xs" "length xs"] assms by (simp add: distinct_card)
  also have "\<dots> = fact (length xs)" by (simp add: fact_prod)
  finally show ?thesis by (intro card_distinct) (simp add: length_permutations)
qed

section \<open>Duplicates\<close>

lemma uniq_ordered_remdups:
  "uniq_ordered d seq = filter (\<lambda>x. x \<notin> set (d_keys d)) (rev (remdups (rev seq)))"
proof (induction seq rule: rev_induct)
  case Nil
  show ?case by simp
next
  case (snoc x seq)
  have app: "uniq_ordered d (seq @ [x]) =
      uniq_ordered d seq @ (if x \<in> set (d_keys d) \<union> set seq then [] else [x])" for d
    by (induction seq arbitrary: d) (auto simp: dom_update)
  show ?case using snoc by (auto simp: app)
qed

lemma uniq_ordered_eq: "uniq_ordered [] seq = rev (remdups (rev seq))"
  by (simp add: uniq_ordered_remdups)

lemma uniq_slow_eq: "uniq_slow seq = rev (remdups (rev seq))"
proof (induction seq rule: rev_induct)
  case Nil
  show ?case by (simp add: uniq_slow_def)
next
  case (snoc x seq)
  have "uniq_slow (seq @ [x]) = (if x \<in> set (uniq_slow seq) then uniq_slow seq else uniq_slow seq @ [x])"
    by (simp add: uniq_slow_def)
  with snoc show ?case by auto
qed

lemma uniq_keys: "d_ok d \<Longrightarrow>
  d_ok (foldl (\<lambda>d x. AList.update x v d) d seq) \<and>
  set (d_keys (foldl (\<lambda>d x. AList.update x v d) d seq)) = set (d_keys d) \<union> set seq"
proof (induction seq arbitrary: d)
  case Nil
  then show ?case by simp
next
  case (Cons x seq)
  from Cons.IH [of "AList.update x v d"] Cons.prems show ?case
    by (auto simp: dom_update)
qed

section \<open>Reversing a dictionary\<close>

lemma map_of_reverse_fold:
  "inj_on snd (set d) \<Longrightarrow>
   map_of (foldl (\<lambda>r (k, v). AList.update v k r) [] d) x = Some k \<longleftrightarrow> (k, x) \<in> set d"
proof (induction d rule: rev_induct)
  case Nil
  show ?case by simp
next
  case (snoc p d)
  obtain k' v where p: "p = (k', v)" by (cases p)
  from snoc.prems have inj: "inj_on snd (set d)" by (auto intro: inj_on_subset)
  have "(j, v) \<in> set d \<Longrightarrow> j = k'" for j
    using inj_onD [OF snoc.prems, of "(j, v)" p] p by auto
  with snoc.IH [OF inj] p show ?case by auto
qed

lemma reverse_fold_ok: "d_ok acc \<Longrightarrow> d_ok (foldl (\<lambda>r (k, v). AList.update v k r) acc d)"
  by (induction d arbitrary: acc) auto

section \<open>Common prefix and suffix\<close>

lemma cf_prefix_spec:
  assumes "i \<le> c" "c \<le> length s1" "c \<le> length s2" "take i s1 = take i s2"
  shows "\<exists>n. i \<le> n \<and> n \<le> c \<and> cf_prefix s1 s2 c i (take i s1) = take n s1 \<and>
    take n s1 = take n s2 \<and> (n < c \<longrightarrow> s1 ! n \<noteq> s2 ! n)"
  using assms
proof (induction "c - i" arbitrary: i)
  case 0
  then show ?case by (subst cf_prefix.simps) auto
next
  case (Suc k)
  then have ic: "i < c" by simp
  show ?case
  proof (cases "s1 ! i = s2 ! i")
    case False
    with ic Suc.prems show ?thesis by (subst cf_prefix.simps) (auto intro!: exI [of _ i])
  next
    case True
    have t: "take (Suc i) s1 = take i s1 @ [s1 ! i]" "take (Suc i) s2 = take i s2 @ [s2 ! i]"
      using ic Suc.prems by (simp_all add: take_Suc_conv_app_nth)
    with True Suc.prems have eq: "take (Suc i) s1 = take (Suc i) s2" by simp
    have "\<exists>n. Suc i \<le> n \<and> n \<le> c \<and> cf_prefix s1 s2 c (Suc i) (take (Suc i) s1) = take n s1 \<and>
        take n s1 = take n s2 \<and> (n < c \<longrightarrow> s1 ! n \<noteq> s2 ! n)"
      using Suc.hyps(2) Suc.prems ic eq by (intro Suc.hyps(1)) auto
    moreover have "cf_prefix s1 s2 c i (take i s1) = cf_prefix s1 s2 c (Suc i) (take (Suc i) s1)"
      using ic True t by (subst cf_prefix.simps) simp
    ultimately show ?thesis by (metis Suc_leD)
  qed
qed

text \<open>The suffix loop is the prefix loop on the reversed sequences.\<close>

lemma cf_suffix_rev:
  "c \<le> length s1 \<Longrightarrow> c \<le> length s2 \<Longrightarrow>
   cf_suffix s1 s2 c (Suc i) acc = cf_prefix (rev s1) (rev s2) c i acc"
proof (induction "c - i" arbitrary: i acc)
  case 0
  then show ?case by (subst cf_suffix.simps, subst cf_prefix.simps) simp
next
  case (Suc k)
  then have ic: "i < c" by simp
  then have "rev s1 ! i = s1 ! (length s1 - Suc i)" "rev s2 ! i = s2 ! (length s2 - Suc i)"
    using Suc.prems by (simp_all add: rev_nth)
  moreover have "cf_suffix s1 s2 c (Suc (Suc i)) acc' = cf_prefix (rev s1) (rev s2) c (Suc i) acc'" for acc'
    using Suc.hyps(2) Suc.prems by (intro Suc.hyps(1)) auto
  ultimately show ?case using ic by (subst cf_suffix.simps, subst cf_prefix.simps) simp
qed

lemma cf_prefix_longest:
  assumes "c = min (length s1) (length s2)"
  shows "prefix (cf_prefix s1 s2 c 0 []) s1" and "prefix (cf_prefix s1 s2 c 0 []) s2"
    and "prefix q s1 \<Longrightarrow> prefix q s2 \<Longrightarrow> prefix q (cf_prefix s1 s2 c 0 [])"
proof -
  obtain n where n: "n \<le> c" "cf_prefix s1 s2 c 0 [] = take n s1" "take n s1 = take n s2"
      "n < c \<longrightarrow> s1 ! n \<noteq> s2 ! n"
    using cf_prefix_spec [of 0 c s1 s2] assms unfolding take_0 by (metis le0 min.cobounded1 min.cobounded2)
  show "prefix (cf_prefix s1 s2 c 0 []) s1" by (simp add: n(2) take_is_prefix)
  show "prefix (cf_prefix s1 s2 c 0 []) s2" by (metis n(2,3) take_is_prefix)
  assume q: "prefix q s1" "prefix q s2"
  have "length q \<le> n"
  proof (rule ccontr)
    assume "\<not> length q \<le> n"
    then have "n < length q" by simp
    moreover from q have "length q \<le> c" by (simp add: assms prefix_length_le)
    ultimately show False using q n(4) by (metis order_less_le_trans prefixE nth_append)
  qed
  with q(1) show "prefix q (cf_prefix s1 s2 c 0 [])"
    unfolding n(2) by (metis prefix_def append_eq_conv_conj take_is_prefix min.absorb1 take_take)
qed

lemma cf_prefix_iff:
  "prefix q s1 \<and> prefix q s2 \<longleftrightarrow> prefix q (cf_prefix s1 s2 (min (length s1) (length s2)) 0 [])"
  (is "_ \<longleftrightarrow> prefix q ?p")
proof
  assume "prefix q s1 \<and> prefix q s2"
  then show "prefix q ?p" by (auto intro: cf_prefix_longest(3) [OF refl])
next
  assume q: "prefix q ?p"
  show "prefix q s1 \<and> prefix q s2"
    by (rule conjI; rule prefix_order.order_trans [OF q]) (rule cf_prefix_longest [OF refl])+
qed

section \<open>Rotations\<close>

lemma rotation_slice:
  assumes "i \<le> length xs"
  shows "py_slice (xs @ xs) (int i) (int (i + length xs)) = rotate i xs"
proof -
  have "py_slice (xs @ xs) (int i) (int (i + length xs)) = take (length xs) (drop i (xs @ xs))"
    by (simp only: py_slice_nat) simp
  also have "\<dots> = rotate i xs"
    using assms by (cases "i = length xs") (auto simp: rotate_drop_take min_def)
  finally show ?thesis .
qed

lemma is_rotated_eq:
  assumes "length s = length t" and "t \<noteq> []"
  shows "is_rotated s t = Inr (\<exists>n. t = rotate n s)"
proof -
  have hd: "py_index t 0 = Inr (hd t)" using assms(2) by (simp add: py_index_def hd_conv_nth)
  have "list_ex (\<lambda>i. py_slice (s @ s) (int i) (int (i + length s)) = t)
          (filter (\<lambda>i. s ! i = hd t) [0..<length s]) \<longleftrightarrow> (\<exists>n. t = rotate n s)"
  proof
    assume "list_ex (\<lambda>i. py_slice (s @ s) (int i) (int (i + length s)) = t)
          (filter (\<lambda>i. s ! i = hd t) [0..<length s])"
    then obtain i where "i < length s" "py_slice (s @ s) (int i) (int (i + length s)) = t"
      by (auto simp: list_ex_iff)
    then show "\<exists>n. t = rotate n s" by (metis rotation_slice less_imp_le)
  next
    assume "\<exists>n. t = rotate n s"
    then obtain n where "t = rotate n s" ..
    then have t: "t = rotate (n mod length s) s" by (metis rotate_conv_mod)
    have k: "n mod length s < length s" using assms by (metis length_greater_0_conv mod_less_divisor)
    have "hd t = s ! (n mod length s)"
      using t assms(2) k by (metis hd_rotate_conv_nth length_0_conv length_rotate mod_mod_trivial)
    with k t rotation_slice [of "n mod length s" s]
    show "list_ex (\<lambda>i. py_slice (s @ s) (int i) (int (i + length s)) = t)
          (filter (\<lambda>i. s ! i = hd t) [0..<length s])"
      by (auto simp: list_ex_iff intro!: bexI [of _ "n mod length s"])
  qed
  with assms(1) hd show ?thesis by (simp add: is_rotated_def Let_def)
qed

lemma is_rotated_nonempty:
  assumes "t \<noteq> []"
  shows "is_rotated s t = Inr (\<exists>n. t = rotate n s)"
proof (cases "length s = length t")
  case True
  with assms show ?thesis by (rule is_rotated_eq [rotated])
next
  case False
  then have "t \<noteq> rotate n s" for n by auto
  with False show ?thesis by (auto simp: is_rotated_def)
qed

section \<open>Properties\<close>

text \<open>
  \<open>permutations\<close> returns exactly the rearrangements of its input, \<open>n!\<close> of them, and each
  once when the items are distinct.
\<close>

theorem permutations_all:
  "set (permutations xs) = {ys. mset ys = mset xs} \<and> length (permutations xs) = fact (length xs) \<and>
   (distinct xs \<longrightarrow> distinct (permutations xs))"
  using distinct_permutations [of xs] by (simp add: set_permutations length_permutations)

theorem permutations_all_witness:
  "set (permutations [1, 2, 3 :: nat]) = {ys. mset ys = {#1, 2, 3#}} \<and>
   length (permutations [1, 2, 3 :: nat]) = 6 \<and> distinct (permutations [1, 2, 3 :: nat])"
  using permutations_all [of "[1, 2, 3 :: nat]"] by (simp add: fact_numeral)

text \<open>
  \<open>uniquify\<close> keeps every item once; with \<open>preserve_order\<close>, and for items that cannot be
  hashed, the first occurrences stay in their order, whichever order the dictionary has.
\<close>

theorem uniquify_once:
  assumes "\<And>ys. mset (ko ys) = mset ys"
  shows "distinct (uniquify ko hashable seq po) \<and> set (uniquify ko hashable seq po) = set seq \<and>
    (po \<or> \<not> list_all hashable seq \<longrightarrow> uniquify ko hashable seq po = rev (remdups (rev seq)))"
proof -
  have ko: "key_order ko" by unfold_locales (rule assms)
  note k = key_order.ko_set [OF ko] key_order.ko_distinct [OF ko]
  from uniq_keys [of "[]" "0::nat" seq] show ?thesis
    by (simp add: uniquify_def k d_ok_def uniq_ordered_eq uniq_slow_eq)
qed

theorem uniquify_once_witness:
  "distinct (uniquify sort (\<lambda>x. True) [3, 1, 3, 2 :: nat] True) \<and>
   set (uniquify sort (\<lambda>x. True) [3, 1, 3, 2 :: nat] True) = {1, 2, 3} \<and>
   uniquify sort (\<lambda>x. True) [3, 1, 3, 2 :: nat] True = [3, 1, 2]"
  using uniquify_once [where ko = sort and hashable = "\<lambda>x. True" and seq = "[3, 1, 3, 2 :: nat]" and po = True] by (auto simp: insert_commute)

text \<open>
  \<open>find_common_fixes\<close> returns the longest common prefix and the longest common suffix of its
  two sequences: both are common, and every other common one is part of them.
\<close>

theorem find_common_fixes_longest:
  "case find_common_fixes s1 s2 of (pre, post) \<Rightarrow>
     (\<forall>q. prefix q s1 \<and> prefix q s2 \<longleftrightarrow> prefix q pre) \<and>
     (\<forall>q. suffix q s1 \<and> suffix q s2 \<longleftrightarrow> suffix q post)"
proof -
  let ?c = "min (length s1) (length s2)"
  have pre: "prefix q s1 \<and> prefix q s2 \<longleftrightarrow> prefix q (cf_prefix s1 s2 ?c 0 [])" for q
    by (rule cf_prefix_iff)
  have "prefix (rev q) (rev s1) \<and> prefix (rev q) (rev s2) \<longleftrightarrow>
      prefix (rev q) (cf_prefix (rev s1) (rev s2) ?c 0 [])" for q
    using cf_prefix_iff [of "rev q" "rev s1" "rev s2"] by simp
  then have "suffix q s1 \<and> suffix q s2 \<longleftrightarrow> suffix q (rev (cf_suffix s1 s2 ?c 1 []))" for q
    using cf_suffix_rev [of ?c s1 s2 0 "[]"] by (simp add: suffix_to_prefix)
  with pre show ?thesis by (simp add: find_common_fixes_def Let_def)
qed

text \<open>
  \<open>is_rotated\<close> decides whether the second sequence is a rotation of the first, for any two
  sequences that are not both empty; on two empty ones \<open>seq2[0]\<close> raises IndexError.
\<close>

theorem is_rotated_correct:
  "is_rotated s t =
     (if s = [] \<and> t = [] then Inl IndexError else Inr (\<exists>n. t = rotate n s))"
proof (cases "t = []")
  case True
  then show ?thesis by (auto simp: is_rotated_def py_index_def dest: arg_cong [of _ _ length])
next
  case False
  then show ?thesis by (simp add: is_rotated_nonempty)
qed

text \<open>
  \<open>reverse_dict\<close> inverts a dictionary whose values are distinct, whatever order the dictionary
  is iterated in, and reversing the result again gives back the same mapping.
\<close>

theorem reverse_dict_inverse:
  assumes "\<And>xs. mset (ko xs) = mset xs" and "\<And>xs. mset (ko' xs) = mset xs"
    and "distinct (map fst d)" and "distinct (map snd d)"
  shows "(map_of (reverse_dict ko d) v = Some k \<longleftrightarrow> map_of d k = Some v) \<and>
         map_of (reverse_dict ko' (reverse_dict ko d)) = map_of d"
proof -
  have ko: "key_order ko" "key_order ko'" using assms(1,2) by (auto intro: key_order.intro)
  note set_ko = key_order.ko_set [OF ko(1)] key_order.ko_set [OF ko(2)]
  let ?r = "reverse_dict ko d"
  have inj: "inj_on snd (set (ko d))" using assms(4) by (simp add: set_ko distinct_map)
  have r: "map_of ?r x = Some j \<longleftrightarrow> map_of d j = Some x" for x j
    using map_of_reverse_fold [OF inj] assms(3) by (simp add: reverse_dict_def set_ko)
  have ok: "distinct (map fst ?r)" using reverse_fold_ok [of "[]"] by (simp add: reverse_dict_def d_ok_def)
  have "inj_on snd (set (ko' ?r))"
  proof (rule inj_onI)
    fix p q assume "p \<in> set (ko' ?r)" "q \<in> set (ko' ?r)" and s: "snd p = snd q"
    then have "map_of ?r (fst p) = Some (snd p)" "map_of ?r (fst q) = Some (snd p)"
      using ok by (simp_all add: set_ko s) (simp_all flip: s)
    with r have "fst p = fst q" by simp
    with s show "p = q" by (simp add: prod_eq_iff)
  qed
  from map_of_reverse_fold [OF this] have "map_of (reverse_dict ko' ?r) x = Some j \<longleftrightarrow> map_of d x = Some j" for x j
    using r ok by (simp add: reverse_dict_def [of ko'] set_ko)
  then have "map_of (reverse_dict ko' ?r) x = map_of d x" for x by (metis option.exhaust)
  with r show ?thesis by blast
qed

theorem reverse_dict_inverse_witness:
  "(map_of (reverse_dict rev [(1::nat, ''a''), (2, ''b'')]) ''b'' = Some 2 \<longleftrightarrow>
    map_of [(1::nat, ''a''), (2, ''b'')] 2 = Some ''b'') \<and>
   map_of (reverse_dict rev (reverse_dict rev [(1::nat, ''a''), (2, ''b'')])) =
     map_of [(1, ''a''), (2, ''b'')]"
  by (rule reverse_dict_inverse) simp_all

end
