(* ===== verification/Topsort.thy ===== *)
theory Topsort
  imports RadSequences
begin

text \<open>
  \<^verbatim>\<open>bindings/python/topsort.py\<close>: topological sorting of (parent, child) pairs into one list
  (\<open>topsort\<close>) and into levels (\<open>topsort_levels\<close>, \<open>topsort_levels_core\<close>), and the enumeration of the
  simple cycles of a graph (\<open>find_cycles\<close>). A generator is modelled by the list of values it yields
  and the way it ends. The iteration order of the dictionaries is the parameter \<open>ko\<close>.
\<close>

section \<open>Definitions\<close>

type_synonym 'a counts = "('a, int) dict"
type_synonym 'a children = "('a, 'a list) dict"

text \<open>\<open>CycleError\<close> carries the arguments of the raise; \<open>topsort\<close> passes its partial answer too.\<close>

datatype 'a top_error =
    PyError py_error
  | CycleError "'a list" "'a counts" "'a children"
  | LevelCycleError "'a counts" "'a children"

definition lift_py :: "'b result \<Rightarrow> 'a top_error + 'b" where
  "lift_py r = (case r of Inl e \<Rightarrow> Inl (PyError e) | Inr x \<Rightarrow> Inr x)"

text \<open>\<open>d[k] += x\<close>\<close>

definition d_add :: "('k, int) dict \<Rightarrow> 'k \<Rightarrow> int \<Rightarrow> ('k, int) dict result" where
  "d_add d k x = bind_r (d_getitem d k) (\<lambda>v. Inr (AList.update k (v + x) d))"

definition d_default :: "('k, 'v) dict \<Rightarrow> 'k \<Rightarrow> 'v \<Rightarrow> ('k, 'v) dict" where
  "d_default d k v = (if k \<in> set (d_keys d) then d else AList.update k v d)"

text \<open>\<open>children.setdefault(parent, []).append(child)\<close>\<close>

definition setdefault_append :: "('k, 'v list) dict \<Rightarrow> 'k \<Rightarrow> 'v \<Rightarrow> ('k, 'v list) dict" where
  "setdefault_append d k v =
     AList.update k ((case map_of d k of None \<Rightarrow> [] | Some vs \<Rightarrow> vs) @ [v]) d"

definition add_pair :: "'a counts \<times> 'a children \<Rightarrow> 'a \<times> 'a \<Rightarrow> ('a counts \<times> 'a children) result" where
  "add_pair st p =
     (case st of (num_parents, children) \<Rightarrow> case p of (parent, child) \<Rightarrow>
      let num_parents = d_default num_parents parent 0;
          num_parents = d_default num_parents child 0
      in bind_r (d_add num_parents child 1) (\<lambda>num_parents.
           Inr (num_parents, setdefault_append children parent child)))"

definition build_graph :: "('a \<times> 'a) list \<Rightarrow> ('a counts \<times> 'a children) result" where
  "build_graph pairlist = foldM_r add_pair ([], []) pairlist"

definition roots_of :: "('a list \<Rightarrow> 'a list) \<Rightarrow> 'a counts \<Rightarrow> 'a list" where
  "roots_of ko num_parents = filter (\<lambda>x. map_of num_parents x = Some 0) (ko (d_keys num_parents))"

text \<open>The inner loop over \<open>children[parent]\<close>, with the children whose count reaches 0.\<close>

fun knock_down :: "'a counts \<Rightarrow> 'a list \<Rightarrow> 'a list \<Rightarrow> ('a counts \<times> 'a list) result" where
  "knock_down num_parents answer [] = Inr (num_parents, answer)"
| "knock_down num_parents answer (child # rest) =
     bind_r (d_add num_parents child (- 1)) (\<lambda>num_parents.
       knock_down num_parents
         (if map_of num_parents child = Some 0 then answer @ [child] else answer) rest)"

text \<open>One turn of the outer loop, for one \<open>parent\<close>.\<close>

definition topsort_turn :: "'a counts \<Rightarrow> 'a children \<Rightarrow> 'a list \<Rightarrow> 'a \<Rightarrow>
    ('a counts \<times> 'a children \<times> 'a list) result" where
  "topsort_turn num_parents children answer parent =
     bind_r (d_delitem num_parents parent) (\<lambda>num_parents.
       case map_of children parent of
         None \<Rightarrow> Inr (num_parents, children, answer)
       | Some kids \<Rightarrow>
           bind_r (knock_down num_parents answer kids) (\<lambda>(num_parents, answer).
           bind_r (d_delitem children parent) (\<lambda>children. Inr (num_parents, children, answer))))"

lemma d_add_keys: "d_add d k x = Inr d' \<Longrightarrow> d_keys d' = d_keys d"
  by (auto simp: d_add_def d_getitem_def bind_r_eq_Inr_iff update_keys
      split: option.splits dest!: map_of_SomeD) (force simp: image_iff)

lemma knock_down_keys: "knock_down np ans kids = Inr (np', ans') \<Longrightarrow> d_keys np' = d_keys np"
  by (induction np ans kids rule: knock_down.induct) (auto simp: bind_r_eq_Inr_iff dest: d_add_keys)

lemma topsort_turn_length:
  assumes "topsort_turn np ch ans p = Inr (np', ch', ans')"
  shows "length np' < length np"
proof -
  from assms have p: "p \<in> set (d_keys np)"
    by (auto simp: topsort_turn_def d_delitem_def bind_r_eq_Inl_iff split: if_splits)
  with assms have "d_keys np' = d_keys (AList.delete p np)"
    by (auto simp: topsort_turn_def d_delitem_def bind_r_eq_Inr_iff
        split: if_splits option.splits dest!: knock_down_keys)
  then have "length np' = length (AList.delete p np)" by (metis length_map)
  with p show ?thesis by (simp add: length_delete_less)
qed

text \<open>\<open>for parent in answer\<close> over a list that grows in the loop: \<open>i\<close> is the position of the iterator.\<close>

function topsort_loop :: "'a list \<Rightarrow> nat \<Rightarrow> 'a counts \<Rightarrow> 'a children \<Rightarrow>
    ('a list \<times> 'a counts \<times> 'a children) result" where
  "topsort_loop answer i num_parents children =
     (if i < length answer
      then bind_r (topsort_turn num_parents children answer (answer ! i)) (\<lambda>(num_parents, children, answer).
             topsort_loop answer (Suc i) num_parents children)
      else Inr (answer, num_parents, children))"
  by pat_completeness auto
termination
  by (relation "measure (\<lambda>(answer, i, np, ch). length np)") (auto dest: topsort_turn_length)

declare topsort_loop.simps [simp del]

definition topsort :: "('a list \<Rightarrow> 'a list) \<Rightarrow> ('a \<times> 'a) list \<Rightarrow> 'a top_error + 'a list" where
  "topsort ko pairlist =
     bind_r (lift_py (build_graph pairlist)) (\<lambda>(num_parents, children).
     bind_r (lift_py (topsort_loop (roots_of ko num_parents) 0 num_parents children))
       (\<lambda>(answer, num_parents, children).
        if num_parents \<noteq> [] then Inl (CycleError answer num_parents children) else Inr answer))"

text \<open>\<open>topsort_levels_core\<close> takes the two dictionaries from its caller.\<close>

definition level_turn :: "'a counts \<times> 'a children \<Rightarrow> 'a \<Rightarrow> ('a counts \<times> 'a children) result" where
  "level_turn st level_parent =
     (case st of (num_parents, children) \<Rightarrow>
      bind_r (d_delitem num_parents level_parent) (\<lambda>num_parents.
        case map_of children level_parent of
          None \<Rightarrow> Inr (num_parents, children)
        | Some kids \<Rightarrow>
            bind_r (foldM_r (\<lambda>np child. d_add np child (- 1)) num_parents kids) (\<lambda>num_parents.
            bind_r (d_delitem children level_parent) (\<lambda>children. Inr (num_parents, children)))))"

lemma foldM_d_add_keys: "foldM_r (\<lambda>np child. d_add np child x) np kids = Inr np' \<Longrightarrow> d_keys np' = d_keys np"
  by (induction kids arbitrary: np) (auto simp: bind_r_eq_Inr_iff dest: d_add_keys)

lemma level_turn_length:
  assumes "level_turn (np, ch) p = Inr (np', ch')"
  shows "length np' < length np"
proof -
  from assms have p: "p \<in> set (d_keys np)"
    by (auto simp: level_turn_def d_delitem_def split: if_splits)
  with assms have "d_keys np' = d_keys (AList.delete p np)"
    by (auto simp: level_turn_def d_delitem_def bind_r_eq_Inr_iff
        split: if_splits option.splits dest!: foldM_d_add_keys)
  then have "length np' = length (AList.delete p np)" by (metis length_map)
  with p show ?thesis by (simp add: length_delete_less)
qed

lemma level_fold_length:
  "foldM_r level_turn (np, ch) ps = Inr (np', ch') \<Longrightarrow> length np' + length ps \<le> length np"
  by (induction ps arbitrary: np ch) (fastforce simp: bind_r_eq_Inr_iff dest: level_turn_length)+

function topsort_levels_core :: "('a list \<Rightarrow> 'a list) \<Rightarrow> 'a counts \<Rightarrow> 'a children \<Rightarrow>
    'a list list \<times> 'a top_error option" where
  "topsort_levels_core ko num_parents children =
     (let level_parents = roots_of ko num_parents
      in if level_parents = []
         then ([], if num_parents \<noteq> [] then Some (LevelCycleError num_parents children) else None)
         else (case foldM_r level_turn (num_parents, children) level_parents of
                 Inl e \<Rightarrow> ([level_parents], Some (PyError e))
               | Inr (num_parents', children') \<Rightarrow>
                   let (levels, outcome) = topsort_levels_core ko num_parents' children'
                   in (level_parents # levels, outcome)))"
  by pat_completeness auto
termination
proof (relation "measure (\<lambda>(ko, np, ch). length np)", goal_cases)
  case (2 ko np ch xs y np' ch')
  then have "length np' + length xs \<le> length np" "xs \<noteq> []" by (auto dest: level_fold_length)
  then show ?case by (cases xs) auto
qed auto

declare topsort_levels_core.simps [simp del]

definition topsort_levels :: "('a list \<Rightarrow> 'a list) \<Rightarrow> ('a \<times> 'a) list \<Rightarrow> 'a list list \<times> 'a top_error option" where
  "topsort_levels ko pairlist =
     (case build_graph pairlist of
        Inl e \<Rightarrow> ([], Some (PyError e))
      | Inr (num_parents, children) \<Rightarrow> topsort_levels_core ko num_parents children)"

section \<open>Building the two dictionaries\<close>

definition nodes :: "('a \<times> 'a) list \<Rightarrow> 'a set" where
  "nodes ps = fst ` set ps \<union> snd ` set ps"

definition kids :: "('a \<times> 'a) list \<Rightarrow> 'a \<Rightarrow> 'a list" where
  "kids ps p = map snd (filter (\<lambda>e. fst e = p) ps)"

text \<open>The pairs into \<open>x\<close> whose parent is not done yet.\<close>

definition pending :: "('a \<times> 'a) list \<Rightarrow> 'a set \<Rightarrow> 'a \<Rightarrow> nat" where
  "pending ps D x = length (filter (\<lambda>e. snd e = x \<and> fst e \<notin> D) ps)"

text \<open>The dictionaries describe the graph without the nodes \<open>D\<close> that are done.\<close>

definition kahn_inv :: "('a \<times> 'a) list \<Rightarrow> 'a set \<Rightarrow> 'a counts \<Rightarrow> 'a children \<Rightarrow> bool" where
  "kahn_inv ps D np ch \<longleftrightarrow>
     d_ok np \<and> d_ok ch \<and>
     map_of np = (\<lambda>x. if x \<in> nodes ps - D then Some (int (pending ps D x)) else None) \<and>
     map_of ch = (\<lambda>p. if p \<in> D \<or> kids ps p = [] then None else Some (kids ps p)) \<and>
     D \<subseteq> nodes ps \<and> (\<forall>(q, c) \<in> set ps. c \<in> D \<longrightarrow> q \<in> D)"

lemma kids_iff: "c \<in> set (kids ps p) \<longleftrightarrow> (p, c) \<in> set ps"
  by (force simp: kids_def)

lemma pending_0_iff: "pending ps D x = 0 \<longleftrightarrow> (\<forall>q. (q, x) \<in> set ps \<longrightarrow> q \<in> D)"
  by (auto simp: pending_def filter_empty_conv)

lemma pending_insert: "p \<notin> D \<Longrightarrow> pending ps D x = pending ps (insert p D) x + count_list (kids ps p) x"
  by (induction ps) (auto simp: pending_def kids_def)

lemma d_ok_default [simp]: "d_ok d \<Longrightarrow> d_ok (d_default d k v)"
  by (simp add: d_default_def)

lemma map_of_default: "map_of (d_default d k v) = (if map_of d k = None then (map_of d)(k \<mapsto> v) else map_of d)"
  by (auto simp: d_default_def map_of_eq_None_iff)

lemma d_add_Some: "map_of d k = Some v \<Longrightarrow> d_add d k x = Inr (AList.update k (v + x) d)"
  by (simp add: d_add_def d_getitem_def)

lemma d_delitem_Some: "map_of d k = Some v \<Longrightarrow> d_delitem d k = Inr (AList.delete k d)"
  using map_of_SomeD [of d k v] by (force simp: d_delitem_def)

lemma build_graph_inv: "\<exists>np ch. build_graph ps = Inr (np, ch) \<and> kahn_inv ps {} np ch"
proof (induction ps rule: rev_induct)
  case Nil
  show ?case by (auto simp: build_graph_def kahn_inv_def nodes_def kids_def)
next
  case (snoc e ps)
  then obtain np ch where b: "build_graph ps = Inr (np, ch)" and inv: "kahn_inv ps {} np ch" by blast
  obtain p c where e: "e = (p, c)" by (cases e)
  let ?np = "d_default (d_default np p 0) c 0"
  have np: "map_of np = (\<lambda>x. if x \<in> nodes ps then Some (int (pending ps {} x)) else None)"
    and ch: "map_of ch = (\<lambda>q. if kids ps q = [] then None else Some (kids ps q))"
    and ok: "d_ok np" "d_ok ch" using inv by (simp_all add: kahn_inv_def)
  have pend: "x \<notin> nodes ps \<Longrightarrow> pending ps {} x = 0" for x
    by (force simp: pending_0_iff nodes_def)
  have np': "map_of ?np = (\<lambda>x. if x \<in> nodes (ps @ [e]) then Some (int (pending ps {} x)) else None)"
    using pend by (auto simp: map_of_default np e nodes_def fun_eq_iff)
  then have "d_add ?np c 1 = Inr (AList.update c (int (pending ps {} c) + 1) ?np)"
    by (intro d_add_Some) (simp add: nodes_def e)
  then have step: "build_graph (ps @ [e]) = Inr (AList.update c (int (pending ps {} c) + 1) ?np,
      setdefault_append ch p c)"
    using b by (simp add: build_graph_def foldM_r_append add_pair_def e)
  have "kahn_inv (ps @ [e]) {} (AList.update c (int (pending ps {} c) + 1) ?np) (setdefault_append ch p c)"
    unfolding kahn_inv_def using ok
    by (auto simp: np' ch setdefault_append_def fun_eq_iff pending_def kids_def e nodes_def)
  with step show ?case by blast
qed

section \<open>One turn\<close>

lemma count_list_pos: "x \<in> set ks \<Longrightarrow> 0 < count_list ks x"
  by (simp add: count_list_0_iff zero_less_iff_neq_zero)

lemma knock_down_spec:
  assumes "d_ok np" and "\<And>x. x \<in> set ks \<Longrightarrow> \<exists>v. map_of np x = Some v \<and> int (count_list ks x) \<le> v"
  shows "\<exists>np' z. knock_down np ans ks = Inr (np', ans @ z) \<and>
     foldM_r (\<lambda>np c. d_add np c (- 1)) np ks = Inr np' \<and> d_ok np' \<and>
     map_of np' = (\<lambda>x. map_option (\<lambda>v. v - int (count_list ks x)) (map_of np x)) \<and>
     distinct z \<and> set z = {x \<in> set ks. map_of np' x = Some 0}"
  using assms
proof (induction ks arbitrary: np ans)
  case Nil
  then show ?case by (auto simp: fun_eq_iff option.map_ident)
next
  case (Cons k ks)
  from Cons.prems(2) [of k] obtain v where v: "map_of np k = Some v" "int (count_list ks k) + 1 \<le> v"
    by auto
  let ?np = "AList.update k (v - 1) np"
  let ?ans = "if v = 1 then ans @ [k] else ans"
  have add: "d_add np k (- 1) = Inr ?np" using v(1) by (simp add: d_add_Some)
  have "\<exists>w. map_of ?np x = Some w \<and> int (count_list ks x) \<le> w" if "x \<in> set ks" for x
    using Cons.prems(2) [of x] that v by (auto split: if_splits)
  from Cons.IH [OF d_ok_update [OF Cons.prems(1)] this, of ?ans] obtain np' z where IH:
    "knock_down ?np ?ans ks = Inr (np', ?ans @ z)"
    "foldM_r (\<lambda>np c. d_add np c (- 1)) ?np ks = Inr np'" "d_ok np'"
    "map_of np' = (\<lambda>x. map_option (\<lambda>v. v - int (count_list ks x)) (map_of ?np x))"
    "distinct z" "set z = {x \<in> set ks. map_of np' x = Some 0}"
    by auto
  have m: "map_of np' = (\<lambda>x. map_option (\<lambda>v. v - int (count_list (k # ks) x)) (map_of np x))"
    using IH(4) v(1) by (auto simp: fun_eq_iff)
  have "v = 1 \<Longrightarrow> k \<notin> set ks" using v(2) count_list_pos [of k ks] by fastforce
  moreover have "v \<noteq> 1 \<Longrightarrow> map_of np' k = Some 0 \<Longrightarrow> k \<in> set ks"
    using m v count_list_pos [of k ks] by (auto simp: count_list_0_iff)
  moreover have "v = 1 \<Longrightarrow> map_of np' k = Some 0" using m v by (auto simp: count_list_0_iff)
  ultimately have "set ((if v = 1 then [k] else []) @ z) = {x \<in> set (k # ks). map_of np' x = Some 0}"
    and "distinct ((if v = 1 then [k] else []) @ z)"
    using IH(5,6) by auto
  moreover have "knock_down np ans (k # ks) = Inr (np', ans @ (if v = 1 then [k] else []) @ z)"
    using add IH(1) by simp
  moreover have "foldM_r (\<lambda>np c. d_add np c (- 1)) np (k # ks) = Inr np'" using add IH(2) by simp
  ultimately show ?case using IH(3) m by blast
qed

lemma turn_inv:
  assumes inv: "kahn_inv ps D np ch" and p: "map_of np p = Some 0"
  shows "\<exists>np' ch' z. topsort_turn np ch ans p = Inr (np', ch', ans @ z) \<and>
     level_turn (np, ch) p = Inr (np', ch') \<and> kahn_inv ps (insert p D) np' ch' \<and>
     distinct z \<and> set z = {x. map_of np' x = Some 0 \<and> map_of np x \<noteq> Some 0}"
proof -
  from inv have ok: "d_ok np" "d_ok ch"
    and np: "map_of np = (\<lambda>x. if x \<in> nodes ps - D then Some (int (pending ps D x)) else None)"
    and ch: "map_of ch = (\<lambda>p. if p \<in> D \<or> kids ps p = [] then None else Some (kids ps p))"
    and D: "D \<subseteq> nodes ps" "\<And>q c. (q, c) \<in> set ps \<Longrightarrow> c \<in> D \<Longrightarrow> q \<in> D"
    by (auto simp: kahn_inv_def)
  from p np have pD: "p \<in> nodes ps" "p \<notin> D" and "pending ps D p = 0" by (auto split: if_splits)
  then have preds: "(q, p) \<in> set ps \<Longrightarrow> q \<in> D" for q by (simp add: pending_0_iff)
  have del: "d_delitem np p = Inr (AList.delete p np)"
    using p by (rule d_delitem_Some)
  have kid: "x \<in> nodes ps - D \<and> x \<noteq> p" if "x \<in> set (kids ps p)" for x
  proof -
    from that have e: "(p, x) \<in> set ps" by (simp add: kids_iff)
    then have "x \<in> snd ` set ps" by (rule image_eqI [rotated]) simp
    with e pD D(2) [OF e] preds [of p] show ?thesis by (auto simp: nodes_def)
  qed
  have "\<exists>v. map_of (AList.delete p np) x = Some v \<and> int (count_list (kids ps p) x) \<le> v"
    if "x \<in> set (kids ps p)" for x
    using kid [OF that] pending_insert [OF pD(2), of ps x] by (simp add: np)
  from knock_down_spec [OF d_ok_delete [OF ok(1)] this, of ans] obtain np' z where k:
    "knock_down (AList.delete p np) ans (kids ps p) = Inr (np', ans @ z)"
    "foldM_r (\<lambda>np c. d_add np c (- 1)) (AList.delete p np) (kids ps p) = Inr np'" "d_ok np'"
    "map_of np' = (\<lambda>x. map_option (\<lambda>v. v - int (count_list (kids ps p) x)) (map_of (AList.delete p np) x))"
    "distinct z" "set z = {x \<in> set (kids ps p). map_of np' x = Some 0}"
    by auto
  have np': "map_of np' = (\<lambda>x. if x \<in> nodes ps - insert p D then Some (int (pending ps (insert p D) x)) else None)"
    using pending_insert [OF pD(2), of ps] by (auto simp: k(4) np fun_eq_iff)
  have "x \<in> set (kids ps p)" if "map_of np' x = Some 0" "map_of np x \<noteq> Some 0" for x
    using that k(4) np by (auto simp: count_list_0_iff split: if_splits)
  moreover have "map_of np x \<noteq> Some 0" if "x \<in> set (kids ps p)" for x
    using that kid [OF that] pD(2) by (auto simp: np pending_0_iff kids_iff)
  ultimately have z: "set z = {x. map_of np' x = Some 0 \<and> map_of np x \<noteq> Some 0}" using k(6) by auto
  let ?ch = "AList.delete p ch"
  have inv': "kahn_inv ps (insert p D) np' ?ch"
    unfolding kahn_inv_def using k(3) ok(2) np' ch pD(1) D preds by (auto simp: fun_eq_iff)
  show ?thesis
  proof (cases "kids ps p = []")
    case True
    then have [simp]: "map_of ch p = None" using ch by simp
    then have "?ch = ch" by (metis delete_id map_of_eq_None_iff)
    moreover have "np' = AList.delete p np" "z = []" using k(1) True by auto
    ultimately show ?thesis using inv' z del by (auto simp: topsort_turn_def level_turn_def)
  next
    case False
    then have chp: "map_of ch p = Some (kids ps p)" using ch pD(2) by simp
    then have "d_delitem ch p = Inr ?ch" by (rule d_delitem_Some)
    with chp inv' z k(1,2,5) del show ?thesis by (auto simp: topsort_turn_def level_turn_def)
  qed
qed

section \<open>The sorted list\<close>

text \<open>Every predecessor of an item of \<open>xs\<close> stands before it.\<close>

definition parents_first :: "('a \<times> 'a) list \<Rightarrow> 'a list \<Rightarrow> bool" where
  "parents_first ps xs \<longleftrightarrow> (\<forall>(q, c) \<in> set ps. \<forall>a b. xs = a @ c # b \<longrightarrow> q \<in> set a)"

lemma parents_first_append:
  assumes "parents_first ps xs" and "\<And>q c. (q, c) \<in> set ps \<Longrightarrow> c \<in> set zs \<Longrightarrow> q \<in> set xs"
  shows "parents_first ps (xs @ zs)"
  unfolding parents_first_def
proof (clarify)
  fix q c a b assume e: "(q, c) \<in> set ps" and eq: "xs @ zs = a @ c # b"
  then consider us where "xs = a @ c # us" | us where "a = xs @ us" "zs = us @ c # b"
    by (auto simp: append_eq_append_conv2 append_eq_Cons_conv)
  then show "q \<in> set a"
  proof cases
    case 1
    with assms(1) e show ?thesis by (fastforce simp: parents_first_def)
  next
    case 2
    with assms(2) [OF e] show ?thesis by auto
  qed
qed

lemma parents_first_acyclic:
  assumes "parents_first ps xs" and "set xs = nodes ps"
  shows "acyclic (set ps)"
proof (rule acyclicI_order)
  fix q c assume e: "(q, c) \<in> set ps"
  then have "c \<in> set xs" using assms(2) by (force simp: nodes_def)
  then obtain a b where c: "xs = a @ c # b" "c \<notin> set a" by (auto dest: split_list_first)
  with e assms(1) have q: "q \<in> set a" by (fastforce simp: parents_first_def)
  then obtain a1 a2 where "a = a1 @ q # a2" "q \<notin> set a1" by (auto dest: split_list_first)
  then have "length (takeWhile (\<lambda>x. x \<noteq> q) xs) < length a"
    using c by (auto simp: takeWhile_append)
  moreover have "length (takeWhile (\<lambda>x. x \<noteq> c) xs) = length a"
    using c by (auto simp: takeWhile_append)
  ultimately show "- int (length (takeWhile (\<lambda>x. x \<noteq> c) xs)) < - int (length (takeWhile (\<lambda>x. x \<noteq> q) xs))"
    by simp
qed

text \<open>Nodes that are left over all have a predecessor that is left over, so there is a cycle.\<close>

lemma leftover_cyclic:
  assumes "finite E" and "R \<noteq> {}" and "\<And>x. x \<in> R \<Longrightarrow> \<exists>q \<in> R. (q, x) \<in> E"
  shows "\<not> acyclic E"
proof
  assume "acyclic E"
  with assms(1) have "wf E" by (rule finite_acyclic_wf)
  with assms(2) obtain z where "z \<in> R" "\<And>y. (y, z) \<in> E \<Longrightarrow> y \<notin> R" by (meson wfE_min ex_in_conv)
  with assms(3) show False by blast
qed

lemma kahn_zero:
  "kahn_inv ps D np ch \<Longrightarrow> map_of np x = Some 0 \<longleftrightarrow> x \<in> nodes ps - D \<and> (\<forall>q. (q, x) \<in> set ps \<longrightarrow> q \<in> D)"
  by (auto simp: kahn_inv_def pending_0_iff)

lemma kahn_leftover:
  assumes "kahn_inv ps D np ch" and "np \<noteq> []" and "\<And>x. map_of np x \<noteq> Some 0"
  shows "\<not> acyclic (set ps)" and "nodes ps - D \<noteq> {}"
proof -
  have np: "map_of np = (\<lambda>x. if x \<in> nodes ps - D then Some (int (pending ps D x)) else None)"
    using assms(1) by (simp add: kahn_inv_def)
  from assms(2) show R: "nodes ps - D \<noteq> {}"
    using np by (metis (no_types, lifting) empty_iff map_of_eq_empty_iff)
  show "\<not> acyclic (set ps)"
  proof (rule leftover_cyclic [OF _ R])
    fix x assume x: "x \<in> nodes ps - D"
    with assms(3) [of x] np have "pending ps D x \<noteq> 0" by auto
    then obtain q where "(q, x) \<in> set ps" "q \<notin> D" by (auto simp: pending_0_iff)
    then show "\<exists>q \<in> nodes ps - D. (q, x) \<in> set ps" by (force simp: nodes_def)
  qed simp
qed

lemma kahn_done: "kahn_inv ps D [] ch \<Longrightarrow> D = nodes ps"
  by (auto simp: kahn_inv_def fun_eq_iff split: if_splits)

lemma topsort_loop_spec:
  assumes "kahn_inv ps (set (take i ans)) np ch" and "i \<le> length ans" and "distinct ans"
    and "set (drop i ans) = {x. map_of np x = Some 0}" and "parents_first ps ans"
  shows "\<exists>ans' np' ch'. topsort_loop ans i np ch = Inr (ans', np', ch') \<and>
     kahn_inv ps (set ans') np' ch' \<and> distinct ans' \<and> (\<forall>x. map_of np' x \<noteq> Some 0) \<and> parents_first ps ans'"
  using assms
proof (induction "length np" arbitrary: i ans np ch rule: less_induct)
  case less
  show ?case
  proof (cases "i < length ans")
    case False
    with less.prems show ?thesis by (subst topsort_loop.simps) auto
  next
    case True
    then have "ans ! i \<in> set (drop i ans)" by (metis Cons_nth_drop_Suc list.set_intros(1))
    with less.prems(4) have p: "map_of np (ans ! i) = Some 0" by simp
    from turn_inv [OF less.prems(1) p, of ans] obtain np' ch' z where t:
      "topsort_turn np ch ans (ans ! i) = Inr (np', ch', ans @ z)"
      "kahn_inv ps (insert (ans ! i) (set (take i ans))) np' ch'" "distinct z"
      "set z = {x. map_of np' x = Some 0 \<and> map_of np x \<noteq> Some 0}" by blast
    note zero = kahn_zero [OF less.prems(1)] and zero' = kahn_zero [OF t(2)]
    have D: "set (take (Suc i) (ans @ z)) = insert (ans ! i) (set (take i ans))"
      using True by (simp add: take_Suc_conv_app_nth)
    have ans: "set ans = set (take i ans) \<union> {x. map_of np x = Some 0}"
      by (metis append_take_drop_id set_append less.prems(4))
    have "distinct (ans @ z)" using less.prems(3) t(3,4) ans zero' by auto
    moreover have "set (drop (Suc i) (ans @ z)) = {x. map_of np' x = Some 0}"
    proof -
      have "drop i ans = ans ! i # drop (Suc i) ans" using True by (simp add: Cons_nth_drop_Suc)
      moreover from this less.prems(3) have "ans ! i \<notin> set (drop (Suc i) ans)"
        by (metis distinct.simps(2) distinct_drop)
      ultimately have "set (drop (Suc i) ans) = {x. map_of np x = Some 0} - {ans ! i}"
        using less.prems(4) by auto
      then show ?thesis using True t(4) zero zero' by auto
    qed
    moreover have "parents_first ps (ans @ z)"
      using less.prems(5)
    proof (rule parents_first_append)
      fix q c assume "(q, c) \<in> set ps" "c \<in> set z"
      then show "q \<in> set ans" using t(4) zero' True ans by (metis (mono_tags, lifting) UnI1 insertE mem_Collect_eq nth_mem)
    qed
    moreover have "length np' < length np" using t(1) by (rule topsort_turn_length)
    moreover have "kahn_inv ps (set (take (Suc i) (ans @ z))) np' ch'" using t(2) unfolding D .
    ultimately have "\<exists>ans' np'' ch''. topsort_loop (ans @ z) (Suc i) np' ch' = Inr (ans', np'', ch'') \<and>
        kahn_inv ps (set ans') np'' ch'' \<and> distinct ans' \<and> (\<forall>x. map_of np'' x \<noteq> Some 0) \<and> parents_first ps ans'"
      using True by (intro less.hyps) auto
    moreover have "topsort_loop ans i np ch = topsort_loop (ans @ z) (Suc i) np' ch'"
      using True t(1) by (subst topsort_loop.simps) simp
    ultimately show ?thesis by simp
  qed
qed

lemma roots_of_spec:
  assumes "\<And>xs. mset (ko xs) = mset xs" and "kahn_inv ps D np ch"
  shows "distinct (roots_of ko np)" and "set (roots_of ko np) = {x. map_of np x = Some 0}"
proof -
  have ko: "key_order ko" by unfold_locales (rule assms(1))
  show "distinct (roots_of ko np)"
    using assms(2) by (simp add: roots_of_def key_order.ko_distinct [OF ko] kahn_inv_def d_ok_def)
  show "set (roots_of ko np) = {x. map_of np x = Some 0}"
    by (force simp: roots_of_def key_order.ko_set [OF ko] dest: map_of_SomeD)
qed

section \<open>Levels\<close>

lemma level_fold_inv:
  assumes "kahn_inv ps D np ch" and "distinct xs" and "\<And>x. x \<in> set xs \<Longrightarrow> map_of np x = Some 0"
  shows "\<exists>np' ch'. foldM_r level_turn (np, ch) xs = Inr (np', ch') \<and> kahn_inv ps (set xs \<union> D) np' ch'"
  using assms
proof (induction xs arbitrary: D np ch)
  case Nil
  then show ?case by simp
next
  case (Cons p xs)
  from turn_inv [OF Cons.prems(1) Cons.prems(3)] obtain np' ch' where
    t: "level_turn (np, ch) p = Inr (np', ch')" "kahn_inv ps (insert p D) np' ch'" by fastforce
  have "map_of np' x = Some 0" if "x \<in> set xs" for x
    using Cons.prems(2,3) that by (auto simp: kahn_zero [OF t(2)] kahn_zero [OF Cons.prems(1)])
  from Cons.IH [OF t(2) _ this] Cons.prems(2) obtain np'' ch'' where
    "foldM_r level_turn (np', ch') xs = Inr (np'', ch'')" "kahn_inv ps (set xs \<union> insert p D) np'' ch''" by auto
  with t(1) show ?case by auto
qed

text \<open>
  What the levels promise: a level holds the nodes outside the earlier ones whose predecessors all
  lie in earlier ones, and (after the first) each of its nodes has a predecessor in the level just before.
\<close>

fun levels_ok :: "('a \<times> 'a) list \<Rightarrow> 'a set \<Rightarrow> 'a list list \<Rightarrow> bool" where
  "levels_ok ps D [] \<longleftrightarrow> True"
| "levels_ok ps D (l # ls) \<longleftrightarrow>
     l \<noteq> [] \<and> distinct l \<and> (\<forall>x. x \<in> set l \<longleftrightarrow> x \<in> nodes ps - D \<and> (\<forall>q. (q, x) \<in> set ps \<longrightarrow> q \<in> D)) \<and>
     levels_ok ps (set l \<union> D) ls"

lemma levels_core_spec:
  assumes ko: "\<And>xs. mset (ko xs) = mset xs" and "kahn_inv ps D np ch"
  shows "case topsort_levels_core ko np ch of (ls, outcome) \<Rightarrow>
     levels_ok ps D ls \<and>
     (\<exists>np' ch'. kahn_inv ps (set (concat ls) \<union> D) np' ch' \<and> (\<forall>x. map_of np' x \<noteq> Some 0) \<and>
       outcome = (if np' = [] then None else Some (LevelCycleError np' ch')))"
  using assms(2)
proof (induction "length np" arbitrary: D np ch rule: less_induct)
  case less
  let ?l = "roots_of ko np"
  note l = roots_of_spec [OF ko less.prems]
  show ?case
  proof (cases "?l = []")
    case True
    with l(2) less.prems show ?thesis by (subst topsort_levels_core.simps) (auto simp: Let_def)
  next
    case False
    obtain np' ch' where f: "foldM_r level_turn (np, ch) ?l = Inr (np', ch')"
        "kahn_inv ps (set ?l \<union> D) np' ch'"
      using level_fold_inv [OF less.prems l(1)] l(2) by auto
    have "length np' < length np" using level_fold_length [OF f(1)] False by (cases ?l) auto
    from less.hyps [OF this f(2)] have IH: "case topsort_levels_core ko np' ch' of (ls, outcome) \<Rightarrow>
      levels_ok ps (set ?l \<union> D) ls \<and>
      (\<exists>np'' ch''. kahn_inv ps (set (concat ls) \<union> (set ?l \<union> D)) np'' ch'' \<and> (\<forall>x. map_of np'' x \<noteq> Some 0) \<and>
       outcome = (if np'' = [] then None else Some (LevelCycleError np'' ch'')))" .
    obtain ls out where r: "topsort_levels_core ko np' ch' = (ls, out)" by fastforce
    have res: "topsort_levels_core ko np ch = (?l # ls, out)"
      using False f(1) r by (subst topsort_levels_core.simps) (simp add: Let_def)
    have "x \<in> set ?l \<longleftrightarrow> x \<in> nodes ps - D \<and> (\<forall>q. (q, x) \<in> set ps \<longrightarrow> q \<in> D)" for x
      unfolding l(2) mem_Collect_eq by (rule kahn_zero [OF less.prems])
    with IH False l(1) show ?thesis unfolding res r by (simp add: Un_ac)
  qed
qed

lemma levels_ok_disjoint:
  "levels_ok ps D ls \<Longrightarrow> distinct (concat ls) \<and> set (concat ls) \<subseteq> nodes ps - D"
proof (induction ls arbitrary: D)
  case Nil
  show ?case by simp
next
  case (Cons l ls)
  have IH: "distinct (concat ls)" "set (concat ls) \<subseteq> nodes ps - (set l \<union> D)"
    using Cons.IH [of "set l \<union> D"] Cons.prems by simp_all
  have l: "distinct l" "set l \<subseteq> nodes ps - D" using Cons.prems by auto
  have "distinct (concat (l # ls))" using IH l(1) by (simp only: concat.simps distinct_append) blast
  moreover have "set (concat (l # ls)) \<subseteq> nodes ps - D" using IH(2) l(2) by (simp only: concat.simps set_append) blast
  ultimately show ?case by (rule conjI)
qed

lemma levels_ok_parents_first:
  assumes "levels_ok ps D ls"
  shows "(q, c) \<in> set ps \<Longrightarrow> k < length ls \<Longrightarrow> c \<in> set (ls ! k) \<Longrightarrow> q \<in> D \<union> set (concat (take k ls))"
  using assms
proof (induction ls arbitrary: D k)
  case Nil
  then show ?case by simp
next
  case (Cons l ls)
  show ?case
  proof (cases k)
    case 0
    with Cons.prems show ?thesis by simp
  next
    case (Suc j)
    from Cons.prems(4) have "levels_ok ps (set l \<union> D) ls" by simp
    from Cons.IH [OF Cons.prems(1) _ _ this, of j] Cons.prems(2,3) Suc show ?thesis by auto
  qed
qed

lemma levels_ok_parents_first_concat:
  "levels_ok ps (set xs) ls \<Longrightarrow> parents_first ps xs \<Longrightarrow> parents_first ps (xs @ concat ls)"
proof (induction ls arbitrary: xs)
  case Nil
  then show ?case by simp
next
  case (Cons l ls)
  have "parents_first ps (xs @ l)"
    using Cons.prems(2) by (rule parents_first_append) (use Cons.prems(1) in simp)
  moreover have "levels_ok ps (set (xs @ l)) ls" using Cons.prems(1) by (simp add: Un_commute)
  ultimately show ?case using Cons.IH [of "xs @ l"] by simp
qed

text \<open>A node of a level after the first has a predecessor in the level just before.\<close>

lemma levels_ok_tight:
  assumes "levels_ok ps D ls"
  shows "Suc k < length ls \<Longrightarrow> c \<in> set (ls ! Suc k) \<Longrightarrow> \<exists>q \<in> set (ls ! k). (q, c) \<in> set ps"
  using assms
proof (induction ls arbitrary: D k)
  case Nil
  then show ?case by simp
next
  case (Cons l ls)
  show ?case
  proof (cases k)
    case 0
    with Cons.prems obtain m ms where ls: "ls = m # ms" by (cases ls) auto
    with Cons.prems 0 have c: "c \<in> nodes ps - (set l \<union> D)" "\<And>q. (q, c) \<in> set ps \<Longrightarrow> q \<in> set l \<union> D" by auto
    with Cons.prems(3) obtain q where "(q, c) \<in> set ps" "q \<notin> D" by auto
    with c(2) 0 show ?thesis by auto
  next
    case (Suc j)
    with Cons.prems Cons.IH [of j "set l \<union> D"] show ?thesis by auto
  qed
qed

lemma topsort_levels_unfold:
  assumes "\<And>xs. mset (ko xs) = mset xs"
  obtains ls np ch where
    "topsort_levels ko ps = (ls, if np = [] then None else Some (LevelCycleError np ch))"
    "levels_ok ps {} ls" "kahn_inv ps (set (concat ls)) np ch" "\<And>x. map_of np x \<noteq> Some 0"
proof -
  from build_graph_inv obtain np ch where b: "build_graph ps = Inr (np, ch)" "kahn_inv ps {} np ch" by blast
  obtain ls out where r: "topsort_levels_core ko np ch = (ls, out)" by fastforce
  from levels_core_spec [OF assms b(2)] r obtain np' ch' where
    "levels_ok ps {} ls" "kahn_inv ps (set (concat ls)) np' ch'" "\<forall>x. map_of np' x \<noteq> Some 0"
    "out = (if np' = [] then None else Some (LevelCycleError np' ch'))" by auto
  with that [of ls np' ch'] b(1) r show ?thesis by (simp add: topsort_levels_def)
qed

section \<open>Properties\<close>

text \<open>
  C38: \<open>topsort\<close>, for every list of pairs and every order of its dictionaries: without a cycle it
  returns every element exactly once, each after all its parents; with a cycle it raises CycleError
  with the elements it could place and the counts of exactly the others, none of them 0. It never
  raises KeyError, although it deletes and decrements entries of dictionaries as it goes.
\<close>

theorem topsort_correct:
  assumes "\<And>xs. mset (ko xs) = mset xs"
  shows "case topsort ko ps of
      Inr answer \<Rightarrow> acyclic (set ps) \<and> distinct answer \<and> set answer = nodes ps \<and> parents_first ps answer
    | Inl (CycleError answer num_parents children) \<Rightarrow>
        \<not> acyclic (set ps) \<and> distinct answer \<and> parents_first ps answer \<and> num_parents \<noteq> [] \<and>
        set (map fst num_parents) = nodes ps - set answer \<and> 0 \<notin> snd ` set num_parents
    | Inl _ \<Rightarrow> False"
proof -
  from build_graph_inv obtain np ch where b: "build_graph ps = Inr (np, ch)" "kahn_inv ps {} np ch" by blast
  note roots = roots_of_spec [OF assms b(2)]
  have "parents_first ps (roots_of ko np)"
    using parents_first_append [of ps "[]" "roots_of ko np"]
    by (auto simp: parents_first_def roots(2) kahn_zero [OF b(2)])
  with topsort_loop_spec [of ps 0 "roots_of ko np" np ch] roots b(2) obtain ans np' ch' where l:
    "topsort_loop (roots_of ko np) 0 np ch = Inr (ans, np', ch')" "kahn_inv ps (set ans) np' ch'"
    "distinct ans" "\<forall>x. map_of np' x \<noteq> Some 0" "parents_first ps ans" by auto
  have res: "topsort ko ps = (if np' \<noteq> [] then Inl (CycleError ans np' ch') else Inr ans)"
    using b(1) l(1) by (simp add: topsort_def lift_py_def)
  show ?thesis
  proof (cases "np' = []")
    case True
    with l(2) have "set ans = nodes ps" by (auto dest: kahn_done)
    with True l res show ?thesis by (auto dest: parents_first_acyclic)
  next
    case False
    have ok: "distinct (map fst np')" and np': "dom (map_of np') = nodes ps - set ans"
      using l(2) by (auto simp: kahn_inv_def d_ok_def dom_def)
    have "0 \<notin> snd ` set np'" using l(4) map_of_is_SomeI [OF ok] by fastforce
    with False l res np' kahn_leftover [OF l(2)] show ?thesis by (simp add: dom_map_of_conv_image_fst)
  qed
qed

theorem topsort_correct_witness:
  "\<exists>answer. topsort rev [(1, 2), (1, 3), (2, 4), (3, 4 :: nat)] = Inr answer \<and> distinct answer \<and>
     set answer = nodes [(1, 2), (1, 3), (2, 4), (3, 4)] \<and>
     parents_first [(1, 2), (1, 3), (2, 4), (3, 4)] answer \<and> acyclic (set [(1, 2), (1, 3), (2, 4), (3, 4 :: nat)])"
proof -
  have run: "topsort rev [(1, 2), (1, 3), (2, 4), (3, 4 :: nat)] = Inr [1, 2, 3, 4]" by code_simp
  from topsort_correct [where ko = rev and ps = "[(1, 2), (1, 3), (2, 4), (3, 4 :: nat)]"]
  show ?thesis unfolding run by auto
qed

text \<open>
  \<open>topsort_levels\<close> yields each element once; its parents lie in earlier levels and, after the first
  level, one of them in the level just before, so the level of an element is the length of its longest
  chain of ancestors. The generator ends normally exactly when there is no cycle, and then every
  element was yielded; otherwise it ends with CycleError, never with KeyError.
\<close>

theorem topsort_levels_correct:
  assumes "\<And>xs. mset (ko xs) = mset xs" and "topsort_levels ko ps = (levels, outcome)"
  shows "distinct (concat levels) \<and> [] \<notin> set levels \<and>
    (\<forall>k q c. k < length levels \<longrightarrow> c \<in> set (levels ! k) \<longrightarrow> (q, c) \<in> set ps \<longrightarrow>
       (\<exists>j < k. q \<in> set (levels ! j))) \<and>
    (\<forall>k c. Suc k < length levels \<longrightarrow> c \<in> set (levels ! Suc k) \<longrightarrow>
       (\<exists>q \<in> set (levels ! k). (q, c) \<in> set ps)) \<and>
    (case outcome of
       None \<Rightarrow> acyclic (set ps) \<and> set (concat levels) = nodes ps
     | Some (LevelCycleError num_parents children) \<Rightarrow>
         \<not> acyclic (set ps) \<and> set (map fst num_parents) = nodes ps - set (concat levels)
     | Some _ \<Rightarrow> False)"
proof -
  obtain np ch where u: "outcome = (if np = [] then None else Some (LevelCycleError np ch))"
      "levels_ok ps {} levels" "kahn_inv ps (set (concat levels)) np ch" "\<And>x. map_of np x \<noteq> Some 0"
    by (rule topsort_levels_unfold [OF assms(1), of ps]) (use assms(2) in auto)
  have earlier: "\<exists>j < k. q \<in> set (levels ! j)"
    if "k < length levels" "c \<in> set (levels ! k)" "(q, c) \<in> set ps" for k q c
  proof -
    have "q \<in> set (concat (take k levels))"
      using levels_ok_parents_first [OF u(2) that(3,1,2)] by simp
    then obtain l where "l \<in> set (take k levels)" "q \<in> set l" by auto
    moreover from this(1) obtain j where "j < k" "l = levels ! j" by (auto simp: in_set_conv_nth)
    ultimately show ?thesis by blast
  qed
  have nonempty: "[] \<notin> set levels" using u(2)
    by (induction levels arbitrary: ps rule: levels_ok.induct) auto
  show ?thesis
  proof (cases "np = []")
    case True
    then have all: "set (concat levels) = nodes ps" using u(3) by (auto dest: kahn_done)
    have "acyclic (set ps)"
      using levels_ok_parents_first_concat [of ps "[]" levels] u(2) all
      by (intro parents_first_acyclic [of ps "concat levels"]) (simp_all add: parents_first_def)
    with True u(1) all earlier nonempty levels_ok_disjoint [OF u(2)] levels_ok_tight [OF u(2)] show ?thesis
      by auto
  next
    case False
    have "dom (map_of np) = nodes ps - set (concat levels)"
      using u(3) by (auto simp: kahn_inv_def dom_def)
    with False u(1) earlier nonempty levels_ok_disjoint [OF u(2)] levels_ok_tight [OF u(2)]
      kahn_leftover [OF u(3) False u(4)] show ?thesis by (auto simp: dom_map_of_conv_image_fst)
  qed
qed

theorem topsort_levels_correct_witness:
  "topsort_levels rev [(1, 2), (2, 3), (3, 4), (4, 3 :: nat)] =
     ([[1], [2]], Some (LevelCycleError [(3, 1), (4, 1)] [(3, [4]), (4, [3])])) \<and>
   \<not> acyclic (set [(1, 2), (2, 3), (3, 4), (4, 3 :: nat)])"
proof -
  have run: "topsort_levels rev [(1, 2), (2, 3), (3, 4), (4, 3 :: nat)] =
     ([[1], [2]], Some (LevelCycleError [(3, 1), (4, 1)] [(3, [4]), (4, [3])]))" by code_simp
  from topsort_levels_correct [OF _ this] run show ?thesis by auto
qed

end
