(* ===== verification/FindCycles.thy ===== *)
theory FindCycles
  imports Topsort
begin

text \<open>
  \<open>find_cycles\<close> of \<^verbatim>\<open>bindings/python/topsort.py\<close>: the simple cycles of a graph by exploring all
  simple paths from each node that no earlier exploration has reached. The generator is modelled by
  the list of the cycles it yields.
\<close>

section \<open>Definitions\<close>

text \<open>The loop \<open>for other_cycle in cycles\<close>, which stops at the first rotation.\<close>

fun is_dup :: "'a list list \<Rightarrow> 'a list \<Rightarrow> bool result" where
  "is_dup [] cycle = Inr False"
| "is_dup (other_cycle # cycles) cycle =
     bind_r (is_rotated other_cycle cycle) (\<lambda>b. if b then Inr True else is_dup cycles cycle)"

text \<open>The loop state: the cycles found, the stack of paths (its top is the last) and the visited nodes.\<close>

record 'a fc_state =
  cycles :: "'a list list"
  paths :: "'a list list"
  visited_nodes :: "'a set"

definition fc_child :: "'a list \<Rightarrow> 'a fc_state \<Rightarrow> 'a \<Rightarrow> 'a fc_state result" where
  "fc_child path s child =
     (case index_of path child of
        Some i \<Rightarrow>
          let cycle = py_slice_from path (int i)
          in bind_r (is_dup (cycles s) cycle) (\<lambda>dup.
               Inr (if dup then s else s\<lparr>cycles := cycles s @ [cycle]\<rparr>))
      | None \<Rightarrow> Inr (s\<lparr>paths := paths s @ [path @ [child]], visited_nodes := insert child (visited_nodes s)\<rparr>))"

lemma fc_child_paths:
  "fc_child path s child = Inr s' \<Longrightarrow>
   paths s' = paths s @ (if child \<in> set path then [] else [path @ [child]])"
  by (auto simp: fc_child_def Let_def bind_r_eq_Inr_iff index_of_None_iff
      split: option.splits if_splits dest: index_of_Some)

lemma fc_children_paths:
  "foldM_r (fc_child path) s children = Inr s' \<Longrightarrow>
   paths s' = paths s @ map (\<lambda>c. path @ [c]) (filter (\<lambda>c. c \<notin> set path) children)"
proof (induction children arbitrary: s)
  case Nil
  then show ?case by simp
next
  case (Cons c children)
  then obtain s1 where "fc_child path s c = Inr s1" "foldM_r (fc_child path) s1 children = Inr s'"
    by (auto simp: bind_r_eq_Inr_iff)
  with Cons.IH [of s1] fc_child_paths [of path s c s1] show ?case by simp
qed

text \<open>
  The rank of a path is the number of children it could still visit. Popping a path and pushing its
  extensions replaces one rank by smaller ones.
\<close>

definition path_rank :: "('a, 'a list) dict \<Rightarrow> 'a list \<Rightarrow> nat" where
  "path_rank pc path = card (set (concat (map snd pc)) - set path)"

lemma path_rank_less:
  assumes "map_of pc x = Some ks" "c \<in> set ks" "c \<notin> set path"
  shows "path_rank pc (path @ [c]) < path_rank pc path"
proof -
  have "c \<in> set (concat (map snd pc))" using map_of_SomeD [OF assms(1)] assms(2) by force
  then have "set (concat (map snd pc)) - set (path @ [c]) \<subset> set (concat (map snd pc)) - set path"
    using assms(3) by auto
  then show ?thesis unfolding path_rank_def by (rule psubset_card_mono [rotated]) simp
qed

function fc_while :: "('a, 'a list) dict \<Rightarrow> 'a fc_state \<Rightarrow> 'a fc_state result" where
  "fc_while pc s =
     (if paths s = [] then Inr s
      else let path = last (paths s);
               s = s\<lparr>paths := butlast (paths s)\<rparr>
           in bind_r (py_index path (- 1)) (\<lambda>parent.
                case map_of pc parent of
                  None \<Rightarrow> fc_while pc s
                | Some children \<Rightarrow> bind_r (foldM_r (fc_child path) s children) (\<lambda>s. fc_while pc s)))"
  by pat_completeness auto
termination
proof (relation "inv_image (mult less_than) (\<lambda>(pc, s). mset (map (path_rank pc) (paths s)))", goal_cases)
  case 1
  show ?case by (intro wf_inv_image wf_mult) simp
next
  case (2 pc s path s1 parent)
  then have "paths s = paths s1 @ [path]" by simp
  then have "mset (map (path_rank pc) (paths s)) = mset (map (path_rank pc) (paths s1)) + {#path_rank pc path#}"
    by simp
  with one_step_implies_mult [of "{#path_rank pc path#}" "{#}" less_than "mset (map (path_rank pc) (paths s1))"]
  show ?case by simp
next
  case (3 pc s path s1 parent ks s2)
  then have ps: "paths s = paths s1 @ [path]" by simp
  let ?new = "map (\<lambda>c. path @ [c]) (filter (\<lambda>c. c \<notin> set path) ks)"
  have p2: "paths s2 = paths s1 @ ?new" using 3 by (simp add: fc_children_paths)
  have "(mset (map (path_rank pc) (paths s1)) + mset (map (path_rank pc) ?new),
         mset (map (path_rank pc) (paths s1)) + {#path_rank pc path#}) \<in> mult less_than"
  proof (rule one_step_implies_mult)
    show "\<forall>k \<in> set_mset (mset (map (path_rank pc) ?new)). \<exists>j \<in> set_mset {#path_rank pc path#}. (k, j) \<in> less_than"
      using 3 by (auto intro: path_rank_less)
  qed simp
  then show ?case by (simp add: ps p2 multiset.map_comp)
qed

declare fc_while.simps [simp del]

definition fc_root :: "('a, 'a list) dict \<Rightarrow> 'a fc_state \<Rightarrow> 'a \<Rightarrow> 'a fc_state result" where
  "fc_root pc s parent =
     (if parent \<in> visited_nodes s then Inr s else fc_while pc (s\<lparr>paths := [[parent]]\<rparr>))"

definition find_cycles :: "('a list \<Rightarrow> 'a list) \<Rightarrow> ('a, 'a list) dict \<Rightarrow> 'a list list result" where
  "find_cycles ko parent_children =
     bind_r (foldM_r (fc_root parent_children) \<lparr>cycles = [], paths = [], visited_nodes = {}\<rparr>
       (ko (d_keys parent_children))) (\<lambda>s. Inr (cycles s))"

section \<open>Paths and cycles of the graph\<close>

definition edge :: "('a, 'a list) dict \<Rightarrow> 'a \<Rightarrow> 'a \<Rightarrow> bool" where
  "edge pc a b \<longleftrightarrow> (\<exists>ks. map_of pc a = Some ks \<and> b \<in> set ks)"

definition simple_path :: "('a, 'a list) dict \<Rightarrow> 'a list \<Rightarrow> bool" where
  "simple_path pc p \<longleftrightarrow> p \<noteq> [] \<and> distinct p \<and> successively (edge pc) p"

definition simple_cycle :: "('a, 'a list) dict \<Rightarrow> 'a list \<Rightarrow> bool" where
  "simple_cycle pc c \<longleftrightarrow> simple_path pc c \<and> edge pc (last c) (hd c)"

text \<open>The cycle \<open>c\<close> is in the list, up to the node it starts with.\<close>

definition covered :: "'a list list \<Rightarrow> 'a list \<Rightarrow> bool" where
  "covered C c \<longleftrightarrow> (\<exists>d \<in> set C. \<exists>n. c = rotate n d)"

lemma covered_mono: "covered C c \<Longrightarrow> set C \<subseteq> set C' \<Longrightarrow> covered C' c"
  by (auto simp: covered_def)

lemma covered_rotate: "covered C (rotate m c) \<Longrightarrow> covered C c"
proof -
  assume "covered C (rotate m c)"
  then obtain d n where d: "d \<in> set C" "rotate m c = rotate n d" by (auto simp: covered_def)
  have "rotate (m * (length c - 1)) (rotate m c) = rotate (m * length c) c"
    by (cases c) (auto simp: rotate_rotate add.commute)
  also have "\<dots> = c" by (metis mod_mult_self2_is_0 rotate_conv_mod rotate0 id_apply)
  finally have "c = rotate (m * (length c - 1) + n) d" by (simp add: d(2) rotate_rotate)
  with d(1) show ?thesis by (auto simp: covered_def)
qed

lemma simple_cycle_rotate1: "simple_cycle pc c \<Longrightarrow> simple_cycle pc (rotate1 c)"
  by (cases c) (auto simp: simple_cycle_def simple_path_def successively_append_iff successively_Cons
      split: list.splits if_splits)

lemma simple_cycle_rotate: "simple_cycle pc c \<Longrightarrow> simple_cycle pc (rotate n c)"
  by (induction n) (auto intro: simple_cycle_rotate1)

lemma simple_path_suffix:
  assumes "simple_path pc (a @ b)" and "b \<noteq> []"
  shows "simple_path pc b"
  using assms by (auto simp: simple_path_def successively_append_iff)

lemma is_dup_eq: "cycle \<noteq> [] \<Longrightarrow> is_dup C cycle = Inr (covered C cycle)"
  by (induction C) (auto simp: is_rotated_nonempty covered_def)

lemma slice_index_of:
  "index_of path child = Some i \<Longrightarrow> py_slice_from path (int i) = dropWhile (\<lambda>x. x \<noteq> child) path"
proof (induction path arbitrary: i)
  case Nil
  then show ?case by simp
next
  case (Cons x path)
  then show ?case by (auto simp: py_slice_from_def split: if_splits)
qed

lemma cycle_of_path:
  assumes "simple_path pc path" and "edge pc (last path) child" and "child \<in> set path"
  shows "simple_cycle pc (dropWhile (\<lambda>x. x \<noteq> child) path)"
proof -
  from assms(3) obtain a b where p: "path = a @ child # b" "child \<notin> set a" by (auto dest: split_list_first)
  then have d: "dropWhile (\<lambda>x. x \<noteq> child) path = child # b" by (auto simp: dropWhile_append)
  with simple_path_suffix [of pc a "child # b"] assms p(1) show ?thesis
    by (simp add: simple_cycle_def)
qed

section \<open>The loops\<close>

definition fc_inv :: "('a, 'a list) dict \<Rightarrow> 'a fc_state \<Rightarrow> bool" where
  "fc_inv pc s \<longleftrightarrow> list_all (simple_path pc) (paths s) \<and> list_all (simple_cycle pc) (cycles s) \<and>
     sorted_wrt (\<lambda>a b. \<forall>n. b \<noteq> rotate n a) (cycles s)"

lemma fc_child_spec:
  assumes inv: "fc_inv pc s" and path: "simple_path pc path" "edge pc (last path) child"
  shows "\<exists>s'. fc_child path s child = Inr s' \<and> fc_inv pc s' \<and> set (cycles s) \<subseteq> set (cycles s') \<and>
     (child \<in> set path \<longrightarrow> covered (cycles s') (dropWhile (\<lambda>x. x \<noteq> child) path)) \<and>
     visited_nodes s' = visited_nodes s \<union> ({child} - set path)"
proof (cases "child \<in> set path")
  case True
  then obtain i where i: "index_of path child = Some i" by (metis index_of_None_iff not_None_eq)
  let ?c = "dropWhile (\<lambda>x. x \<noteq> child) path"
  have c: "simple_cycle pc ?c" using cycle_of_path [OF path True] .
  then have "?c \<noteq> []" by (simp add: simple_cycle_def simple_path_def)
  then have "fc_child path s child = Inr (if covered (cycles s) ?c then s else s\<lparr>cycles := cycles s @ [?c]\<rparr>)"
    by (simp add: fc_child_def i slice_index_of [OF i] is_dup_eq Let_def)
  moreover have "covered (cycles s @ [?c]) ?c" by (auto simp: covered_def intro: exI [of _ 0])
  moreover have "fc_inv pc (s\<lparr>cycles := cycles s @ [?c]\<rparr>)" if "\<not> covered (cycles s) ?c"
    using inv c that by (auto simp: fc_inv_def sorted_wrt_append covered_def)
  ultimately show ?thesis using inv True by auto
next
  case False
  then have "index_of path child = None" by (simp add: index_of_None_iff)
  moreover have "simple_path pc (path @ [child])"
    using path False by (auto simp: simple_path_def successively_append_iff)
  ultimately show ?thesis using inv False by (auto simp: fc_child_def fc_inv_def)
qed

lemma fc_children_spec:
  assumes "fc_inv pc s" and path: "simple_path pc path" and "\<And>c. c \<in> set ks \<Longrightarrow> edge pc (last path) c"
  shows "\<exists>s'. foldM_r (fc_child path) s ks = Inr s' \<and> fc_inv pc s' \<and> set (cycles s) \<subseteq> set (cycles s') \<and>
     (\<forall>c \<in> set ks \<inter> set path. covered (cycles s') (dropWhile (\<lambda>x. x \<noteq> c) path)) \<and>
     visited_nodes s' = visited_nodes s \<union> (set ks - set path)"
  using assms(1,3)
proof (induction ks arbitrary: s)
  case Nil
  then show ?case by simp
next
  case (Cons k ks)
  from fc_child_spec [OF Cons.prems(1) path, of k] Cons.prems(2) obtain s1 where s1:
    "fc_child path s k = Inr s1" "fc_inv pc s1" "set (cycles s) \<subseteq> set (cycles s1)"
    "k \<in> set path \<longrightarrow> covered (cycles s1) (dropWhile (\<lambda>x. x \<noteq> k) path)"
    "visited_nodes s1 = visited_nodes s \<union> ({k} - set path)" by auto
  from Cons.IH [OF s1(2)] Cons.prems(2) obtain s' where s':
    "foldM_r (fc_child path) s1 ks = Inr s'" "fc_inv pc s'" "set (cycles s1) \<subseteq> set (cycles s')"
    "\<forall>c \<in> set ks \<inter> set path. covered (cycles s') (dropWhile (\<lambda>x. x \<noteq> c) path)"
    "visited_nodes s' = visited_nodes s1 \<union> (set ks - set path)" by auto
  have "k \<in> set path \<longrightarrow> covered (cycles s') (dropWhile (\<lambda>x. x \<noteq> k) path)"
    using s1(4) s'(3) by (auto intro: covered_mono)
  with s1 s' show ?case by auto
qed

text \<open>What the exploration from the paths \<open>P\<close> has found: the closing edge of every extension of them.\<close>

definition explored :: "('a, 'a list) dict \<Rightarrow> 'a list list \<Rightarrow> 'a list set \<Rightarrow> bool" where
  "explored pc C P \<longleftrightarrow> (\<forall>p \<in> P. \<forall>q c. simple_path pc (p @ q) \<longrightarrow> c \<in> set (p @ q) \<longrightarrow>
     edge pc (last (p @ q)) c \<longrightarrow> covered C (dropWhile (\<lambda>x. x \<noteq> c) (p @ q)))"

abbreviation reach :: "('a, 'a list) dict \<Rightarrow> 'a \<Rightarrow> 'a \<Rightarrow> bool" where
  "reach pc \<equiv> (edge pc)\<^sup>*\<^sup>*"

definition reached_from :: "('a, 'a list) dict \<Rightarrow> 'a list set \<Rightarrow> 'a set" where
  "reached_from pc P = {v. \<exists>p \<in> P. reach pc (last p) v}"

lemma reached_from_Un: "reached_from pc (P \<union> Q) = reached_from pc P \<union> reached_from pc Q"
  by (auto simp: reached_from_def)

lemma explored_extend:
  assumes "explored pc C P" and "\<And>c. edge pc (last path) c \<Longrightarrow> c \<notin> set path \<Longrightarrow> path @ [c] \<in> P"
    and "\<And>c. edge pc (last path) c \<Longrightarrow> c \<in> set path \<Longrightarrow> covered C (dropWhile (\<lambda>x. x \<noteq> c) path)"
    and "path \<noteq> []"
  shows "explored pc C {path}"
  unfolding explored_def
proof (clarify)
  fix q c assume q: "simple_path pc (path @ q)" "c \<in> set (path @ q)" "edge pc (last (path @ q)) c"
  show "covered C (dropWhile (\<lambda>x. x \<noteq> c) (path @ q))"
  proof (cases q)
    case Nil
    with q assms(3) show ?thesis by simp
  next
    case (Cons x q')
    with q(1) assms(4) have "edge pc (last path) x" "x \<notin> set path"
      by (auto simp: simple_path_def successively_append_iff)
    then have "path @ [x] \<in> P" by (rule assms(2))
    moreover have "path @ q = (path @ [x]) @ q'" using Cons by simp
    ultimately show ?thesis using assms(1) q unfolding explored_def by metis
  qed
qed

lemma explored_Un: "explored pc C (P \<union> Q) \<longleftrightarrow> explored pc C P \<and> explored pc C Q"
  by (auto simp: explored_def)

lemma explored_mono: "explored pc C P \<Longrightarrow> set C \<subseteq> set C' \<Longrightarrow> explored pc C' P"
  by (auto simp: explored_def intro: covered_mono)

lemma fc_while_spec:
  assumes "fc_inv pc s"
  shows "\<exists>s'. fc_while pc s = Inr s' \<and> fc_inv pc s' \<and> set (cycles s) \<subseteq> set (cycles s') \<and>
     explored pc (cycles s') (set (paths s)) \<and>
     visited_nodes s' \<subseteq> visited_nodes s \<union> reached_from pc (set (paths s))"
  using assms
proof (induction pc s rule: fc_while.induct)
  case (1 pc s)
  show ?case
  proof (cases "paths s = []")
    case True
    with 1 show ?thesis by (subst fc_while.simps) (auto simp: explored_def)
  next
    case False
    let ?path = "last (paths s)" and ?s = "s\<lparr>paths := butlast (paths s)\<rparr>"
    have ps: "set (paths s) = set (butlast (paths s)) \<union> {?path}"
      using False by (metis append_butlast_last_id set_append list.set(1,2))
    have path: "simple_path pc ?path" using 1(3) False by (simp add: fc_inv_def list_all_iff)
    then have ne: "?path \<noteq> []" by (simp add: simple_path_def)
    then have ix: "py_index ?path (- 1) = Inr (last ?path)"
      by (simp add: py_index_def last_conv_nth nat_diff_distrib Suc_leI)
    have inv: "fc_inv pc ?s" using 1(3) by (auto simp: fc_inv_def list_all_iff dest: in_set_butlastD)
    show ?thesis
    proof (cases "map_of pc (last ?path)")
      case None
      with 1(1) [OF False refl refl ix None inv] obtain s' where s': "fc_while pc ?s = Inr s'" "fc_inv pc s'"
        "set (cycles s) \<subseteq> set (cycles s')" "explored pc (cycles s') (set (butlast (paths s)))"
        "visited_nodes s' \<subseteq> visited_nodes s \<union> reached_from pc (set (butlast (paths s)))" by auto
      moreover have "explored pc (cycles s') {?path}"
        using s'(4) ne None by (intro explored_extend [of _ _ "set (butlast (paths s))"]) (auto simp: edge_def)
      moreover have "fc_while pc s = Inr s'"
        using False ix None s'(1) by (subst fc_while.simps) (simp add: Let_def)
      ultimately show ?thesis unfolding ps explored_Un by (auto simp: reached_from_def)
    next
      case (Some ks)
      then have edges: "edge pc (last ?path) c \<longleftrightarrow> c \<in> set ks" for c by (simp add: edge_def)
      from fc_children_spec [OF inv path, of ks] edges obtain s2 where s2:
        "foldM_r (fc_child ?path) ?s ks = Inr s2" "fc_inv pc s2" "set (cycles s) \<subseteq> set (cycles s2)"
        "\<forall>c \<in> set ks \<inter> set ?path. covered (cycles s2) (dropWhile (\<lambda>x. x \<noteq> c) ?path)"
        "visited_nodes s2 = visited_nodes s \<union> (set ks - set ?path)" by auto
      let ?new = "(\<lambda>c. ?path @ [c]) ` (set ks - set ?path)"
      have p2: "set (paths s2) = set (butlast (paths s)) \<union> ?new"
        using fc_children_paths [OF s2(1)] by auto
      from 1(2) [OF False refl refl ix Some s2(1,2)] obtain s' where s': "fc_while pc s2 = Inr s'" "fc_inv pc s'"
        "set (cycles s2) \<subseteq> set (cycles s')" "explored pc (cycles s') (set (paths s2))"
        "visited_nodes s' \<subseteq> visited_nodes s2 \<union> reached_from pc (set (paths s2))" by auto
      have "explored pc (cycles s') {?path}"
        using s'(4) ne p2 s2(4) s'(3)
        by (intro explored_extend [of _ _ "set (paths s2)"]) (auto simp: edges intro: covered_mono)
      moreover have "explored pc (cycles s') (set (butlast (paths s)))"
        using s'(4) unfolding p2 explored_Un by simp
      moreover have "reached_from pc ?new \<union> (set ks - set ?path) \<subseteq> reached_from pc {?path}"
        by (auto simp: reached_from_def edges intro: converse_rtranclp_into_rtranclp)
      then have "visited_nodes s' \<subseteq> visited_nodes s \<union> reached_from pc (set (paths s))"
        using s'(5) s2(5) unfolding ps p2 reached_from_Un by blast
      moreover have "fc_while pc s = Inr s'"
        using False ix Some s2(1) s'(1) by (subst fc_while.simps) (simp add: Let_def)
      ultimately show ?thesis using s2(3) s'(2,3) unfolding ps explored_Un by auto
    qed
  qed
qed

section \<open>Completeness\<close>

definition walk :: "('a, 'a list) dict \<Rightarrow> 'a \<Rightarrow> 'a list \<Rightarrow> bool" where
  "walk pc r xs \<longleftrightarrow> xs \<noteq> [] \<and> hd xs = r \<and> successively (edge pc) xs"

lemma reach_walk: "reach pc r v \<Longrightarrow> \<exists>xs. walk pc r xs \<and> last xs = v"
proof (induction rule: rtranclp_induct)
  case base
  show ?case by (intro exI [of _ "[r]"]) (simp add: walk_def)
next
  case (step y z)
  then obtain xs where "walk pc r xs" "last xs = y" by blast
  with step show ?case
    by (intro exI [of _ "xs @ [z]"]) (auto simp: walk_def successively_append_iff)
qed

text \<open>A shortest walk into a set of nodes is simple and meets the set only at its end.\<close>

lemma shortest_walk:
  assumes "reach pc r v" and "v \<in> S"
  obtains xs where "walk pc r xs" "last xs \<in> S" "distinct xs" "set (butlast xs) \<inter> S = {}"
proof -
  let ?Q = "\<lambda>xs. walk pc r xs \<and> last xs \<in> S"
  obtain ys where "?Q ys" using reach_walk [OF assms(1)] assms(2) by blast
  define xs where "xs = arg_min length ?Q"
  have xs: "?Q xs" and least: "\<And>ys. ?Q ys \<Longrightarrow> length xs \<le> length ys"
    using arg_min_nat_lemma [of ?Q, OF \<open>?Q ys\<close>] unfolding xs_def by auto
  have "distinct xs"
  proof (rule ccontr)
    assume "\<not> distinct xs"
    then obtain a b c x where d: "xs = a @ [x] @ b @ [x] @ c" by (metis not_distinct_decomp)
    with xs have "?Q (a @ x # c)"
      by (auto simp: walk_def successively_append_iff successively_Cons hd_append split: if_splits)
    from least [OF this] d show False by simp
  qed
  moreover have "set (butlast xs) \<inter> S = {}"
  proof (rule ccontr)
    assume "set (butlast xs) \<inter> S \<noteq> {}"
    then obtain a b y where y: "butlast xs = a @ y # b" "y \<in> S" by (auto dest!: split_list)
    with xs obtain w where w: "xs = a @ y # b @ [w]"
      by (metis append_butlast_last_id walk_def append_Cons append_assoc)
    have "?Q (a @ [y])" using xs y(2) unfolding w
      by (auto simp: walk_def successively_append_iff hd_append split: if_splits)
    from least [OF this] show False by (simp add: w)
  qed
  ultimately show ?thesis using that xs by blast
qed

lemma explored_covers:
  assumes ex: "explored pc C {[r]}" and c: "simple_cycle pc c" and v: "v \<in> set c" "reach pc r v"
  shows "covered C c"
proof -
  from shortest_walk [OF v(2,1)] obtain xs where xs: "walk pc r xs" "last xs \<in> set c" "distinct xs"
    "set (butlast xs) \<inter> set c = {}" .
  from xs(2) obtain n where n: "n < length c" "last xs = c ! n" by (metis in_set_conv_nth)
  let ?c = "rotate n c"
  have c': "simple_cycle pc ?c" using c by (rule simple_cycle_rotate)
  have hd: "hd ?c = last xs" using n c by (simp add: hd_rotate_conv_nth simple_cycle_def simple_path_def)
  then have ne: "?c = last xs # tl ?c" using c' by (metis list.collapse simple_cycle_def simple_path_def)
  let ?p = "butlast xs @ ?c"
  have xs': "xs = butlast xs @ [last xs]" using xs(1) by (simp add: walk_def)
  have "successively (edge pc) ?p"
  proof -
    have "successively (edge pc) (butlast xs @ [last xs])" using xs(1,3) xs' by (simp add: walk_def)
    with c' hd show ?thesis by (auto simp: simple_cycle_def simple_path_def successively_append_iff)
  qed
  moreover have "distinct ?p" using xs(3,4) c' by (auto simp: simple_cycle_def simple_path_def distinct_butlast)
  ultimately have p: "simple_path pc ?p" using ne by (auto simp: simple_path_def)
  have "?p = xs @ tl ?c" by (metis append.assoc append_Cons append_Nil ne xs')
  then have r: "?p = [r] @ tl xs @ tl ?c" using xs(1) by (metis append_Cons append_Nil list.collapse walk_def append.assoc)
  have "last xs \<in> set ?p" "edge pc (last ?p) (last xs)" using c' hd xs(2) by (auto simp: simple_cycle_def simple_path_def last_append)
  with ex p have "covered C (dropWhile (\<lambda>x. x \<noteq> last xs) ?p)"
    unfolding explored_def r by blast
  moreover have "last xs \<notin> set (butlast xs)" using xs(3) xs' by (metis distinct_append disjoint_iff list.set_intros(1))
  then have "dropWhile (\<lambda>x. x \<noteq> last xs) ?p = dropWhile (\<lambda>x. x \<noteq> last xs) ?c"
    by (intro dropWhile_append2) auto
  moreover have "dropWhile (\<lambda>x. x \<noteq> last xs) ?c = ?c" by (metis (mono_tags, lifting) dropWhile.simps(2) ne)
  ultimately show ?thesis using covered_rotate by metis
qed

text \<open>The outer loop: after the roots \<open>R\<close>, every cycle that can be reached from them is covered.\<close>

lemma fc_roots_spec:
  assumes "fc_inv pc s" and "visited_nodes s \<subseteq> reached_from pc ((\<lambda>r. [r]) ` R)"
    and "\<And>c v. simple_cycle pc c \<Longrightarrow> v \<in> set c \<Longrightarrow> v \<in> reached_from pc ((\<lambda>r. [r]) ` R) \<Longrightarrow> covered (cycles s) c"
  shows "\<exists>s'. foldM_r (fc_root pc) s rs = Inr s' \<and> fc_inv pc s' \<and>
    (\<forall>c v. simple_cycle pc c \<longrightarrow> v \<in> set c \<longrightarrow> v \<in> reached_from pc ((\<lambda>r. [r]) ` (R \<union> set rs)) \<longrightarrow> covered (cycles s') c)"
  using assms
proof (induction rs arbitrary: s R)
  case Nil
  then show ?case by auto
next
  case (Cons r rs)
  have ins: "reached_from pc ((\<lambda>r. [r]) ` insert r R) = {v. reach pc r v} \<union> reached_from pc ((\<lambda>r. [r]) ` R)"
    by (auto simp: reached_from_def)
  have "\<exists>s1. fc_root pc s r = Inr s1 \<and> fc_inv pc s1 \<and>
      visited_nodes s1 \<subseteq> reached_from pc ((\<lambda>r. [r]) ` insert r R) \<and>
      (\<forall>c v. simple_cycle pc c \<longrightarrow> v \<in> set c \<longrightarrow> v \<in> reached_from pc ((\<lambda>r. [r]) ` insert r R) \<longrightarrow> covered (cycles s1) c)"
  proof (cases "r \<in> visited_nodes s")
    case True
    then have "r \<in> reached_from pc ((\<lambda>r. [r]) ` R)" using Cons.prems(2) by blast
    then have "{v. reach pc r v} \<subseteq> reached_from pc ((\<lambda>r. [r]) ` R)"
      by (auto simp: reached_from_def intro: rtranclp_trans)
    with True Cons.prems show ?thesis unfolding ins by (auto simp: fc_root_def)
  next
    case False
    have "fc_inv pc (s\<lparr>paths := [[r]]\<rparr>)" using Cons.prems(1) by (simp add: fc_inv_def simple_path_def)
    from fc_while_spec [OF this] obtain s1 where s1: "fc_while pc (s\<lparr>paths := [[r]]\<rparr>) = Inr s1" "fc_inv pc s1"
      "set (cycles s) \<subseteq> set (cycles s1)" "explored pc (cycles s1) {[r]}"
      "visited_nodes s1 \<subseteq> visited_nodes s \<union> {v. reach pc r v}" by (auto simp: reached_from_def)
    have "covered (cycles s1) c" if "simple_cycle pc c" "v \<in> set c" "v \<in> reached_from pc ((\<lambda>r. [r]) ` insert r R)" for c v
      using that(3) explored_covers [OF s1(4) that(1,2)] covered_mono [OF Cons.prems(3) [OF that(1,2)] s1(3)]
      unfolding ins by blast
    with False s1 Cons.prems(2) show ?thesis unfolding ins by (auto simp: fc_root_def)
  qed
  then obtain s1 where s1: "fc_root pc s r = Inr s1" "fc_inv pc s1"
      "visited_nodes s1 \<subseteq> reached_from pc ((\<lambda>r. [r]) ` insert r R)"
      "\<And>c v. simple_cycle pc c \<Longrightarrow> v \<in> set c \<Longrightarrow> v \<in> reached_from pc ((\<lambda>r. [r]) ` insert r R) \<Longrightarrow> covered (cycles s1) c"
    by blast
  from Cons.IH [OF s1(2-4)] s1(1) show ?case by simp
qed

section \<open>Properties\<close>

text \<open>
  C39: \<open>find_cycles\<close>, for every graph and every order of its keys, always ends, and yields exactly the
  simple cycles of the graph: every list it yields is a cycle without repeated nodes, no two of them
  are rotations of each other, and every such cycle of the graph is a rotation of one that is yielded.
  Skipping the nodes that an earlier exploration has visited loses none.
\<close>

theorem find_cycles_correct:
  assumes "\<And>xs. mset (ko xs) = mset xs"
  shows "\<exists>C. find_cycles ko pc = Inr C \<and> (\<forall>c \<in> set C. simple_cycle pc c) \<and>
    (\<forall>i j. i < length C \<longrightarrow> j < length C \<longrightarrow> i \<noteq> j \<longrightarrow> (\<forall>n. C ! j \<noteq> rotate n (C ! i))) \<and>
    (\<forall>c. simple_cycle pc c \<longrightarrow> (\<exists>d \<in> set C. \<exists>n. c = rotate n d))"
proof -
  let ?s = "\<lparr>cycles = [], paths = [], visited_nodes = {}\<rparr>"
  have "key_order ko" by unfold_locales (rule assms)
  then have keys: "set (ko (d_keys pc)) = dom (map_of pc)" by (simp add: key_order.ko_set dom_map_of_conv_image_fst)
  have "fc_inv pc ?s" by (simp add: fc_inv_def)
  from fc_roots_spec [OF this, of "{}" "ko (d_keys pc)"] obtain s where s:
    "foldM_r (fc_root pc) ?s (ko (d_keys pc)) = Inr s" "fc_inv pc s"
    "\<And>c v. simple_cycle pc c \<Longrightarrow> v \<in> set c \<Longrightarrow> v \<in> reached_from pc ((\<lambda>r. [r]) ` dom (map_of pc)) \<Longrightarrow> covered (cycles s) c"
    by (auto simp: reached_from_def keys)
  let ?C = "cycles s"
  have "covered ?C c" if c: "simple_cycle pc c" for c
  proof (rule s(3) [OF c])
    show "last c \<in> set c" using c by (simp add: simple_cycle_def simple_path_def)
    show "last c \<in> reached_from pc ((\<lambda>r. [r]) ` dom (map_of pc))"
      using c by (auto simp: reached_from_def simple_cycle_def edge_def)
  qed
  moreover have "?C ! j \<noteq> rotate n (?C ! i)" if "i < length ?C" "j < length ?C" "i \<noteq> j" for i j n
  proof (cases "i < j")
    case True
    with s(2) that show ?thesis by (simp add: fc_inv_def sorted_wrt_iff_nth_less)
  next
    case False
    show ?thesis
    proof
      assume eq: "?C ! j = rotate n (?C ! i)"
      then have "covered [?C ! j] (rotate n (?C ! i))" by (auto simp: covered_def intro: exI [of _ 0])
      then have "covered [?C ! j] (?C ! i)" by (rule covered_rotate)
      with s(2) that False show False by (auto simp: fc_inv_def sorted_wrt_iff_nth_less covered_def)
    qed
  qed
  moreover have "find_cycles ko pc = Inr ?C" using s(1) by (simp add: find_cycles_def)
  moreover have "\<forall>c \<in> set ?C. simple_cycle pc c" using s(2) by (simp add: fc_inv_def list_all_iff)
  ultimately show ?thesis unfolding covered_def by blast
qed

theorem find_cycles_correct_witness:
  "find_cycles rev [(1, [2]), (2, [3]), (3, [2, 4]), (4 :: nat, [])] = Inr [[3, 2]] \<and>
   simple_cycle [(1, [2]), (2, [3]), (3, [2, 4]), (4 :: nat, [])] [3, 2]"
proof -
  have run: "find_cycles rev [(1, [2]), (2, [3]), (3, [2, 4]), (4 :: nat, [])] = Inr [[3, 2]]" by code_simp
  from find_cycles_correct [where ko = rev and pc = "[(1, [2]), (2, [3]), (3, [2, 4]), (4 :: nat, [])]"]
  show ?thesis unfolding run by auto
qed

end
