(* ===== verification/FogServers.thy ===== *)
theory FogServers
  imports PyString
begin

text \<open>
  The candidate servers of the fog placement scripts (\<^verbatim>\<open>src/Fog4VR\<close>): \<open>concatenarServers\<close> of
  \<^verbatim>\<open>AHP/AHP.py\<close>, \<^verbatim>\<open>Guloso-Aleatorio/exemplo.py\<close>, \<^verbatim>\<open>PLI/pli.py\<close> and \<^verbatim>\<open>PLI/pliLocal.py\<close>, which
  read the controller's log, estimate the migration times and normalise the criteria. Numbers are
  exact rationals; \<open>None\<close> stands for NumPy's \<open>nan\<close>. The lines of the log and the matrix of delays
  are arguments.
\<close>

section \<open>Definitions\<close>

definition TCPWindow :: rat where
  "TCPWindow = 8388608"

text \<open>The lists the reading loop fills, and its row counter \<open>i\<close>.\<close>

record rows =
  totalMemory :: "rat list"
  freeMemory :: "rat list"
  memoryUsage :: "rat list"
  hasContent :: "nat list"
  band :: "nat list"
  latency :: "rat list"
  ServersIP :: "string list"
  row :: nat

definition no_rows :: rows where
  "no_rows = \<lparr>totalMemory = [], freeMemory = [], memoryUsage = [], hasContent = [], band = [],
     latency = [], ServersIP = [], row = 0\<rparr>"

text \<open>\<open>delays[a][b]\<close> of a NumPy matrix.\<close>

definition delay :: "rat list list \<Rightarrow> int \<Rightarrow> nat \<Rightarrow> rat result" where
  "delay delays a b = bind_r (py_index delays a) (\<lambda>r. py_index r (int b))"

text \<open>The two ways the scripts rate the memory: the share taken and the memory left.\<close>

definition usage_share :: "rat \<Rightarrow> rat \<Rightarrow> rat result" where
  "usage_share vsize free = (if free = 0 then Inl ZeroDivisionError else Inr (vsize / free))"

definition usage_left :: "rat \<Rightarrow> rat \<Rightarrow> rat result" where
  "usage_left vsize free = Inr (free - vsize)"

definition read_row :: "(rat \<Rightarrow> rat \<Rightarrow> rat result) \<Rightarrow> rat list list \<Rightarrow> rat \<Rightarrow> int \<Rightarrow> string \<Rightarrow>
    rows \<Rightarrow> string \<Rightarrow> rows result" where
  "read_row usage delays vsize pos contentId st line =
     (let fields = split_char (CHR '';'') line; i = row st
      in bind_r (bind_r (py_index fields 2) py_float) (\<lambda>free.
         if vsize \<le> free
         then bind_r (bind_r (py_index fields 1) py_float) (\<lambda>total.
              bind_r (py_index fields 3) (\<lambda>ip.
              bind_r (py_index fields 4) (\<lambda>field4.
              let contents = split_char (CHR ''/'') field4; free_list = freeMemory st @ [free]
              in bind_r (delay delays pos i) (\<lambda>time.
                 bind_r (bind_r (py_index free_list (int i)) (usage vsize)) (\<lambda>used.
                 Inr (st\<lparr>totalMemory := totalMemory st @ [total], freeMemory := free_list,
                         ServersIP := ServersIP st @ [ip], band := band st @ [length contents],
                         hasContent := (if contentId \<in> set contents then hasContent st @ [i] else hasContent st),
                         latency := latency st @ [time], memoryUsage := memoryUsage st @ [used],
                         row := i + 1\<rparr>))))))
         else Inr (st\<lparr>row := i + 1\<rparr>)))"

text \<open>\<open>next(file)\<close> drops the header line.\<close>

definition read_log :: "(rat \<Rightarrow> rat \<Rightarrow> rat result) \<Rightarrow> rat list list \<Rightarrow> rat \<Rightarrow> int \<Rightarrow> string \<Rightarrow>
    string list \<Rightarrow> rows result" where
  "read_log usage delays vsize pos contentId file =
     (case file of [] \<Rightarrow> Inl StopIteration
      | _ # lines \<Rightarrow> foldM_r (read_row usage delays vsize pos contentId) no_rows lines)"

text \<open>NumPy divides by a zero delay without an exception; the infinite throughput is then capped.\<close>

definition max_throughput :: "rat \<Rightarrow> rat" where
  "max_throughput t =
     (if t = 0 then 120
      else let m = TCPWindow / (t * 1000) / 8 in if m > 120 then 120 else m)"

definition migration_time :: "rat list list \<Rightarrow> rat \<Rightarrow> int \<Rightarrow> nat list \<Rightarrow> nat \<Rightarrow> rat result" where
  "migration_time delays vsize pos has_content i =
     (if i \<in> set has_content then Inr 0
      else bind_r (mapM_r (\<lambda>j. delay delays pos j) has_content) (\<lambda>ts.
           bind_r (if ts = [] then bind_r (delay delays (int i) 7) (\<lambda>t. Inr [t]) else Inr ts) (\<lambda>times.
           Inr (vsize / max_throughput (Min (set times))))))"

text \<open>
  \<open>(xs - min(xs)) / (max(xs) - min(xs))\<close>: 0/0 is \<open>nan\<close> when all values are equal. The memory has a
  guard for that case.
\<close>

definition normalise :: "rat list \<Rightarrow> rat option list result" where
  "normalise xs =
     (if xs = [] then Inl ValueError
      else let lo = Min (set xs); hi = Max (set xs)
           in Inr (map (\<lambda>x. if hi = lo then None else Some ((x - lo) / (hi - lo))) xs))"

definition normalise_memory :: "rat list \<Rightarrow> rat option list result" where
  "normalise_memory xs =
     (if xs = [] then Inl ValueError
      else if Max (set xs) = Min (set xs) then Inr (map (\<lambda>x. Some 0) xs)
      else normalise xs)"

text \<open>What the scripts go on with: the migration times in the caller's list, \<open>ServersIP\<close> and \<open>Servers\<close>.\<close>

record placement =
  migrationTime :: "rat list"
  candidates :: "string list"
  Servers :: "(string, rat option list) dict"

definition register :: "(nat \<Rightarrow> bool) \<Rightarrow> (nat \<Rightarrow> rat option list) \<Rightarrow> string list \<Rightarrow> (string, rat option list) dict" where
  "register keep values ips =
     foldl (\<lambda>d i. if keep i then AList.update (ips ! i) (values i) d else d) [] [0..<length ips]"

definition concatenar :: "(rat \<Rightarrow> rat \<Rightarrow> rat result) \<Rightarrow> (nat \<Rightarrow> bool) \<Rightarrow> (nat \<Rightarrow> rat option list) \<Rightarrow>
    rat list list \<Rightarrow> rat \<Rightarrow> int \<Rightarrow> string \<Rightarrow> string list \<Rightarrow> placement result" where
  "concatenar usage keep extra delays vsize pos contentId file =
     bind_r (read_log usage delays vsize pos contentId file) (\<lambda>st.
     bind_r (mapM_r (migration_time delays vsize pos (hasContent st)) [0..<length (ServersIP st)]) (\<lambda>times.
     bind_r (normalise (latency st)) (\<lambda>lat.
     bind_r (normalise times) (\<lambda>mig.
     bind_r (normalise_memory (memoryUsage st)) (\<lambda>mem.
     Inr \<lparr>migrationTime = times, candidates = ServersIP st,
          Servers = register (\<lambda>i. keep (band st ! i)) (\<lambda>i. [lat ! i, mig ! i, mem ! i] @ extra (band st ! i))
            (ServersIP st)\<rparr>)))))"

definition concatenarServers_ahp :: "rat list list \<Rightarrow> rat \<Rightarrow> int \<Rightarrow> string \<Rightarrow> string list \<Rightarrow> placement result" where
  "concatenarServers_ahp = concatenar usage_share (\<lambda>b. b < 10) (\<lambda>b. [])"

definition concatenarServers_exemplo :: "rat list list \<Rightarrow> rat \<Rightarrow> int \<Rightarrow> string \<Rightarrow> string list \<Rightarrow> placement result" where
  "concatenarServers_exemplo = concatenar usage_share (\<lambda>b. True) (\<lambda>b. [Some 0])"

definition concatenarServers_pli :: "rat list list \<Rightarrow> rat \<Rightarrow> int \<Rightarrow> string \<Rightarrow> string list \<Rightarrow> placement result" where
  "concatenarServers_pli = concatenar usage_share (\<lambda>b. True) (\<lambda>b. [Some 0])"

definition concatenarServers_local :: "rat list list \<Rightarrow> rat \<Rightarrow> int \<Rightarrow> string \<Rightarrow> string list \<Rightarrow> placement result" where
  "concatenarServers_local = concatenar usage_left (\<lambda>b. b < 10) (\<lambda>b. [Some (of_nat b)])"

section \<open>Rows of the log\<close>

text \<open>What a row says: its free memory, address and contents.\<close>

abbreviation row_fields :: "string \<Rightarrow> string list" where
  "row_fields line \<equiv> split_char (CHR '';'') line"

definition row_free :: "string \<Rightarrow> rat" where
  "row_free line = (case py_float (row_fields line ! 2) of Inl _ \<Rightarrow> 0 | Inr x \<Rightarrow> x)"

definition row_contents :: "string \<Rightarrow> string list" where
  "row_contents line = split_char (CHR ''/'') (row_fields line ! 4)"

definition row_ok :: "string \<Rightarrow> bool" where
  "row_ok line \<longleftrightarrow> 5 \<le> length (row_fields line) \<and>
     \<not> isl (py_float (row_fields line ! 1)) \<and> \<not> isl (py_float (row_fields line ! 2))"

definition fits :: "rat \<Rightarrow> string \<Rightarrow> bool" where
  "fits vsize line \<longleftrightarrow> vsize \<le> row_free line"

lemma py_index_numeral: "numeral k < length xs \<Longrightarrow> py_index xs (numeral k) = Inr (xs ! numeral k)"
  using py_index_nat [of "numeral k" xs] by simp

lemma py_index_1: "1 < length xs \<Longrightarrow> py_index xs 1 = Inr (xs ! 1)"
  using py_index_nat [of 1 xs] by simp

lemma row_fields_index:
  assumes "row_ok line"
  shows "py_index (row_fields line) 1 = Inr (row_fields line ! 1)"
    and "py_index (row_fields line) 2 = Inr (row_fields line ! 2)"
    and "py_index (row_fields line) 3 = Inr (row_fields line ! 3)"
    and "py_index (row_fields line) 4 = Inr (row_fields line ! 4)"
  using assms by (auto simp: row_ok_def py_index_numeral py_index_1)

lemma row_free_float: "row_ok line \<Longrightarrow> py_float (row_fields line ! 2) = Inr (row_free line)"
  by (cases "py_float (row_fields line ! 2)") (auto simp: row_ok_def row_free_def)

lemma row_total_float: "row_ok line \<Longrightarrow> \<exists>t. py_float (row_fields line ! 1) = Inr t"
  by (cases "py_float (row_fields line ! 1)") (auto simp: row_ok_def)

text \<open>A row without enough memory is counted and leaves the lists alone.\<close>

lemma read_row_rejected:
  "row_ok line \<Longrightarrow> \<not> fits vsize line \<Longrightarrow>
   read_row usage delays vsize pos cid st line = Inr (st\<lparr>row := row st + 1\<rparr>)"
  by (simp add: read_row_def Let_def row_fields_index row_free_float fits_def)

text \<open>The state after the rows of a list that all fit.\<close>

definition rows_of :: "(rat \<Rightarrow> rat \<Rightarrow> rat) \<Rightarrow> rat list \<Rightarrow> rat \<Rightarrow> string \<Rightarrow> string list \<Rightarrow> rows" where
  "rows_of use drow vsize cid lines =
    \<lparr>totalMemory = map (\<lambda>l. projr (py_float (row_fields l ! 1))) lines, freeMemory = map row_free lines,
     memoryUsage = map (\<lambda>l. use vsize (row_free l)) lines,
     hasContent = filter (\<lambda>i. cid \<in> set (row_contents (lines ! i))) [0..<length lines],
     band = map (\<lambda>l. length (row_contents l)) lines, latency = take (length lines) drow,
     ServersIP = map (\<lambda>l. row_fields l ! 3) lines, row = length lines\<rparr>"

lemma read_row_accepted:
  assumes "row_ok line" and "fits vsize line" and "py_index delays pos = Inr drow"
    and "length lines < length drow" and "usage vsize (row_free line) = Inr (use vsize (row_free line))"
  shows "read_row usage delays vsize pos cid (rows_of use drow vsize cid lines) line =
         Inr (rows_of use drow vsize cid (lines @ [line]))"
proof -
  have "py_index (map row_free lines @ [row_free line]) (int (length lines)) = Inr (row_free line)"
    by (simp add: py_index_def nth_append)
  moreover have "filter (\<lambda>i. cid \<in> set (row_contents ((lines @ [line]) ! i))) [0..<length lines] =
      filter (\<lambda>i. cid \<in> set (row_contents (lines ! i))) [0..<length lines]"
    by (rule filter_cong) (auto simp: nth_append)
  moreover obtain t where "py_float (row_fields line ! 1) = Inr t" using row_total_float [OF assms(1)] by blast
  ultimately show ?thesis using assms
    by (simp add: read_row_def Let_def row_fields_index row_free_float fits_def rows_of_def delay_def
        row_contents_def take_Suc_conv_app_nth)
qed

lemma read_rows_accepted:
  assumes "\<And>l. l \<in> set lines \<Longrightarrow> row_ok l \<and> fits vsize l \<and> usage vsize (row_free l) = Inr (use vsize (row_free l))"
    and "py_index delays pos = Inr drow" and "length lines \<le> length drow"
  shows "foldM_r (read_row usage delays vsize pos cid) no_rows lines = Inr (rows_of use drow vsize cid lines)"
  using assms(1,3)
proof (induction lines rule: rev_induct)
  case Nil
  show ?case by (simp add: no_rows_def rows_of_def)
next
  case (snoc line lines)
  from snoc.prems have "foldM_r (read_row usage delays vsize pos cid) no_rows lines = Inr (rows_of use drow vsize cid lines)"
    by (intro snoc.IH) auto
  moreover have "read_row usage delays vsize pos cid (rows_of use drow vsize cid lines) line =
         Inr (rows_of use drow vsize cid (lines @ [line]))"
    using snoc.prems assms(2) by (intro read_row_accepted) auto
  ultimately show ?case by (simp add: foldM_r_append)
qed

lemma read_rows_rejected:
  "(\<And>l. l \<in> set lines \<Longrightarrow> row_ok l \<and> \<not> fits vsize l) \<Longrightarrow>
   foldM_r (read_row usage delays vsize pos cid) st lines = Inr (st\<lparr>row := row st + length lines\<rparr>)"
  by (induction lines arbitrary: st) (auto simp: read_row_rejected)

text \<open>After a rejected row the counter is ahead of the lists, and the next row that fits is fatal.\<close>

lemma read_row_ahead:
  assumes "row_ok line" and "fits vsize line" and "py_index delays pos = Inr drow" and "row st < length drow"
    and "length (freeMemory st) < row st"
  shows "read_row usage delays vsize pos cid st line = Inl IndexError"
proof -
  have "py_index (freeMemory st @ [row_free line]) (int (row st)) = Inl IndexError"
    using assms(5) by (intro py_index_out) simp
  moreover obtain t where "py_float (row_fields line ! 1) = Inr t" using row_total_float [OF assms(1)] by blast
  ultimately show ?thesis using assms
    by (simp add: read_row_def Let_def row_fields_index row_free_float fits_def delay_def)
qed

text \<open>The log splits into the rows that fit at its start and a rest that begins with one that does not.\<close>

lemma read_log_cases:
  assumes ok: "\<And>l. l \<in> set lines \<Longrightarrow> row_ok l"
    and use: "\<And>l. l \<in> set lines \<Longrightarrow> fits vsize l \<Longrightarrow> usage vsize (row_free l) = Inr (use vsize (row_free l))"
    and d: "py_index delays pos = Inr drow" "length lines \<le> length drow"
  shows "read_log usage delays vsize pos cid (header # lines) =
     (if list_all (\<lambda>l. \<not> fits vsize l) (dropWhile (fits vsize) lines)
      then Inr ((rows_of use drow vsize cid (takeWhile (fits vsize) lines))\<lparr>row := length lines\<rparr>)
      else Inl IndexError)"
proof -
  let ?a = "takeWhile (fits vsize) lines" and ?b = "dropWhile (fits vsize) lines"
  let ?st = "rows_of use drow vsize cid ?a"
  have ab: "lines = ?a @ ?b" by simp
  have sub: "set ?a \<subseteq> set lines" "set ?b \<subseteq> set lines" by (auto dest: set_takeWhileD set_dropWhileD)
  have "foldM_r (read_row usage delays vsize pos cid) no_rows ?a = Inr ?st"
    using d use ok sub by (intro read_rows_accepted) (auto dest: set_takeWhileD intro: order_trans [OF length_takeWhile_le])
  then have fold: "read_log usage delays vsize pos cid (header # lines) =
      foldM_r (read_row usage delays vsize pos cid) ?st ?b"
    using foldM_r_append [of "read_row usage delays vsize pos cid" no_rows ?a ?b] by (simp add: read_log_def)
  have row: "row ?st = length ?a" "length (freeMemory ?st) = length ?a" by (simp_all add: rows_of_def)
  show ?thesis
  proof (cases "list_all (\<lambda>l. \<not> fits vsize l) ?b")
    case True
    then have "foldM_r (read_row usage delays vsize pos cid) ?st ?b = Inr (?st\<lparr>row := row ?st + length ?b\<rparr>)"
      using ok sub by (intro read_rows_rejected) (auto simp: list_all_iff)
    moreover have "row ?st + length ?b = length lines" using row(1) by (metis ab length_append)
    ultimately show ?thesis using fold True by simp
  next
    case False
    then obtain l where l: "l \<in> set ?b" "fits vsize l" by (auto simp: list_all_iff)
    from split_list_first_prop [of ?b "fits vsize"] l obtain r x b2 where
      b: "?b = r @ x # b2" "fits vsize x" "\<forall>y \<in> set r. \<not> fits vsize y" by blast
    have "r \<noteq> []" using b hd_dropWhile [of "fits vsize" lines] by (cases r) auto
    have "set (r @ x # b2) \<subseteq> set lines" using sub(2) by (simp add: b(1))
    then have "foldM_r (read_row usage delays vsize pos cid) ?st r = Inr (?st\<lparr>row := row ?st + length r\<rparr>)"
      using ok b(3) by (intro read_rows_rejected) auto
    moreover have len: "length ?a + length r < length lines" by (subst ab, subst b(1)) simp
    have "read_row usage delays vsize pos cid (?st\<lparr>row := row ?st + length r\<rparr>) x = Inl IndexError"
      using ok b(2) d \<open>r \<noteq> []\<close> len row \<open>set (r @ x # b2) \<subseteq> set lines\<close> by (intro read_row_ahead) auto
    ultimately have "foldM_r (read_row usage delays vsize pos cid) ?st ?b = Inl IndexError"
      by (simp only: b(1) foldM_r_append foldM_r.simps bind_r_Inr bind_r_Inl)
    with fold False show ?thesis by simp
  qed
qed

section \<open>Migration times and normalised criteria\<close>

lemma max_throughput_bounds: "0 \<le> t \<Longrightarrow> 0 < max_throughput t \<and> max_throughput t \<le> 120"
  by (auto simp: max_throughput_def Let_def TCPWindow_def)

lemma delay_Inr: "py_index delays a = Inr r \<Longrightarrow> b < length r \<Longrightarrow> delay delays a b = Inr (r ! b)"
  by (simp add: delay_def)

text \<open>The matrix has a row for \<open>pos\<close> with \<open>n\<close> entries, and \<open>n\<close> rows with at least eight entries.\<close>

definition delays_ok :: "rat list list \<Rightarrow> int \<Rightarrow> nat \<Rightarrow> rat list \<Rightarrow> bool" where
  "delays_ok delays pos n drow \<longleftrightarrow> py_index delays pos = Inr drow \<and> n \<le> length drow \<and> n \<le> length delays \<and>
     (\<forall>r \<in> set delays. 8 \<le> length r \<and> (\<forall>t \<in> set r. 0 \<le> t))"

lemma delays_ok_row: "delays_ok delays pos n drow \<Longrightarrow> drow \<in> set delays"
  by (auto simp: delays_ok_def py_index_def split: if_splits)

lemma migration_time_total:
  assumes "delays_ok delays pos n drow" and "\<And>j. j \<in> set has \<Longrightarrow> j < n" and "i < n" and "0 \<le> vsize"
  shows "\<exists>t. migration_time delays vsize pos has i = Inr t \<and>
     (if i \<in> set has then t = 0 else vsize / 120 \<le> t)"
proof (cases "i \<in> set has")
  case True
  then show ?thesis by (simp add: migration_time_def)
next
  case False
  have drow: "\<forall>t \<in> set drow. 0 \<le> t" using delays_ok_row [OF assms(1)] assms(1) by (auto simp: delays_ok_def)
  have row_i: "py_index delays (int i) = Inr (delays ! i)" "7 < length (delays ! i)" "\<forall>t \<in> set (delays ! i). 0 \<le> t"
  proof -
    have i: "i < length delays" using assms(1,3) by (simp add: delays_ok_def)
    then show "py_index delays (int i) = Inr (delays ! i)" by simp
    have "\<forall>r \<in> set delays. 8 \<le> length r \<and> (\<forall>t \<in> set r. 0 \<le> t)"
      using assms(1) by (simp add: delays_ok_def)
    with nth_mem [OF i] have "8 \<le> length (delays ! i) \<and> (\<forall>t \<in> set (delays ! i). 0 \<le> t)" by (rule bspec [rotated])
    then show "7 < length (delays ! i)" "\<forall>t \<in> set (delays ! i). 0 \<le> t" by auto
  qed
  have ts: "mapM_r (\<lambda>j. delay delays pos j) has = Inr (map (\<lambda>j. drow ! j) has)"
    using assms(1,2) by (intro mapM_r_total) (fastforce simp: delays_ok_def intro: delay_Inr)
  obtain times where times: "times \<noteq> []" "\<forall>t \<in> set times. 0 \<le> t"
      "migration_time delays vsize pos has i = Inr (vsize / max_throughput (Min (set times)))"
  proof (cases "has = []")
    case True
    then show ?thesis
      using that [of "[delays ! i ! 7]"] row_i delay_Inr [OF row_i(1,2)] by (simp add: migration_time_def)
  next
    case False
    have "\<forall>t \<in> set (map (\<lambda>j. drow ! j) has). 0 \<le> t"
      using drow assms(1,2) by (fastforce simp: delays_ok_def)
    then show ?thesis
      using that [of "map (\<lambda>j. drow ! j) has"] False \<open>i \<notin> set has\<close> ts by (simp add: migration_time_def)
  qed
  have "0 \<le> Min (set times)" using times(1,2) by simp
  from max_throughput_bounds [OF this] have "vsize / 120 \<le> vsize / max_throughput (Min (set times))"
    using assms(4) by (intro divide_left_mono) auto
  with times(3) False show ?thesis by auto
qed

lemma normalise_bounds:
  assumes "normalise xs = Inr ys" and "Some y \<in> set ys"
  shows "0 \<le> y \<and> y \<le> 1"
proof -
  from assms obtain x where x: "x \<in> set xs" "Max (set xs) \<noteq> Min (set xs)"
      "y = (x - Min (set xs)) / (Max (set xs) - Min (set xs))"
    by (auto simp: normalise_def Let_def split: if_splits)
  have "Min (set xs) \<le> x" "x \<le> Max (set xs)" using x(1) by auto
  with x(2) have "0 < Max (set xs) - Min (set xs)" "0 \<le> x - Min (set xs)"
    "x - Min (set xs) \<le> Max (set xs) - Min (set xs)" by simp_all
  then show ?thesis unfolding x(3) by simp
qed

lemma normalise_order:
  assumes "normalise xs = Inr ys" and "i < length xs" "j < length xs" and "ys ! i = Some a" "ys ! j = Some b"
  shows "a \<le> b \<longleftrightarrow> xs ! i \<le> xs ! j"
proof -
  have mm: "Min (set xs) \<le> Max (set xs)" using assms(2) by (cases xs) (auto intro: Min_le [THEN order_trans])
  from assms have "a = (xs ! i - Min (set xs)) / (Max (set xs) - Min (set xs))"
    "b = (xs ! j - Min (set xs)) / (Max (set xs) - Min (set xs))" "Max (set xs) \<noteq> Min (set xs)"
    by (auto simp: normalise_def Let_def split: if_splits)
  with mm show ?thesis by (simp add: divide_le_cancel)
qed

lemma normalise_nan: "xs \<noteq> [] \<Longrightarrow> (\<And>x. x \<in> set xs \<Longrightarrow> x = c) \<Longrightarrow> normalise xs = Inr (map (\<lambda>x. None) xs)"
proof -
  assume "xs \<noteq> []" and "\<And>x. x \<in> set xs \<Longrightarrow> x = c"
  then have "set xs = {c}" by (cases xs) auto
  with \<open>xs \<noteq> []\<close> show ?thesis by (simp add: normalise_def)
qed

lemma update_new: "k \<notin> set (d_keys d) \<Longrightarrow> AList.update k v d = d @ [(k, v)]"
  by (induction d) auto

text \<open>With distinct addresses the dictionary lists the kept servers in the order of the log.\<close>

lemma register_eq:
  assumes "distinct ips"
  shows "register keep vals ips = map (\<lambda>i. (ips ! i, vals i)) (filter keep [0..<length ips])"
proof -
  have "foldl (\<lambda>d i. if keep i then AList.update (ips ! i) (vals i) d else d) [] [0..<n] =
      map (\<lambda>i. (ips ! i, vals i)) (filter keep [0..<n])" if "n \<le> length ips" for n
    using that
  proof (induction n)
    case 0
    show ?case by simp
  next
    case (Suc n)
    have "ips ! n \<noteq> ips ! i" if "i < n" for i using assms Suc.prems that by (simp add: nth_eq_iff_index_eq)
    then have "ips ! n \<notin> set (d_keys (map (\<lambda>i. (ips ! i, vals i)) (filter keep [0..<n])))" by auto
    with Suc show ?case by (simp add: update_new)
  qed
  from this [of "length ips"] show ?thesis by (simp add: register_def)
qed

section \<open>The whole of \<open>concatenarServers\<close>\<close>

text \<open>The rows that fit come first in the log.\<close>

definition aligned :: "rat \<Rightarrow> string list \<Rightarrow> bool" where
  "aligned vsize lines \<longleftrightarrow> list_all (\<lambda>l. \<not> fits vsize l) (dropWhile (fits vsize) lines)"

lemma aligned_iff:
  "aligned vsize lines \<longleftrightarrow>
   (\<forall>i j. i < j \<longrightarrow> j < length lines \<longrightarrow> fits vsize (lines ! j) \<longrightarrow> fits vsize (lines ! i))"
proof
  assume a: "aligned vsize lines"
  show "\<forall>i j. i < j \<longrightarrow> j < length lines \<longrightarrow> fits vsize (lines ! j) \<longrightarrow> fits vsize (lines ! i)"
  proof (intro allI impI)
    fix i j assume ij: "i < j" "j < length lines" "fits vsize (lines ! j)"
    let ?n = "length (takeWhile (fits vsize) lines)"
    have "?n + length (dropWhile (fits vsize) lines) = length lines"
      by (simp flip: length_append)
    then have "lines ! j \<in> set (dropWhile (fits vsize) lines)" if "?n \<le> j"
      using dropWhile_nth [of "j - ?n" "fits vsize" lines] nth_mem [of "j - ?n" "dropWhile (fits vsize) lines"] that ij(2)
      by simp
    then have "\<not> ?n \<le> j" using a ij(3) by (auto simp: aligned_def list_all_iff)
    then have "j < ?n" by simp
    then show "fits vsize (lines ! i)" using ij(1) by (metis less_trans nth_mem set_takeWhileD takeWhile_nth)
  qed
next
  assume a: "\<forall>i j. i < j \<longrightarrow> j < length lines \<longrightarrow> fits vsize (lines ! j) \<longrightarrow> fits vsize (lines ! i)"
  show "aligned vsize lines" using a
  proof (induction lines)
    case Nil
    show ?case by (simp add: aligned_def)
  next
    case (Cons l lines)
    show ?case
    proof (cases "fits vsize l")
      case True
      have "aligned vsize lines"
      proof (rule Cons.IH, intro allI impI)
        fix i j assume "i < j" "j < length lines" "fits vsize (lines ! j)"
        then show "fits vsize (lines ! i)" using Cons.prems [rule_format, of "Suc i" "Suc j"] by simp
      qed
      with True show ?thesis by (simp add: aligned_def)
    next
      case False
      with Cons.prems [rule_format, of 0 "Suc _"] have "\<not> fits vsize x" if "x \<in> set lines" for x
        using that by (metis Suc_less_eq in_set_conv_nth length_Cons nth_Cons_0 nth_Cons_Suc zero_less_Suc)
      with False show ?thesis by (simp add: aligned_def list_all_iff)
    qed
  qed
qed

definition mig_times :: "rat list list \<Rightarrow> rat \<Rightarrow> int \<Rightarrow> nat list \<Rightarrow> nat \<Rightarrow> rat list" where
  "mig_times delays vsize pos has n = map (\<lambda>i. projr (migration_time delays vsize pos has i)) [0..<n]"

lemma mig_times_spec:
  assumes "delays_ok delays pos n drow" and "\<And>j. j \<in> set has \<Longrightarrow> j < m" and "m \<le> n" and "0 \<le> vsize"
  shows "mapM_r (migration_time delays vsize pos has) [0..<m] = Inr (mig_times delays vsize pos has m)"
  unfolding mig_times_def
proof (rule mapM_r_total)
  fix i assume "i \<in> set [0..<m]"
  then have "\<exists>t. migration_time delays vsize pos has i = Inr t"
    using migration_time_total [OF assms(1), of has i vsize] assms(2-4) by fastforce
  then show "migration_time delays vsize pos has i = Inr (projr (migration_time delays vsize pos has i))" by auto
qed

text \<open>The normalised values when nothing is missing.\<close>

definition norm_vals :: "rat list \<Rightarrow> rat option list" where
  "norm_vals xs = map (\<lambda>x. if Max (set xs) = Min (set xs) then None
     else Some ((x - Min (set xs)) / (Max (set xs) - Min (set xs)))) xs"

definition norm_mem :: "rat list \<Rightarrow> rat option list" where
  "norm_mem xs = (if Max (set xs) = Min (set xs) then map (\<lambda>x. Some 0) xs else norm_vals xs)"

lemma normalise_eq: "xs \<noteq> [] \<Longrightarrow> normalise xs = Inr (norm_vals xs)"
  by (simp add: normalise_def norm_vals_def Let_def)

lemma normalise_memory_eq: "xs \<noteq> [] \<Longrightarrow> normalise_memory xs = Inr (norm_mem xs)"
  by (simp add: normalise_memory_def norm_mem_def normalise_eq)

definition placement_of :: "(rat \<Rightarrow> rat \<Rightarrow> rat) \<Rightarrow> (nat \<Rightarrow> bool) \<Rightarrow> (nat \<Rightarrow> rat option list) \<Rightarrow>
    rat list list \<Rightarrow> rat list \<Rightarrow> rat \<Rightarrow> int \<Rightarrow> string \<Rightarrow> string list \<Rightarrow> placement" where
  "placement_of use keep extra delays drow vsize pos cid acc =
     (let st = rows_of use drow vsize cid acc;
          times = mig_times delays vsize pos (hasContent st) (length acc)
      in \<lparr>migrationTime = times, candidates = ServersIP st,
          Servers = register (\<lambda>i. keep (band st ! i))
            (\<lambda>i. [norm_vals (latency st) ! i, norm_vals times ! i, norm_mem (memoryUsage st) ! i] @ extra (band st ! i))
            (ServersIP st)\<rparr>)"

lemma concatenar_eq:
  assumes ok: "\<And>l. l \<in> set lines \<Longrightarrow> row_ok l" and "0 < vsize"
    and use: "\<And>l. l \<in> set lines \<Longrightarrow> fits vsize l \<Longrightarrow> usage vsize (row_free l) = Inr (use vsize (row_free l))"
    and d: "delays_ok delays pos (length lines) drow"
  shows "concatenar usage keep extra delays vsize pos cid (header # lines) =
    (if \<not> aligned vsize lines then Inl IndexError
     else if takeWhile (fits vsize) lines = [] then Inl ValueError
     else Inr (placement_of use keep extra delays drow vsize pos cid (takeWhile (fits vsize) lines)))"
proof (cases "aligned vsize lines")
  case False
  have "py_index delays pos = Inr drow" "length lines \<le> length drow" using d by (auto simp: delays_ok_def)
  from read_log_cases [of lines vsize usage use, OF ok use this] False show ?thesis by (simp add: concatenar_def aligned_def)
next
  case True
  let ?acc = "takeWhile (fits vsize) lines"
  let ?st = "rows_of use drow vsize cid ?acc"
  have "py_index delays pos = Inr drow" "length lines \<le> length drow" using d by (auto simp: delays_ok_def)
  from read_log_cases [of lines vsize usage use, OF ok use this, of cid header] True
  have log: "read_log usage delays vsize pos cid (header # lines) = Inr (?st\<lparr>row := length lines\<rparr>)"
    by (simp add: aligned_def)
  have len: "length ?acc \<le> length lines" by (rule length_takeWhile_le)
  have times: "mapM_r (migration_time delays vsize pos (hasContent ?st)) [0..<length ?acc] =
      Inr (mig_times delays vsize pos (hasContent ?st) (length ?acc))"
    using assms(2) len by (intro mig_times_spec [OF d]) (auto simp: rows_of_def)
  have fields: "length (ServersIP ?st) = length ?acc" "latency ?st = [] \<longleftrightarrow> ?acc = []" "memoryUsage ?st = [] \<longleftrightarrow> ?acc = []"
    using d len by (auto simp: rows_of_def delays_ok_def)
  show ?thesis
  proof (cases "?acc = []")
    case True
    with \<open>aligned vsize lines\<close> log times fields show ?thesis by (simp add: concatenar_def normalise_def)
  next
    case False
    then have "mig_times delays vsize pos (hasContent ?st) (length ?acc) \<noteq> []" by (simp add: mig_times_def)
    with False True log times fields show ?thesis
      by (simp add: concatenar_def normalise_eq normalise_memory_eq placement_of_def Let_def)
  qed
qed

lemma usage_share_total: "0 < vsize \<Longrightarrow> fits vsize l \<Longrightarrow> usage_share vsize (row_free l) = Inr (vsize / row_free l)"
  by (auto simp: usage_share_def fits_def)

end
