(* ===== verification/FogPolicies.thy ===== *)
theory FogPolicies
  imports FogServers
begin

text \<open>
  The policies that choose a server: the class \<open>AHP\<close> (\<^verbatim>\<open>AHP/AnalyticHierarchyProcess.py\<close>) and the
  \<open>main\<close> functions of \<^verbatim>\<open>AHP/AHP.py\<close>, \<^verbatim>\<open>Guloso-Aleatorio/exemplo.py\<close>, \<^verbatim>\<open>PLI/pli.py\<close> and
  \<^verbatim>\<open>PLI/pliLocal.py\<close>, and the classes \<open>guloso\<close> and \<open>aleatorio\<close>. The random choice, the eigenvalue
  routine of NumPy and the solver of docplex are parameters.
\<close>

section \<open>The class AHP\<close>

text \<open>NumPy rounds half to even after scaling by the power of ten.\<close>

definition round_half_even :: "rat \<Rightarrow> int" where
  "round_half_even x =
     (let f = \<lfloor>x\<rfloor>; d = x - of_int f
      in if d < 1 / 2 then f else if d > 1 / 2 then f + 1 else if even f then f else f + 1)"

definition round_dec :: "nat \<Rightarrow> rat \<Rightarrow> rat" where
  "round_dec p x = of_int (round_half_even (x * 10 ^ p)) / 10 ^ p"

definition o_sub :: "rat option \<Rightarrow> rat option \<Rightarrow> rat option" where
  "o_sub a b = (case (a, b) of (Some x, Some y) \<Rightarrow> Some (x - y) | _ \<Rightarrow> None)"

definition o_add :: "rat option \<Rightarrow> rat option \<Rightarrow> rat option" where
  "o_add a b = (case (a, b) of (Some x, Some y) \<Rightarrow> Some (x + y) | _ \<Rightarrow> None)"

definition o_mult :: "rat option \<Rightarrow> rat option \<Rightarrow> rat option" where
  "o_mult a b = (case (a, b) of (Some x, Some y) \<Rightarrow> Some (x * y) | _ \<Rightarrow> None)"

text \<open>A comparison with \<open>nan\<close> is false.\<close>

definition o_less :: "rat option \<Rightarrow> rat option \<Rightarrow> bool" where
  "o_less a b = (case (a, b) of (Some x, Some y) \<Rightarrow> x < y | _ \<Rightarrow> False)"

definition mat_square :: "rat list list \<Rightarrow> rat list list" where
  "mat_square m = map (\<lambda>r. map (\<lambda>j. sum_list (map (\<lambda>k. r ! k * m ! k ! j) [0..<length m])) [0..<length m]) m"

text \<open>\<open>None\<close> in the vector is a value that is not finite, from a division by a zero sum.\<close>

function AutoValor :: "rat list list \<Rightarrow> nat \<Rightarrow> nat \<Rightarrow> rat option list option \<Rightarrow> rat option list" where
  "AutoValor matriz precisao interacao autovetor_anterior =
     (let matriz_quadrada = mat_square matriz;
          soma_linhas = map sum_list matriz_quadrada;
          soma_coluna = sum_list soma_linhas;
          autovetor_atual = map (\<lambda>s. if soma_coluna = 0 then None else Some (s / soma_coluna)) soma_linhas;
          anterior = (case autovetor_anterior of None \<Rightarrow> map (\<lambda>_. Some 0) matriz | Some v \<Rightarrow> v);
          diferenca = map2 (\<lambda>a b. map_option (round_dec precisao) (o_sub a b)) autovetor_atual anterior
      in if \<not> list_ex (\<lambda>d. d \<noteq> Some 0) diferenca
         then map (map_option (round_dec precisao)) autovetor_atual
         else if interacao - 1 > 0
         then AutoValor matriz_quadrada precisao (interacao - 1) (Some autovetor_atual)
         else map (map_option (round_dec precisao)) autovetor_atual)"
  by pat_completeness auto
termination
  by (relation "measure (\<lambda>(m, p, i, v). i)") auto

declare AutoValor.simps [simp del]

definition random_index :: "(nat, rat) dict" where
  "random_index = [(3, 52/100), (4, 89/100), (5, 111/100), (6, 125/100), (7, 135/100), (8, 140/100),
     (9, 145/100), (10, 149/100), (11, 152/100), (12, 154/100), (13, 150/100), (14, 158/100), (15, 159/100)]"

text \<open>\<open>eig_max\<close> stands for the real part of the largest eigenvalue of a square matrix.\<close>

definition Consistencia :: "(rat list list \<Rightarrow> rat) \<Rightarrow> rat list list \<Rightarrow> (rat \<times> rat \<times> rat) result" where
  "Consistencia eig_max matriz =
     (let n = length matriz
      in if n \<noteq> 0 \<and> n > 2
         then let lambda_max = eig_max matriz; ic = (lambda_max - of_nat n) / of_nat (n - 1)
              in bind_r (d_getitem random_index n) (\<lambda>ri. Inr (lambda_max, ic, ic / ri))
         else Inr (0, 0, 0))"

definition peso_matriz :: "rat list list" where
  "peso_matriz = [[1, 3, 6], [1/3, 1, 3], [1/6, 1/3, 1]]"

definition peso :: "rat option list" where
  "peso = AutoValor peso_matriz 10 100 None"

definition influencia :: "rat option list \<Rightarrow> rat option list \<Rightarrow> rat option result" where
  "influencia ps parametros =
     bind_r (mapM_r (\<lambda>i. bind_r (py_index parametros (int i)) (\<lambda>v. Inr (o_mult v (ps ! i)))) [0..<3])
       (\<lambda>influ. Inr (foldl o_add (Some 0) influ))"

definition Influenciacompeso :: "(string, rat option list) dict \<Rightarrow> (string, rat option) dict result" where
  "Influenciacompeso parametro =
     foldM_r (\<lambda>prioridades (idfog, parametros).
        bind_r (influencia peso parametros) (\<lambda>s. Inr (AList.update idfog s prioridades))) [] parametro"

definition soma_inicial :: "rat list" where
  "soma_inicial = [0, 0, 0, 0]"

definition Normaliza :: "rat list \<Rightarrow> (string, rat option list) dict \<Rightarrow> (string, rat option) dict result" where
  "Normaliza soma parametro =
     foldM_r (\<lambda>dic (idfog, parametros).
        bind_r (mapM_r (\<lambda>i. bind_r (py_index soma (int i)) (\<lambda>s.
            if s = 0 then Inr (Some 0)
            else bind_r (py_index parametros (int i)) (\<lambda>v. Inr (map_option (\<lambda>x. x / (s / of_nat (length soma))) v))))
          [0..<3]) (\<lambda>normaliza. Inr (AList.update idfog (foldl o_add (Some 0) normaliza) dic))) [] parametro"

text \<open>The entry of \<open>ip\<close> is deleted from the caller's dictionary, which is returned too.\<close>

definition Distanciaeuclidiana :: "(string, rat option list) dict \<Rightarrow> string \<Rightarrow>
    ((string, rat option) dict \<times> (string, rat option list) dict) result" where
  "Distanciaeuclidiana parametro ip =
     bind_r (d_getitem parametro ip) (\<lambda>atual.
     bind_r (d_delitem parametro ip) (\<lambda>parametro.
     bind_r (foldM_r (\<lambda>dic (idfog, parametros).
        bind_r (foldM_r (\<lambda>soma i. bind_r (py_index atual (int i)) (\<lambda>a.
            bind_r (py_index parametros (int i)) (\<lambda>b. Inr (o_add soma (o_sub a b))))) (Some 0) [0..<3])
          (\<lambda>soma. Inr (AList.update idfog soma dic))) [] parametro)
      (\<lambda>dic. Inr (dic, parametro))))"

definition score :: "(string, rat option) dict \<Rightarrow> string option \<times> rat option" where
  "score parametro =
     foldl (\<lambda>(fogid, anterior) (idfog, v). if o_less anterior v then (Some idfog, v) else (fogid, anterior))
       (None, Some 0) parametro"

definition Politica :: "(string, rat option list) dict \<Rightarrow> (string, rat option) dict result" where
  "Politica matrizesdepreferencias = Influenciacompeso matrizesdepreferencias"

section \<open>The main functions\<close>

definition list_index :: "'a list \<Rightarrow> 'a \<Rightarrow> nat result" where
  "list_index xs x = (case index_of xs x of None \<Rightarrow> Inl ValueError | Some i \<Rightarrow> Inr i)"

text \<open>The printed answer: the position of the server and its migration time.\<close>

definition answer :: "placement \<Rightarrow> string \<Rightarrow> (nat \<times> rat) result" where
  "answer p chosen =
     bind_r (list_index (candidates p) chosen) (\<lambda>Choice.
     bind_r (py_index (migrationTime p) (int Choice)) (\<lambda>t. Inr (Choice, t)))"

definition ahp_main :: "rat list list \<Rightarrow> rat \<Rightarrow> int \<Rightarrow> string \<Rightarrow> string list \<Rightarrow> (nat \<times> rat) result" where
  "ahp_main delays vsize pos contentId file =
     bind_r (concatenarServers_ahp delays vsize pos contentId file) (\<lambda>p.
     bind_r (Politica (Servers p)) (\<lambda>ServersScores.
     bind_r (py_index (py_sort (\<lambda>a b. o_less (snd a) (snd b)) ServersScores) 0) (\<lambda>best. answer p (fst best))))"

text \<open>\<open>exemplo.py\<close>: the greedy choice by the first criterion, and the random choice.\<close>

definition guloso :: "(string, rat option list) dict \<Rightarrow> string result" where
  "guloso servers =
     bind_r (mapM_r (\<lambda>(k, v). bind_r (py_index v 0) (\<lambda>x. Inr (k, x))) servers) (\<lambda>keyed.
     bind_r (py_index (py_sort (\<lambda>a b. o_less (snd a) (snd b)) keyed) 0) (\<lambda>best. Inr (fst best)))"

definition random_choice :: "(nat \<Rightarrow> nat) \<Rightarrow> 'a list \<Rightarrow> 'a result" where
  "random_choice rnd xs = (if xs = [] then Inl IndexError else py_index xs (int (rnd (length xs))))"

definition exemplo_main :: "(nat \<Rightarrow> nat) \<Rightarrow> string \<Rightarrow> rat list list \<Rightarrow> rat \<Rightarrow> int \<Rightarrow> string \<Rightarrow> string list \<Rightarrow>
    (nat \<times> rat) result" where
  "exemplo_main rnd Type delays vsize pos contentId file =
     bind_r (concatenarServers_exemplo delays vsize pos contentId file) (\<lambda>p.
     bind_r (if Type = ''guloso'' then guloso (Servers p) else random_choice rnd (candidates p)) (\<lambda>selecionado.
     answer p selecionado))"

text \<open>
  \<open>pli.py\<close>: the choice is the first 1 in row \<open>Id\<close> of a table computed beforehand; \<open>res\<close> gives the
  table of a file.
\<close>

definition pli :: "(string \<Rightarrow> rat list list) \<Rightarrow> string \<Rightarrow> string \<Rightarrow> string \<Rightarrow> nat result" where
  "pli res folder simu vid =
     bind_r (py_index (split_char (CHR ''/'') folder) 2) (\<lambda>num.
     bind_r (py_int vid) (\<lambda>k.
     bind_r (py_index (res (''res'' @ num @ ''_'' @ simu @ ''.csv'')) k) (\<lambda>Line. list_index Line 1)))"

definition pli_main :: "(string \<Rightarrow> rat list list) \<Rightarrow> string \<Rightarrow> string \<Rightarrow> string \<Rightarrow>
    rat list list \<Rightarrow> rat \<Rightarrow> int \<Rightarrow> string \<Rightarrow> string list \<Rightarrow> (nat \<times> rat) result" where
  "pli_main res folder simu vid delays vsize pos contentId file =
     bind_r (concatenarServers_pli delays vsize pos contentId file) (\<lambda>p.
     bind_r (pli res folder simu vid) (\<lambda>selecionado.
     bind_r (py_index (migrationTime p) (int selecionado)) (\<lambda>t. Inr (selecionado, t))))"

text \<open>
  \<open>pliLocal.py\<close>: one binary variable per server, their sum is 1, the weighted sum of the criteria is
  minimal. \<open>solve\<close> stands for docplex: it maps the costs to the name of the variable that is 1.
\<close>

definition server_cost :: "rat option list \<Rightarrow> rat option result" where
  "server_cost v =
     bind_r (py_index v 0) (\<lambda>a. bind_r (py_index v 1) (\<lambda>b. bind_r (py_index v 2) (\<lambda>c. Inr (o_add (o_add a b) c))))"

definition pli_local :: "((string \<times> rat option) list \<Rightarrow> string option) \<Rightarrow> (string, rat option list) dict \<Rightarrow>
    string option result" where
  "pli_local solve servers =
     bind_r (mapM_r (\<lambda>(k, v). bind_r (server_cost v) (\<lambda>c. Inr (k, c))) servers) (\<lambda>costs. Inr (solve costs))"

definition pli_local_main :: "((string \<times> rat option) list \<Rightarrow> string option) \<Rightarrow>
    rat list list \<Rightarrow> rat \<Rightarrow> int \<Rightarrow> string \<Rightarrow> string list \<Rightarrow> (nat \<times> rat) result" where
  "pli_local_main solve delays vsize pos contentId file =
     bind_r (concatenarServers_local delays vsize pos contentId file) (\<lambda>p.
     bind_r (pli_local solve (Servers p)) (\<lambda>selecionado.
     case selecionado of None \<Rightarrow> Inl ValueError | Some s \<Rightarrow> answer p s))"

section \<open>The classes guloso and aleatorio\<close>

definition Limiares :: "rat list" where
  "Limiares = [200, -1, 2, 2, 1]"

text \<open>
  \<open>x not in fog\<close> is a substring test, since \<open>fog\<close> is an address. The condition reads
  \<open>parametro[4]\<close> first, for \<open>n\<close>.
\<close>

definition gu_mudarFog :: "string \<Rightarrow> (string, rat list) dict \<Rightarrow> string result" where
  "gu_mudarFog fog Fogs =
     foldr (\<lambda>i rest.
        bind_r (d_getitem Fogs i) (\<lambda>parametro.
        bind_r (py_index parametro 4) (\<lambda>p4.
        bind_r (py_index parametro 0) (\<lambda>p0.
        if p0 < Limiares ! 0 \<and> p4 < 1 then Inr i else rest))))
      (filter (\<lambda>x. \<not> substring x fog) (d_keys Fogs)) (Inr fog)"

text \<open>
  \<open>server\<close> is not a parameter: it is looked up among the globals of the module, which defines no such
  name (\<open>module_server\<close>), and an undefined name raises NameError.
\<close>

definition module_server :: "string option" where
  "module_server = None"

definition gu_atualizarFogsEntrada :: "string option \<Rightarrow> (string, rat list) dict \<Rightarrow> string result" where
  "gu_atualizarFogsEntrada global_server fogs =
     (case global_server of
        None \<Rightarrow> Inl NameError
      | Some server \<Rightarrow>
          bind_r (d_getitem fogs server) (\<lambda>parametro.
          bind_r (py_index parametro 0) (\<lambda>p0.
          bind_r (if p0 > Limiares ! 0 then Inr True
                  else bind_r (py_index parametro 4) (\<lambda>p4. Inr (p4 > Limiares ! 4))) (\<lambda>mudar.
          if mudar then gu_mudarFog server fogs else Inr server))))"

text \<open>\<open>ip = ip\<close> reads the local variable before it is set.\<close>

definition gu_Politica :: "(string, rat list) dict \<Rightarrow> string result" where
  "gu_Politica matrizesdepreferencias =
     (let local_ip = (None :: string option)
      in case local_ip of
           None \<Rightarrow> Inl UnboundLocalError
         | Some ip \<Rightarrow> gu_atualizarFogsEntrada module_server matrizesdepreferencias)"

definition al_mudarFog :: "(nat \<Rightarrow> nat) \<Rightarrow> (string, rat list) dict \<Rightarrow> string result" where
  "al_mudarFog rnd Fogs = random_choice rnd (d_keys Fogs)"

definition al_atualizarFogsEntrada :: "(nat \<Rightarrow> nat) \<Rightarrow> (string, rat list) dict \<Rightarrow> string \<Rightarrow> string result" where
  "al_atualizarFogsEntrada rnd fogs server =
     bind_r (d_getitem fogs server) (\<lambda>parametro.
     bind_r (py_index parametro 0) (\<lambda>p0.
     bind_r (if p0 > Limiares ! 0 then Inr True
             else bind_r (py_index parametro 4) (\<lambda>p4. Inr (p4 > Limiares ! 4))) (\<lambda>mudar.
     if mudar then al_mudarFog rnd fogs else Inr server)))"

definition al_Politica :: "(nat \<Rightarrow> nat) \<Rightarrow> (string, rat list) dict \<Rightarrow> string \<Rightarrow> string result" where
  "al_Politica rnd matrizesdepreferencias ip = al_atualizarFogsEntrada rnd matrizesdepreferencias ip"

section \<open>The weights\<close>

lemma round_half_even_nonneg: "0 \<le> x \<Longrightarrow> 0 \<le> round_half_even x"
  by (auto simp: round_half_even_def Let_def)

lemma round_dec_nonneg: "0 \<le> x \<Longrightarrow> 0 \<le> round_dec p x"
  using round_half_even_nonneg [of "x * 10 ^ p"] by (simp add: round_dec_def)

definition positive_matrix :: "rat list list \<Rightarrow> bool" where
  "positive_matrix m \<longleftrightarrow> m \<noteq> [] \<and> (\<forall>r \<in> set m. length r = length m \<and> (\<forall>x \<in> set r. 0 < x))"

lemma sum_list_pos: "xs \<noteq> [] \<Longrightarrow> (\<And>x. x \<in> set xs \<Longrightarrow> 0 < x) \<Longrightarrow> 0 < sum_list (xs :: rat list)"
proof (induction xs)
  case Nil
  then show ?case by simp
next
  case (Cons x xs)
  then show ?case by (cases "xs = []") (auto intro: add_pos_pos)
qed

lemma length_mat_square [simp]: "length (mat_square m) = length m"
  by (simp add: mat_square_def)

lemma positive_mat_square:
  assumes "positive_matrix m"
  shows "positive_matrix (mat_square m)"
proof -
  have "0 < sum_list (map (\<lambda>k. r ! k * m ! k ! j) [0..<length m])" if "r \<in> set m" "j < length m" for r j
  proof (rule sum_list_pos)
    show "map (\<lambda>k. r ! k * m ! k ! j) [0..<length m] \<noteq> []" using assms by (simp add: positive_matrix_def)
    fix x assume "x \<in> set (map (\<lambda>k. r ! k * m ! k ! j) [0..<length m])"
    then obtain k where k: "k < length m" "x = r ! k * m ! k ! j" by auto
    have "0 < r ! k" using assms that(1) k(1) by (auto simp: positive_matrix_def)
    moreover have "m ! k \<in> set m" using k(1) by simp
    then have "0 < m ! k ! j" using assms that(2) by (auto simp: positive_matrix_def)
    ultimately show "0 < x" using k(2) by simp
  qed
  with assms show ?thesis by (auto simp: positive_matrix_def mat_square_def)
qed

lemma row_sums_pos:
  assumes "positive_matrix m"
  shows "\<forall>s \<in> set (map sum_list (mat_square m)). 0 < s" and "0 < sum_list (map sum_list (mat_square m))"
proof -
  note sq = positive_mat_square [OF assms]
  have "0 < sum_list r" if "r \<in> set (mat_square m)" for r
  proof (rule sum_list_pos)
    from that have "length r = length (mat_square m)" using sq by (simp add: positive_matrix_def)
    moreover have "mat_square m \<noteq> []" using sq by (simp add: positive_matrix_def)
    ultimately show "r \<noteq> []" by (metis length_0_conv)
  qed (use sq that in \<open>auto simp: positive_matrix_def\<close>)
  then show pos: "\<forall>s \<in> set (map sum_list (mat_square m)). 0 < s" by auto
  have "map sum_list (mat_square m) \<noteq> []" using sq by (simp add: positive_matrix_def)
  with pos show "0 < sum_list (map sum_list (mat_square m))" by (intro sum_list_pos) auto
qed

lemma AutoValor_nonneg:
  "positive_matrix m \<Longrightarrow> length (AutoValor m p i v) = length m \<and>
   (\<forall>w \<in> set (AutoValor m p i v). \<exists>x \<ge> 0. w = Some x)"
proof (induction m p i v rule: AutoValor.induct)
  case (1 m p i v)
  let ?s = "map sum_list (mat_square m)"
  let ?v = "map (\<lambda>s. if sum_list ?s = 0 then None else Some (s / sum_list ?s)) ?s"
  have "sum_list ?s \<noteq> 0" using row_sums_pos(2) [OF 1(2)] by simp
  moreover have "0 \<le> s / sum_list ?s" if "s \<in> set ?s" for s
    using row_sums_pos [OF 1(2)] that by (intro divide_nonneg_nonneg) auto
  ultimately have here: "length (map (map_option (round_dec p)) ?v) = length m \<and>
      (\<forall>w \<in> set (map (map_option (round_dec p)) ?v). \<exists>x \<ge> 0. w = Some x)"
    by (auto simp: round_dec_nonneg)
  show ?case
    using 1(1) [OF refl refl refl refl refl refl _ _ positive_mat_square [OF 1(2)]] here
    by (subst (1 2) AutoValor.simps) (simp add: Let_def)
qed

lemma peso_spec:
  obtains a b c where "peso = [Some a, Some b, Some c]" "0 \<le> a" "0 \<le> b" "0 \<le> c"
proof -
  have "positive_matrix peso_matriz" by (auto simp: positive_matrix_def peso_matriz_def)
  from AutoValor_nonneg [OF this, of 10 100 None] have
    "length peso = 3" "\<forall>w \<in> set peso. \<exists>x \<ge> 0. w = Some x" by (simp_all add: peso_def peso_matriz_def)
  moreover from this(1) obtain u v w where uvw: "peso = [u, v, w]" by (auto simp: numeral_3_eq_3 length_Suc_conv)
  ultimately obtain a b c where "u = Some a" "0 \<le> a" "v = Some b" "0 \<le> b" "w = Some c" "0 \<le> c"
    unfolding uvw by (metis list.set_intros(1,2))
  with uvw that show ?thesis by blast
qed

text \<open>A consistent comparison matrix, scaled by \<open>c\<close>: the entry of \<open>i\<close> against \<open>j\<close> is the ratio of their weights.\<close>

definition ratio_matrix :: "rat \<Rightarrow> rat list \<Rightarrow> rat list list" where
  "ratio_matrix c w = map (\<lambda>a. map (\<lambda>b. c * (a / b)) w) w"

lemma mat_square_ratio:
  assumes "\<And>a. a \<in> set w \<Longrightarrow> 0 < a"
  shows "mat_square (ratio_matrix c w) = ratio_matrix (c * c * of_nat (length w)) w"
proof (rule nth_equalityI)
  show "length (mat_square (ratio_matrix c w)) = length (ratio_matrix (c * c * of_nat (length w)) w)"
    by (simp add: ratio_matrix_def)
  fix i assume "i < length (mat_square (ratio_matrix c w))"
  then have i: "i < length w" by (simp add: ratio_matrix_def)
  have pos: "w ! k \<noteq> 0" if "k < length w" for k using assms [of "w ! k"] that by simp
  have "sum_list (map (\<lambda>k. ratio_matrix c w ! i ! k * ratio_matrix c w ! k ! j) [0..<length w]) =
      c * c * of_nat (length w) * (w ! i / w ! j)" if j: "j < length w" for j
  proof -
    have eq: "map (\<lambda>k. ratio_matrix c w ! i ! k * ratio_matrix c w ! k ! j) [0..<length w] =
        map (\<lambda>k. c * c * (w ! i / w ! j)) [0..<length w]"
      using i j pos by (auto simp: ratio_matrix_def field_simps)
    show ?thesis unfolding eq by (simp add: sum_list_triv)
  qed
  with i show "mat_square (ratio_matrix c w) ! i = ratio_matrix (c * c * of_nat (length w)) w ! i"
    by (intro nth_equalityI) (auto simp: mat_square_def ratio_matrix_def)
qed

lemma ratio_matrix_vector:
  assumes "\<And>a. a \<in> set w \<Longrightarrow> 0 < a" and "w \<noteq> []" and "0 < c"
  defines "s \<equiv> map sum_list (ratio_matrix c w)"
  shows "map (\<lambda>x. if sum_list s = 0 then None else Some (x / sum_list s)) s = map (\<lambda>a. Some (a / sum_list w)) w"
proof -
  let ?R = "sum_list (map (\<lambda>b. 1 / b) w)"
  have R: "0 < ?R" using assms(1,2) by (intro sum_list_pos) auto
  have s: "s = map (\<lambda>a. a * (c * ?R)) w"
    by (simp add: s_def ratio_matrix_def sum_list_const_mult [symmetric] mult_ac divide_inverse comp_def)
  then have tot: "sum_list s = sum_list w * (c * ?R)" by (simp add: sum_list_mult_const)
  have "0 < sum_list w" using assms(1,2) by (rule sum_list_pos [rotated])
  with R assms(3) show ?thesis by (simp add: tot) (simp add: s)
qed

lemma AutoValor_ratio:
  assumes "\<And>a. a \<in> set w \<Longrightarrow> 0 < a" and "w \<noteq> []"
  shows "0 < c \<Longrightarrow> AutoValor (ratio_matrix c w) p i v = map (\<lambda>a. Some (round_dec p (a / sum_list w))) w"
proof (induction i arbitrary: c v rule: less_induct)
  case (less i)
  let ?c = "c * c * of_nat (length w)"
  have c: "0 < ?c" using less.prems assms(2) by simp
  note sq = mat_square_ratio [OF assms(1), of w c]
  note vec = ratio_matrix_vector [OF assms c]
  show ?case using less.IH [of "i - 1" ?c] c
    by (subst AutoValor.simps) (simp only: Let_def sq vec, simp add: comp_def)
qed

section \<open>The choice\<close>

lemma answer_nth:
  assumes "distinct (candidates p)" and "k < length (candidates p)"
    and "length (migrationTime p) = length (candidates p)"
  shows "answer p (candidates p ! k) = Inr (k, migrationTime p ! k)"
  using assms by (simp add: answer_def list_index_def index_of_nth)

lemma pick_least:
  assumes "K \<noteq> []" and "\<And>i. i \<in> set K \<Longrightarrow> key i = Some (f i)"
  shows "\<exists>k \<in> set K. py_index (py_sort (\<lambda>a b. o_less (snd a) (snd b)) (map (\<lambda>i. (ips ! i, key i)) K)) 0 =
     Inr (ips ! k, key k) \<and> (\<forall>j \<in> set K. f k \<le> f j)"
proof -
  let ?xs = "map (\<lambda>i. (ips ! i, key i)) K" and ?lt = "\<lambda>a b. o_less (snd a) (snd b)"
  have key: "a \<in> set ?xs \<Longrightarrow> \<exists>i \<in> set K. a = (ips ! i, Some (f i))" for a using assms(2) by auto
  have "?lt a b = (the (snd a) < the (snd b))" if "a \<in> set ?xs" "b \<in> set ?xs" for a b
    using key [OF that(1)] key [OF that(2)] by (auto simp: o_less_def)
  from py_sort_hd_least [of ?xs ?lt, OF this] assms(1)
  have hd: "py_sort ?lt ?xs ! 0 \<in> set ?xs" "\<forall>x \<in> set ?xs. the (snd (py_sort ?lt ?xs ! 0)) \<le> the (snd x)" by simp_all
  from hd(1) obtain k where k: "k \<in> set K" "py_sort ?lt ?xs ! 0 = (ips ! k, key k)" by auto
  have "py_index (py_sort ?lt ?xs) 0 = Inr (ips ! k, key k)"
    using assms(1) k(2) py_index_nat [of 0 "py_sort ?lt ?xs"] by simp
  moreover have "f k \<le> f j" if "j \<in> set K" for j using hd(2) k assms(2) that by auto
  ultimately show ?thesis using k(1) by blast
qed

text \<open>With \<open>nan\<close> for every key nothing is compared and the first one stays in front.\<close>

lemma pick_nan:
  assumes "K \<noteq> []" and "\<And>i. i \<in> set K \<Longrightarrow> key i = None"
  shows "py_index (py_sort (\<lambda>a b. o_less (snd a) (snd b)) (map (\<lambda>i. (ips ! i, key i)) K)) 0 =
     Inr (ips ! hd K, None)"
proof -
  let ?xs = "map (\<lambda>i. (ips ! i, key i)) K"
  have "py_sort (\<lambda>a b. o_less (snd a) (snd b)) ?xs = ?xs"
    using assms(2) by (intro py_sort_id) (auto simp: sorted_wrt_iff_nth_less o_less_def)
  with assms show ?thesis by (cases K) (auto simp: py_index_def)
qed

lemma influencia_Some:
  assumes "peso = [Some a, Some b, Some c]"
  shows "influencia peso [Some x, Some y, Some z] = Inr (Some (x * a + y * b + z * c))"
  by (simp add: assms influencia_def numeral_3_eq_3 py_index_def o_mult_def o_add_def)

lemma influencia_nan:
  assumes "x = None \<or> y = None \<or> z = None"
  shows "influencia peso [x, y, z] = Inr None"
proof -
  obtain a b c where p: "peso = [Some a, Some b, Some c]" by (rule peso_spec)
  from assms show ?thesis
    by (auto simp: p influencia_def numeral_3_eq_3 py_index_def o_mult_def o_add_def split: option.splits)
qed

lemma Influenciacompeso_eq:
  assumes "distinct (map fst d)" and "\<And>k v. (k, v) \<in> set d \<Longrightarrow> influencia peso v = Inr (s v)"
  shows "Influenciacompeso d = Inr (map (\<lambda>(k, v). (k, s v)) d)"
  unfolding Influenciacompeso_def using assms
proof (induction d rule: rev_induct)
  case Nil
  show ?case by simp
next
  case (snoc kv d)
  obtain k v where kv: "kv = (k, v)" by (cases kv)
  have "k \<notin> set (d_keys (map (\<lambda>(k, v). (k, s v)) d))" using snoc.prems(1) kv by (auto simp: image_iff)
  moreover have "influencia peso v = Inr (s v)" using snoc.prems(2) [of k v] kv by simp
  moreover have "foldM_r (\<lambda>prioridades (idfog, parametros).
      bind_r (influencia peso parametros) (\<lambda>s. Inr (AList.update idfog s prioridades))) [] d =
      Inr (map (\<lambda>(k, v). (k, s v)) d)"
    using snoc.prems by (intro snoc.IH) auto
  ultimately show ?case by (simp add: foldM_r_append kv update_new)
qed

lemma placement_of_simps [simp]:
  "length (migrationTime (placement_of use keep extra delays drow vsize pos cid acc)) = length acc"
  "candidates (placement_of use keep extra delays drow vsize pos cid acc) = map (\<lambda>l. row_fields l ! 3) acc"
  by (simp_all add: placement_of_def Let_def mig_times_def rows_of_def)

text \<open>The three criteria of candidate \<open>i\<close> and the weighted sum that \<open>AHP\<close> computes from them.\<close>

definition criteria :: "(rat \<Rightarrow> rat \<Rightarrow> rat) \<Rightarrow> rat list list \<Rightarrow> rat list \<Rightarrow> rat \<Rightarrow> int \<Rightarrow> string \<Rightarrow> string list \<Rightarrow>
    nat \<Rightarrow> rat option list" where
  "criteria use delays drow vsize pos cid acc i =
     (let st = rows_of use drow vsize cid acc
      in [norm_vals (latency st) ! i,
          norm_vals (mig_times delays vsize pos (hasContent st) (length acc)) ! i,
          norm_mem (memoryUsage st) ! i])"

definition weighted :: "rat option list \<Rightarrow> rat option" where
  "weighted v = projr (influencia peso v)"

abbreviation share :: "rat \<Rightarrow> rat \<Rightarrow> rat" where
  "share vsize free \<equiv> vsize / free"

lemma Servers_placement:
  assumes "distinct (map (\<lambda>l. row_fields l ! 3) acc)"
  shows "Servers (placement_of use keep extra delays drow vsize pos cid acc) =
    map (\<lambda>i. (row_fields (acc ! i) ! 3, criteria use delays drow vsize pos cid acc i @ extra (length (row_contents (acc ! i)))))
      (filter (\<lambda>i. keep (length (row_contents (acc ! i)))) [0..<length acc])"
proof -
  let ?st = "rows_of use drow vsize cid acc"
  have ips: "ServersIP ?st = map (\<lambda>l. row_fields l ! 3) acc" and band: "band ?st = map (\<lambda>l. length (row_contents l)) acc"
    by (simp_all add: rows_of_def)
  have "filter (\<lambda>i. keep (band ?st ! i)) [0..<length acc] = filter (\<lambda>i. keep (length (row_contents (acc ! i)))) [0..<length acc]"
    by (rule filter_cong) (simp_all add: band)
  with assms show ?thesis
    by (simp add: placement_of_def Let_def ips register_eq criteria_def band)
qed

lemma norm_vals_Some:
  "Max (set xs) \<noteq> Min (set xs) \<Longrightarrow> i < length xs \<Longrightarrow> \<exists>y. norm_vals xs ! i = Some y"
  by (simp add: norm_vals_def)

lemma norm_mem_Some: "i < length xs \<Longrightarrow> \<exists>y. norm_mem xs ! i = Some y"
  by (simp add: norm_mem_def norm_vals_def)

text \<open>
  A log that \<open>concatenarServers\<close> can process: well-formed rows, the servers with enough memory first,
  at least one of them, and no address twice among them.
\<close>

definition sound_log :: "rat \<Rightarrow> rat list list \<Rightarrow> int \<Rightarrow> rat list \<Rightarrow> string list \<Rightarrow> bool" where
  "sound_log vsize delays pos drow lines \<longleftrightarrow>
     list_all row_ok lines \<and> 0 < vsize \<and> delays_ok delays pos (length lines) drow \<and> aligned vsize lines \<and>
     takeWhile (fits vsize) lines \<noteq> [] \<and> distinct (map (\<lambda>l. row_fields l ! 3) (takeWhile (fits vsize) lines))"

abbreviation chosen_rows :: "rat \<Rightarrow> string list \<Rightarrow> string list" where
  "chosen_rows vsize lines \<equiv> takeWhile (fits vsize) lines"

text \<open>The positions of the servers \<open>AHP.py\<close> considers: those with fewer than ten contents.\<close>

definition few_contents :: "string list \<Rightarrow> nat list" where
  "few_contents acc = filter (\<lambda>i. length (row_contents (acc ! i)) < 10) [0..<length acc]"

abbreviation times_of :: "rat list list \<Rightarrow> rat \<Rightarrow> int \<Rightarrow> string \<Rightarrow> string list \<Rightarrow> rat list" where
  "times_of delays vsize pos cid acc \<equiv>
     mig_times delays vsize pos (filter (\<lambda>i. cid \<in> set (row_contents (acc ! i))) [0..<length acc]) (length acc)"

lemma sound_log_concatenar:
  assumes "sound_log vsize delays pos drow lines"
  shows "concatenar usage_share keep extra delays vsize pos cid (header # lines) =
    Inr (placement_of share keep extra delays drow vsize pos cid (chosen_rows vsize lines))"
proof -
  have "0 < vsize" using assms by (simp add: sound_log_def)
  then have "usage_share vsize (row_free l) = Inr (share vsize (row_free l))" if "fits vsize l" for l
    using usage_share_total that by blast
  with assms show ?thesis
    by (subst concatenar_eq [where use = share and drow = drow]) (auto simp: sound_log_def list_all_iff)
qed

lemma sound_log_length: "sound_log vsize delays pos drow lines \<Longrightarrow> length (chosen_rows vsize lines) \<le> length drow"
  using length_takeWhile_le [of "fits vsize" lines] by (auto simp: sound_log_def delays_ok_def)

lemma migrationTime_placement:
  "migrationTime (placement_of use keep extra delays drow vsize pos cid acc) = times_of delays vsize pos cid acc"
  by (simp add: placement_of_def Let_def rows_of_def)

lemma mapM_first: "mapM_r (\<lambda>(k, v). bind_r (py_index v 0) (\<lambda>x. Inr (k, x))) (map (\<lambda>i. (a i, b i # c i)) K) =
    Inr (map (\<lambda>i. (a i, b i)) K)"
  by (induction K) (auto simp: py_index_def)

lemma norm_vals_le:
  assumes "Max (set xs) \<noteq> Min (set xs)" "i < length xs" "j < length xs"
  shows "the (norm_vals xs ! i) \<le> the (norm_vals xs ! j) \<longleftrightarrow> xs ! i \<le> xs ! j"
proof -
  have "xs \<noteq> []" using assms(2) by auto
  then have n: "normalise xs = Inr (norm_vals xs)" by (rule normalise_eq)
  from norm_vals_Some [OF assms(1,2)] norm_vals_Some [OF assms(1,3)] obtain a b where
    "norm_vals xs ! i = Some a" "norm_vals xs ! j = Some b" by blast
  with normalise_order [OF n assms(2,3)] show ?thesis by simp
qed

lemma exemplo_choice:
  assumes log: "sound_log vsize delays pos drow lines"
  defines "acc \<equiv> chosen_rows vsize lines"
  shows "\<exists>k < length acc. exemplo_main rnd ''guloso'' delays vsize pos cid (header # lines) =
      Inr (k, times_of delays vsize pos cid acc ! k) \<and> (\<forall>j < length acc. drow ! k \<le> drow ! j)"
proof -
  let ?p = "placement_of share (\<lambda>b. True) (\<lambda>b. [Some 0]) delays drow vsize pos cid acc"
  let ?ips = "map (\<lambda>l. row_fields l ! 3) acc" and ?lat = "take (length acc) drow"
  let ?pick = "py_index (py_sort (\<lambda>a b. o_less (snd a) (snd b)) (map (\<lambda>i. (?ips ! i, norm_vals ?lat ! i)) [0..<length acc])) 0"
  have dist: "distinct ?ips" "acc \<noteq> []" using log by (simp_all add: sound_log_def acc_def)
  have len: "length acc \<le> length drow" unfolding acc_def using log by (rule sound_log_length)
  have con: "concatenarServers_exemplo delays vsize pos cid (header # lines) = Inr ?p"
    unfolding concatenarServers_exemplo_def acc_def by (rule sound_log_concatenar [OF log])
  have serv: "Servers ?p = map (\<lambda>i. (?ips ! i, norm_vals ?lat ! i #
      [norm_vals (times_of delays vsize pos cid acc) ! i, norm_mem (map (\<lambda>l. share vsize (row_free l)) acc) ! i, Some 0]))
      [0..<length acc]"
    by (subst Servers_placement [OF dist(1)]) (simp add: criteria_def Let_def rows_of_def)
  have gu: "guloso (Servers ?p) = bind_r ?pick (\<lambda>best. Inr (fst best))"
    unfolding guloso_def serv mapM_first by simp
  have "\<exists>k < length acc. (\<exists>v. ?pick = Inr (?ips ! k, v)) \<and> (\<forall>j < length acc. drow ! k \<le> drow ! j)"
  proof (cases "Max (set ?lat) = Min (set ?lat)")
    case True
    have "norm_vals ?lat ! i = None" if "i \<in> set [0..<length acc]" for i
      using True that len by (simp add: norm_vals_def)
    then have "?pick = Inr (?ips ! hd [0..<length acc], None)" using dist(2) by (intro pick_nan) auto
    moreover have "drow ! 0 \<le> drow ! j" if "j < length acc" for j
    proof -
      have "drow ! i \<in> set ?lat" if "i < length acc" for i using that len by (metis length_take min.absorb2 nth_mem nth_take)
      from this [of 0] this [OF that] dist(2) have "drow ! 0 \<le> Max (set ?lat)" "Min (set ?lat) \<le> drow ! j"
        by (auto intro: Max_ge Min_le simp del: set_take_subset)
      with True show ?thesis by simp
    qed
    ultimately show ?thesis using dist(2) by (intro exI [of _ 0]) (auto simp: hd_upt)
  next
    case False
    have some: "norm_vals ?lat ! i = Some (the (norm_vals ?lat ! i))" if "i \<in> set [0..<length acc]" for i
      using norm_vals_Some [OF False, of i] that len by auto
    have ne: "[0..<length acc] \<noteq> []" using dist(2) by simp
    from pick_least [of "[0..<length acc]" "\<lambda>i. norm_vals ?lat ! i" "\<lambda>i. the (norm_vals ?lat ! i)" ?ips, OF ne some]
    obtain k where "k \<in> set [0..<length acc]" and k: "?pick = Inr (?ips ! k, norm_vals ?lat ! k)"
      "\<forall>j \<in> set [0..<length acc]. the (norm_vals ?lat ! k) \<le> the (norm_vals ?lat ! j)" by blast
    then have "k < length acc" by simp
    with k(2) have "\<forall>j < length acc. drow ! k \<le> drow ! j" using norm_vals_le [OF False, of k] len by auto
    with k(1) \<open>k < length acc\<close> show ?thesis by blast
  qed
  then obtain k v where k: "k < length acc" "?pick = Inr (?ips ! k, v)" "\<forall>j < length acc. drow ! k \<le> drow ! j" by blast
  have "answer ?p (candidates ?p ! k) = Inr (k, migrationTime ?p ! k)"
    using dist(1) k(1) by (intro answer_nth) auto
  with con gu k(1,2) have "exemplo_main rnd ''guloso'' delays vsize pos cid (header # lines) = Inr (k, migrationTime ?p ! k)"
    by (simp add: exemplo_main_def)
  with k(1,3) show ?thesis unfolding migrationTime_placement by blast
qed

text \<open>\<open>AHP.py\<close> up to the sorting: the scores of the servers it considers.\<close>

lemma ahp_main_eq:
  assumes log: "sound_log vsize delays pos drow lines"
  defines "acc \<equiv> chosen_rows vsize lines"
  defines "ips \<equiv> map (\<lambda>l. row_fields l ! 3) acc"
  assumes score: "\<And>i. i \<in> set (few_contents acc) \<Longrightarrow>
      influencia peso (criteria share delays drow vsize pos cid acc i) = Inr (S i)"
    and pick: "py_index (py_sort (\<lambda>a b. o_less (snd a) (snd b)) (map (\<lambda>i. (ips ! i, S i)) (few_contents acc))) 0 =
      Inr (ips ! k, v)" and k: "k < length acc"
  shows "ahp_main delays vsize pos cid (header # lines) = Inr (k, times_of delays vsize pos cid acc ! k)"
proof -
  let ?p = "placement_of share (\<lambda>b. b < 10) (\<lambda>b. []) delays drow vsize pos cid acc"
  let ?C = "criteria share delays drow vsize pos cid acc"
  have dist: "distinct ips" using log by (simp add: sound_log_def acc_def ips_def)
  have con: "concatenarServers_ahp delays vsize pos cid (header # lines) = Inr ?p"
    unfolding concatenarServers_ahp_def acc_def by (rule sound_log_concatenar [OF log])
  have serv: "Servers ?p = map (\<lambda>i. (ips ! i, ?C i)) (few_contents acc)"
    using dist unfolding ips_def by (subst Servers_placement) (auto simp: few_contents_def)
  have "distinct (map fst (Servers ?p))"
  proof -
    have "inj_on (\<lambda>i. ips ! i) (set (few_contents acc))"
      using inj_on_nth [OF dist, of "set (few_contents acc)"] by (auto simp: few_contents_def ips_def)
    then show ?thesis by (simp add: serv comp_def distinct_map few_contents_def)
  qed
  then have "Politica (Servers ?p) = Inr (map (\<lambda>(k, v). (k, weighted v)) (Servers ?p))"
    unfolding Politica_def by (rule Influenciacompeso_eq) (auto simp: serv score weighted_def)
  also have "map (\<lambda>(k, v). (k, weighted v)) (Servers ?p) = map (\<lambda>i. (ips ! i, S i)) (few_contents acc)"
    by (auto simp: serv score weighted_def)
  finally have pol: "Politica (Servers ?p) = Inr (map (\<lambda>i. (ips ! i, S i)) (few_contents acc))" .
  have "answer ?p (candidates ?p ! k) = Inr (k, migrationTime ?p ! k)"
    using dist k by (intro answer_nth) (auto simp: ips_def)
  with con pol pick k show ?thesis by (simp add: ahp_main_def ips_def migrationTime_placement)
qed

section \<open>Properties\<close>

text \<open>
  C21: the log and the counter of \<open>concatenarServers\<close>. On a log of well-formed rows and a matrix of
  delays that covers them, the scripts raise IndexError exactly when a server with too little memory is
  listed before one with enough, because \<open>freeMemory[i]\<close> uses the row number on a list without the
  rejected rows; they raise ValueError exactly when no server has enough memory; otherwise the
  candidates are the servers with enough memory, in order.
\<close>

theorem concatenar_outcome:
  assumes "\<forall>l \<in> set lines. row_ok l" and "0 < vsize" and "delays_ok delays pos (length lines) drow"
    and "f \<in> {concatenarServers_ahp, concatenarServers_exemplo, concatenarServers_pli}"
  shows "case f delays vsize pos cid (header # lines) of
      Inl e \<Rightarrow>
        e = IndexError \<and> (\<exists>i j. i < j \<and> j < length lines \<and> \<not> fits vsize (lines ! i) \<and> fits vsize (lines ! j)) \<or>
        e = ValueError \<and> (\<forall>l \<in> set lines. \<not> fits vsize l)
    | Inr p \<Rightarrow>
        (\<forall>i j. i < j \<longrightarrow> j < length lines \<longrightarrow> fits vsize (lines ! j) \<longrightarrow> fits vsize (lines ! i)) \<and>
        candidates p = map (\<lambda>l. row_fields l ! 3) (filter (fits vsize) lines) \<and> candidates p \<noteq> [] \<and>
        length (migrationTime p) = length (candidates p)"
proof -
  have "usage_share vsize (row_free l) = Inr (share vsize (row_free l))" if "fits vsize l" for l
    using usage_share_total assms(2) that by blast
  then have eq: "concatenar usage_share keep extra delays vsize pos cid (header # lines) =
    (if \<not> aligned vsize lines then Inl IndexError
     else if takeWhile (fits vsize) lines = [] then Inl ValueError
     else Inr (placement_of share keep extra delays drow vsize pos cid (takeWhile (fits vsize) lines)))" for keep extra
    using assms(1-3) by (intro concatenar_eq) auto
  have al: "aligned vsize lines \<Longrightarrow> filter (fits vsize) lines = takeWhile (fits vsize) lines"
  proof -
    assume "aligned vsize lines"
    then have "filter (fits vsize) (dropWhile (fits vsize) lines) = []"
      by (simp add: aligned_def list_all_iff filter_empty_conv)
    then show ?thesis
      by (metis append_Nil2 filter_append filter_True set_takeWhileD takeWhile_dropWhile_id)
  qed
  have f: "f delays vsize pos cid (header # lines) =
    (if \<not> aligned vsize lines then Inl IndexError
     else if takeWhile (fits vsize) lines = [] then Inl ValueError
     else Inr (placement_of share keep extra delays drow vsize pos cid (takeWhile (fits vsize) lines)))"
    if "f = concatenar usage_share keep extra" for keep extra
    unfolding that by (rule eq)
  obtain keep extra where "f = concatenar usage_share keep extra"
    using assms(4) unfolding concatenarServers_ahp_def concatenarServers_exemplo_def concatenarServers_pli_def by blast
  note f = f [OF this]
  show ?thesis
  proof (cases "aligned vsize lines")
    case False
    then have "\<exists>i j. i < j \<and> j < length lines \<and> \<not> fits vsize (lines ! i) \<and> fits vsize (lines ! j)"
      unfolding aligned_iff by blast
    with False f show ?thesis by simp
  next
    case True
    show ?thesis
    proof (cases "takeWhile (fits vsize) lines = []")
      case none: True
      then have "\<forall>l \<in> set lines. \<not> fits vsize l" using al [OF True] by (simp add: filter_empty_conv)
      with True none f show ?thesis by simp
    next
      case False
      with True f show ?thesis using aligned_iff [THEN iffD1, OF True] by (simp add: al [OF True])
    qed
  qed
qed

theorem concatenar_outcome_witness:
  "case concatenarServers_ahp [[1, 2, 3, 4, 5, 6, 7, 8], [2, 1, 3, 4, 5, 6, 7, 8]] 10 0 ''v''
      [''header'', ''0;100;5;1.0.0.1;v'', ''1;100;50;2.0.0.1;v''] of
     Inl e \<Rightarrow> e = IndexError | Inr p \<Rightarrow> False"
proof -
  let ?lines = "[''0;100;5;1.0.0.1;v'', ''1;100;50;2.0.0.1;v'']"
  let ?d = "[[1, 2, 3, 4, 5, 6, 7, 8], [2, 1, 3, 4, 5, 6, 7, 8]] :: rat list list"
  have f: "row_free (?lines ! 0) = 5" "row_free (?lines ! 1) = 50" by code_simp+
  have ok: "\<forall>l \<in> set ?lines. row_ok l"
    by code_simp
  have d: "delays_ok ?d 0 (length ?lines) (?d ! 0)" by (simp add: delays_ok_def py_index_def)
  from concatenar_outcome [OF ok _ d, of 10 concatenarServers_ahp "''v''" "''header''"] f
  show ?thesis by (auto simp: fits_def less_Suc_eq split: sum.splits)
qed

text \<open>
  The greedy policy of \<open>exemplo.py\<close> returns, on every log it can process, a server with the least
  delay among those with enough memory, and the migration time of that server. Equal delays, which
  normalise to \<open>nan\<close>, do no harm.
\<close>

theorem guloso_nearest:
  assumes "sound_log vsize delays pos drow lines"
  shows "\<exists>k < length (chosen_rows vsize lines).
     exemplo_main rnd ''guloso'' delays vsize pos cid (header # lines) =
       Inr (k, times_of delays vsize pos cid (chosen_rows vsize lines) ! k) \<and>
     (\<forall>j < length (chosen_rows vsize lines). drow ! k \<le> drow ! j)"
  using exemplo_choice [OF assms] by blast

theorem guloso_nearest_witness:
  "\<exists>k < 2. \<exists>t. exemplo_main (\<lambda>n. 0) ''guloso'' [[5, 2, 3, 4, 5, 6, 7, 8], [2, 1, 3, 4, 5, 6, 7, 8], [3, 3, 1, 4, 5, 6, 7, 8]] 10 0 ''v'' (''header'' # [''0;100;50;1.0.0.1;v/x'', ''1;100;40;2.0.0.1;x'', ''2;100;5;3.0.0.1;x'']) = Inr (k, t) \<and>
     [5, 2, 3, 4, 5, 6, 7, 8 :: rat] ! k \<le> 5 \<and> [5, 2, 3, 4, 5, 6, 7, 8 :: rat] ! k \<le> 2"
proof -
  have log: "sound_log 10 [[5, 2, 3, 4, 5, 6, 7, 8], [2, 1, 3, 4, 5, 6, 7, 8], [3, 3, 1, 4, 5, 6, 7, 8]] 0 [5, 2, 3, 4, 5, 6, 7, 8] [''0;100;50;1.0.0.1;v/x'', ''1;100;40;2.0.0.1;x'', ''2;100;5;3.0.0.1;x'']" by code_simp
  have len: "length (chosen_rows 10 [''0;100;50;1.0.0.1;v/x'', ''1;100;40;2.0.0.1;x'', ''2;100;5;3.0.0.1;x'']) = 2" by code_simp
  from guloso_nearest [OF log, of "\<lambda>n. 0" "''v''" "''header''"] obtain k t where k: "k < 2"
    "exemplo_main (\<lambda>n. 0) ''guloso'' [[5, 2, 3, 4, 5, 6, 7, 8], [2, 1, 3, 4, 5, 6, 7, 8], [3, 3, 1, 4, 5, 6, 7, 8]] 10 0 ''v'' (''header'' # [''0;100;50;1.0.0.1;v/x'', ''1;100;40;2.0.0.1;x'', ''2;100;5;3.0.0.1;x'']) = Inr (k, t)"
    "\<forall>j < 2. [5, 2, 3, 4, 5, 6, 7, 8] ! k \<le> [5, 2, 3, 4, 5, 6, 7, 8 :: rat] ! j" unfolding len by blast
  from k(3) [rule_format, of 0] k(3) [rule_format, of 1] k(1,2) show ?thesis by auto
qed


text \<open>
  C27: \<open>AHP.py\<close> returns a server with the least weighted sum of the three normalised criteria among the
  candidates with fewer than ten contents, provided neither the delays nor the migration times of the
  candidates are all equal. The weights are those of \<open>AutoValor\<close>, none of them negative, so that a
  server that is at least as good in every criterion never has a worse sum.
\<close>

theorem ahp_least_score:
  assumes "sound_log vsize delays pos drow lines" and "few_contents (chosen_rows vsize lines) \<noteq> []"
    and "Max (set (take (length (chosen_rows vsize lines)) drow)) \<noteq> Min (set (take (length (chosen_rows vsize lines)) drow))"
    and "Max (set (times_of delays vsize pos cid (chosen_rows vsize lines))) \<noteq>
         Min (set (times_of delays vsize pos cid (chosen_rows vsize lines)))"
  shows "\<exists>a b c S k. peso = [Some a, Some b, Some c] \<and> 0 \<le> a \<and> 0 \<le> b \<and> 0 \<le> c \<and>
     (\<forall>i < length (chosen_rows vsize lines). \<exists>x y z.
        criteria (\<lambda>s f. s / f) delays drow vsize pos cid (chosen_rows vsize lines) i = [Some x, Some y, Some z] \<and>
        S i = x * a + y * b + z * c) \<and>
     k \<in> set (few_contents (chosen_rows vsize lines)) \<and>
     (\<forall>j \<in> set (few_contents (chosen_rows vsize lines)). S k \<le> S j) \<and>
     ahp_main delays vsize pos cid (header # lines) =
       Inr (k, times_of delays vsize pos cid (chosen_rows vsize lines) ! k)"
proof -
  let ?acc = "chosen_rows vsize lines"
  let ?C = "criteria share delays drow vsize pos cid ?acc"
  obtain a b c where p: "peso = [Some a, Some b, Some c]" "0 \<le> a" "0 \<le> b" "0 \<le> c" by (rule peso_spec)
  have len: "length ?acc \<le> length drow" using assms(1) by (rule sound_log_length)
  define S where "S i = the (?C i ! 0) * a + the (?C i ! 1) * b + the (?C i ! 2) * c" for i
  have S: "\<exists>x y z. ?C i = [Some x, Some y, Some z] \<and> S i = x * a + y * b + z * c" if "i < length ?acc" for i
  proof -
    have "\<exists>x. norm_vals (take (length ?acc) drow) ! i = Some x" "\<exists>y. norm_vals (times_of delays vsize pos cid ?acc) ! i = Some y"
      "\<exists>z. norm_mem (map (\<lambda>l. share vsize (row_free l)) ?acc) ! i = Some z"
      using norm_vals_Some [OF assms(3), of i] norm_vals_Some [OF assms(4), of i] norm_mem_Some that len
      by (auto simp: mig_times_def)
    then show ?thesis unfolding S_def by (auto simp: criteria_def Let_def rows_of_def)
  qed
  have few: "i \<in> set (few_contents ?acc) \<Longrightarrow> i < length ?acc" for i by (simp add: few_contents_def)
  have sc: "influencia peso (?C i) = Inr (Some (S i))" if "i \<in> set (few_contents ?acc)" for i
    using S [OF few [OF that]] by (auto simp: influencia_Some [OF p(1)])
  from pick_least [of "few_contents ?acc" "\<lambda>i. Some (S i)" S "map (\<lambda>l. row_fields l ! 3) ?acc"] assms(2) obtain k where
    k: "k \<in> set (few_contents ?acc)" "\<forall>j \<in> set (few_contents ?acc). S k \<le> S j" and
    pk: "py_index (py_sort (\<lambda>a b. o_less (snd a) (snd b))
      (map (\<lambda>i. (map (\<lambda>l. row_fields l ! 3) ?acc ! i, Some (S i))) (few_contents ?acc))) 0 =
      Inr (map (\<lambda>l. row_fields l ! 3) ?acc ! k, Some (S k))" by blast
  have "ahp_main delays vsize pos cid (header # lines) = Inr (k, times_of delays vsize pos cid ?acc ! k)"
    by (rule ahp_main_eq [OF assms(1) sc pk few [OF k(1)]])
  with p S k show ?thesis by blast
qed

theorem ahp_least_score_witness:
  "\<exists>k < 2. \<exists>t. ahp_main [[5, 2, 3, 4, 5, 6, 7, 8], [2, 1, 3, 4, 5, 6, 7, 8], [3, 3, 1, 4, 5, 6, 7, 8]] 10 0 ''v'' (''header'' # [''0;100;50;1.0.0.1;v/x'', ''1;100;40;2.0.0.1;x'', ''2;100;5;3.0.0.1;x'']) = Inr (k, t)"
proof -
  have log: "sound_log 10 [[5, 2, 3, 4, 5, 6, 7, 8], [2, 1, 3, 4, 5, 6, 7, 8], [3, 3, 1, 4, 5, 6, 7, 8]] 0 [5, 2, 3, 4, 5, 6, 7, 8] [''0;100;50;1.0.0.1;v/x'', ''1;100;40;2.0.0.1;x'', ''2;100;5;3.0.0.1;x'']" by code_simp
  have len: "length (chosen_rows 10 [''0;100;50;1.0.0.1;v/x'', ''1;100;40;2.0.0.1;x'', ''2;100;5;3.0.0.1;x'']) = 2" by code_simp
  have few: "few_contents (chosen_rows 10 [''0;100;50;1.0.0.1;v/x'', ''1;100;40;2.0.0.1;x'', ''2;100;5;3.0.0.1;x'']) = [0, 1]" by code_simp
  have lat: "Max (set (take (length (chosen_rows 10 [''0;100;50;1.0.0.1;v/x'', ''1;100;40;2.0.0.1;x'', ''2;100;5;3.0.0.1;x''])) [5, 2, 3, 4, 5, 6, 7, 8 :: rat])) \<noteq>
      Min (set (take (length (chosen_rows 10 [''0;100;50;1.0.0.1;v/x'', ''1;100;40;2.0.0.1;x'', ''2;100;5;3.0.0.1;x''])) [5, 2, 3, 4, 5, 6, 7, 8 :: rat]))" unfolding len by simp
  have tim: "times_of [[5, 2, 3, 4, 5, 6, 7, 8], [2, 1, 3, 4, 5, 6, 7, 8], [3, 3, 1, 4, 5, 6, 7, 8]] 10 0 ''v'' (chosen_rows 10 [''0;100;50;1.0.0.1;v/x'', ''1;100;40;2.0.0.1;x'', ''2;100;5;3.0.0.1;x'']) = [0, 1 / 12]" by code_simp
  have ne: "few_contents (chosen_rows 10 [''0;100;50;1.0.0.1;v/x'', ''1;100;40;2.0.0.1;x'', ''2;100;5;3.0.0.1;x'']) \<noteq> []" unfolding few by simp
  have "Max (set (times_of [[5, 2, 3, 4, 5, 6, 7, 8], [2, 1, 3, 4, 5, 6, 7, 8], [3, 3, 1, 4, 5, 6, 7, 8]] 10 0 ''v'' (chosen_rows 10 [''0;100;50;1.0.0.1;v/x'', ''1;100;40;2.0.0.1;x'', ''2;100;5;3.0.0.1;x'']))) \<noteq>
      Min (set (times_of [[5, 2, 3, 4, 5, 6, 7, 8], [2, 1, 3, 4, 5, 6, 7, 8], [3, 3, 1, 4, 5, 6, 7, 8]] 10 0 ''v'' (chosen_rows 10 [''0;100;50;1.0.0.1;v/x'', ''1;100;40;2.0.0.1;x'', ''2;100;5;3.0.0.1;x''])))" unfolding tim by simp
  from ahp_least_score [OF log ne lat this, of "''header''"] obtain k t where
    k: "k \<in> set [0, 1]" "ahp_main [[5, 2, 3, 4, 5, 6, 7, 8], [2, 1, 3, 4, 5, 6, 7, 8], [3, 3, 1, 4, 5, 6, 7, 8]] 10 0 ''v'' (''header'' # [''0;100;50;1.0.0.1;v/x'', ''1;100;40;2.0.0.1;x'', ''2;100;5;3.0.0.1;x'']) = Inr (k, t)"
    unfolding few by blast
  from k(1) have "k < 2" by auto
  with k(2) show ?thesis by blast
qed


text \<open>
  When every candidate of \<open>AHP.py\<close> already holds the content, all migration times are 0, their
  normalisation is \<open>nan\<close> and so is every score: the script then answers with the first server in the
  log that has fewer than ten contents, however far away it is.
\<close>

theorem ahp_content_everywhere:
  assumes "sound_log vsize delays pos drow lines" and "few_contents (chosen_rows vsize lines) \<noteq> []"
    and "\<forall>l \<in> set (chosen_rows vsize lines). cid \<in> set (row_contents l)"
  shows "ahp_main delays vsize pos cid (header # lines) = Inr (hd (few_contents (chosen_rows vsize lines)), 0)"
proof -
  let ?acc = "chosen_rows vsize lines" and ?k = "hd (few_contents (chosen_rows vsize lines))"
  let ?C = "criteria share delays drow vsize pos cid ?acc"
  have few: "i \<in> set (few_contents ?acc) \<Longrightarrow> i < length ?acc" for i by (simp add: few_contents_def)
  have "times_of delays vsize pos cid ?acc = map (\<lambda>i. 0) [0..<length ?acc]"
    using assms(3) by (auto simp: mig_times_def migration_time_def)
  then have times: "times_of delays vsize pos cid ?acc = replicate (length ?acc) 0" by (simp add: map_replicate_trivial)
  have sc: "influencia peso (?C i) = Inr None" if "i \<in> set (few_contents ?acc)" for i
  proof -
    have "set (replicate (length ?acc) (0 :: rat)) = {0}" using few [OF that] by (intro set_replicate) auto
    then have "norm_vals (replicate (length ?acc) 0) ! i = None" using few [OF that] by (simp add: norm_vals_def)
    with times show ?thesis unfolding criteria_def Let_def by (intro influencia_nan) (simp add: rows_of_def)
  qed
  have pk: "py_index (py_sort (\<lambda>a b. o_less (snd a) (snd b))
      (map (\<lambda>i. (map (\<lambda>l. row_fields l ! 3) ?acc ! i, None)) (few_contents ?acc))) 0 =
      Inr (map (\<lambda>l. row_fields l ! 3) ?acc ! ?k, None)"
    using assms(2) by (rule pick_nan) simp
  have k: "?k < length ?acc" using assms(2) by (intro few) simp
  from ahp_main_eq [OF assms(1) sc pk k] times k show ?thesis by simp
qed

theorem ahp_content_everywhere_witness:
  "ahp_main [[5, 2, 3, 4, 5, 6, 7, 8], [2, 1, 3, 4, 5, 6, 7, 8], [3, 3, 1, 4, 5, 6, 7, 8]] 10 0 ''x'' (''header'' # [''0;100;50;1.0.0.1;v/x'', ''1;100;40;2.0.0.1;x'', ''2;100;5;3.0.0.1;x'']) = Inr (0, 0)"
proof -
  have log: "sound_log 10 [[5, 2, 3, 4, 5, 6, 7, 8], [2, 1, 3, 4, 5, 6, 7, 8], [3, 3, 1, 4, 5, 6, 7, 8]] 0 [5, 2, 3, 4, 5, 6, 7, 8] [''0;100;50;1.0.0.1;v/x'', ''1;100;40;2.0.0.1;x'', ''2;100;5;3.0.0.1;x'']" by code_simp
  have few: "few_contents (chosen_rows 10 [''0;100;50;1.0.0.1;v/x'', ''1;100;40;2.0.0.1;x'', ''2;100;5;3.0.0.1;x'']) = [0, 1]" by code_simp
  have all: "\<forall>l \<in> set (chosen_rows 10 [''0;100;50;1.0.0.1;v/x'', ''1;100;40;2.0.0.1;x'', ''2;100;5;3.0.0.1;x'']). ''x'' \<in> set (row_contents l)" by code_simp
  have "few_contents (chosen_rows 10 [''0;100;50;1.0.0.1;v/x'', ''1;100;40;2.0.0.1;x'', ''2;100;5;3.0.0.1;x'']) \<noteq> []" unfolding few by simp
  from ahp_content_everywhere [OF log this all] show ?thesis unfolding few by simp
qed

text \<open>
  \<open>AutoValor\<close> on a consistent comparison matrix, whose entry for \<open>i\<close> and \<open>j\<close> is the ratio of the
  weights of \<open>i\<close> and \<open>j\<close>, returns the weights divided by their sum, rounded to the precision, for every
  limit of iterations.
\<close>

theorem AutoValor_consistent:
  assumes "\<forall>a \<in> set w. 0 < a" and "w \<noteq> []"
  shows "AutoValor (map (\<lambda>a. map (\<lambda>b. a / b) w) w) precisao interacao None =
     map (\<lambda>a. Some (round_dec precisao (a / sum_list w))) w"
  using AutoValor_ratio [of w 1 precisao interacao None] assms by (simp add: ratio_matrix_def)

theorem AutoValor_consistent_witness:
  "AutoValor [[1, 3], [1 / 3, 1]] 2 100 None = [Some (3 / 4), Some (1 / 4)]"
proof -
  have "round_dec 2 (3 / 4) = 3 / 4" "round_dec 2 (1 / 4) = 1 / 4" by code_simp+
  with AutoValor_consistent [of "[3, 1]" 2 100] show ?thesis by simp
qed

end
