(* ===== verification/FogRun.thy ===== *)
theory FogRun
  imports PyString
begin

text \<open>
  The scripts around the fog simulations (\<^verbatim>\<open>src/Fog4VR\<close>): \<open>Run.py\<close>, which builds the command lines and
  starts the simulations in rounds as the load of the machine allows, \<open>StallRebuffer.py\<close>, which adds up
  the stalls per server, and \<open>Delays.py\<close>, which fills the matrix of delays. The load averages, the
  contents of the log files and the command line are arguments.
\<close>

section \<open>Run.py: the command lines\<close>

text \<open>The options of the argument parser that the rest of the script uses; \<open>None\<close> is a missing option.\<close>

record run_args =
  arg_script :: string
  arguments :: "string list option"
  cores_share :: rat
  runs :: nat
  sim_id :: "string option"
  seed :: "string option"
  UseGraph :: bool
  graph :: "string option"
  GraphArgs :: "string list option"
  CopyArgs :: "string list option"
  RepeatArgs :: "string list option"

datatype run_error = ParserError string | RunError py_error

definition lift_run :: "'a result \<Rightarrow> run_error + 'a" where
  "lift_run r = (case r of Inl e \<Rightarrow> Inl (RunError e) | Inr x \<Rightarrow> Inr x)"

definition check_args :: "run_args \<Rightarrow> run_error + unit" where
  "check_args args =
     (if cores_share args > 1 \<or> cores_share args < 0
      then Inl (ParserError ''Wrong Percentage, use values from 0 to 1'')
      else if runs args \<le> 0 then Inl (ParserError ''Invalid number of runs'') else Inr ())"

definition build_script :: "run_args \<Rightarrow> string" where
  "build_script args =
     (let script = arg_script args;
          script = (case arguments args of None \<Rightarrow> script | Some as \<Rightarrow> foldl (\<lambda>s a. s @ '' --'' @ a) script as);
          script = (case sim_id args of None \<Rightarrow> script | Some i \<Rightarrow> script @ '' --'' @ i)
      in ''./waf --run='' @ [CHR 0x22] @ script)"

definition add_option :: "string \<Rightarrow> string \<Rightarrow> string \<Rightarrow> string" where
  "add_option gscript name val = gscript @ '' -'' @ name @ '' '' @ val"

definition graph_args :: "string \<Rightarrow> string list \<Rightarrow> string result" where
  "graph_args gscript as =
     foldM_r (\<lambda>g a. let aux = split_once (CHR ''='') a
        in bind_r (py_index aux 0) (\<lambda>n. bind_r (py_index aux 1) (\<lambda>v. Inr (add_option g n v)))) gscript as"

text \<open>Iterating over \<open>args.arguments\<close> raises TypeError when the option is missing.\<close>

definition copy_args :: "string list option \<Rightarrow> string \<Rightarrow> string list \<Rightarrow> string result" where
  "copy_args args gscript as =
     foldM_r (\<lambda>g a. let aux = split_once (CHR ''='') a
        in case args of
             None \<Rightarrow> Inl TypeError
           | Some is \<Rightarrow>
               foldM_r (\<lambda>g i. let aux2 = split_char (CHR ''='') i
                  in bind_r (py_index aux2 0) (\<lambda>n2. bind_r (py_index aux 0) (\<lambda>n.
                     if n2 = n then bind_r (py_index aux 1) (\<lambda>v. bind_r (py_index aux2 1) (\<lambda>v2. Inr (add_option g v v2)))
                     else Inr g))) g is) gscript as"

definition repeat_args :: "nat \<Rightarrow> string \<Rightarrow> string list \<Rightarrow> string result" where
  "repeat_args NumSims gscript as =
     foldM_r (\<lambda>g a. let aux = split_once (CHR ''='') a
        in bind_r (py_index aux 0) (\<lambda>n.
           if n = ''runs'' then bind_r (py_index aux 1) (\<lambda>v. Inr (add_option g v (str_of_nat NumSims))) else Inr g))
      gscript as"

definition over :: "'b option \<Rightarrow> ('a \<Rightarrow> 'b \<Rightarrow> 'e + 'a) \<Rightarrow> 'a \<Rightarrow> 'e + 'a" where
  "over o_list f g = (case o_list of None \<Rightarrow> Inr g | Some as \<Rightarrow> f g as)"

definition build_gscript :: "run_args \<Rightarrow> run_error + string option" where
  "build_gscript args =
     (if UseGraph args
      then (case graph args of
              None \<Rightarrow> Inl (ParserError ''Graph directory not specified'')
            | Some g \<Rightarrow>
                bind_r (lift_run (over (GraphArgs args) graph_args (''python3 '' @ g))) (\<lambda>g.
                bind_r (lift_run (over (CopyArgs args) (copy_args (arguments args)) g)) (\<lambda>g.
                bind_r (lift_run (over (RepeatArgs args) (repeat_args (runs args)) g)) (\<lambda>g. Inr (Some g)))))
      else Inr (graph args))"

text \<open>The command a started process passes to the shell.\<close>

definition callFunction :: "run_args \<Rightarrow> nat \<Rightarrow> string \<Rightarrow> string" where
  "callFunction args num script =
     (let script = (case sim_id args of None \<Rightarrow> script | Some _ \<Rightarrow> script @ ''='' @ str_of_nat num);
          script = (case seed args of None \<Rightarrow> script | Some s \<Rightarrow> script @ '' --'' @ s @ ''='' @ str_of_nat num)
      in script @ [CHR 0x22])"

section \<open>Run.py: the rounds\<close>

datatype slot = Number nat | Process nat

record sched =
  Cores :: "(string, slot) dict"
  next_sim :: nat
  started :: "nat list"

definition init_cores :: "int \<Rightarrow> (string, slot) dict" where
  "init_cores MaxCores =
     foldl (\<lambda>d i. AList.update (''core'' @ str_of_nat i) (Number i) d) [] [0..<nat MaxCores]"

text \<open>\<open>Cores[list(Cores)[i]] = mp.Process(...)\<close> and \<open>j += 1\<close>\<close>

definition assign_core :: "sched \<Rightarrow> nat \<Rightarrow> sched result" where
  "assign_core s i =
     bind_r (py_index (d_keys (Cores s)) (int i)) (\<lambda>key.
       Inr (s\<lparr>Cores := AList.update key (Process (next_sim s)) (Cores s), next_sim := next_sim s + 1\<rparr>))"

text \<open>\<open>Cores[list(Cores)[i]].start()\<close>; a slot that still holds its number has no such method.\<close>

definition start_core :: "sched \<Rightarrow> nat \<Rightarrow> sched result" where
  "start_core s i =
     bind_r (py_index (d_keys (Cores s)) (int i)) (\<lambda>key.
     bind_r (d_getitem (Cores s) key) (\<lambda>c.
       case c of Number _ \<Rightarrow> Inl AttributeError | Process n \<Rightarrow> Inr (s\<lparr>started := started s @ [n]\<rparr>)))"

definition use_cores :: "nat \<Rightarrow> rat \<Rightarrow> nat \<Rightarrow> rat \<Rightarrow> nat \<Rightarrow> int" where
  "use_cores NumCores MaxLoad NumSims load j =
     (let freeCores = \<lceil>of_nat NumCores - load\<rceil>;
          useCores = trunc (of_int freeCores * MaxLoad)
      in if useCores + int j > int NumSims then int NumSims - int j else useCores)"

definition run_round :: "nat \<Rightarrow> rat \<Rightarrow> nat \<Rightarrow> rat \<Rightarrow> sched \<Rightarrow> sched result" where
  "run_round NumCores MaxLoad NumSims load s =
     (let is = [0..<nat (use_cores NumCores MaxLoad NumSims load (next_sim s))]
      in bind_r (foldM_r assign_core s is) (\<lambda>s. foldM_r start_core s is))"

text \<open>\<open>loads t\<close> is the load average that round \<open>t\<close> reads. Without enough rounds the result is \<open>None\<close>.\<close>

fun run_rounds :: "nat \<Rightarrow> nat \<Rightarrow> rat \<Rightarrow> nat \<Rightarrow> (nat \<Rightarrow> rat) \<Rightarrow> nat \<Rightarrow> sched \<Rightarrow> sched result option" where
  "run_rounds fuel NumCores MaxLoad NumSims loads t s =
     (if next_sim s < NumSims
      then (case fuel of
              0 \<Rightarrow> None
            | Suc n \<Rightarrow>
                (case run_round NumCores MaxLoad NumSims (loads t) s of
                   Inl e \<Rightarrow> Some (Inl e)
                 | Inr s' \<Rightarrow> run_rounds n NumCores MaxLoad NumSims loads (Suc t) s'))
      else Some (Inr s))"

declare run_rounds.simps [simp del]

definition run_main :: "nat \<Rightarrow> nat \<Rightarrow> rat \<Rightarrow> nat \<Rightarrow> (nat \<Rightarrow> rat) \<Rightarrow> sched result option" where
  "run_main fuel NumCores MaxLoad NumSims loads =
     run_rounds fuel NumCores MaxLoad NumSims loads 0
       \<lparr>Cores = init_cores (trunc (of_nat NumCores * MaxLoad)), next_sim = 0, started = []\<rparr>"

section \<open>StallRebuffer.py\<close>

record stalls =
  Nstalls :: nat
  timeTotal :: rat
  Clients :: nat

datatype stall_server = S1 | S2 | S3 | Cloud

definition server_of :: "string \<Rightarrow> stall_server" where
  "server_of ip =
     (if ip = ''1.0.0.1'' then S1
      else if ip = ''2.0.0.1'' \<or> ip = ''1.0.0.3'' then S2
      else if ip = ''3.0.0.1'' \<or> ip = ''1.0.0.5'' then S3 else Cloud)"

text \<open>The second component says which servers have not been counted for the client of this file yet.\<close>

definition stall_line :: "(stall_server \<Rightarrow> stalls) \<times> (stall_server \<Rightarrow> bool) \<Rightarrow> string \<Rightarrow>
    ((stall_server \<Rightarrow> stalls) \<times> (stall_server \<Rightarrow> bool)) result" where
  "stall_line st line =
     (case st of (c, fresh) \<Rightarrow>
      let fields = split_char (CHR '';'') line
      in if length fields \<ge> 5
         then let s = server_of (fields ! 0);
                  cs = (c s)\<lparr>Clients := (if fresh s then Clients (c s) + 1 else Clients (c s)),
                             Nstalls := Nstalls (c s) + 1\<rparr>
              in bind_r (bind_r (py_index fields 3) py_float) (\<lambda>t.
                 Inr (c(s := cs\<lparr>timeTotal := timeTotal (c s) + t\<rparr>), fresh(s := False)))
         else Inr (c, fresh))"

definition stall_file :: "(stall_server \<Rightarrow> stalls) \<Rightarrow> string list \<Rightarrow> (stall_server \<Rightarrow> stalls) result" where
  "stall_file c data = bind_r (foldM_r stall_line (c, \<lambda>_. True) (drop 1 data)) (\<lambda>(c, fresh). Inr c)"

definition bufferUnderrunGraphs :: "string list list \<Rightarrow> (stall_server \<Rightarrow> stalls) result" where
  "bufferUnderrunGraphs files = foldM_r stall_file (\<lambda>_. \<lparr>Nstalls = 0, timeTotal = 0, Clients = 0\<rparr>) files"

definition dividir :: "rat \<Rightarrow> rat \<Rightarrow> rat" where
  "dividir a b = (if b = 0 then 0 else a / b)"

section \<open>Delays.py\<close>

text \<open>\<open>aux = list(arg)[:-10]; aux.pop(0); float(''.join(aux)) / 2\<close>\<close>

definition read_delay :: "string \<Rightarrow> rat result" where
  "read_delay arg =
     (let aux = py_slice_to arg (- 10)
      in if aux = [] then Inl IndexError else bind_r (py_float (tl aux)) (\<lambda>x. Inr (x / 2)))"

definition delay_arg :: "rat list list \<times> nat \<times> nat \<Rightarrow> string \<Rightarrow> (rat list list \<times> nat \<times> nat) result" where
  "delay_arg st arg =
     (case st of (delays, k, j) \<Rightarrow>
      let (k, j) = (if j \<ge> 10 then (k + 1, 0) else (k, j))
      in bind_r (read_delay arg) (\<lambda>d.
         if k < length delays then Inr (delays[k := (delays ! k)[j := d]], k, j + 1) else Inl IndexError))"

definition delays_matrix :: "string list \<Rightarrow> rat list list result" where
  "delays_matrix argv =
     bind_r (foldM_r delay_arg (replicate 10 (replicate 10 0), 0, 0) (drop 3 argv)) (\<lambda>(d, k, j). Inr d)"

section \<open>The rounds start every simulation once\<close>

lemma str_of_nat_inj: "str_of_nat m = str_of_nat n \<Longrightarrow> m = n"
  by (metis option.inject read_str_of_nat)

lemma init_cores_spec: "d_ok (init_cores m)" "length (init_cores m) = nat m"
proof -
  let ?f = "\<lambda>n. foldl (\<lambda>d i. AList.update (''core'' @ str_of_nat i) (Number i) d) [] [0..<n]"
  have keys: "d_keys (?f n) = map (\<lambda>i. ''core'' @ str_of_nat i) [0..<n]" for n
  proof (induction n)
    case 0
    show ?case by simp
  next
    case (Suc n)
    have "''core'' @ str_of_nat n \<notin> set (d_keys (?f n))" unfolding Suc by (auto dest: str_of_nat_inj)
    with Suc show ?case by (simp add: update_keys)
  qed
  show "length (init_cores m) = nat m"
    using arg_cong [OF keys [of "nat m"], of length] by (simp add: init_cores_def)
  show "d_ok (init_cores m)"
    unfolding d_ok_def init_cores_def keys by (auto simp: distinct_map inj_on_def dest: str_of_nat_inj)
qed

lemma assign_fold:
  assumes "d_ok (Cores s)" and "u \<le> length (Cores s)"
  shows "\<exists>s'. foldM_r assign_core s [0..<u] = Inr s' \<and> next_sim s' = next_sim s + u \<and>
     d_keys (Cores s') = d_keys (Cores s) \<and> started s' = started s \<and>
     (\<forall>i < u. map_of (Cores s') (d_keys (Cores s) ! i) = Some (Process (next_sim s + i)))"
  using assms(2)
proof (induction u)
  case 0
  show ?case by simp
next
  case (Suc u)
  then obtain s1 where s1: "foldM_r assign_core s [0..<u] = Inr s1" "next_sim s1 = next_sim s + u"
    "d_keys (Cores s1) = d_keys (Cores s)" "started s1 = started s"
    "\<forall>i < u. map_of (Cores s1) (d_keys (Cores s) ! i) = Some (Process (next_sim s + i))" by auto
  let ?key = "d_keys (Cores s) ! u"
  let ?s' = "s1\<lparr>Cores := AList.update ?key (Process (next_sim s1)) (Cores s1), next_sim := next_sim s1 + 1\<rparr>"
  have u: "u < length (d_keys (Cores s))" using Suc.prems by simp
  then have mem: "?key \<in> set (d_keys (Cores s1))" using s1(3) by (metis nth_mem)
  have "assign_core s1 u = Inr ?s'" unfolding assign_core_def s1(3) using u by simp
  then have "foldM_r assign_core s [0..<Suc u] = Inr ?s'" using s1(1) by (simp add: foldM_r_append)
  moreover have "d_keys (Cores ?s') = d_keys (Cores s)" using mem s1(3) by (simp add: update_keys)
  moreover have "d_keys (Cores s) ! i \<noteq> ?key" if "i < u" for i
    using assms(1) u that unfolding d_ok_def by (metis nth_eq_iff_index_eq less_trans less_irrefl)
  ultimately show ?case using s1 by (auto simp: less_Suc_eq)
qed

lemma start_fold:
  assumes "u \<le> length (Cores s)"
    and "\<And>i. i < u \<Longrightarrow> map_of (Cores s) (d_keys (Cores s) ! i) = Some (Process (n + i))"
  shows "foldM_r start_core s [0..<u] = Inr (s\<lparr>started := started s @ [n..<n + u]\<rparr>)"
  using assms
proof (induction u)
  case 0
  show ?case by simp
next
  case (Suc u)
  let ?s = "s\<lparr>started := started s @ [n..<n + u]\<rparr>"
  have "py_index (d_keys (Cores s)) (int u) = Inr (d_keys (Cores s) ! u)" using Suc.prems(1) by simp
  then have "start_core ?s u = Inr (?s\<lparr>started := started ?s @ [n + u]\<rparr>)"
    using Suc.prems(2) [of u] by (simp add: start_core_def d_getitem_def)
  with Suc show ?case by (simp add: foldM_r_append)
qed

definition sched_ok :: "nat \<Rightarrow> nat \<Rightarrow> sched \<Rightarrow> bool" where
  "sched_ok m NumSims s \<longleftrightarrow> d_ok (Cores s) \<and> length (Cores s) = m \<and> next_sim s \<le> NumSims \<and>
     started s = [0..<next_sim s]"

lemma trunc_mono: "x \<le> y \<Longrightarrow> trunc x \<le> trunc y"
proof -
  assume xy: "x \<le> y"
  have "\<lceil>x\<rceil> \<le> \<lfloor>y\<rfloor>" if "x < 0" "0 \<le> y"
  proof -
    have "\<lceil>x\<rceil> \<le> 0" using that(1) by (simp add: ceiling_le_iff)
    also have "0 \<le> \<lfloor>y\<rfloor>" using that(2) by simp
    finally show ?thesis .
  qed
  with xy ceiling_mono [OF xy] floor_mono [OF xy] show ?thesis by (auto simp: trunc_def not_less)
qed

lemma use_cores_bound:
  assumes "0 \<le> load" and "0 \<le> MaxLoad"
  shows "use_cores N MaxLoad NumSims load j \<le> max 0 (trunc (of_nat N * MaxLoad))"
    and "use_cores N MaxLoad NumSims load j \<le> int NumSims - int j"
proof -
  have "\<lceil>of_nat N - load\<rceil> \<le> int N" using assms(1) by (simp add: ceiling_le_iff)
  then have "(of_int \<lceil>of_nat N - load\<rceil> :: rat) \<le> of_nat N" by (metis of_int_le_iff of_int_of_nat_eq)
  then have "of_int \<lceil>of_nat N - load\<rceil> * MaxLoad \<le> of_nat N * MaxLoad" by (rule mult_right_mono) (rule assms(2))
  from trunc_mono [OF this] show "use_cores N MaxLoad NumSims load j \<le> max 0 (trunc (of_nat N * MaxLoad))"
    by (auto simp: use_cores_def Let_def)
  show "use_cores N MaxLoad NumSims load j \<le> int NumSims - int j" by (auto simp: use_cores_def Let_def)
qed

lemma run_round_spec:
  assumes "sched_ok (nat (trunc (of_nat N * MaxLoad))) NumSims s" and "0 \<le> load" and "0 \<le> MaxLoad"
  defines "u \<equiv> nat (use_cores N MaxLoad NumSims load (next_sim s))"
  shows "\<exists>s'. run_round N MaxLoad NumSims load s = Inr s' \<and> next_sim s' = next_sim s + u \<and>
     sched_ok (nat (trunc (of_nat N * MaxLoad))) NumSims s'"
proof -
  have "u \<le> length (Cores s)"
    using use_cores_bound(1) [OF assms(2,3), of N NumSims "next_sim s"] assms(1) by (auto simp: sched_ok_def u_def)
  moreover have ok: "d_ok (Cores s)" using assms(1) by (simp add: sched_ok_def)
  ultimately obtain s1 where s1: "foldM_r assign_core s [0..<u] = Inr s1" "next_sim s1 = next_sim s + u"
    "d_keys (Cores s1) = d_keys (Cores s)" "started s1 = started s"
    "\<forall>i < u. map_of (Cores s1) (d_keys (Cores s) ! i) = Some (Process (next_sim s + i))"
    using assign_fold by blast
  have len: "length (Cores s1) = length (Cores s)" by (metis length_map s1(3))
  have "foldM_r start_core s1 [0..<u] = Inr (s1\<lparr>started := started s1 @ [next_sim s..<next_sim s + u]\<rparr>)"
    using \<open>u \<le> length (Cores s)\<close> len s1(3,5) by (intro start_fold) auto
  with s1(1) have "run_round N MaxLoad NumSims load s = Inr (s1\<lparr>started := started s1 @ [next_sim s..<next_sim s + u]\<rparr>)"
    by (simp add: run_round_def u_def)
  moreover have "next_sim s + u \<le> NumSims"
    using use_cores_bound(2) [OF assms(2,3), of N NumSims "next_sim s"] assms(1) by (auto simp: u_def sched_ok_def)
  moreover have "d_ok (Cores s1)" using ok s1(3) by (simp add: d_ok_def)
  ultimately show ?thesis using assms(1) s1(2,4) len
    by (auto simp: sched_ok_def upt_add_eq_append [of 0 "next_sim s", simplified])
qed

lemma run_rounds_spec:
  assumes "sched_ok (nat (trunc (of_nat N * MaxLoad))) NumSims s" and "0 \<le> MaxLoad"
    and "\<And>t. 0 \<le> loads t" and "\<And>t. 1 \<le> trunc (of_int \<lceil>of_nat N - loads t\<rceil> * MaxLoad)"
    and "NumSims - next_sim s \<le> fuel"
  shows "\<exists>s'. run_rounds fuel N MaxLoad NumSims loads t s = Some (Inr s') \<and> started s' = [0..<NumSims]"
  using assms(1,5)
proof (induction fuel arbitrary: s t)
  case 0
  then show ?case by (subst run_rounds.simps) (auto simp: sched_ok_def)
next
  case (Suc fuel)
  show ?case
  proof (cases "next_sim s < NumSims")
    case False
    with Suc.prems show ?thesis by (subst run_rounds.simps) (auto simp: sched_ok_def)
  next
    case True
    obtain s' where s': "run_round N MaxLoad NumSims (loads t) s = Inr s'"
      "next_sim s' = next_sim s + nat (use_cores N MaxLoad NumSims (loads t) (next_sim s))"
      "sched_ok (nat (trunc (of_nat N * MaxLoad))) NumSims s'"
      using run_round_spec [OF Suc.prems(1) assms(3,2)] by blast
    have "1 \<le> use_cores N MaxLoad NumSims (loads t) (next_sim s)"
      using assms(4) [of t] True by (auto simp: use_cores_def Let_def)
    with s'(2) Suc.prems(2) have "NumSims - next_sim s' \<le> fuel" by linarith
    from Suc.IH [OF s'(3) this, of "Suc t"] s'(1) True show ?thesis by (subst run_rounds.simps) simp
  qed
qed

lemma run_rounds_stuck:
  assumes "next_sim s < NumSims" and "\<And>t. use_cores N MaxLoad NumSims (loads t) (next_sim s) \<le> 0"
  shows "run_rounds fuel N MaxLoad NumSims loads t s = None"
proof (induction fuel arbitrary: t)
  case 0
  show ?case using assms(1) by (subst run_rounds.simps) simp
next
  case (Suc fuel)
  have "run_round N MaxLoad NumSims (loads t) s = Inr s"
    using assms(2) [of t] by (simp add: run_round_def)
  with Suc assms(1) show ?case by (subst run_rounds.simps) simp
qed

section \<open>Stalls and delays\<close>

definition stall_row :: "string \<Rightarrow> bool" where
  "stall_row line \<longleftrightarrow> 5 \<le> length (split_char (CHR '';'') line)"

definition row_server :: "string \<Rightarrow> stall_server" where
  "row_server line = server_of (split_char (CHR '';'') line ! 0)"

definition row_time :: "string \<Rightarrow> rat" where
  "row_time line = projr (py_float (split_char (CHR '';'') line ! 3))"

definition rows_for :: "stall_server \<Rightarrow> string list \<Rightarrow> string list" where
  "rows_for s data = filter (\<lambda>l. stall_row l \<and> row_server l = s) (drop 1 data)"

definition readable :: "string list \<Rightarrow> bool" where
  "readable data \<longleftrightarrow> (\<forall>l \<in> set (drop 1 data). stall_row l \<longrightarrow> \<not> isl (py_float (split_char (CHR '';'') l ! 3)))"

lemma stall_line_eq:
  assumes "stall_row l \<longrightarrow> \<not> isl (py_float (split_char (CHR '';'') l ! 3))"
  shows "stall_line (c, fresh) l = Inr
    (if stall_row l
     then (c(row_server l := (c (row_server l))\<lparr>Clients := Clients (c (row_server l)) + of_bool (fresh (row_server l)),
             Nstalls := Nstalls (c (row_server l)) + 1, timeTotal := timeTotal (c (row_server l)) + row_time l\<rparr>),
           fresh(row_server l := False))
     else (c, fresh))"
proof (cases "stall_row l")
  case True
  then have "py_index (split_char (CHR '';'') l) 3 = Inr (split_char (CHR '';'') l ! 3)"
    using py_index_nat [of 3 "split_char (CHR '';'') l"] by (simp add: stall_row_def)
  moreover from assms True have "py_float (split_char (CHR '';'') l ! 3) = Inr (row_time l)"
    by (cases "py_float (split_char (CHR '';'') l ! 3)") (auto simp: row_time_def)
  ultimately show ?thesis using True by (simp add: stall_line_def stall_row_def row_server_def Let_def)
next
  case False
  then show ?thesis by (simp add: stall_line_def stall_row_def)
qed

lemma stall_lines_eq:
  assumes "\<And>l. l \<in> set ls \<Longrightarrow> stall_row l \<longrightarrow> \<not> isl (py_float (split_char (CHR '';'') l ! 3))"
  shows "foldM_r stall_line (c, fresh) ls = Inr
    (\<lambda>s. let mine = filter (\<lambda>l. stall_row l \<and> row_server l = s) ls
         in (c s)\<lparr>Nstalls := Nstalls (c s) + length mine, timeTotal := timeTotal (c s) + sum_list (map row_time mine),
              Clients := Clients (c s) + of_bool (fresh s \<and> mine \<noteq> [])\<rparr>,
     \<lambda>s. fresh s \<and> filter (\<lambda>l. stall_row l \<and> row_server l = s) ls = [])"
  using assms
proof (induction ls arbitrary: c fresh)
  case Nil
  show ?case by simp
next
  case (Cons l ls)
  from Cons.IH [OF Cons.prems] stall_line_eq [of l c fresh] Cons.prems show ?case
    by (auto simp: fun_eq_iff Let_def)
qed

lemma stall_files_eq:
  assumes "\<And>f. f \<in> set files \<Longrightarrow> readable f"
  shows "foldM_r stall_file c files = Inr (\<lambda>s.
     (c s)\<lparr>Nstalls := Nstalls (c s) + sum_list (map (\<lambda>f. length (rows_for s f)) files),
       timeTotal := timeTotal (c s) + sum_list (map (\<lambda>f. sum_list (map row_time (rows_for s f))) files),
       Clients := Clients (c s) + length (filter (\<lambda>f. rows_for s f \<noteq> []) files)\<rparr>)"
  using assms
proof (induction files arbitrary: c)
  case Nil
  show ?case by simp
next
  case (Cons f files)
  have "foldM_r stall_line (c, \<lambda>_. True) (drop 1 f) = Inr
    (\<lambda>s. let mine = rows_for s f
         in (c s)\<lparr>Nstalls := Nstalls (c s) + length mine, timeTotal := timeTotal (c s) + sum_list (map row_time mine),
              Clients := Clients (c s) + of_bool (True \<and> mine \<noteq> [])\<rparr>, \<lambda>s. True \<and> rows_for s f = [])"
    unfolding rows_for_def by (rule stall_lines_eq) (use Cons.prems [of f] in \<open>auto simp: readable_def\<close>)
  with Cons.IH Cons.prems show ?case by (simp add: stall_file_def fun_eq_iff Let_def)
qed

text \<open>The position of the iterator of \<open>Delays.py\<close> after \<open>n\<close> arguments.\<close>

definition delay_pos :: "nat \<Rightarrow> nat \<times> nat" where
  "delay_pos n = (if n = 0 then (0, 0) else ((n - 1) div 10, (n - 1) mod 10 + 1))"

definition delay_value :: "string \<Rightarrow> rat" where
  "delay_value arg = projr (read_delay arg)"

text \<open>The matrix with the values of the arguments in row-major order.\<close>

definition filled :: "string list \<Rightarrow> rat list list" where
  "filled args = map (\<lambda>a. map (\<lambda>b. if 10 * a + b < length args then delay_value (args ! (10 * a + b)) else 0) [0..<10]) [0..<10]"

lemma filled_snoc:
  assumes "length args < 100"
  shows "filled (args @ [x]) = (filled args)[length args div 10 := (filled args ! (length args div 10))[length args mod 10 := delay_value x]]"
proof (rule nth_equalityI)
  fix a assume "a < length (filled (args @ [x]))"
  then have a: "a < 10" by (simp add: filled_def)
  let ?n = "length args"
  show "filled (args @ [x]) ! a = (filled args)[?n div 10 := (filled args ! (?n div 10))[?n mod 10 := delay_value x]] ! a"
  proof (cases "a = ?n div 10")
    case False
    have "10 * a + b \<noteq> ?n" if "b < 10" for b using that False by auto
    then have "10 * a + b < Suc ?n \<longleftrightarrow> 10 * a + b < ?n" if "b < 10" for b using that by (metis less_Suc_eq)
    with False a show ?thesis by (auto simp: filled_def nth_append)
  next
    case True
    have "10 * a + b = ?n \<longleftrightarrow> b = ?n mod 10" if "b < 10" for b
      using True that by (metis add_left_cancel mult_div_mod_eq)
    then have "10 * a + b < Suc ?n \<longleftrightarrow> 10 * a + b < ?n \<or> b = ?n mod 10" if "b < 10" for b
      using that by (metis less_Suc_eq)
    moreover have "10 * a + ?n mod 10 = ?n" using True by simp
    ultimately show ?thesis using a True
      by (intro nth_equalityI) (auto simp: filled_def nth_append nth_list_update)
  qed
qed (simp add: filled_def)

lemma length_filled [simp]: "length (filled args) = 10"
  by (simp add: filled_def)

lemma delay_step:
  assumes "length args < 100" and "read_delay x = Inr (delay_value x)"
  shows "delay_arg (filled args, delay_pos (length args)) x =
     Inr (filled (args @ [x]), delay_pos (length (args @ [x])))"
proof (cases "length args = 0")
  case True
  with assms filled_snoc [of args x] show ?thesis by (simp add: delay_arg_def delay_pos_def)
next
  case False
  then obtain m where m: "length args = Suc m" by (cases "length args") auto
  have "(if m mod 10 + 1 \<ge> 10 then (m div 10 + 1, 0) else (m div 10, m mod 10 + 1)) = (Suc m div 10, Suc m mod 10)"
    by (auto simp: div_Suc mod_Suc)
  with assms m filled_snoc [of args x] show ?thesis
    by (auto simp: delay_arg_def delay_pos_def split: if_splits)
qed

lemma delays_fold:
  assumes "length args \<le> 100" and "\<And>a. a \<in> set args \<Longrightarrow> \<not> isl (read_delay a)"
  shows "foldM_r delay_arg (replicate 10 (replicate 10 0), 0, 0) args = Inr (filled args, delay_pos (length args))"
  using assms
proof (induction args rule: rev_induct)
  case Nil
  show ?case by (simp add: filled_def delay_pos_def map_replicate_trivial)
next
  case (snoc x args)
  have "read_delay x = Inr (delay_value x)"
    using snoc.prems(2) [of x] by (cases "read_delay x") (auto simp: delay_value_def)
  with snoc show ?case by (simp add: foldM_r_append delay_step del: append.simps)
qed

lemma sum_list_concat_map: "sum_list (concat (map g xs)) = sum_list (map (\<lambda>x. sum_list (g x)) xs)"
  by (induction xs) auto

lemma sum_list_perm:
  fixes g :: "'a \<Rightarrow> 'b::comm_monoid_add"
  shows "mset ys = mset xs \<Longrightarrow> sum_list (map g ys) = sum_list (map g xs)"
  by (metis mset_map sum_mset_sum_list)

section \<open>Properties\<close>

text \<open>
  C28: the rounds of \<open>Run.py\<close>. If every round finds enough free cores to use at least one, the loop ends
  after at most as many rounds as there are simulations, without an error, and every simulation was
  started exactly once, in order.
\<close>

theorem run_main_starts_all:
  assumes "0 \<le> MaxLoad" and "\<forall>t. 0 \<le> loads t"
    and "\<forall>t. 1 \<le> trunc (of_int \<lceil>of_nat NumCores - loads t\<rceil> * MaxLoad)" and "NumSims \<le> fuel"
  shows "\<exists>s. run_main fuel NumCores MaxLoad NumSims loads = Some (Inr s) \<and> started s = [0..<NumSims]"
  unfolding run_main_def
  by (rule run_rounds_spec) (use assms in \<open>auto simp: sched_ok_def init_cores_spec\<close>)

theorem run_main_starts_all_witness:
  "\<exists>s. run_main 7 4 (1 / 2) 7 (\<lambda>t. 1 / 2) = Some (Inr s) \<and> started s = [0..<7]"
  by (rule run_main_starts_all) (simp_all add: trunc_def)

text \<open>
  \<open>Run.py\<close> never ends, and starts nothing, when the share of the cores rounds down to none, as the
  default of one half does on a machine with one core.
\<close>

theorem run_main_no_core:
  assumes "0 \<le> MaxLoad" and "of_nat NumCores * MaxLoad < 1" and "0 < NumSims" and "\<forall>t. 0 \<le> loads t"
  shows "run_main fuel NumCores MaxLoad NumSims loads = None"
proof -
  have "trunc (of_nat NumCores * MaxLoad) = 0" using assms(1,2) by (simp add: trunc_nonneg floor_eq_iff)
  then have "use_cores NumCores MaxLoad NumSims (loads t) j \<le> 0" for t j
    using use_cores_bound(1) [OF _ assms(1), of "loads t" NumCores NumSims j] assms(4) by simp
  with assms(3) show ?thesis unfolding run_main_def by (intro run_rounds_stuck) auto
qed

theorem run_main_no_core_witness: "run_main 1000 1 (1 / 2) 1 (\<lambda>t. 0) = None"
  by (rule run_main_no_core) simp_all

text \<open>
  C29: \<open>bufferUnderrunGraphs\<close> on readable logs counts, for each server, the rows with at least five fields
  that name it, adds up their stall times, and counts once every file that has such a row; the result
  does not depend on the order in which the files are found.
\<close>

theorem stalls_add_up:
  assumes "\<forall>f \<in> set files. readable f" and "mset files' = mset files"
  shows "bufferUnderrunGraphs files = Inr (\<lambda>s.
      \<lparr>Nstalls = length (concat (map (rows_for s) files)),
       timeTotal = sum_list (map row_time (concat (map (rows_for s) files))),
       Clients = length (filter (\<lambda>f. rows_for s f \<noteq> []) files)\<rparr>) \<and>
    bufferUnderrunGraphs files' = bufferUnderrunGraphs files"
proof -
  have len: "length (filter P files') = length (filter P files)" for P by (metis assms(2) mset_filter size_mset)
  have "set files' = set files" using assms(2) by (rule mset_eq_setD)
  with assms(1) have "\<And>f. f \<in> set files' \<Longrightarrow> readable f" by simp
  from stall_files_eq [OF this] stall_files_eq [of files] assms(1) show ?thesis
    by (simp add: bufferUnderrunGraphs_def length_concat comp_def map_concat sum_list_concat_map
        sum_list_perm [OF assms(2)] len)
qed

theorem stalls_add_up_witness:
  "\<exists>c. bufferUnderrunGraphs [[''h'', ''1.0.0.1;0;1;2.5;x'', ''1.0.0.3;0;1;4;x'', ''1.0.0.1;0;1;1;x''], [''h'', ''1.0.0.1;0;0;3;x'']] = Inr c \<and>
     c S1 = \<lparr>Nstalls = 3, timeTotal = 13 / 2, Clients = 2\<rparr> \<and>
   bufferUnderrunGraphs [[''h'', ''1.0.0.1;0;0;3;x''], [''h'', ''1.0.0.1;0;1;2.5;x'', ''1.0.0.3;0;1;4;x'', ''1.0.0.1;0;1;1;x'']] = Inr c"
proof -
  let ?f = "[''h'', ''1.0.0.1;0;1;2.5;x'', ''1.0.0.3;0;1;4;x'', ''1.0.0.1;0;1;1;x'']" and ?g = "[''h'', ''1.0.0.1;0;0;3;x'']"
  have "\<forall>f \<in> set [?f, ?g]. readable f" by code_simp
  moreover have "mset [?g, ?f] = mset [?f, ?g]" by simp
  moreover have "length (concat (map (rows_for S1) [?f, ?g])) = 3"
    "sum_list (map row_time (concat (map (rows_for S1) [?f, ?g]))) = 13 / 2"
    "length (filter (\<lambda>f. rows_for S1 f \<noteq> []) [?f, ?g]) = 2" by code_simp+
  ultimately show ?thesis using stalls_add_up [of "[?f, ?g]" "[?g, ?f]"] by simp
qed

text \<open>
  \<open>Delays.py\<close> puts up to one hundred readable arguments into its 10 x 10 matrix in row-major order,
  each half of the round trip time it states, and leaves the other entries 0.
\<close>

theorem delays_row_major:
  assumes "length args \<le> 100" and "\<forall>a \<in> set args. \<not> isl (read_delay a)"
  shows "\<exists>m. delays_matrix (prog # folder # simu # args) = Inr m \<and> length m = 10 \<and>
     (\<forall>a < 10. \<forall>b < 10. m ! a ! b =
        (if 10 * a + b < length args then projr (read_delay (args ! (10 * a + b))) else 0))"
  using delays_fold [of args] assms by (simp add: delays_matrix_def filled_def delay_value_def)

theorem delays_row_major_witness:
  "\<exists>m. delays_matrix [''p'', ''f'', ''0'', ''+42.5xxxxxxxxxx''] = Inr m \<and> m ! 0 ! 0 = 85 / 4 \<and> m ! 0 ! 1 = 0"
proof -
  have val: "read_delay ''+42.5xxxxxxxxxx'' = Inr (85 / 4)" by code_simp
  have "\<exists>m. delays_matrix [''p'', ''f'', ''0'', ''+42.5xxxxxxxxxx''] = Inr m \<and> length m = 10 \<and>
     (\<forall>a < 10. \<forall>b < 10. m ! a ! b = (if 10 * a + b < length [''+42.5xxxxxxxxxx'']
        then projr (read_delay ([''+42.5xxxxxxxxxx''] ! (10 * a + b))) else 0))"
    by (rule delays_row_major) (simp_all add: val)
  then show ?thesis using val by fastforce
qed

end
