(* ===== verification/CheckStyle.thy ===== *)
theory CheckStyle
  imports PyString "HOL-Library.Sublist"
begin

text \<open>
  \<^verbatim>\<open>utils/check-style.py\<close>: the classes of a patch, the parser of unified diffs, the removal of
  changes in trailing white space, and the driver that runs uncrustify and compares or replaces the
  files. The programs uncrustify and patch, \<open>difflib.unified_diff\<close> and the file system are parameters.
  A line object is identified by its position in its chunk, because the same object can be both a
  source and a destination line.
\<close>

section \<open>The configuration file\<close>

definition level0 :: "string list" where
  "level0 =
    [''sp_func_proto_paren=Add'', ''sp_func_def_paren=Add'', ''sp_func_call_paren=Add'',
     ''sp_after_semi_for=Ignore'', ''sp_before_sparen=Ignore'', ''sp_before_ellipsis=Remove'',
     ''sp_type_func=Ignore'', ''sp_after_type=Ignore'', ''nl_class_leave_one_liners=True'',
     ''nl_enum_leave_one_liners=True'', ''nl_func_leave_one_liners=True'',
     ''nl_assign_leave_one_liners=True'', ''nl_collapse_empty_body=True'',
     ''nl_getset_leave_one_liners=True'', ''nl_if_leave_one_liners=True'',
     ''nl_fdef_brace=Ignore'', ''# finally, indentation configuration'', ''indent_with_tabs=0'',
     ''indent_namespace=false'', ''indent_columns=2'', ''indent_brace=2'',
     ''indent_case_brace=indent_columns'', ''indent_class=true'', ''indent_class_colon=True'',
     ''indent_switch_case=indent_columns'', ''# alignment'', ''indent_align_assign=False'',
     ''align_left_shift=True'', ''# comment reformating disabled'',
     ''cmt_reflow_mode=1 # do not touch comments at all'',
     ''cmt_indent_multi=False # really, do not touch them'',
     ''disable_processing_cmt= '' @ [CHR 0x22] @ '' *NS_CHECK_STYLE_OFF*'' @ [CHR 0x22],
     ''enable_processing_cmt=  '' @ [CHR 0x22] @ '' *NS_CHECK_STYLE_ON*'' @ [CHR 0x22]]"

definition level1 :: "string list" where
  "level1 =
    [''# extra spaces here and there'', ''sp_brace_typedef=Add'', ''sp_enum_assign=Add'',
     ''sp_before_sparen=Add'', ''sp_after_semi_for=Add'', ''sp_arith=Add'', ''sp_assign=Add'',
     ''sp_compare=Add'', ''sp_func_class_paren=Add'', ''sp_after_type=Add'', ''sp_type_func=Add'',
     ''sp_angle_paren=Add'']"

definition level2 :: "string list" where
  "level2 =
    [''nl_if_brace=Add'', ''nl_brace_else=Add'', ''nl_elseif_brace=Add'', ''nl_else_brace=Add'',
     ''nl_while_brace=Add'', ''nl_do_brace=Add'', ''nl_for_brace=Add'', ''nl_brace_while=Add'',
     ''nl_switch_brace=Add'', ''nl_after_case=True'', ''nl_namespace_brace=ignore'',
     ''nl_after_brace_open=True'', ''nl_class_leave_one_liners=False'',
     ''nl_enum_leave_one_liners=False'', ''nl_func_leave_one_liners=False'',
     ''nl_if_leave_one_liners=False'', ''nl_class_colon=Ignore'', ''nl_before_access_spec=2'',
     ''nl_after_access_spec=0'', ''indent_access_spec=-indent_columns'',
     ''nl_after_semicolon=True'', ''pos_class_colon=Lead'', ''pos_class_comma=Trail'',
     ''indent_constr_colon=true'', ''pos_bool=Lead'', ''nl_class_init_args=Add'',
     ''nl_template_class=Add'', ''nl_class_brace=Add'', ''# does not work very well'',
     ''nl_func_type_name=Ignore'', ''nl_func_scope_name=Ignore'',
     ''nl_func_type_name_class=Ignore'', ''nl_func_proto_type_name=Ignore'',
     ''# function'' @ [CHR 0x5C] @ ''n('', ''nl_func_paren=Remove'', ''nl_fdef_brace=Add'',
     ''nl_struct_brace=Add'', ''nl_enum_brace=Add'', ''nl_union_brace=Add'',
     ''mod_full_brace_do=Add'', ''mod_full_brace_for=Add'', ''mod_full_brace_if=Add'',
     ''mod_full_brace_while=Add'', ''mod_full_brace_for=Add'',
     ''mod_remove_extra_semicolon=True'', ''# max code width'', ''#code_width=128'',
     ''#ls_for_split_full=True'', ''#ls_func_split_full=True'',
     ''nl_cpp_lambda_leave_one_liners=True'']"

text \<open>The text of the temporary file; each part starts with an empty line.\<close>

definition config_text :: "string list \<Rightarrow> string" where
  "config_text ls = concat (map (\<lambda>l. l @ [CHR 0x0A]) ([] # ls))"

definition uncrustify_config_file :: "int \<Rightarrow> string" where
  "uncrustify_config_file level =
     config_text level0 @ (if level \<ge> 1 then config_text level1 else []) @
     (if level \<ge> 2 then config_text level2 else [])"

definition git_modified_files :: "string list \<Rightarrow> string \<Rightarrow> string list" where
  "git_modified_files diff_names root_dir =
     (let files_changed = map strip diff_names;
          files_changed = filter (\<lambda>item. endswith item ''.h'' \<or> endswith item ''.cc'') files_changed
      in map (\<lambda>filename. py_slice_to root_dir (- 1) @ ''/'' @ strip filename) files_changed)"

section \<open>Lines, chunks and patches\<close>

datatype line_type = NoType | SRC | DST | BOTH

record chunk_line =
  line_kind :: line_type
  line_text :: string

definition new_line :: chunk_line where
  "new_line = \<lparr>line_kind = NoType, line_text = []\<rparr>"

definition set_src :: "string \<Rightarrow> chunk_line \<Rightarrow> chunk_line" where
  "set_src s l = l\<lparr>line_kind := SRC, line_text := s\<rparr>"

definition set_dst :: "string \<Rightarrow> chunk_line \<Rightarrow> chunk_line" where
  "set_dst s l = l\<lparr>line_kind := DST, line_text := s\<rparr>"

definition set_both :: "string \<Rightarrow> chunk_line \<Rightarrow> chunk_line" where
  "set_both s l = l\<lparr>line_kind := BOTH, line_text := s\<rparr>"

definition append_to_line :: "string \<Rightarrow> chunk_line \<Rightarrow> chunk_line" where
  "append_to_line s l = l\<lparr>line_text := line_text l @ s\<rparr>"

definition is_src :: "chunk_line \<Rightarrow> bool" where
  "is_src l \<longleftrightarrow> line_kind l = SRC \<or> line_kind l = BOTH"

definition is_dst :: "chunk_line \<Rightarrow> bool" where
  "is_dst l \<longleftrightarrow> line_kind l = DST \<or> line_kind l = BOTH"

definition nl :: string where
  "nl = [CHR 0x0A]"

definition line_write :: "chunk_line \<Rightarrow> string result" where
  "line_write l =
     (case line_kind l of
        SRC \<Rightarrow> Inr (''-'' @ line_text l @ nl)
      | DST \<Rightarrow> Inr (''+'' @ line_text l @ nl)
      | BOTH \<Rightarrow> Inr ('' '' @ line_text l @ nl)
      | NoType \<Rightarrow> Inl PlainException)"

record chunk =
  chunk_lines :: "chunk_line list"
  src_pos :: int
  dst_pos :: int

definition new_chunk :: "string \<Rightarrow> string \<Rightarrow> chunk result" where
  "new_chunk a b = bind_r (py_int a) (\<lambda>s. bind_r (py_int b) (\<lambda>d. Inr \<lparr>chunk_lines = [], src_pos = s, dst_pos = d\<rparr>))"

definition src_start :: "chunk \<Rightarrow> int" where
  "src_start c = src_pos c"

definition add_line :: "chunk_line \<Rightarrow> chunk \<Rightarrow> chunk" where
  "add_line l c = c\<lparr>chunk_lines := chunk_lines c @ [l]\<rparr>"

text \<open>\<open>src()\<close> and \<open>dst()\<close> return the line objects, here their positions.\<close>

definition chunk_src :: "chunk \<Rightarrow> nat list" where
  "chunk_src c = filter (\<lambda>i. is_src (chunk_lines c ! i)) [0..<length (chunk_lines c)]"

definition chunk_dst :: "chunk \<Rightarrow> nat list" where
  "chunk_dst c = filter (\<lambda>i. is_dst (chunk_lines c ! i)) [0..<length (chunk_lines c)]"

definition src_len :: "chunk \<Rightarrow> nat" where
  "src_len c = length (chunk_src c)"

definition dst_len :: "chunk \<Rightarrow> nat" where
  "dst_len c = length (chunk_dst c)"

text \<open>A writer returns the strings it passes to \<open>f.write\<close>, one per line of output.\<close>

definition chunk_write :: "chunk \<Rightarrow> string list result" where
  "chunk_write c =
     bind_r (mapM_r line_write (chunk_lines c)) (\<lambda>ls.
       Inr ((''@@ -'' @ str_of_int (src_pos c) @ '','' @ str_of_nat (src_len c) @ '' +'' @
             str_of_int (dst_pos c) @ '','' @ str_of_nat (dst_len c) @ '' @@'' @ nl) # ls))"

record patch =
  patch_src :: string
  patch_dst :: string
  chunks :: "chunk list"

definition new_patch :: patch where
  "new_patch = \<lparr>patch_src = [], patch_dst = [], chunks = []\<rparr>"

definition add_chunk :: "chunk \<Rightarrow> patch \<Rightarrow> patch" where
  "add_chunk c p = p\<lparr>chunks := chunks p @ [c]\<rparr>"

definition patch_set_src :: "string \<Rightarrow> patch \<Rightarrow> patch" where
  "patch_set_src s p = p\<lparr>patch_src := s\<rparr>"

definition patch_set_dst :: "string \<Rightarrow> patch \<Rightarrow> patch" where
  "patch_set_dst s p = p\<lparr>patch_dst := s\<rparr>"

definition patch_write :: "patch \<Rightarrow> string list result" where
  "patch_write p =
     bind_r (mapM_r chunk_write (chunks p)) (\<lambda>cs.
       Inr ([''--- '' @ patch_src p @ nl, ''+++ '' @ patch_dst p @ nl] @ concat cs))"

section \<open>Parsing a diff\<close>

text \<open>
  \<open>^prefix(.*)$\<close>: the rest of the line without one final newline, which the dollar sign ignores; the
  dot matches no newline.
\<close>

definition re_rest :: "string \<Rightarrow> string \<Rightarrow> string option" where
  "re_rest pre line =
     (if startswith line pre
      then let rest = drop (length pre) line;
               body = (if rest \<noteq> [] \<and> last rest = CHR 0x0A then butlast rest else rest)
           in if CHR 0x0A \<in> set body then None else Some body
      else None)"

definition chunk_start :: "string \<Rightarrow> (string \<times> string) option" where
  "chunk_start line =
     (if startswith line ''@@ -''
      then Option.bind (re_number '','' (drop 4 line)) (\<lambda>(a, s).
           Option.bind (re_number '' +'' s) (\<lambda>(b, s).
           Option.bind (re_number '','' s) (\<lambda>(c, s).
           Option.bind (re_number '' @@'' s) (\<lambda>(d, s). Some (a, c)))))
      else None)"

text \<open>
  The local variables of the loop. \<open>current_patch\<close> is \<open>None\<close> or the last patch of the set;
  \<open>current_chunk\<close> may be unbound, and keeps pointing into an earlier patch until the next chunk starts.
\<close>

record parse_state =
  patchset :: "patch list"
  current_chunk :: "(nat \<times> nat) option"

definition update_last :: "('a \<Rightarrow> 'a) \<Rightarrow> 'a list \<Rightarrow> 'a list" where
  "update_last f xs = xs[length xs - 1 := f (last xs)]"

definition parse_add_line :: "chunk_line \<Rightarrow> parse_state \<Rightarrow> parse_state result" where
  "parse_add_line l st =
     (case current_chunk st of
        None \<Rightarrow> Inl UnboundLocalError
      | Some (p, c) \<Rightarrow>
          let pt = patchset st ! p
          in Inr (st\<lparr>patchset := (patchset st)[p := pt\<lparr>chunks := (chunks pt)[c := add_line l (chunks pt ! c)]\<rparr>]\<rparr>))"

definition parse_line :: "parse_state \<Rightarrow> string \<Rightarrow> parse_state result" where
  "parse_line st line =
     (case re_rest ''--- '' line of
        Some s \<Rightarrow> Inr (st\<lparr>patchset := patchset st @ [patch_set_src s new_patch]\<rparr>)
      | None \<Rightarrow>
      case re_rest ''+++ '' line of
        Some s \<Rightarrow>
          if patchset st = [] then Inl AttributeError
          else Inr (st\<lparr>patchset := update_last (patch_set_dst s) (patchset st)\<rparr>)
      | None \<Rightarrow>
      case chunk_start line of
        Some (a, c) \<Rightarrow>
          bind_r (new_chunk a c) (\<lambda>ch.
            if patchset st = [] then Inl AttributeError
            else Inr (st\<lparr>patchset := update_last (add_chunk ch) (patchset st),
                         current_chunk := Some (length (patchset st) - 1, length (chunks (last (patchset st))))\<rparr>))
      | None \<Rightarrow>
      case re_rest ''-'' line of
        Some s \<Rightarrow> parse_add_line (set_src s new_line) st
      | None \<Rightarrow>
      case re_rest ''+'' line of
        Some s \<Rightarrow> parse_add_line (set_dst s new_line) st
      | None \<Rightarrow>
      case re_rest '' '' line of
        Some s \<Rightarrow> parse_add_line (set_both s new_line) st
      | None \<Rightarrow> Inl PlainException)"

definition parse_patchset :: "string list \<Rightarrow> patch list result" where
  "parse_patchset generator =
     bind_r (foldM_r parse_line \<lparr>patchset = [], current_chunk = None\<rparr> generator) (\<lambda>st. Inr (patchset st))"

section \<open>Trailing white space\<close>

text \<open>
  \<open>^(.*)([ \t]+)$\<close> on a line without newlines: the greedy first group leaves one character to the second.
\<close>

definition whitespace :: "string \<Rightarrow> (string \<times> string) option" where
  "whitespace s =
     (if s \<noteq> [] \<and> last s \<in> {CHR '' '', CHR 0x09} then Some (butlast s, [last s]) else None)"

text \<open>
  The loop over one chunk. A missing destination line raises IndexError, which ends the whole function
  with the lines changed so far.
\<close>

fun rtw_chunk :: "chunk_line list \<Rightarrow> nat list \<Rightarrow> nat list \<Rightarrow> chunk_line list \<times> bool" where
  "rtw_chunk ls (s # src) (d # dst) =
     (case whitespace (line_text (ls ! s)) of
        Some (g1, g2) \<Rightarrow>
          if g1 = line_text (ls ! d) then rtw_chunk (ls[d := append_to_line g2 (ls ! d)]) src dst
          else rtw_chunk ls src dst
      | None \<Rightarrow> rtw_chunk ls src dst)"
| "rtw_chunk ls (s # src) [] = (ls, False)"
| "rtw_chunk ls [] dst = (ls, True)"

fun rtw_chunks :: "chunk list \<Rightarrow> chunk list \<times> bool" where
  "rtw_chunks [] = ([], True)"
| "rtw_chunks (c # cs) =
     (let (ls, ok) = rtw_chunk (chunk_lines c) (chunk_src c) (chunk_dst c); c' = c\<lparr>chunk_lines := ls\<rparr>
      in if ok then (let (cs', ok') = rtw_chunks cs in (c' # cs', ok')) else (c' # cs, False))"

fun rtw_patches :: "patch list \<Rightarrow> patch list" where
  "rtw_patches [] = []"
| "rtw_patches (p # ps) =
     (let (cs, ok) = rtw_chunks (chunks p); p' = p\<lparr>chunks := cs\<rparr>
      in if ok then p' # rtw_patches ps else p' # ps)"

definition remove_trailing_whitespace_changes :: "string list \<Rightarrow> patch list result" where
  "remove_trailing_whitespace_changes patch_generator =
     bind_r (parse_patchset patch_generator) (\<lambda>ps. Inr (rtw_patches ps))"

section \<open>Indenting files\<close>

text \<open>
  The programs the driver runs: uncrustify on a configuration and a file (\<open>None\<close> when it is not
  installed), the unified diff of two files, and patch.
\<close>

record tools =
  uncrustify :: "string \<Rightarrow> string list \<Rightarrow> string list option"
  unified_diff :: "string list \<Rightarrow> string list \<Rightarrow> string list"
  apply_patch :: "string list \<Rightarrow> string list \<Rightarrow> string list"

text \<open>The diff is a generator: writing it to the debug file uses it up.\<close>

definition indent :: "tools \<Rightarrow> string list \<Rightarrow> bool \<Rightarrow> int \<Rightarrow> string list result" where
  "indent tls source debug level =
     (case uncrustify tls (uncrustify_config_file level) source of
        None \<Rightarrow> Inl PlainException
      | Some out \<Rightarrow>
          let diff = unified_diff tls source out;
              diff = (if debug then [] else diff)
          in if level < 3
             then bind_r (remove_trailing_whitespace_changes diff) (\<lambda>ps.
                  bind_r (if ps \<noteq> [] then patch_write (hd ps) else Inr []) (\<lambda>final_diff.
                  Inr (apply_patch tls final_diff source)))
             else Inr (apply_patch tls diff source))"

text \<open>The files are a dictionary from names to lines; the result is the answer, the files and the output.\<close>

definition indent_files :: "tools \<Rightarrow> (string, string list) dict \<Rightarrow> string list \<Rightarrow> bool \<Rightarrow> bool \<Rightarrow> int \<Rightarrow> bool \<Rightarrow>
    (bool \<times> (string, string list) dict \<times> string list) result" where
  "indent_files tls fs files diff debug level inplace =
     bind_r (mapM_r (\<lambda>f. bind_r (d_getitem fs f) (\<lambda>src. bind_r (indent tls src debug level) (\<lambda>dst. Inr (f, dst)))) files)
       (\<lambda>output.
          if inplace then Inr (True, foldl (\<lambda>fs (src, dst). AList.update src dst fs) fs output, [])
          else
            let failed = filter (\<lambda>(src, dst). map_of fs src \<noteq> Some dst) output
            in if failed \<noteq> []
               then Inr (False, fs,
                 if \<not> diff then (''Found '' @ str_of_nat (length failed) @ '' badly indented files:'') #
                      map (\<lambda>(src, dst). ''  '' @ src) failed
                 else concat (map (\<lambda>(src, dst). unified_diff tls (case map_of fs src of None \<Rightarrow> [] | Some s \<Rightarrow> s) dst) failed))
               else Inr (True, fs, []))"

record cs_options =
  opt_debug :: bool
  opt_level :: int
  opt_git :: bool
  opt_file :: string
  opt_diff :: bool
  opt_in_place :: bool

text \<open>The exit status and the files after the run; an exception ends with status 1.\<close>

definition run_as_main :: "tools \<Rightarrow> (string, string list) dict \<Rightarrow> string list \<Rightarrow> string \<Rightarrow> cs_options \<Rightarrow>
    int \<times> (string, string list) dict" where
  "run_as_main tls fs diff_names root_dir opts =
     (let check = (\<lambda>files. case indent_files tls fs files (opt_diff opts) (opt_debug opts) (opt_level opts) (opt_in_place opts) of
                     Inl e \<Rightarrow> (1, fs)
                   | Inr (ok, fs', out) \<Rightarrow> (if \<not> ok then 1 else 0, fs'))
      in if opt_git opts then check (git_modified_files diff_names root_dir)
         else if opt_file opts \<noteq> []
         then (if opt_file opts \<notin> set (d_keys fs) then (1, fs) else check [opt_file opts])
         else (1, fs))"

section \<open>Writing and parsing\<close>

definition line_wf :: "chunk_line \<Rightarrow> bool" where
  "line_wf l \<longleftrightarrow> line_kind l \<noteq> NoType \<and> CHR 0x0A \<notin> set (line_text l) \<and>
     (line_kind l = SRC \<longrightarrow> \<not> startswith (line_text l) ''-- '') \<and>
     (line_kind l = DST \<longrightarrow> \<not> startswith (line_text l) ''++ '')"

definition chunk_wf :: "chunk \<Rightarrow> bool" where
  "chunk_wf c \<longleftrightarrow> 0 \<le> src_pos c \<and> 0 \<le> dst_pos c \<and> list_all line_wf (chunk_lines c)"

definition patch_wf :: "patch \<Rightarrow> bool" where
  "patch_wf p \<longleftrightarrow> CHR 0x0A \<notin> set (patch_src p) \<and> CHR 0x0A \<notin> set (patch_dst p) \<and> list_all chunk_wf (chunks p)"

definition written :: "chunk_line \<Rightarrow> string" where
  "written l = (case line_kind l of SRC \<Rightarrow> ''-'' | DST \<Rightarrow> ''+'' | _ \<Rightarrow> '' '') @ line_text l @ nl"

definition header :: "chunk \<Rightarrow> string" where
  "header c = ''@@ -'' @ str_of_int (src_pos c) @ '','' @ str_of_nat (src_len c) @ '' +'' @
     str_of_int (dst_pos c) @ '','' @ str_of_nat (dst_len c) @ '' @@'' @ nl"

lemma line_write_eq: "line_wf l \<Longrightarrow> line_write l = Inr (written l)"
  by (cases "line_kind l") (auto simp: line_wf_def line_write_def written_def)

lemma chunk_write_eq: "chunk_wf c \<Longrightarrow> chunk_write c = Inr (header c # map written (chunk_lines c))"
  by (auto simp: chunk_write_def header_def chunk_wf_def list_all_iff line_write_eq
      mapM_r_total [where g = written])

lemma patch_write_eq:
  "patch_wf p \<Longrightarrow> patch_write p = Inr ((''--- '' @ patch_src p @ nl) # (''+++ '' @ patch_dst p @ nl) #
     concat (map (\<lambda>c. header c # map written (chunk_lines c)) (chunks p)))"
  by (simp add: patch_write_def patch_wf_def list_all_iff chunk_write_eq
      mapM_r_total [where g = "\<lambda>c. header c # map written (chunk_lines c)"])

lemma re_rest_line [simp]: "CHR 0x0A \<notin> set s \<Longrightarrow> re_rest p (p @ s @ nl) = Some s"
  by (auto simp: re_rest_def nl_def)

lemma re_rest_no: "\<not> startswith line p \<Longrightarrow> re_rest p line = None"
  by (simp add: re_rest_def)

lemma chunk_start_header:
  assumes "0 \<le> src_pos c" and "0 \<le> dst_pos c"
  shows "chunk_start (header c) = Some (str_of_int (src_pos c), str_of_int (dst_pos c))"
proof -
  have "str_of_int (src_pos c) = str_of_nat (nat (src_pos c))" "str_of_int (dst_pos c) = str_of_nat (nat (dst_pos c))"
    using assms by (simp_all add: str_of_int_def)
  then show ?thesis
    using re_number_str [of "'',''" ] re_number_str [of "'' +''"] re_number_str [of "'' @@''"] not_digits
    by (simp add: chunk_start_def header_def)
qed

lemma parse_header:
  assumes "chunk_wf c" and "ps \<noteq> []"
  shows "parse_line \<lparr>patchset = ps, current_chunk = cc\<rparr> (header c) =
    Inr \<lparr>patchset = update_last (add_chunk (c\<lparr>chunk_lines := []\<rparr>)) ps,
         current_chunk = Some (length ps - 1, length (chunks (last ps)))\<rparr>"
proof -
  have "re_rest ''--- '' (header c) = None" "re_rest ''+++ '' (header c) = None"
    by (simp_all add: header_def re_rest_no)
  moreover have "new_chunk (str_of_int (src_pos c)) (str_of_int (dst_pos c)) = Inr (c\<lparr>chunk_lines := []\<rparr>)"
    by (simp add: new_chunk_def)
  ultimately show ?thesis using assms by (simp add: parse_line_def chunk_start_header chunk_wf_def)
qed

lemma chunk_start_no: "x \<noteq> CHR ''@'' \<Longrightarrow> chunk_start (x # s) = None"
  by (simp add: chunk_start_def)

lemma startswith_nl:
  "CHR 0x0A \<notin> set p \<Longrightarrow> startswith (s @ nl) p \<longleftrightarrow> startswith s p"
proof (induction p arbitrary: s)
  case Nil
  show ?case by simp
next
  case (Cons c p)
  then show ?case by (cases s) (auto simp: nl_def)
qed

lemma parse_written:
  assumes "line_wf l"
  shows "parse_line st (written l) = parse_add_line l st"
proof -
  have l: "l = \<lparr>line_kind = line_kind l, line_text = line_text l\<rparr>" by simp
  have sw: "startswith (line_text l @ nl) ''-- '' = startswith (line_text l) ''-- ''"
    "startswith (line_text l @ nl) ''++ '' = startswith (line_text l) ''++ ''" by (simp_all add: startswith_nl)
  have t: "CHR 0x0A \<notin> set (line_text l)" using assms by (simp add: line_wf_def)
  show ?thesis
  proof (cases "line_kind l")
    case NoType
    with assms show ?thesis by (simp add: line_wf_def)
  next
    case SRC
    with assms have "written l = ''-'' @ line_text l @ nl" "\<not> startswith (line_text l) ''-- ''"
      by (simp_all add: written_def line_wf_def)
    moreover have "set_src (line_text l) new_line = l" using SRC l by (simp add: set_src_def new_line_def)
    ultimately show ?thesis using re_rest_line [OF t, of "''-''"]
      by (simp add: parse_line_def re_rest_no chunk_start_no sw)
  next
    case DST
    with assms have "written l = ''+'' @ line_text l @ nl" "\<not> startswith (line_text l) ''++ ''"
      by (simp_all add: written_def line_wf_def)
    moreover have "set_dst (line_text l) new_line = l" using DST l by (simp add: set_dst_def new_line_def)
    ultimately show ?thesis using re_rest_line [OF t, of "''+''"]
      by (simp add: parse_line_def re_rest_no chunk_start_no sw)
  next
    case BOTH
    then have "written l = '' '' @ line_text l @ nl" by (simp add: written_def)
    moreover have "set_both (line_text l) new_line = l" using BOTH l by (simp add: set_both_def new_line_def)
    ultimately show ?thesis using re_rest_line [OF t, of "'' ''"]
      by (simp add: parse_line_def re_rest_no chunk_start_no)
  qed
qed

lemma update_last_snoc [simp]: "update_last f (xs @ [x]) = xs @ [f x]"
  by (simp add: update_last_def)

lemma parse_body:
  assumes "list_all line_wf ls" and "chunks p = cs @ [c]"
  shows "foldM_r parse_line \<lparr>patchset = ps @ [p], current_chunk = Some (length ps, length cs)\<rparr> (map written ls) =
    Inr \<lparr>patchset = ps @ [p\<lparr>chunks := cs @ [c\<lparr>chunk_lines := chunk_lines c @ ls\<rparr>]\<rparr>],
         current_chunk = Some (length ps, length cs)\<rparr>"
  using assms
proof (induction ls arbitrary: p c)
  case Nil
  then show ?case by simp
next
  case (Cons l ls)
  let ?c = "add_line l c" and ?p = "p\<lparr>chunks := cs @ [add_line l c]\<rparr>"
  have "parse_line \<lparr>patchset = ps @ [p], current_chunk = Some (length ps, length cs)\<rparr> (written l) =
      Inr \<lparr>patchset = ps @ [?p], current_chunk = Some (length ps, length cs)\<rparr>"
    using Cons.prems by (simp add: parse_written parse_add_line_def Let_def)
  moreover have "list_all line_wf ls" "chunks ?p = cs @ [?c]" using Cons.prems(1) by simp_all
  note Cons.IH [OF this]
  ultimately show ?case by (simp add: add_line_def)
qed

lemma parse_chunks:
  assumes "list_all chunk_wf cs"
  shows "\<exists>cc'. foldM_r parse_line \<lparr>patchset = ps @ [p], current_chunk = cc\<rparr>
      (concat (map (\<lambda>c. header c # map written (chunk_lines c)) cs)) =
    Inr \<lparr>patchset = ps @ [p\<lparr>chunks := chunks p @ cs\<rparr>], current_chunk = cc'\<rparr>"
  using assms
proof (induction cs arbitrary: p cc)
  case Nil
  show ?case by simp
next
  case (Cons c cs)
  let ?e = "c\<lparr>chunk_lines := []\<rparr>" and ?cc = "Some (length ps, length (chunks p))"
  let ?p = "add_chunk ?e p" and ?p' = "p\<lparr>chunks := chunks p @ [c]\<rparr>"
  have wf: "chunk_wf c" "list_all line_wf (chunk_lines c)" "list_all chunk_wf cs"
    using Cons.prems by (simp, simp add: chunk_wf_def, simp)
  have "parse_line \<lparr>patchset = ps @ [p], current_chunk = cc\<rparr> (header c) =
      Inr \<lparr>patchset = ps @ [?p], current_chunk = ?cc\<rparr>"
    using parse_header [OF wf(1), of "ps @ [p]" cc] by simp
  moreover have "foldM_r parse_line \<lparr>patchset = ps @ [?p], current_chunk = ?cc\<rparr> (map written (chunk_lines c)) =
      Inr \<lparr>patchset = ps @ [?p'], current_chunk = ?cc\<rparr>"
    using parse_body [OF wf(2), of ?p "chunks p" ?e ps] by (simp add: add_chunk_def)
  ultimately show ?case using Cons.IH [OF wf(3), of ?p' ?cc] by (simp add: foldM_r_append)
qed

lemma parse_patch:
  assumes "patch_wf p"
  shows "\<exists>ls. patch_write p = Inr ls \<and> parse_patchset ls = Inr [p]"
proof -
  let ?p = "\<lparr>patch_src = patch_src p, patch_dst = patch_dst p, chunks = []\<rparr>"
  have src: "re_rest ''--- '' (''--- '' @ patch_src p @ nl) = Some (patch_src p)"
    and dst: "re_rest ''+++ '' (''+++ '' @ patch_dst p @ nl) = Some (patch_dst p)"
    by (rule re_rest_line, use assms in \<open>simp add: patch_wf_def\<close>)+
  have no: "re_rest ''--- '' (''+++ '' @ patch_dst p @ nl) = None" by (simp add: re_rest_no)
  have 1: "parse_line \<lparr>patchset = [], current_chunk = None\<rparr> (''--- '' @ patch_src p @ nl) =
      Inr \<lparr>patchset = [patch_set_src (patch_src p) new_patch], current_chunk = None\<rparr>"
    unfolding parse_line_def src by simp
  have 2: "parse_line \<lparr>patchset = [patch_set_src (patch_src p) new_patch], current_chunk = None\<rparr> (''+++ '' @ patch_dst p @ nl) =
      Inr \<lparr>patchset = [?p], current_chunk = None\<rparr>"
    unfolding parse_line_def no dst by (simp add: update_last_def patch_set_src_def patch_set_dst_def new_patch_def)
  have "list_all chunk_wf (chunks p)" using assms by (simp add: patch_wf_def)
  from parse_chunks [OF this, of "[]" ?p None] obtain cc where
    "foldM_r parse_line \<lparr>patchset = [?p], current_chunk = None\<rparr>
      (concat (map (\<lambda>c. header c # map written (chunk_lines c)) (chunks p))) = Inr \<lparr>patchset = [p], current_chunk = cc\<rparr>"
    by auto
  with 1 2 show ?thesis unfolding patch_write_eq [OF assms] parse_patchset_def by simp
qed

section \<open>Removing changes in trailing white space\<close>

text \<open>What one step does to a destination line, given the source line it is paired with.\<close>

definition keep_blank :: "string \<Rightarrow> string \<Rightarrow> string" where
  "keep_blank s d = (if s \<noteq> [] \<and> last s \<in> {CHR '' '', CHR 0x09} \<and> butlast s = d then s else d)"

lemma rtw_chunk_step:
  "rtw_chunk ls (s # src) (d # dst) =
   rtw_chunk (ls[d := (ls ! d)\<lparr>line_text := keep_blank (line_text (ls ! s)) (line_text (ls ! d))\<rparr>]) src dst"
proof (cases "line_text (ls ! s) \<noteq> [] \<and> last (line_text (ls ! s)) \<in> {CHR '' '', CHR 0x09} \<and>
    butlast (line_text (ls ! s)) = line_text (ls ! d)")
  case True
  then have "line_text (ls ! d) @ [last (line_text (ls ! s))] = line_text (ls ! s)" by (metis append_butlast_last_id)
  with True show ?thesis by (simp add: whitespace_def keep_blank_def append_to_line_def)
next
  case False
  then show ?thesis by (auto simp: whitespace_def keep_blank_def)
qed

text \<open>A pairing in which a line that is both source and destination is only paired with itself.\<close>

definition paired :: "nat list \<Rightarrow> nat list \<Rightarrow> bool" where
  "paired src dst \<longleftrightarrow> length src = length dst \<and> distinct dst \<and>
     (\<forall>i < length src. \<forall>j < length dst. src ! i = dst ! j \<longrightarrow> i = j)"

lemma paired_Cons:
  assumes "paired (s # src) (d # dst)"
  shows "paired src dst" and "d \<notin> set src" and "d \<notin> set dst"
proof -
  have p: "src ! i = dst ! j \<Longrightarrow> i = j" if "i < length src" "j < length dst" for i j
  proof -
    from assms have "\<forall>i < length (s # src). \<forall>j < length (d # dst). (s # src) ! i = (d # dst) ! j \<longrightarrow> i = j"
      by (simp add: paired_def)
    from this [rule_format, of "Suc i" "Suc j"] that show "src ! i = dst ! j \<Longrightarrow> i = j" by simp
  qed
  show "paired src dst" using assms p by (simp add: paired_def)
  show "d \<notin> set dst" using assms by (simp add: paired_def)
  show "d \<notin> set src"
  proof
    assume "d \<in> set src"
    then obtain i where i: "i < length src" "src ! i = d" by (metis in_set_conv_nth)
    from assms have "\<forall>i < length (s # src). \<forall>j < length (d # dst). (s # src) ! i = (d # dst) ! j \<longrightarrow> i = j"
      by (simp add: paired_def)
    from this [rule_format, of "Suc i" 0] i show False by simp
  qed
qed

lemma rtw_chunk_paired:
  assumes "paired src dst" and "\<And>d. d \<in> set dst \<Longrightarrow> d < length ls"
  shows "snd (rtw_chunk ls src dst) \<and> length (fst (rtw_chunk ls src dst)) = length ls \<and>
    (\<forall>i < length dst. fst (rtw_chunk ls src dst) ! (dst ! i) =
       (ls ! (dst ! i))\<lparr>line_text := keep_blank (line_text (ls ! (src ! i))) (line_text (ls ! (dst ! i)))\<rparr>) \<and>
    (\<forall>k. k \<notin> set dst \<longrightarrow> fst (rtw_chunk ls src dst) ! k = ls ! k)"
  using assms
proof (induction src arbitrary: dst ls)
  case Nil
  then show ?case by (simp add: paired_def)
next
  case (Cons s src)
  from Cons.prems(1) obtain d dst' where dst: "dst = d # dst'" by (cases dst) (auto simp: paired_def)
  note p = paired_Cons [OF Cons.prems(1) [unfolded dst]]
  let ?ls = "ls[d := (ls ! d)\<lparr>line_text := keep_blank (line_text (ls ! s)) (line_text (ls ! d))\<rparr>]"
  have "d < length ls" using Cons.prems(2) dst by simp
  have IH: "snd (rtw_chunk ?ls src dst') \<and> length (fst (rtw_chunk ?ls src dst')) = length ?ls \<and>
    (\<forall>i < length dst'. fst (rtw_chunk ?ls src dst') ! (dst' ! i) =
       (?ls ! (dst' ! i))\<lparr>line_text := keep_blank (line_text (?ls ! (src ! i))) (line_text (?ls ! (dst' ! i)))\<rparr>) \<and>
    (\<forall>k. k \<notin> set dst' \<longrightarrow> fst (rtw_chunk ?ls src dst') ! k = ?ls ! k)"
    using Cons.prems(2) dst by (intro Cons.IH p) auto
  have len: "length src = length dst'" using p(1) by (simp add: paired_def)
  have ne: "d \<noteq> dst' ! i" "d \<noteq> src ! i" if "i < length dst'" for i
    using p(2,3) that len by (metis nth_mem)+
  show ?case unfolding dst rtw_chunk_step
    using IH ne p(3) \<open>d < length ls\<close> by (auto simp: nth_Cons split: nat.splits)
qed

lemma chunk_dst_bound: "d \<in> set (chunk_dst c) \<Longrightarrow> d < length (chunk_lines c)"
  by (simp add: chunk_dst_def)

text \<open>A chunk without deletions or insertions that shift its context lines.\<close>

definition chunk_aligned :: "chunk \<Rightarrow> bool" where
  "chunk_aligned c \<longleftrightarrow> paired (chunk_src c) (chunk_dst c)"

text \<open>The chunk in which every destination line keeps the final blank of its source line.\<close>

definition blanks_kept :: "chunk \<Rightarrow> chunk \<Rightarrow> bool" where
  "blanks_kept c c' \<longleftrightarrow> src_pos c' = src_pos c \<and> dst_pos c' = dst_pos c \<and>
     length (chunk_lines c') = length (chunk_lines c) \<and>
     (\<forall>i < length (chunk_dst c). chunk_lines c' ! (chunk_dst c ! i) =
        (chunk_lines c ! (chunk_dst c ! i))\<lparr>line_text :=
           keep_blank (line_text (chunk_lines c ! (chunk_src c ! i))) (line_text (chunk_lines c ! (chunk_dst c ! i)))\<rparr>) \<and>
     (\<forall>k < length (chunk_lines c). k \<notin> set (chunk_dst c) \<longrightarrow> chunk_lines c' ! k = chunk_lines c ! k)"

lemma rtw_chunks_aligned:
  "list_all chunk_aligned cs \<Longrightarrow> snd (rtw_chunks cs) \<and> list_all2 blanks_kept cs (fst (rtw_chunks cs))"
proof (induction cs)
  case Nil
  show ?case by simp
next
  case (Cons c cs)
  let ?r = "rtw_chunk (chunk_lines c) (chunk_src c) (chunk_dst c)"
  have "paired (chunk_src c) (chunk_dst c)" using Cons.prems by (simp add: chunk_aligned_def)
  from rtw_chunk_paired [OF this chunk_dst_bound] have r: "snd ?r" "blanks_kept c (c\<lparr>chunk_lines := fst ?r\<rparr>)"
    by (simp_all add: blanks_kept_def)
  with Cons show ?case by (auto simp: Let_def split: prod.splits)
qed

lemma rtw_patches_aligned:
  "list_all (\<lambda>p. list_all chunk_aligned (chunks p)) ps \<Longrightarrow>
   list_all2 (\<lambda>p p'. patch_src p' = patch_src p \<and> patch_dst p' = patch_dst p \<and>
      list_all2 blanks_kept (chunks p) (chunks p')) ps (rtw_patches ps)"
proof (induction ps)
  case Nil
  show ?case by simp
next
  case (Cons p ps)
  with rtw_chunks_aligned [of "chunks p"] show ?case by (auto simp: Let_def split: prod.splits)
qed

text \<open>
  difflib writes the range of a single line without its length, which the regular expression for the
  start of a chunk does not accept.
\<close>

lemma single_line_hunk:
  "parse_patchset (map (\<lambda>l. l @ nl) [''--- a'', ''+++ b'', ''@@ -1 +1 @@'', ''-x'', ''+y'']) = Inl PlainException"
  by code_simp

section \<open>Properties\<close>

text \<open>
  C19: \<open>parse_patchset\<close> reads back what \<open>Patch.write\<close> writes: for a patch whose lines have a type and no
  newline, with removed lines that do not begin with two dashes and a blank and added lines that do not
  begin with two plus signs and a blank, writing succeeds and parsing the result gives the same patch.
\<close>

theorem patch_roundtrip:
  assumes "patch_wf p"
  shows "\<exists>ls. patch_write p = Inr ls \<and> parse_patchset ls = Inr [p]"
  using assms by (rule parse_patch)

theorem patch_roundtrip_witness:
  "\<exists>ls. patch_write \<lparr>patch_src = ''a.cc'', patch_dst = ''b.cc'', chunks = [\<lparr>chunk_lines =
       [\<lparr>line_kind = BOTH, line_text = ''{''\<rparr>, \<lparr>line_kind = SRC, line_text = ''x=1;''\<rparr>, \<lparr>line_kind = DST, line_text = ''x = 1;''\<rparr>],
       src_pos = 1, dst_pos = 1\<rparr>]\<rparr> = Inr ls \<and>
     parse_patchset ls = Inr [\<lparr>patch_src = ''a.cc'', patch_dst = ''b.cc'', chunks = [\<lparr>chunk_lines =
       [\<lparr>line_kind = BOTH, line_text = ''{''\<rparr>, \<lparr>line_kind = SRC, line_text = ''x=1;''\<rparr>, \<lparr>line_kind = DST, line_text = ''x = 1;''\<rparr>],
       src_pos = 1, dst_pos = 1\<rparr>]\<rparr>]"
  by (rule patch_roundtrip) code_simp

text \<open>
  C20: \<open>remove_trailing_whitespace_changes\<close> on chunks that replace lines one for one: every destination
  line that is its source line without one final blank or tab becomes the source line again, every
  other line and all positions stay as they are.
\<close>

theorem trailing_blank_restored:
  assumes "parse_patchset diff = Inr ps" and "\<forall>p \<in> set ps. \<forall>c \<in> set (chunks p). chunk_aligned c"
  shows "\<exists>ps'. remove_trailing_whitespace_changes diff = Inr ps' \<and>
     list_all2 (\<lambda>p p'. patch_src p' = patch_src p \<and> patch_dst p' = patch_dst p \<and>
       list_all2 blanks_kept (chunks p) (chunks p')) ps ps'"
  using rtw_patches_aligned [of ps] assms by (auto simp: remove_trailing_whitespace_changes_def list_all_iff)

theorem trailing_blank_restored_witness:
  "\<exists>ps'. remove_trailing_whitespace_changes (map (\<lambda>l. l @ nl) [''--- a'', ''+++ b'', ''@@ -1,2 +1,2 @@'', ''-x '', ''+x'', '' y'']) = Inr ps' \<and>
     list_all2 (\<lambda>p p'. patch_src p' = patch_src p \<and> patch_dst p' = patch_dst p \<and>
       list_all2 blanks_kept (chunks p) (chunks p'))
       [\<lparr>patch_src = ''a'', patch_dst = ''b'', chunks = [\<lparr>chunk_lines = [\<lparr>line_kind = SRC, line_text = ''x ''\<rparr>,
          \<lparr>line_kind = DST, line_text = ''x''\<rparr>, \<lparr>line_kind = BOTH, line_text = ''y''\<rparr>], src_pos = 1, dst_pos = 1\<rparr>]\<rparr>] ps'"
  by (rule trailing_blank_restored) code_simp+

text \<open>
  Two defects of the treatment of trailing white space, on diffs that difflib produces. A source line
  with two final blanks is left alone, because the greedy first group of the regular expression keeps all
  but one of them. And a deleted line that equals the following context line up to a final blank is
  paired with that context line, which gets the blank and no longer matches the source file.
\<close>

theorem trailing_blank_defects:
  "remove_trailing_whitespace_changes (map (\<lambda>l. l @ nl) [''--- a'', ''+++ b'', ''@@ -1,2 +1,2 @@'', ''-x  '', ''+x'', '' y'']) =
     parse_patchset (map (\<lambda>l. l @ nl) [''--- a'', ''+++ b'', ''@@ -1,2 +1,2 @@'', ''-x  '', ''+x'', '' y'']) \<and>
   bind_r (remove_trailing_whitespace_changes (map (\<lambda>l. l @ nl) [''--- a'', ''+++ b'', ''@@ -1,3 +1,2 @@'', ''-} '', '' }'', '' y'']))
     (\<lambda>ps. patch_write (hd ps)) =
     Inr (map (\<lambda>l. l @ nl) [''--- a'', ''+++ b'', ''@@ -1,3 +1,2 @@'', ''-} '', '' } '', '' y''])"
  by (intro conjI; code_simp)

text \<open>
  With \<open>--debug\<close> the driver applies nothing. Writing the diff to the debug file uses up the
  generator, so the patch is empty, and with a patch program that leaves a file alone on an empty patch
  every file counts as correctly indented, whatever uncrustify says.
\<close>

theorem debug_applies_nothing:
  assumes "\<And>cfg src. uncrustify tls cfg src \<noteq> None" and "\<And>src. apply_patch tls [] src = src"
    and "\<forall>f \<in> set files. f \<in> set (d_keys fs)"
  shows "indent_files tls fs files diff True level False = Inr (True, fs, [])"
proof -
  have ind: "indent tls src True level = Inr src" for src
    using assms(1) [of "uncrustify_config_file level" src] assms(2)
    by (auto simp: indent_def remove_trailing_whitespace_changes_def parse_patchset_def)
  have "mapM_r (\<lambda>f. bind_r (d_getitem fs f) (\<lambda>src. bind_r (indent tls src True level) (\<lambda>dst. Inr (f, dst)))) files =
      Inr (map (\<lambda>f. (f, the (map_of fs f))) files)"
  proof (rule mapM_r_total)
    fix f assume "f \<in> set files"
    with assms(3) obtain src where "map_of fs f = Some src"
      by (metis map_of_eq_None_iff list.set_map not_None_eq)
    then show "bind_r (d_getitem fs f) (\<lambda>src. bind_r (indent tls src True level) (\<lambda>dst. Inr (f, dst))) =
        Inr (f, the (map_of fs f))" by (simp add: d_getitem_def ind)
  qed
  moreover have "filter (\<lambda>(src, dst). map_of fs src \<noteq> Some dst) (map (\<lambda>f. (f, the (map_of fs f))) files) = []"
  proof -
    have "map_of fs f = Some (the (map_of fs f))" if "f \<in> set files" for f
      using assms(3) that by (metis map_of_eq_None_iff list.set_map option.collapse)
    then show ?thesis by (auto simp: filter_empty_conv)
  qed
  ultimately show ?thesis by (simp add: indent_files_def)
qed

theorem debug_applies_nothing_witness:
  "indent_files \<lparr>uncrustify = (\<lambda>cfg src. Some []), unified_diff = (\<lambda>a b. map (\<lambda>l. ''-'' @ l) a),
     apply_patch = (\<lambda>d src. if d = [] then src else [])\<rparr> [(''a.cc'', [''int x;''])] [''a.cc''] False True 0 False =
   Inr (True, [(''a.cc'', [''int x;''])], [])"
  by (rule debug_applies_nothing) simp_all

end
