(* ===== verification/GridData.thy ===== *)
theory GridData
  imports PyString
begin

text \<open>
  The data of \<^verbatim>\<open>utils/grid.py\<close>: ranges and events of timelines with their binary searches, the
  colours, and \<open>read_data\<close>. The program imports PyGTK and calls \<open>has_key\<close> and \<open>sort(cmp)\<close>, so its
  semantics is that of Python 2; in particular \<open>/\<close> on integers rounds down.
\<close>

section \<open>Ranges and events\<close>

record data_range =
  range_start :: int
  range_end :: int
  range_value :: string

record 'v event =
  event_at :: int
  event_value :: 'v

definition cmp_int :: "int \<Rightarrow> int" where
  "cmp_int diff = (if diff < 0 then - 1 else if diff > 0 then 1 else 0)"

definition ranges_cmp :: "data_range \<Rightarrow> data_range \<Rightarrow> int" where
  "ranges_cmp a b = cmp_int (range_start a - range_start b)"

definition events_cmp :: "'v event \<Rightarrow> 'v event \<Rightarrow> int" where
  "events_cmp a b = cmp_int (event_at a - event_at b)"

record timeline_data_range =
  tdr_name :: string
  tdr_ranges :: "data_range list"

text \<open>
  The binary search; \<open>l\<close> and \<open>u\<close> stay inside the list while \<open>l <= u\<close>. The times of the data are
  integers; the key is an end of the window shown, which may be a float.
\<close>

function range_search :: "data_range list \<Rightarrow> rat \<Rightarrow> int \<Rightarrow> int \<Rightarrow> int" where
  "range_search ranges key l u =
     (if l \<le> u
      then let i = (l + u) div 2; r = ranges ! nat i
           in if key \<ge> of_int (range_start r) \<and> key \<le> of_int (range_end r) then i
              else if key < of_int (range_start r) then range_search ranges key l (i - 1)
              else range_search ranges key (i + 1) u
      else - 1)"
  by pat_completeness auto
termination
  by (relation "measure (\<lambda>(ranges, key, l, u). nat (u - l + 1))") auto

declare range_search.simps [simp del]

definition tdr_search :: "timeline_data_range \<Rightarrow> rat \<Rightarrow> int" where
  "tdr_search t key = range_search (tdr_ranges t) key 0 (int (length (tdr_ranges t)) - 1)"

definition new_tdr :: "string \<Rightarrow> timeline_data_range" where
  "new_tdr name = \<lparr>tdr_name = name, tdr_ranges = []\<rparr>"

definition add_range :: "data_range \<Rightarrow> timeline_data_range \<Rightarrow> timeline_data_range" where
  "add_range r t = t\<lparr>tdr_ranges := tdr_ranges t @ [r]\<rparr>"

definition get_ranges_bounds :: "timeline_data_range \<Rightarrow> rat \<Rightarrow> rat \<Rightarrow> int \<times> int" where
  "get_ranges_bounds t start stop =
     (let s = tdr_search t start; e = tdr_search t stop
      in if s = - 1 \<and> e = - 1 then (0, 0)
         else if s = - 1 then (0, e + 1)
         else if e = - 1 then (s, int (length (tdr_ranges t)))
         else (s, e + 1))"

definition get_ranges :: "timeline_data_range \<Rightarrow> rat \<Rightarrow> rat \<Rightarrow> data_range list" where
  "get_ranges t start stop =
     (let s = tdr_search t start; e = tdr_search t stop
      in if s = - 1 \<and> e = - 1 then []
         else if s = - 1 then py_slice (tdr_ranges t) 0 (e + 1)
         else if e = - 1 then py_slice (tdr_ranges t) s (int (length (tdr_ranges t)))
         else py_slice (tdr_ranges t) s (e + 1))"

definition tdr_sort :: "timeline_data_range \<Rightarrow> timeline_data_range" where
  "tdr_sort t = t\<lparr>tdr_ranges := py_sort (\<lambda>a b. ranges_cmp a b < 0) (tdr_ranges t)\<rparr>"

definition tdr_bounds :: "timeline_data_range \<Rightarrow> int \<times> int" where
  "tdr_bounds t =
     (if length (tdr_ranges t) > 0
      then (range_start (tdr_ranges t ! 0), range_end (tdr_ranges t ! (length (tdr_ranges t) - 1)))
      else (0, 0))"

record 'v timeline_event =
  te_name :: string
  te_events :: "'v event list"

function event_search :: "'v event list \<Rightarrow> rat \<Rightarrow> int \<Rightarrow> int \<Rightarrow> int" where
  "event_search events key l u =
     (if l \<le> u
      then let i = (l + u) div 2; e = events ! nat i
           in if key = of_int (event_at e) then i
              else if key < of_int (event_at e) then event_search events key l (i - 1)
              else event_search events key (i + 1) u
      else l)"
  by pat_completeness auto
termination
  by (relation "measure (\<lambda>(events, key, l, u). nat (u - l + 1))") auto

declare event_search.simps [simp del]

definition te_search :: "'v timeline_event \<Rightarrow> rat \<Rightarrow> int" where
  "te_search t key = event_search (te_events t) key 0 (int (length (te_events t)) - 1)"

definition new_te :: "string \<Rightarrow> 'v timeline_event" where
  "new_te name = \<lparr>te_name = name, te_events = []\<rparr>"

definition add_event :: "'v event \<Rightarrow> 'v timeline_event \<Rightarrow> 'v timeline_event" where
  "add_event e t = t\<lparr>te_events := te_events t @ [e]\<rparr>"

definition get_events_bounds :: "'v timeline_event \<Rightarrow> rat \<Rightarrow> rat \<Rightarrow> int \<times> int" where
  "get_events_bounds t start stop = (te_search t start, te_search t stop + 1)"

definition get_events :: "'v timeline_event \<Rightarrow> rat \<Rightarrow> rat \<Rightarrow> 'v event list" where
  "get_events t start stop = py_slice (te_events t) (te_search t start) (te_search t stop + 1)"

definition te_sort :: "'v timeline_event \<Rightarrow> 'v timeline_event" where
  "te_sort t = t\<lparr>te_events := py_sort (\<lambda>a b. events_cmp a b < 0) (te_events t)\<rparr>"

definition te_bounds :: "'v timeline_event \<Rightarrow> int \<times> int" where
  "te_bounds t = (if length (te_events t) > 0 then (event_at (te_events t ! 0), event_at (last (te_events t))) else (0, 0))"

section \<open>Timelines\<close>

record timeline =
  tl_name :: string
  ranges :: "timeline_data_range list"
  event_str :: "string timeline_event list"
  event_int :: "int timeline_event list"

definition new_timeline :: "string \<Rightarrow> timeline" where
  "new_timeline name = \<lparr>tl_name = name, ranges = [], event_str = [], event_int = []\<rparr>"

text \<open>
  The getters return the object with the name, and append a new one if there is none. The model
  returns the list and the position of the object, which the caller then updates.
\<close>

fun position :: "('a \<Rightarrow> string) \<Rightarrow> string \<Rightarrow> 'a list \<Rightarrow> nat option" where
  "position nm name [] = None"
| "position nm name (x # xs) = (if nm x = name then Some 0 else map_option Suc (position nm name xs))"

definition get_or_append :: "('a \<Rightarrow> string) \<Rightarrow> (string \<Rightarrow> 'a) \<Rightarrow> string \<Rightarrow> 'a list \<Rightarrow> 'a list \<times> nat" where
  "get_or_append nm mk name xs =
     (case position nm name xs of Some i \<Rightarrow> (xs, i) | None \<Rightarrow> (xs @ [mk name], length xs))"

definition get_range :: "string \<Rightarrow> timeline \<Rightarrow> timeline \<times> nat" where
  "get_range name t = (let (rs, i) = get_or_append tdr_name new_tdr name (ranges t) in (t\<lparr>ranges := rs\<rparr>, i))"

definition get_event_str :: "string \<Rightarrow> timeline \<Rightarrow> timeline \<times> nat" where
  "get_event_str name t = (let (es, i) = get_or_append te_name new_te name (event_str t) in (t\<lparr>event_str := es\<rparr>, i))"

definition get_event_int :: "string \<Rightarrow> timeline \<Rightarrow> timeline \<times> nat" where
  "get_event_int name t = (let (es, i) = get_or_append te_name new_te name (event_int t) in (t\<lparr>event_int := es\<rparr>, i))"

definition timeline_sort :: "timeline \<Rightarrow> timeline" where
  "timeline_sort t = t\<lparr>ranges := map tdr_sort (ranges t), event_int := map te_sort (event_int t),
     event_str := map te_sort (event_str t)\<rparr>"

definition widen :: "int \<times> int \<Rightarrow> int \<times> int \<Rightarrow> int \<times> int" where
  "widen b c = (case b of (lo, hi) \<Rightarrow> case c of (c_lo, c_hi) \<Rightarrow>
     (if c_lo < lo then c_lo else lo, if c_hi > hi then c_hi else hi))"

definition timeline_bounds :: "timeline \<Rightarrow> int \<times> int" where
  "timeline_bounds t =
     (let b = foldl widen (0, 0) (map tdr_bounds (ranges t));
          b = foldl widen b (map te_bounds (event_str t))
      in foldl widen b (map te_bounds (event_int t)))"

definition timelines_get :: "string \<Rightarrow> timeline list \<Rightarrow> timeline list \<times> nat" where
  "timelines_get name ts = get_or_append tl_name new_timeline name ts"

definition timelines_sort :: "timeline list \<Rightarrow> timeline list" where
  "timelines_sort ts = map timeline_sort ts"

definition timelines_bounds :: "timeline list \<Rightarrow> int \<times> int" where
  "timelines_bounds ts = foldl widen (0, 0) (map timeline_bounds ts)"

text \<open>The keys of a dictionary, in an order the program does not control.\<close>

definition get_all_range_values :: "(string list \<Rightarrow> string list) \<Rightarrow> timeline list \<Rightarrow> string list" where
  "get_all_range_values ko ts =
     ko (d_keys (foldl (\<lambda>d v. AList.update v (1::nat) d) []
       (concat (map (\<lambda>t. concat (map (\<lambda>r. map range_value (tdr_ranges r)) (ranges t))) ts))))"

section \<open>Colours\<close>

type_synonym color = "rat \<times> rat \<times> rat"

record colors =
  color_dict :: "(string, color) dict"
  default_colors :: "color list"

definition initial_colors :: colors where
  "initial_colors = \<lparr>color_dict = [],
     default_colors = [(1, 0, 0), (0, 1, 0), (0, 0, 1), (1, 1, 0), (1, 0, 1), (0, 1, 1)]\<rparr>"

definition color_add :: "string \<Rightarrow> color \<Rightarrow> colors \<Rightarrow> colors" where
  "color_add name c cs = cs\<lparr>color_dict := AList.update name c (color_dict cs)\<rparr>"

text \<open>\<open>default_colors.pop()\<close> takes the last colour of the list all instances share.\<close>

definition color_lookup :: "string \<Rightarrow> colors \<Rightarrow> (color \<times> colors) result" where
  "color_lookup name cs =
     (case map_of (color_dict cs) name of
        Some c \<Rightarrow> Inr (c, cs)
      | None \<Rightarrow>
          if default_colors cs = [] then Inl IndexError
          else let c = last (default_colors cs)
               in Inr (c, color_add name c (cs\<lparr>default_colors := butlast (default_colors cs)\<rparr>)))"

text \<open>The loop of \<open>main\<close> that assigns a colour to every range value.\<close>

fun legend_colors :: "string list \<Rightarrow> colors \<Rightarrow> (color list \<times> colors) result" where
  "legend_colors [] cs = Inr ([], cs)"
| "legend_colors (v # vs) cs =
     bind_r (color_lookup v cs) (\<lambda>(c, cs). bind_r (legend_colors vs cs) (\<lambda>(rest, cs). Inr (c # rest, cs)))"

section \<open>Reading the data\<close>

text \<open>\<open>([^ ]+) \<close>: the characters up to the next blank, which must be there.\<close>

definition re_word :: "string \<Rightarrow> (string \<times> string) option" where
  "re_word s =
     (let w = takeWhile (\<lambda>c. c \<noteq> CHR '' '') s; rest = dropWhile (\<lambda>c. c \<noteq> CHR '' '') s
      in if w \<noteq> [] \<and> rest \<noteq> [] then Some (w, tl rest) else None)"

definition re_prefix :: "string \<Rightarrow> string \<Rightarrow> string option" where
  "re_prefix p s = (if startswith s p then Some (drop (length p) s) else None)"

definition match_range :: "string \<Rightarrow> (string \<times> string \<times> string \<times> string \<times> string) option" where
  "match_range line =
     Option.bind (re_prefix ''range '' line) (\<lambda>s.
     Option.bind (re_word s) (\<lambda>(a, s).
     Option.bind (re_word s) (\<lambda>(b, s).
     Option.bind (re_word s) (\<lambda>(c, s).
     Option.bind (re_number '' '' s) (\<lambda>(d, s).
     Option.bind (re_number [] s) (\<lambda>(e, s). Some (a, b, c, d, e)))))))"

definition match_event_str :: "string \<Rightarrow> (string \<times> string \<times> string \<times> string) option" where
  "match_event_str line =
     Option.bind (re_prefix ''event-str '' line) (\<lambda>s.
     Option.bind (re_word s) (\<lambda>(a, s).
     Option.bind (re_word s) (\<lambda>(b, s).
     Option.bind (re_word s) (\<lambda>(c, s).
     Option.bind (re_number [] s) (\<lambda>(d, s). Some (a, b, c, d))))))"

definition match_event_int :: "string \<Rightarrow> (string \<times> string \<times> string \<times> string) option" where
  "match_event_int line =
     Option.bind (re_prefix ''event-int '' line) (\<lambda>s.
     Option.bind (re_word s) (\<lambda>(a, s).
     Option.bind (re_word s) (\<lambda>(b, s).
     Option.bind (re_number '' '' s) (\<lambda>(c, s).
     Option.bind (re_number [] s) (\<lambda>(d, s). Some (a, b, c, d))))))"

text \<open>Two hexadecimal digits and their value.\<close>

definition re_hex2 :: "string \<Rightarrow> (nat \<times> string) option" where
  "re_hex2 s =
     (case s of
        a # b # rest \<Rightarrow>
          (case (digit_val a, digit_val b) of
             (Some x, Some y) \<Rightarrow> if x < 16 \<and> y < 16 then Some (16 * x + y, rest) else None
           | _ \<Rightarrow> None)
      | _ \<Rightarrow> None)"

definition match_color :: "string \<Rightarrow> (string \<times> nat \<times> nat \<times> nat) option" where
  "match_color line =
     Option.bind (re_prefix ''color '' line) (\<lambda>s.
     Option.bind (re_word s) (\<lambda>(a, s).
     Option.bind (re_prefix ''#'' s) (\<lambda>s.
     Option.bind (re_hex2 s) (\<lambda>(r, s).
     Option.bind (re_hex2 s) (\<lambda>(g, s).
     Option.bind (re_hex2 s) (\<lambda>(b, s). Some (a, r, g, b)))))))"

definition update_at :: "nat \<Rightarrow> ('a \<Rightarrow> 'a) \<Rightarrow> 'a list \<Rightarrow> 'a list" where
  "update_at i f xs = xs[i := f (xs ! i)]"

definition put_range :: "string \<Rightarrow> string \<Rightarrow> data_range \<Rightarrow> timeline list \<Rightarrow> timeline list" where
  "put_range name rname r ts =
     (let (ts, i) = timelines_get name ts
      in update_at i (\<lambda>t. let (t, j) = get_range rname t in t\<lparr>ranges := update_at j (add_range r) (ranges t)\<rparr>) ts)"

definition put_event_str :: "string \<Rightarrow> string \<Rightarrow> string event \<Rightarrow> timeline list \<Rightarrow> timeline list" where
  "put_event_str name ename e ts =
     (let (ts, i) = timelines_get name ts
      in update_at i (\<lambda>t. let (t, j) = get_event_str ename t in t\<lparr>event_str := update_at j (add_event e) (event_str t)\<rparr>) ts)"

definition put_event_int :: "string \<Rightarrow> string \<Rightarrow> int event \<Rightarrow> timeline list \<Rightarrow> timeline list" where
  "put_event_int name ename e ts =
     (let (ts, i) = timelines_get name ts
      in update_at i (\<lambda>t. let (t, j) = get_event_int ename t in t\<lparr>event_int := update_at j (add_event e) (event_int t)\<rparr>) ts)"

definition read_line :: "colors \<times> timeline list \<Rightarrow> string \<Rightarrow> (colors \<times> timeline list) result" where
  "read_line st line =
     (case st of (cs, ts) \<Rightarrow>
      case match_range line of
        Some (a, b, c, d, e) \<Rightarrow>
          bind_r (py_int d) (\<lambda>lo. bind_r (py_int e) (\<lambda>hi.
            Inr (cs, put_range a b \<lparr>range_start = lo, range_end = hi, range_value = c\<rparr> ts)))
      | None \<Rightarrow>
      case match_event_str line of
        Some (a, b, c, d) \<Rightarrow>
          bind_r (py_int d) (\<lambda>t. Inr (cs, put_event_str a b \<lparr>event_at = t, event_value = c\<rparr> ts))
      | None \<Rightarrow>
      case match_event_int line of
        Some (a, b, c, d) \<Rightarrow>
          bind_r (py_int c) (\<lambda>v. bind_r (py_int d) (\<lambda>t. Inr (cs, put_event_int a b \<lparr>event_at = t, event_value = v\<rparr> ts)))
      | None \<Rightarrow>
      case match_color line of
        Some (a, r, g, b) \<Rightarrow>
          Inr (color_add a (of_nat (r div 255), of_nat (g div 255), of_nat (b div 255)) cs, ts)
      | None \<Rightarrow> Inr (cs, ts))"

definition read_data :: "string list \<Rightarrow> (colors \<times> timeline list) result" where
  "read_data lines =
     bind_r (foldM_r read_line (initial_colors, []) lines) (\<lambda>(cs, ts). Inr (cs, timelines_sort ts))"

section \<open>The searches\<close>

definition range_contains :: "rat \<Rightarrow> data_range \<Rightarrow> bool" where
  "range_contains key r \<longleftrightarrow> of_int (range_start r) \<le> key \<and> key \<le> of_int (range_end r)"

text \<open>Ranges in order that do not overlap.\<close>

definition ranges_ok :: "data_range list \<Rightarrow> bool" where
  "ranges_ok rs \<longleftrightarrow> (\<forall>r \<in> set rs. range_start r \<le> range_end r) \<and> sorted_wrt (\<lambda>a b. range_end a < range_start b) rs"

lemma ranges_ok_nth:
  "ranges_ok rs \<Longrightarrow> i < j \<Longrightarrow> j < length rs \<Longrightarrow> rat_of_int (range_end (rs ! i)) < rat_of_int (range_start (rs ! j))"
  by (simp add: ranges_ok_def sorted_wrt_iff_nth_less)

lemma ranges_ok_le: "ranges_ok rs \<Longrightarrow> i < length rs \<Longrightarrow> rat_of_int (range_start (rs ! i)) \<le> rat_of_int (range_end (rs ! i))"
  by (simp add: ranges_ok_def)

lemma range_search_spec:
  assumes "ranges_ok rs" and "0 \<le> l" and "u < int (length rs)"
    and "\<And>j. j < length rs \<Longrightarrow> range_contains key (rs ! j) \<Longrightarrow> l \<le> int j \<and> int j \<le> u"
  shows "(\<exists>i < length rs. range_search rs key l u = int i \<and> range_contains key (rs ! i)) \<or>
    range_search rs key l u = - 1 \<and> (\<forall>j < length rs. \<not> range_contains key (rs ! j))"
  using assms(2-4)
proof (induction "nat (u - l + 1)" arbitrary: l u rule: less_induct)
  case less
  show ?case
  proof (cases "l \<le> u")
    case False
    then show ?thesis using less.prems(3) by (subst (1 2) range_search.simps) force
  next
    case True
    let ?i = "(l + u) div 2" and ?n = "nat ((l + u) div 2)"
    have i: "l \<le> ?i" "?i \<le> u" "int ?n = ?i" "?n < length rs" using True less.prems by auto
    consider "range_contains key (rs ! ?n)" | "key < rat_of_int (range_start (rs ! ?n))" | "rat_of_int (range_end (rs ! ?n)) < key"
      by (force simp: range_contains_def)
    then show ?thesis
    proof cases
      case 1
      then have "range_search rs key l u = ?i"
        using True by (subst range_search.simps) (simp add: range_contains_def Let_def)
      with 1 i show ?thesis by metis
    next
      case 2
      have "l \<le> int j \<and> int j \<le> ?i - 1" if "j < length rs" "range_contains key (rs ! j)" for j
      proof -
        have "\<not> ?n \<le> j"
          using ranges_ok_nth [OF assms(1), of ?n j] ranges_ok_le [OF assms(1) i(4)] that 2
          by (cases "j = ?n") (auto simp: range_contains_def)
        with less.prems(3) [OF that] i(3) show ?thesis by linarith
      qed
      then have "(\<exists>i < length rs. range_search rs key l (?i - 1) = int i \<and> range_contains key (rs ! i)) \<or>
          range_search rs key l (?i - 1) = - 1 \<and> (\<forall>j < length rs. \<not> range_contains key (rs ! j))"
        using less.prems i by (intro less.hyps) auto
      moreover have "range_search rs key l u = range_search rs key l (?i - 1)"
        using True 2 by (subst range_search.simps) (simp add: Let_def)
      ultimately show ?thesis by simp
    next
      case 3
      have "?i + 1 \<le> int j \<and> int j \<le> u" if "j < length rs" "range_contains key (rs ! j)" for j
      proof -
        have "\<not> j \<le> ?n"
          using ranges_ok_nth [OF assms(1), of j ?n] ranges_ok_le [OF assms(1) i(4)] that 3 i(4)
          by (cases "j = ?n") (auto simp: range_contains_def)
        with less.prems(3) [OF that] i(3) show ?thesis by linarith
      qed
      then have "(\<exists>i < length rs. range_search rs key (?i + 1) u = int i \<and> range_contains key (rs ! i)) \<or>
          range_search rs key (?i + 1) u = - 1 \<and> (\<forall>j < length rs. \<not> range_contains key (rs ! j))"
        using less.prems i by (intro less.hyps) auto
      moreover have "rat_of_int (range_start (rs ! ?n)) \<le> key" using 3 ranges_ok_le [OF assms(1) i(4)] by simp
      then have "range_search rs key l u = range_search rs key (?i + 1) u"
        using True 3 by (subst range_search.simps) (simp add: Let_def)
      ultimately show ?thesis by simp
    qed
  qed
qed

lemma tdr_search_cases:
  assumes "ranges_ok (tdr_ranges t)"
  obtains i where "i < length (tdr_ranges t)" "tdr_search t key = int i" "range_contains key (tdr_ranges t ! i)"
  | "tdr_search t key = - 1" "\<forall>j < length (tdr_ranges t). \<not> range_contains key (tdr_ranges t ! j)"
  using range_search_spec [OF assms, of 0 "int (length (tdr_ranges t)) - 1" key] that
  by (auto simp: tdr_search_def)

text \<open>Events in strictly ascending order.\<close>

abbreviation events_ok :: "'v event list \<Rightarrow> bool" where
  "events_ok es \<equiv> sorted_wrt (\<lambda>a b. event_at a < event_at b) es"

lemma event_search_spec:
  assumes "events_ok es" and "0 \<le> l" and "u < int (length es)" and "l \<le> u + 1"
    and "\<And>j. j < length es \<Longrightarrow> int j < l \<Longrightarrow> rat_of_int (event_at (es ! j)) < key"
    and "\<And>j. j < length es \<Longrightarrow> u < int j \<Longrightarrow> key < rat_of_int (event_at (es ! j))"
  shows "\<exists>r \<le> length es. event_search es key l u = int r \<and> (\<forall>j < r. rat_of_int (event_at (es ! j)) < key) \<and>
     (\<forall>j < length es. r \<le> j \<longrightarrow> key \<le> rat_of_int (event_at (es ! j)))"
  using assms(2-6)
proof (induction "nat (u - l + 1)" arbitrary: l u rule: less_induct)
  case less
  note lt = assms(1) [unfolded sorted_wrt_iff_nth_less, rule_format]
  show ?case
  proof (cases "l \<le> u")
    case False
    then have "l = u + 1" using less.prems(3) by simp
    moreover have "event_search es key l u = l" using False by (subst event_search.simps) simp
    ultimately show ?thesis using less.prems by (intro exI [of _ "nat l"]) (auto intro: less_imp_le)
  next
    case True
    let ?i = "(l + u) div 2" and ?n = "nat ((l + u) div 2)"
    have i: "l \<le> ?i" "?i \<le> u" "int ?n = ?i" "?n < length es" using True less.prems by auto
    consider "key = rat_of_int (event_at (es ! ?n))" | "key < rat_of_int (event_at (es ! ?n))" | "rat_of_int (event_at (es ! ?n)) < key" by linarith
    then show ?thesis
    proof cases
      case 1
      then have "event_search es key l u = int ?n"
        using True i(3) by (subst event_search.simps) (simp add: Let_def)
      moreover have "rat_of_int (event_at (es ! j)) < key" if "j < ?n" for j using lt [of j ?n] i(4) that 1 by simp
      moreover have "key \<le> rat_of_int (event_at (es ! j))" if "j < length es" "?n \<le> j" for j
        using lt [of ?n j] that 1 by (cases "j = ?n") auto
      ultimately show ?thesis using i(4) by (intro exI [of _ ?n]) auto
    next
      case 2
      have "key < rat_of_int (event_at (es ! j))" if "j < length es" "?i - 1 < int j" for j
        using lt [of ?n j] that 2 i(3) by (cases "j = ?n") auto
      then have "\<exists>r \<le> length es. event_search es key l (?i - 1) = int r \<and> (\<forall>j < r. rat_of_int (event_at (es ! j)) < key) \<and>
          (\<forall>j < length es. r \<le> j \<longrightarrow> key \<le> rat_of_int (event_at (es ! j)))"
        using less.prems i by (intro less.hyps) auto
      moreover have "event_search es key l u = event_search es key l (?i - 1)"
        using True 2 by (subst event_search.simps) (simp add: Let_def)
      ultimately show ?thesis by simp
    next
      case 3
      have "rat_of_int (event_at (es ! j)) < key" if "j < length es" "int j < ?i + 1" for j
        using lt [of j ?n] that 3 i(3,4) by (cases "j = ?n") auto
      then have "\<exists>r \<le> length es. event_search es key (?i + 1) u = int r \<and> (\<forall>j < r. rat_of_int (event_at (es ! j)) < key) \<and>
          (\<forall>j < length es. r \<le> j \<longrightarrow> key \<le> rat_of_int (event_at (es ! j)))"
        using less.prems i by (intro less.hyps) auto
      moreover have "event_search es key l u = event_search es key (?i + 1) u"
        using True 3 by (subst event_search.simps) (simp add: Let_def)
      ultimately show ?thesis by simp
    qed
  qed
qed

lemma te_search_lower_bound:
  assumes "events_ok (te_events t)"
  obtains r where "r \<le> length (te_events t)" "te_search t key = int r"
    "\<And>j. j < r \<Longrightarrow> rat_of_int (event_at (te_events t ! j)) < key"
    "\<And>j. j < length (te_events t) \<Longrightarrow> r \<le> j \<Longrightarrow> key \<le> rat_of_int (event_at (te_events t ! j))"
  using event_search_spec [OF assms, of 0 "int (length (te_events t)) - 1" key] that
  by (auto simp: te_search_def)

lemma ranges_ok_below:
  assumes "ranges_ok rs" and "i < length rs" and "range_contains key (rs ! i)" and "k < length rs"
  shows "key \<le> rat_of_int (range_end (rs ! k)) \<longleftrightarrow> i \<le> k" and "rat_of_int (range_start (rs ! k)) \<le> key \<longleftrightarrow> k \<le> i"
  using ranges_ok_nth [OF assms(1), of i k] ranges_ok_nth [OF assms(1), of k i] ranges_ok_le [OF assms(1,4)] assms
  by (cases i k rule: linorder_cases; auto simp: range_contains_def)+

definition hit :: "timeline_data_range \<Rightarrow> rat \<Rightarrow> bool" where
  "hit t key \<longleftrightarrow> list_ex (range_contains key) (tdr_ranges t)"

lemma hit_nth: "hit t key \<longleftrightarrow> (\<exists>i < length (tdr_ranges t). range_contains key (tdr_ranges t ! i))"
  by (auto simp: hit_def list_ex_length)

lemma lower_index:
  assumes ok: "ranges_ok (tdr_ranges t)"
  shows "\<exists>lo \<le> length (tdr_ranges t). tdr_search t key = (if hit t key then int lo else - 1) \<and>
    (if hit t key then lo < length (tdr_ranges t) \<and> range_contains key (tdr_ranges t ! lo) else lo = 0) \<and>
    (\<forall>k < length (tdr_ranges t). (key \<le> rat_of_int (range_end (tdr_ranges t ! k)) \<or> \<not> hit t key) \<longleftrightarrow> lo \<le> k)"
proof (rule tdr_search_cases [OF ok, of key])
  fix i
  assume i: "i < length (tdr_ranges t)" "tdr_search t key = int i" "range_contains key (tdr_ranges t ! i)"
  moreover from i(1,3) have "hit t key" by (auto simp: hit_nth)
  ultimately show ?thesis by (intro exI [of _ i]) (simp add: ranges_ok_below [OF ok])
qed (auto simp: hit_nth)

lemma upper_index:
  assumes ok: "ranges_ok (tdr_ranges t)"
  shows "\<exists>hi \<le> length (tdr_ranges t). tdr_search t key = (if hit t key then int hi - 1 else - 1) \<and>
    (if hit t key then 0 < hi else hi = length (tdr_ranges t)) \<and>
    (\<forall>k < length (tdr_ranges t). (rat_of_int (range_start (tdr_ranges t ! k)) \<le> key \<or> \<not> hit t key) \<longleftrightarrow> k < hi)"
proof (rule tdr_search_cases [OF ok, of key])
  fix i
  assume i: "i < length (tdr_ranges t)" "tdr_search t key = int i" "range_contains key (tdr_ranges t ! i)"
  moreover from i(1,3) have "hit t key" by (auto simp: hit_nth)
  ultimately show ?thesis by (intro exI [of _ "Suc i"]) (simp add: ranges_ok_below [OF ok] less_Suc_eq_le)
qed (auto simp: hit_nth)

text \<open>
  C1: on ranges in order that do not overlap, \<open>get_ranges\<close> is the list of the ranges that meet the window
  when both its ends lie inside a range; an end that lies in a gap puts no limit on that side, and when
  both do the answer is the empty list, whatever ranges lie inside the window.
\<close>

theorem get_ranges_exact:
  assumes ok: "ranges_ok (tdr_ranges t)" and "start \<le> stop"
  shows "get_ranges t start stop =
    (if hit t start \<or> hit t stop
     then filter (\<lambda>r. (of_int (range_start r) \<le> stop \<or> \<not> hit t stop) \<and> (start \<le> of_int (range_end r) \<or> \<not> hit t start)) (tdr_ranges t)
     else [])"
proof -
  let ?rs = "tdr_ranges t" and ?n = "length (tdr_ranges t)"
  let ?P = "\<lambda>r. (of_int (range_start r) \<le> stop \<or> \<not> hit t stop) \<and> (start \<le> of_int (range_end r) \<or> \<not> hit t start)"
  obtain lo where lo: "lo \<le> ?n" "tdr_search t start = (if hit t start then int lo else - 1)"
    "if hit t start then lo < ?n \<and> range_contains start (?rs ! lo) else lo = 0"
    "\<forall>k < ?n. (start \<le> rat_of_int (range_end (?rs ! k)) \<or> \<not> hit t start) \<longleftrightarrow> lo \<le> k" using lower_index [OF ok] by blast
  obtain hi where hi: "hi \<le> ?n" "tdr_search t stop = (if hit t stop then int hi - 1 else - 1)"
    "if hit t stop then 0 < hi else hi = ?n"
    "\<forall>k < ?n. (rat_of_int (range_start (?rs ! k)) \<le> stop \<or> \<not> hit t stop) \<longleftrightarrow> k < hi" using upper_index [OF ok] by blast
  have "lo \<le> hi"
  proof (cases "hit t start \<and> hit t stop")
    case True
    then have "rat_of_int (range_start (?rs ! lo)) \<le> stop" using lo(3) assms(2) by (auto simp: range_contains_def)
    with True lo(3) hi(4) show ?thesis by auto
  qed (use lo(1,3) hi(1,3) in \<open>auto split: if_splits\<close>)
  moreover have "filter ?P ?rs = take (hi - lo) (drop lo ?rs)"
    using lo(4) hi(1,4) \<open>lo \<le> hi\<close> by (intro filter_interval) auto
  moreover have "get_ranges t start stop = py_slice ?rs (int lo) (int hi)" if "hit t start \<or> hit t stop"
    using lo(2,3) hi(2,3) that by (auto simp: get_ranges_def Let_def split: if_splits)
  ultimately show ?thesis using lo(2) hi(2) py_slice_nat [of ?rs lo hi] by (auto simp: get_ranges_def)
qed

theorem get_ranges_exact_witness:
  "get_ranges \<lparr>tdr_name = ''x'', tdr_ranges = [\<lparr>range_start = 0, range_end = 2, range_value = ''a''\<rparr>,
     \<lparr>range_start = 4, range_end = 5, range_value = ''b''\<rparr>, \<lparr>range_start = 8, range_end = 9, range_value = ''c''\<rparr>]\<rparr> 3 6 = [] \<and>
   get_ranges \<lparr>tdr_name = ''x'', tdr_ranges = [\<lparr>range_start = 0, range_end = 2, range_value = ''a''\<rparr>,
     \<lparr>range_start = 4, range_end = 5, range_value = ''b''\<rparr>, \<lparr>range_start = 8, range_end = 9, range_value = ''c''\<rparr>]\<rparr> 1 4 =
     [\<lparr>range_start = 0, range_end = 2, range_value = ''a''\<rparr>, \<lparr>range_start = 4, range_end = 5, range_value = ''b''\<rparr>]"
  by (subst get_ranges_exact; simp add: ranges_ok_def hit_def range_contains_def)+

text \<open>
  On events with strictly increasing times, \<open>get_events\<close> returns those of the window, followed by at
  most one more, the first event after the window.
\<close>

theorem get_events_window:
  assumes ok: "events_ok (te_events t)" and "start \<le> stop"
  shows "\<exists>extra. get_events t start stop =
      filter (\<lambda>e. start \<le> of_int (event_at e) \<and> of_int (event_at e) \<le> stop) (te_events t) @ extra \<and>
      length extra \<le> 1 \<and> (\<forall>e \<in> set extra. stop < of_int (event_at e))"
proof -
  let ?es = "te_events t" and ?P = "\<lambda>e. start \<le> of_int (event_at e) \<and> of_int (event_at e) \<le> stop"
  note lt = ok [unfolded sorted_wrt_iff_nth_less, rule_format]
  obtain s where s: "s \<le> length ?es" "te_search t start = int s" "\<And>j. j < s \<Longrightarrow> rat_of_int (event_at (?es ! j)) < start"
    "\<And>j. j < length ?es \<Longrightarrow> s \<le> j \<Longrightarrow> start \<le> rat_of_int (event_at (?es ! j))" using te_search_lower_bound [OF ok] by blast
  obtain e where e: "e \<le> length ?es" "te_search t stop = int e" "\<And>j. j < e \<Longrightarrow> rat_of_int (event_at (?es ! j)) < stop"
    "\<And>j. j < length ?es \<Longrightarrow> e \<le> j \<Longrightarrow> stop \<le> rat_of_int (event_at (?es ! j))" using te_search_lower_bound [OF ok] by blast
  have "s \<le> e"
    using s(3) [of e] e(4) [of e] s(1) assms(2) by (cases "s \<le> e") auto
  have "get_events t start stop = py_slice ?es (int s) (int (Suc e))"
    by (simp add: get_events_def s(2) e(2) algebra_simps)
  then have slice: "get_events t start stop = take (Suc e - s) (drop s ?es)" by (simp only: py_slice_nat)
  have P: "?P (?es ! k) \<longleftrightarrow> s \<le> k \<and> rat_of_int (event_at (?es ! k)) \<le> stop" if "k < length ?es" for k
    using s(3) [of k] s(4) [OF that] by (cases "s \<le> k") auto
  show ?thesis
  proof (cases "e < length ?es \<and> rat_of_int (event_at (?es ! e)) = stop")
    case True
    have "rat_of_int (event_at (?es ! k)) \<le> stop \<longleftrightarrow> k < Suc e" if "k < length ?es" for k
      using lt [of e k] e(3) [of k] True that by (cases "k < e"; cases "k = e") auto
    with P have "filter ?P ?es = take (Suc e - s) (drop s ?es)"
      using True \<open>s \<le> e\<close> by (intro filter_interval) auto
    with slice show ?thesis by simp
  next
    case False
    have above: "stop < rat_of_int (event_at (?es ! k))" if "k < length ?es" "e \<le> k" for k
      using e(4) [OF that] False lt [of e k] e(4) [of e] that by (cases "k = e") auto
    have "rat_of_int (event_at (?es ! k)) \<le> stop \<longleftrightarrow> k < e" if "k < length ?es" for k
      using e(3) [of k] above [OF that] by (cases "k < e") auto
    with P have f: "filter ?P ?es = take (e - s) (drop s ?es)"
      using e(1) \<open>s \<le> e\<close> by (intro filter_interval) auto
    have "get_events t start stop = take (e - s) (drop s ?es) @ take 1 (drop e ?es)"
      using slice \<open>s \<le> e\<close> take_add [of "e - s" 1 "drop s ?es"] by (simp add: Suc_diff_le)
    moreover have "\<forall>x \<in> set (take 1 (drop e ?es)). stop < of_int (event_at x)"
      using above by (auto simp: in_set_conv_nth)
    ultimately show ?thesis using f by (intro exI [of _ "take 1 (drop e ?es)"]) simp
  qed
qed

theorem get_events_window_witness:
  "\<exists>extra. get_events \<lparr>te_name = ''x'', te_events = [\<lparr>event_at = 1, event_value = ''a''\<rparr>, \<lparr>event_at = 5, event_value = ''b''\<rparr>,
      \<lparr>event_at = 9, event_value = ''c''\<rparr>]\<rparr> 0 4 = [\<lparr>event_at = 1, event_value = ''a''\<rparr>] @ extra \<and> length extra \<le> 1"
  using get_events_window [of "\<lparr>te_name = ''x'', te_events = [\<lparr>event_at = 1, event_value = ''a''\<rparr>, \<lparr>event_at = 5, event_value = ''b''\<rparr>,
      \<lparr>event_at = 9, event_value = ''c''\<rparr>]\<rparr>" 0 4] by auto

section \<open>Reading and sorting\<close>

lemma ranges_cmp_less: "ranges_cmp a b < 0 \<longleftrightarrow> range_start a < range_start b"
  by (simp add: ranges_cmp_def cmp_int_def)

lemma events_cmp_less: "events_cmp a b < 0 \<longleftrightarrow> event_at a < event_at b"
  by (simp add: events_cmp_def cmp_int_def)

lemma tdr_sort_sorted: "sorted (map range_start (tdr_ranges (tdr_sort t)))" "mset (tdr_ranges (tdr_sort t)) = mset (tdr_ranges t)"
  by (simp_all add: tdr_sort_def ranges_cmp_less sorted_py_sort)

lemma te_sort_sorted: "sorted (map event_at (te_events (te_sort t)))" "mset (te_events (te_sort t)) = mset (te_events t)"
  by (simp_all add: te_sort_def events_cmp_less sorted_py_sort)

lemma position_Some: "position nm name xs = Some i \<Longrightarrow> i < length xs \<and> nm (xs ! i) = name"
  by (induction xs arbitrary: i) (auto split: if_splits)

lemma position_None: "position nm name xs = None \<longleftrightarrow> name \<notin> nm ` set xs"
  by (induction xs) auto

text \<open>The ranges, and the events of both kinds, of all timelines, as multisets.\<close>

definition all_ranges :: "timeline list \<Rightarrow> data_range multiset" where
  "all_ranges ts = mset (concat (map (\<lambda>t. concat (map tdr_ranges (ranges t))) ts))"

definition all_strs :: "timeline list \<Rightarrow> string event multiset" where
  "all_strs ts = mset (concat (map (\<lambda>t. concat (map te_events (event_str t))) ts))"

definition all_ints :: "timeline list \<Rightarrow> int event multiset" where
  "all_ints ts = mset (concat (map (\<lambda>t. concat (map te_events (event_int t))) ts))"

lemma map_update_at: "i < length xs \<Longrightarrow> (\<And>x. f (g x) = f x) \<Longrightarrow> map f (update_at i g xs) = map f xs"
  by (simp add: update_at_def map_update) (metis list_update_id nth_map map_update)

lemma mset_concat_update_at:
  assumes "i < length xs" and "mset (f (g (xs ! i))) = M + mset (f (xs ! i))"
  shows "mset (concat (map f (update_at i g xs))) = M + mset (concat (map f xs))"
proof -
  define a x b where "a = take i xs" and "x = xs ! i" and "b = drop (Suc i) xs"
  have xs: "xs = a @ x # b" unfolding a_def x_def b_def using assms(1) by (rule id_take_nth_drop)
  have up: "update_at i g xs = a @ g x # b"
    using assms(1) by (simp add: update_at_def upd_conv_take_nth_drop a_def x_def b_def)
  show ?thesis unfolding up by (subst xs) (simp add: assms(2) [folded x_def] ac_simps)
qed

text \<open>What a list of named objects holds under a name: a map, which is what the getters implement.\<close>

definition store_of :: "('a \<Rightarrow> string) \<Rightarrow> ('a \<Rightarrow> 'c) \<Rightarrow> 'c \<Rightarrow> 'a list \<Rightarrow> string \<Rightarrow> 'c" where
  "store_of nm content nothing xs name = (case position nm name xs of None \<Rightarrow> nothing | Some i \<Rightarrow> content (xs ! i))"

lemma position_map: "position nm name xs = position (\<lambda>n. n) name (map nm xs)"
  by (induction xs) auto

lemma position_update_at: "i < length xs \<Longrightarrow> (\<And>x. nm (g x) = nm x) \<Longrightarrow> position nm name (update_at i g xs) = position nm name xs"
  using position_map [of nm name] by (metis map_update_at)

lemma position_append: "position nm name (xs @ ys) =
    (case position nm name xs of Some i \<Rightarrow> Some i | None \<Rightarrow> map_option (\<lambda>i. length xs + i) (position nm name ys))"
  by (induction xs) (auto simp: option.map_comp comp_def map_option_case split: option.splits)

lemma named [simp]: "tl_name (new_timeline n) = n" "tdr_name (new_tdr n) = n" "te_name (new_te n) = n"
  "tdr_ranges (new_tdr n) = []" "te_events (new_te n) = []"
  "ranges (new_timeline n) = []" "event_str (new_timeline n) = []" "event_int (new_timeline n) = []"
  by (simp_all add: new_timeline_def new_tdr_def new_te_def)

text \<open>
  What the getters rely on in the objects they create: a new object has the name asked for and holds
  nothing. Finding or creating an object and adding to it then adds to the collection.
\<close>

locale named_store =
  fixes nm :: "'a \<Rightarrow> string" and mk :: "string \<Rightarrow> 'a" and content :: "'a \<Rightarrow> 'c" and nothing :: 'c
  assumes nm_mk: "nm (mk n) = n" and content_mk: "content (mk n) = nothing"
begin

lemma store_put:
  assumes "get_or_append nm mk name xs = (ys, i)" and "\<And>x. nm (g x) = nm x" and "\<And>x. content (g x) = f (content x)"
  shows "store_of nm content nothing (update_at i g ys) = (store_of nm content nothing xs)(name := f (store_of nm content nothing xs name))"
proof (cases "position nm name xs")
  case (Some k)
  with assms(1) have k: "ys = xs" "i = k" by (simp_all add: get_or_append_def)
  note pk = position_Some [OF Some]
  have "position nm n (update_at k g xs) = position nm n xs" for n
    using position_update_at pk assms(2) by metis
  then show ?thesis using pk assms(3) Some k
    by (auto simp: fun_eq_iff store_of_def update_at_def nth_list_update dest: position_Some split: option.splits)
next
  case None
  with assms(1) have k: "ys = xs @ [mk name]" "i = length xs" by (simp_all add: get_or_append_def)
  have up: "update_at i g ys = xs @ [g (mk name)]" by (simp add: k update_at_def)
  have "nm (g (mk name)) = name" "content (g (mk name)) = f nothing" by (simp_all add: assms(2,3) nm_mk content_mk)
  then show ?thesis using None
    by (auto simp: fun_eq_iff store_of_def up position_append nth_append dest: position_Some split: option.splits)
qed

end

text \<open>The objects that hold lists.\<close>

locale named_objects = named_store nm mk content "[]"
  for nm :: "'a \<Rightarrow> string" and mk :: "string \<Rightarrow> 'a" and content :: "'a \<Rightarrow> 'b list"
begin

lemma get_or_append_spec:
  assumes "get_or_append nm mk name xs = (ys, i)"
  shows "i < length ys" and "nm (ys ! i) = name" and "distinct (map nm xs) \<Longrightarrow> distinct (map nm ys)"
    and "mset (concat (map content ys)) = mset (concat (map content xs))"
  using assms position_Some [of nm name xs] position_None [of nm name xs]
  by (auto simp: get_or_append_def nm_mk content_mk split: option.splits)

lemma mset_put:
  assumes "get_or_append nm mk name xs = (ys, i)" and "\<And>x. mset (content (g x)) = M + mset (content x)"
  shows "mset (concat (map content (update_at i g ys))) = M + mset (concat (map content xs))"
  using mset_concat_update_at [OF get_or_append_spec(1) [OF assms(1)], of content g M] assms(2)
    get_or_append_spec(4) [OF assms(1)] by simp

end

interpretation data_ranges: named_objects tdr_name new_tdr tdr_ranges
  by unfold_locales simp_all

interpretation data_events: named_objects te_name new_te te_events
  by unfold_locales simp_all

interpretation tl_ranges: named_objects tl_name new_timeline "\<lambda>t. concat (map tdr_ranges (ranges t))"
  by unfold_locales simp_all

interpretation tl_strs: named_objects tl_name new_timeline "\<lambda>t. concat (map te_events (event_str t))"
  by unfold_locales simp_all

interpretation tl_ints: named_objects tl_name new_timeline "\<lambda>t. concat (map te_events (event_int t))"
  by unfold_locales simp_all

lemma put_range_all:
  "all_ranges (put_range name rname r ts) = add_mset r (all_ranges ts)"
  "all_strs (put_range name rname r ts) = all_strs ts" "all_ints (put_range name rname r ts) = all_ints ts"
proof -
  obtain us i where us: "get_or_append tl_name new_timeline name ts = (us, i)" by fastforce
  let ?g = "\<lambda>t. let (t, j) = get_range rname t in t\<lparr>ranges := update_at j (add_range r) (ranges t)\<rparr>"
  have put: "put_range name rname r ts = update_at i ?g us" by (simp add: put_range_def timelines_get_def us)
  have inner: "mset (concat (map tdr_ranges (ranges (?g t)))) = {#r#} + mset (concat (map tdr_ranges (ranges t)))"
    "event_str (?g t) = event_str t" "event_int (?g t) = event_int t" for t
  proof -
    obtain rs j where rs: "get_or_append tdr_name new_tdr rname (ranges t) = (rs, j)" by fastforce
    from data_ranges.mset_put [OF rs, of "add_range r" "{#r#}"]
    show "mset (concat (map tdr_ranges (ranges (?g t)))) = {#r#} + mset (concat (map tdr_ranges (ranges t)))"
      "event_str (?g t) = event_str t" "event_int (?g t) = event_int t"
      by (simp_all add: get_range_def rs add_range_def)
  qed
  show "all_ranges (put_range name rname r ts) = add_mset r (all_ranges ts)"
    using tl_ranges.mset_put [OF us, of ?g "{#r#}"] inner(1)
    unfolding put all_ranges_def by simp
  show "all_strs (put_range name rname r ts) = all_strs ts"
    using tl_strs.mset_put [OF us, of ?g "{#}"] inner(2)
    unfolding put all_strs_def by simp
  show "all_ints (put_range name rname r ts) = all_ints ts"
    using tl_ints.mset_put [OF us, of ?g "{#}"] inner(3)
    unfolding put all_ints_def by simp
qed

lemma put_event_str_all:
  "all_ranges (put_event_str name rname r ts) = all_ranges ts"
  "all_strs (put_event_str name rname r ts) = add_mset r (all_strs ts)" "all_ints (put_event_str name rname r ts) = all_ints ts"
proof -
  obtain us i where us: "get_or_append tl_name new_timeline name ts = (us, i)" by fastforce
  let ?g = "\<lambda>t. let (t, j) = get_event_str rname t in t\<lparr>event_str := update_at j (add_event r) (event_str t)\<rparr>"
  have put: "put_event_str name rname r ts = update_at i ?g us" by (simp add: put_event_str_def timelines_get_def us)
  have inner: "mset (concat (map te_events (event_str (?g t)))) = {#r#} + mset (concat (map te_events (event_str t)))"
    "ranges (?g t) = ranges t" "event_int (?g t) = event_int t" for t
  proof -
    obtain rs j where rs: "get_or_append te_name new_te rname (event_str t) = (rs, j)" by fastforce
    from data_events.mset_put [OF rs, of "add_event r" "{#r#}"]
    show "mset (concat (map te_events (event_str (?g t)))) = {#r#} + mset (concat (map te_events (event_str t)))"
      "ranges (?g t) = ranges t" "event_int (?g t) = event_int t"
      by (simp_all add: get_event_str_def rs add_event_def)
  qed
  show "all_strs (put_event_str name rname r ts) = add_mset r (all_strs ts)"
    using tl_strs.mset_put [OF us, of ?g "{#r#}"] inner(1)
    unfolding put all_strs_def by simp
  show "all_ranges (put_event_str name rname r ts) = all_ranges ts"
    using tl_ranges.mset_put [OF us, of ?g "{#}"] inner(2)
    unfolding put all_ranges_def by simp
  show "all_ints (put_event_str name rname r ts) = all_ints ts"
    using tl_ints.mset_put [OF us, of ?g "{#}"] inner(3)
    unfolding put all_ints_def by simp
qed

lemma put_event_int_all:
  "all_ranges (put_event_int name rname r ts) = all_ranges ts"
  "all_strs (put_event_int name rname r ts) = all_strs ts" "all_ints (put_event_int name rname r ts) = add_mset r (all_ints ts)"
proof -
  obtain us i where us: "get_or_append tl_name new_timeline name ts = (us, i)" by fastforce
  let ?g = "\<lambda>t. let (t, j) = get_event_int rname t in t\<lparr>event_int := update_at j (add_event r) (event_int t)\<rparr>"
  have put: "put_event_int name rname r ts = update_at i ?g us" by (simp add: put_event_int_def timelines_get_def us)
  have inner: "mset (concat (map te_events (event_int (?g t)))) = {#r#} + mset (concat (map te_events (event_int t)))"
    "ranges (?g t) = ranges t" "event_str (?g t) = event_str t" for t
  proof -
    obtain rs j where rs: "get_or_append te_name new_te rname (event_int t) = (rs, j)" by fastforce
    from data_events.mset_put [OF rs, of "add_event r" "{#r#}"]
    show "mset (concat (map te_events (event_int (?g t)))) = {#r#} + mset (concat (map te_events (event_int t)))"
      "ranges (?g t) = ranges t" "event_str (?g t) = event_str t"
      by (simp_all add: get_event_int_def rs add_event_def)
  qed
  show "all_ints (put_event_int name rname r ts) = add_mset r (all_ints ts)"
    using tl_ints.mset_put [OF us, of ?g "{#r#}"] inner(1)
    unfolding put all_ints_def by simp
  show "all_ranges (put_event_int name rname r ts) = all_ranges ts"
    using tl_ranges.mset_put [OF us, of ?g "{#}"] inner(2)
    unfolding put all_ranges_def by simp
  show "all_strs (put_event_int name rname r ts) = all_strs ts"
    using tl_strs.mset_put [OF us, of ?g "{#}"] inner(3)
    unfolding put all_strs_def by simp
qed

lemmas put_all = put_range_all put_event_str_all put_event_int_all

text \<open>What a line contributes.\<close>

definition line_range :: "string \<Rightarrow> data_range option" where
  "line_range line = map_option (\<lambda>(a, b, c, d, e).
     \<lparr>range_start = projr (py_int d), range_end = projr (py_int e), range_value = c\<rparr>) (match_range line)"

definition line_str :: "string \<Rightarrow> string event option" where
  "line_str line = map_option (\<lambda>(a, b, c, d). \<lparr>event_at = projr (py_int d), event_value = c\<rparr>) (match_event_str line)"

definition line_int :: "string \<Rightarrow> int event option" where
  "line_int line = map_option (\<lambda>(a, b, c, d). \<lparr>event_at = projr (py_int d), event_value = projr (py_int c)\<rparr>) (match_event_int line)"

lemma digit_char_of: "is_digit c \<Longrightarrow> \<exists>d < 10. c = digit_char d"
proof -
  have "\<forall>c \<in> set ''0123456789''. c \<in> set (map digit_char [0..<10])" by code_simp
  then show "is_digit c \<Longrightarrow> \<exists>d < 10. c = digit_char d" unfolding is_digit_def by fastforce
qed

lemma re_number_digits: "re_number sep s = Some (ds, rest) \<Longrightarrow> ds \<noteq> [] \<and> (\<forall>c \<in> set ds. is_digit c)"
  by (auto simp: re_number_def Let_def dest: set_takeWhileD split: if_splits)

lemma py_int_digits:
  assumes "ds \<noteq> []" and "\<forall>c \<in> set ds. is_digit c"
  shows "\<exists>n. py_int ds = Inr n"
proof -
  have ch: "\<exists>d < 10. c = digit_char d" if "c \<in> set ds" for c using assms(2) digit_char_of that by blast
  have "strip ds = ds" by (rule strip_id) (use ch in force)
  moreover obtain c t where ct: "ds = c # t" using assms(1) by (cases ds) auto
  have "c \<noteq> CHR ''-'' \<and> c \<noteq> CHR ''+''" using ch [of c] ct by auto
  moreover have "list_all (\<lambda>c. case digit_val c of None \<Rightarrow> False | Some d \<Rightarrow> d < 10) ds"
    using ch by (fastforce simp: list_all_iff)
  ultimately show ?thesis using assms(1) by (auto simp: py_int_def ct read_digits_def)
qed

lemma re_number_int: "re_number sep s = Some (ds, rest) \<Longrightarrow> \<exists>n. py_int ds = Inr n"
  using re_number_digits py_int_digits by blast

text \<open>The events and ranges the lines hold are what \<open>read_line\<close> adds; no line makes it fail.\<close>

lemma match_numbers:
  "match_range line = Some (a, b, c, d, e) \<Longrightarrow> (\<exists>n. py_int d = Inr n) \<and> (\<exists>n. py_int e = Inr n)"
  "match_event_str line = Some (a, b, c, d) \<Longrightarrow> \<exists>n. py_int d = Inr n"
  "match_event_int line = Some (a, b, c, d) \<Longrightarrow> (\<exists>n. py_int c = Inr n) \<and> (\<exists>n. py_int d = Inr n)"
  by (auto simp: match_range_def match_event_str_def match_event_int_def split: Option.bind_splits)
    (erule re_number_int)+

lemma re_prefix_start:
  assumes "re_prefix p s \<noteq> None" and "m \<le> length p"
  shows "take m p = take m s"
proof -
  have "take (length p) s = p" using assms(1) by (simp add: re_prefix_def startswith_def split: if_splits)
  then have "take m p = take m (take (length p) s)" by simp
  with assms(2) show ?thesis by (simp add: min_def)
qed

lemma line_kinds:
  "match_range line = Some x \<Longrightarrow> match_event_str line = None" "match_range line = Some x \<Longrightarrow> match_event_int line = None"
  "match_event_str line = Some y \<Longrightarrow> match_event_int line = None"
proof -
  have re: "match_range line = Some x \<Longrightarrow> take 6 line = ''range ''"
    "match_event_str line = Some y \<Longrightarrow> take 7 line = ''event-s'' \<and> take 6 line = ''event-''"
    "match_event_int line = Some z \<Longrightarrow> take 7 line = ''event-i'' \<and> take 6 line = ''event-''" for x y z
    using re_prefix_start [of "''range ''" line 6] re_prefix_start [of "''event-str ''" line 7]
      re_prefix_start [of "''event-str ''" line 6] re_prefix_start [of "''event-int ''" line 7]
      re_prefix_start [of "''event-int ''" line 6]
    by (auto simp: match_range_def match_event_str_def match_event_int_def split: Option.bind_splits)
  show "match_range line = Some x \<Longrightarrow> match_event_str line = None" using re(1,2) by (cases "match_event_str line") auto
  show "match_range line = Some x \<Longrightarrow> match_event_int line = None" using re(1,3) by (cases "match_event_int line") auto
  show "match_event_str line = Some y \<Longrightarrow> match_event_int line = None" using re(2,3) by (cases "match_event_int line") auto
qed

definition opt_mset :: "'a option \<Rightarrow> 'a multiset" where
  "opt_mset x = (case x of None \<Rightarrow> {#} | Some a \<Rightarrow> {#a#})"

lemma read_line_adds:
  "\<exists>cs' ts'. read_line (cs, ts) line = Inr (cs', ts') \<and>
     all_ranges ts' = opt_mset (line_range line) + all_ranges ts \<and>
     all_strs ts' = opt_mset (line_str line) + all_strs ts \<and> all_ints ts' = opt_mset (line_int line) + all_ints ts"
proof -
  consider a b c d e where "match_range line = Some (a, b, c, d, e)"
    | a b c d where "match_range line = None" "match_event_str line = Some (a, b, c, d)"
    | a b c d where "match_range line = None" "match_event_str line = None" "match_event_int line = Some (a, b, c, d)"
    | "match_range line = None" "match_event_str line = None" "match_event_int line = None"
    by (metis option.exhaust prod_cases3 prod_cases4 prod_cases5)
  then show ?thesis
  proof cases
    case 1
    from match_numbers(1) [OF 1] obtain lo hi where "py_int d = Inr lo" "py_int e = Inr hi" by blast
    with 1 line_kinds(1,2) [OF 1] show ?thesis
      by (simp add: read_line_def line_range_def line_str_def line_int_def opt_mset_def put_all)
  next
    case 2
    from match_numbers(2) [OF 2(2)] obtain n where "py_int d = Inr n" by blast
    with 2 line_kinds(3) [OF 2(2)] show ?thesis
      by (simp add: read_line_def line_range_def line_str_def line_int_def opt_mset_def put_all)
  next
    case 3
    from match_numbers(3) [OF 3(3)] obtain v n where "py_int c = Inr v" "py_int d = Inr n" by blast
    with 3 show ?thesis
      by (simp add: read_line_def line_range_def line_str_def line_int_def opt_mset_def put_all)
  next
    case 4
    then show ?thesis
      by (auto simp: read_line_def line_range_def line_str_def line_int_def opt_mset_def split: option.splits)
  qed
qed

lemma opt_mset_filter: "mset (List.map_filter f (x # xs)) = opt_mset (f x) + mset (List.map_filter f xs)"
  by (simp add: map_filter_simps opt_mset_def split: option.splits)

lemma read_lines_adds:
  "\<exists>cs' ts'. foldM_r read_line (cs, ts) lines = Inr (cs', ts') \<and>
     all_ranges ts' = mset (List.map_filter line_range lines) + all_ranges ts \<and>
     all_strs ts' = mset (List.map_filter line_str lines) + all_strs ts \<and>
     all_ints ts' = mset (List.map_filter line_int lines) + all_ints ts"
proof (induction lines arbitrary: cs ts)
  case Nil
  then show ?case by (simp add: map_filter_simps)
next
  case (Cons line lines)
  obtain cs1 ts1 where 1: "read_line (cs, ts) line = Inr (cs1, ts1)"
    "all_ranges ts1 = opt_mset (line_range line) + all_ranges ts"
    "all_strs ts1 = opt_mset (line_str line) + all_strs ts" "all_ints ts1 = opt_mset (line_int line) + all_ints ts"
    using read_line_adds by blast
  obtain cs2 ts2 where 2: "foldM_r read_line (cs1, ts1) lines = Inr (cs2, ts2)"
    "all_ranges ts2 = mset (List.map_filter line_range lines) + all_ranges ts1"
    "all_strs ts2 = mset (List.map_filter line_str lines) + all_strs ts1"
    "all_ints ts2 = mset (List.map_filter line_int lines) + all_ints ts1"
    using Cons.IH by blast
  have "foldM_r read_line (cs, ts) (line # lines) = Inr (cs2, ts2)" by (simp add: 1(1) 2(1))
  then show ?case unfolding opt_mset_filter using 1(2-4) 2(2-4) by (simp add: ac_simps)
qed

lemma concat_mset_cong: "(\<And>x. mset (f x) = mset (g x)) \<Longrightarrow> mset (concat (map f xs)) = mset (concat (map g xs))"
  by (induction xs) auto

lemma timelines_sort_all:
  "all_ranges (timelines_sort ts) = all_ranges ts" "all_strs (timelines_sort ts) = all_strs ts"
  "all_ints (timelines_sort ts) = all_ints ts"
  unfolding all_ranges_def all_strs_def all_ints_def timelines_sort_def map_map
  by (rule concat_mset_cong; simp add: timeline_sort_def comp_def; rule concat_mset_cong; rule tdr_sort_sorted te_sort_sorted)+

text \<open>Every list of a timeline is in the order of time.\<close>

definition timeline_sorted :: "timeline \<Rightarrow> bool" where
  "timeline_sorted t \<longleftrightarrow> (\<forall>r \<in> set (ranges t). sorted (map range_start (tdr_ranges r))) \<and>
     (\<forall>e \<in> set (event_str t). sorted (map event_at (te_events e))) \<and>
     (\<forall>e \<in> set (event_int t). sorted (map event_at (te_events e)))"

lemma timeline_sort_sorted: "timeline_sorted (timeline_sort t)"
  by (auto simp: timeline_sorted_def timeline_sort_def tdr_sort_sorted te_sort_sorted)

lemma read_data_spec:
  "\<exists>cs ts. read_data lines = Inr (cs, ts) \<and>
     all_ranges ts = mset (List.map_filter line_range lines) \<and>
     all_strs ts = mset (List.map_filter line_str lines) \<and>
     all_ints ts = mset (List.map_filter line_int lines) \<and> list_all timeline_sorted ts"
proof -
  obtain cs ts where "foldM_r read_line (initial_colors, []) lines = Inr (cs, ts)"
    "all_ranges ts = mset (List.map_filter line_range lines) + all_ranges []"
    "all_strs ts = mset (List.map_filter line_str lines) + all_strs []"
    "all_ints ts = mset (List.map_filter line_int lines) + all_ints []"
    using read_lines_adds by blast
  then show ?thesis
    by (simp add: read_data_def timelines_sort_all all_ranges_def [of "[]"] all_strs_def [of "[]"] all_ints_def [of "[]"])
      (simp add: timelines_sort_def list_all_iff timeline_sort_sorted)
qed

text \<open>
  C2: \<open>read_data\<close> never raises, whatever the lines are: every range and every event of the lines ends up in
  the timelines, nothing else does, and every list is in the order of time.
\<close>

theorem read_data_complete:
  "\<exists>cs ts. read_data lines = Inr (cs, ts) \<and>
     all_ranges ts = mset (List.map_filter line_range lines) \<and>
     all_strs ts = mset (List.map_filter line_str lines) \<and>
     all_ints ts = mset (List.map_filter line_int lines) \<and> list_all timeline_sorted ts"
  by (rule read_data_spec)

section \<open>Names\<close>

definition names_ok :: "timeline list \<Rightarrow> bool" where
  "names_ok ts \<longleftrightarrow> distinct (map tl_name ts) \<and>
     list_all (\<lambda>t. distinct (map tdr_name (ranges t)) \<and> distinct (map te_name (event_str t)) \<and> distinct (map te_name (event_int t))) ts"

lemma list_all_update_at: "list_all P xs \<Longrightarrow> (\<And>x. P x \<Longrightarrow> P (g x)) \<Longrightarrow> i < length xs \<Longrightarrow> list_all P (update_at i g xs)"
  by (auto simp: update_at_def list_all_length nth_list_update)

lemma names_ok_put:
  assumes "names_ok ts" and "\<And>t. tl_name (g t) = tl_name t" and "\<And>t. names_ok [t] \<Longrightarrow> names_ok [g t]"
    and "get_or_append tl_name new_timeline name ts = (us, i)"
  shows "names_ok (update_at i g us)"
proof -
  have i: "i < length us" by (rule tl_ranges.get_or_append_spec(1) [OF assms(4)])
  have "distinct (map tl_name us)" using tl_ranges.get_or_append_spec(3) [OF assms(4)] assms(1) by (simp add: names_ok_def)
  moreover have "list_all (\<lambda>t. names_ok [t]) us"
    using assms(1,4) by (auto simp: names_ok_def list_all_iff get_or_append_def split: option.splits)
  then have "list_all (\<lambda>t. names_ok [t]) (update_at i g us)" using assms(3) i by (rule list_all_update_at)
  ultimately show ?thesis using map_update_at [OF i, of tl_name g] assms(2) by (simp add: names_ok_def)
qed

lemma distinct_put:
  "get_or_append tdr_name new_tdr name rs = (rs', i) \<Longrightarrow> distinct (map tdr_name rs) \<Longrightarrow>
     distinct (map tdr_name (update_at i (add_range r) rs'))"
  "get_or_append te_name new_te name es = (es', i) \<Longrightarrow> distinct (map te_name es) \<Longrightarrow>
     distinct (map te_name (update_at i (add_event e) es'))"
  by (simp add: map_update_at [OF data_ranges.get_or_append_spec(1)] data_ranges.get_or_append_spec(3) add_range_def)
    (simp add: map_update_at [OF data_events.get_or_append_spec(1)] data_events.get_or_append_spec(3) add_event_def)

lemma put_names:
  assumes "names_ok ts"
  shows "names_ok (put_range name rname r ts)" "names_ok (put_event_str name rname s ts)" "names_ok (put_event_int name rname k ts)"
proof -
  obtain us i where us: "get_or_append tl_name new_timeline name ts = (us, i)" by fastforce
  note put = names_ok_put [OF assms _ _ us]
  show "names_ok (put_range name rname r ts)" "names_ok (put_event_str name rname s ts)" "names_ok (put_event_int name rname k ts)"
    unfolding put_range_def put_event_str_def put_event_int_def timelines_get_def us Let_def prod.case
    by (rule put; auto simp: names_ok_def get_range_def get_event_str_def get_event_int_def split: prod.splits intro: distinct_put)+
qed

lemma read_line_names:
  assumes "names_ok (snd st)" and "read_line st line = Inr st'"
  shows "names_ok (snd st')"
  using assms put_names [OF assms(1)]
  by (cases st) (auto simp: read_line_def bind_r_eq_Inr_iff split: option.splits)

interpretation reader: event_system read_line "\<lambda>st. names_ok (snd st)"
  by unfold_locales (rule read_line_names)

text \<open>
  In what \<open>read_data\<close> returns the names are unique: no two timelines, and within a timeline no two
  ranges and no two event lines of a kind, have the same name, so the getters find all that was read under a
  name in one object.
\<close>

theorem read_data_names: "case read_data lines of Inl e \<Rightarrow> False | Inr (cs, ts) \<Rightarrow> names_ok ts"
proof -
  obtain cs ts where run: "foldM_r read_line (initial_colors, []) lines = Inr (cs, ts)"
    using read_lines_adds [of initial_colors "[]" lines] by blast
  have "names_ok ts" using reader.run_inv [OF _ run] by (simp add: names_ok_def)
  then have "names_ok (timelines_sort ts)"
    by (simp add: names_ok_def timelines_sort_def list_all_iff timeline_sort_def tdr_sort_def te_sort_def comp_def)
  with run show ?thesis by (simp add: read_data_def)
qed

section \<open>The timelines as maps\<close>

text \<open>
  The abstract contents: the ranges, the string events and the integer events under the name of a timeline and the name
  within it. A line appends to one entry of one of the three maps.
\<close>

type_synonym contents = "(string \<Rightarrow> string \<Rightarrow> data_range list) \<times> (string \<Rightarrow> string \<Rightarrow> string event list) \<times> (string \<Rightarrow> string \<Rightarrow> int event list)"

definition ranges_at :: "timeline \<Rightarrow> string \<Rightarrow> data_range list" where
  "ranges_at t = store_of tdr_name tdr_ranges [] (ranges t)"

definition strs_at :: "timeline \<Rightarrow> string \<Rightarrow> string event list" where
  "strs_at t = store_of te_name te_events [] (event_str t)"

definition ints_at :: "timeline \<Rightarrow> string \<Rightarrow> int event list" where
  "ints_at t = store_of te_name te_events [] (event_int t)"

definition contents_of :: "timeline list \<Rightarrow> contents" where
  "contents_of ts = (store_of tl_name ranges_at (\<lambda>_. []) ts, store_of tl_name strs_at (\<lambda>_. []) ts, store_of tl_name ints_at (\<lambda>_. []) ts)"

definition append_at :: "string \<Rightarrow> string \<Rightarrow> 'v \<Rightarrow> (string \<Rightarrow> string \<Rightarrow> 'v list) \<Rightarrow> string \<Rightarrow> string \<Rightarrow> 'v list" where
  "append_at a b v m = m(a := (m a)(b := m a b @ [v]))"

definition spec_line :: "contents \<Rightarrow> string \<Rightarrow> contents" where
  "spec_line c line = (case c of (rs, ss, is) \<Rightarrow>
     case match_range line of
       Some (a, b, v, lo, hi) \<Rightarrow> (append_at a b \<lparr>range_start = projr (py_int lo), range_end = projr (py_int hi), range_value = v\<rparr> rs, ss, is)
     | None \<Rightarrow>
     case match_event_str line of
       Some (a, b, v, t) \<Rightarrow> (rs, append_at a b \<lparr>event_at = projr (py_int t), event_value = v\<rparr> ss, is)
     | None \<Rightarrow>
     case match_event_int line of
       Some (a, b, v, t) \<Rightarrow> (rs, ss, append_at a b \<lparr>event_at = projr (py_int t), event_value = projr (py_int v)\<rparr> is)
     | None \<Rightarrow> (rs, ss, is))"

lemma store_new: "ranges_at (new_timeline n) = (\<lambda>_. [])" "strs_at (new_timeline n) = (\<lambda>_. [])" "ints_at (new_timeline n) = (\<lambda>_. [])"
  by (simp_all add: ranges_at_def strs_at_def ints_at_def store_of_def fun_eq_iff)

interpretation ranges_store: named_store tl_name new_timeline ranges_at "\<lambda>_. []"
  by unfold_locales (simp_all add: store_new)

interpretation strs_store: named_store tl_name new_timeline strs_at "\<lambda>_. []"
  by unfold_locales (simp_all add: store_new)

interpretation ints_store: named_store tl_name new_timeline ints_at "\<lambda>_. []"
  by unfold_locales (simp_all add: store_new)

lemma inner_put:
  "get_range b t = (t', j) \<Longrightarrow> ranges_at (t'\<lparr>ranges := update_at j (add_range r) (ranges t')\<rparr>) = (ranges_at t)(b := ranges_at t b @ [r])"
  "get_event_str b t = (t', j) \<Longrightarrow> strs_at (t'\<lparr>event_str := update_at j (add_event s) (event_str t')\<rparr>) = (strs_at t)(b := strs_at t b @ [s])"
  "get_event_int b t = (t', j) \<Longrightarrow> ints_at (t'\<lparr>event_int := update_at j (add_event k) (event_int t')\<rparr>) = (ints_at t)(b := ints_at t b @ [k])"
  using data_ranges.store_put [of b "ranges t" _ j "add_range r" "\<lambda>xs. xs @ [r]"]
    data_events.store_put [of b "event_str t" _ j "add_event s" "\<lambda>xs. xs @ [s]"]
    data_events.store_put [of b "event_int t" _ j "add_event k" "\<lambda>xs. xs @ [k]"]
  by (auto simp: get_range_def get_event_str_def get_event_int_def ranges_at_def strs_at_def ints_at_def add_range_def add_event_def
      split: prod.splits)

text \<open>Each of the three additions to the timelines is the corresponding addition to the maps.\<close>

lemma put_contents:
  "contents_of (put_range a b r ts) = (case contents_of ts of (rs, ss, is) \<Rightarrow> (append_at a b r rs, ss, is))"
  "contents_of (put_event_str a b s ts) = (case contents_of ts of (rs, ss, is) \<Rightarrow> (rs, append_at a b s ss, is))"
  "contents_of (put_event_int a b k ts) = (case contents_of ts of (rs, ss, is) \<Rightarrow> (rs, ss, append_at a b k is))"
proof -
  obtain us i where us: "get_or_append tl_name new_timeline a ts = (us, i)" by fastforce
  have get: "tl_name (fst (get_range b t)) = tl_name t" "tl_name (fst (get_event_str b t)) = tl_name t" "tl_name (fst (get_event_int b t)) = tl_name t"
    "event_str (fst (get_range b t)) = event_str t" "event_int (fst (get_range b t)) = event_int t"
    "ranges (fst (get_event_str b t)) = ranges t" "event_int (fst (get_event_str b t)) = event_int t"
    "ranges (fst (get_event_int b t)) = ranges t" "event_str (fst (get_event_int b t)) = event_str t" for t
    by (simp_all add: get_range_def get_event_str_def get_event_int_def split: prod.splits)
  note put = put_range_def put_event_str_def put_event_int_def timelines_get_def us Let_def prod.case case_prod_beta contents_of_def append_at_def
  let ?add = "\<lambda>v m. m(b := m b @ [v])"
  show "contents_of (put_range a b r ts) = (case contents_of ts of (rs, ss, is) \<Rightarrow> (append_at a b r rs, ss, is))"
    using ranges_store.store_put [OF us, of _ "?add r"] strs_store.store_put [OF us, of _ "\<lambda>m. m"] ints_store.store_put [OF us, of _ "\<lambda>m. m"]
    by (simp add: put inner_put(1) [OF prod.collapse [symmetric]] get strs_at_def ints_at_def)
  show "contents_of (put_event_str a b s ts) = (case contents_of ts of (rs, ss, is) \<Rightarrow> (rs, append_at a b s ss, is))"
    using ranges_store.store_put [OF us, of _ "\<lambda>m. m"] strs_store.store_put [OF us, of _ "?add s"] ints_store.store_put [OF us, of _ "\<lambda>m. m"]
    by (simp add: put inner_put(2) [OF prod.collapse [symmetric]] get ranges_at_def ints_at_def)
  show "contents_of (put_event_int a b k ts) = (case contents_of ts of (rs, ss, is) \<Rightarrow> (rs, ss, append_at a b k is))"
    using ranges_store.store_put [OF us, of _ "\<lambda>m. m"] strs_store.store_put [OF us, of _ "\<lambda>m. m"] ints_store.store_put [OF us, of _ "?add k"]
    by (simp add: put inner_put(3) [OF prod.collapse [symmetric]] get ranges_at_def strs_at_def)
qed

lemma read_line_refines:
  assumes "read_line (cs, ts) line = Inr (cs', ts')"
  shows "contents_of ts' = spec_line (contents_of ts) line"
proof -
  obtain rs ss "is" where c: "contents_of ts = (rs, ss, is)" by (metis prod_cases3)
  show ?thesis using assms
    by (auto simp: read_line_def spec_line_def c put_contents bind_r_eq_Inr_iff split: option.splits) (metis c)+
qed

lemma read_lines_refine:
  "foldM_r read_line (cs, ts) lines = Inr (cs', ts') \<Longrightarrow> contents_of ts' = foldl spec_line (contents_of ts) lines"
proof (induction lines arbitrary: cs ts)
  case (Cons line lines)
  then obtain cs1 ts1 where "read_line (cs, ts) line = Inr (cs1, ts1)" "foldM_r read_line (cs1, ts1) lines = Inr (cs', ts')"
    by (auto simp: bind_r_eq_Inr_iff)
  with Cons.IH show ?case by (simp add: read_line_refines)
qed simp

definition sorted_contents :: "contents \<Rightarrow> contents" where
  "sorted_contents c = (case c of (rs, ss, is) \<Rightarrow>
     (\<lambda>a b. py_sort (\<lambda>x y. ranges_cmp x y < 0) (rs a b), \<lambda>a b. py_sort (\<lambda>x y. events_cmp x y < 0) (ss a b),
      \<lambda>a b. py_sort (\<lambda>x y. events_cmp x y < 0) (is a b)))"

lemma store_of_map:
  assumes "\<And>x. nm (h x) = nm x" and "\<And>x. content (h x) = f (content x)" and "f nothing = nothing"
  shows "store_of nm content nothing (map h xs) = (\<lambda>n. f (store_of nm content nothing xs n))"
proof -
  have "position nm n (map h xs) = position nm n xs" for n
    using position_map [of nm n "map h xs"] position_map [of nm n xs] assms(1) by (simp add: comp_def)
  then show ?thesis using assms(2,3)
    by (auto simp: store_of_def fun_eq_iff dest: position_Some split: option.splits)
qed

lemma timelines_sort_contents: "contents_of (timelines_sort ts) = sorted_contents (contents_of ts)"
proof -
  have Nil: "py_sort lt [] = []" for lt :: "'x \<Rightarrow> 'x \<Rightarrow> bool" by (simp add: py_sort_def)
  have inner: "ranges_at (timeline_sort t) = (\<lambda>b. py_sort (\<lambda>x y. ranges_cmp x y < 0) (ranges_at t b))"
    "strs_at (timeline_sort t) = (\<lambda>b. py_sort (\<lambda>x y. events_cmp x y < 0) (strs_at t b))"
    "ints_at (timeline_sort t) = (\<lambda>b. py_sort (\<lambda>x y. events_cmp x y < 0) (ints_at t b))" for t
    unfolding ranges_at_def strs_at_def ints_at_def timeline_sort_def
    by (simp_all add: store_of_map [of _ _ _ "py_sort (\<lambda>x y. ranges_cmp x y < 0)"] store_of_map [of _ _ _ "py_sort (\<lambda>x y. events_cmp x y < 0)"]
        tdr_sort_def te_sort_def Nil)
  have name: "tl_name (timeline_sort t) = tl_name t" for t by (simp add: timeline_sort_def)
  note outer = store_of_map [of tl_name timeline_sort, OF name]
  show ?thesis unfolding contents_of_def timelines_sort_def sorted_contents_def prod.case
    by (simp add: outer [of ranges_at "\<lambda>m b. py_sort (\<lambda>x y. ranges_cmp x y < 0) (m b)"]
        outer [of strs_at "\<lambda>m b. py_sort (\<lambda>x y. events_cmp x y < 0) (m b)"]
        outer [of ints_at "\<lambda>m b. py_sort (\<lambda>x y. events_cmp x y < 0) (m b)"] inner Nil)
qed

text \<open>
  C3: the nested lists of timelines implement maps: what \<open>read_data\<close> returns holds, under the name of a
  timeline and the name of a range or event line, the entries that the lines append there one after the
  other, sorted by time with equal times in the order of the lines.
\<close>

theorem read_data_refines:
  "\<exists>cs ts. read_data lines = Inr (cs, ts) \<and>
     contents_of ts = sorted_contents (foldl spec_line (\<lambda>_ _. [], \<lambda>_ _. [], \<lambda>_ _. []) lines)"
proof -
  obtain cs ts where run: "foldM_r read_line (initial_colors, []) lines = Inr (cs, ts)"
    using read_lines_adds [of initial_colors "[]" lines] by blast
  have "contents_of [] = (\<lambda>_ _. [], \<lambda>_ _. [], \<lambda>_ _. [])" by (simp add: contents_of_def store_of_def fun_eq_iff)
  with read_lines_refine [OF run] run show ?thesis by (simp add: read_data_def timelines_sort_contents)
qed

section \<open>The bounds of the data\<close>

text \<open>The times are written with digits only, so none is negative.\<close>

lemma py_int_digits_nonneg:
  assumes "ds \<noteq> []" and "\<forall>c \<in> set ds. is_digit c" and "py_int ds = Inr n"
  shows "0 \<le> n"
proof -
  obtain c t where ct: "ds = c # t" using assms(1) by (cases ds) auto
  have ch: "\<exists>d < 10. c = digit_char d" if "c \<in> set ds" for c using assms(2) digit_char_of that by blast
  have "strip ds = ds" by (rule strip_id) (use ch in force)
  moreover have "c \<noteq> CHR ''-'' \<and> c \<noteq> CHR ''+''" using ch [of c] ct by auto
  ultimately show ?thesis using assms(3) by (auto simp: py_int_def ct split: option.splits if_splits)
qed

lemma re_number_nonneg: "re_number sep s = Some (ds, rest) \<Longrightarrow> 0 \<le> projr (py_int ds)"
  using re_number_digits [of sep s ds rest] py_int_digits [of ds] py_int_digits_nonneg [of ds] by force

lemma line_times_nonneg:
  "line_range line = Some r \<Longrightarrow> 0 \<le> range_start r \<and> 0 \<le> range_end r"
  "line_str line = Some e \<Longrightarrow> 0 \<le> event_at e" "line_int line = Some i \<Longrightarrow> 0 \<le> event_at i"
  by (auto simp: line_range_def line_str_def line_int_def match_range_def match_event_str_def match_event_int_def
      split: Option.bind_splits) (erule re_number_nonneg)+

lemma widen_nonneg:
  "\<forall>b \<in> set bs. 0 \<le> fst b \<Longrightarrow> 0 \<le> hi \<Longrightarrow> fst (foldl widen (0, hi) bs) = 0 \<and> hi \<le> snd (foldl widen (0, hi) bs)"
proof (induction bs arbitrary: hi)
  case (Cons b bs)
  obtain lo h where b: "b = (lo, h)" by (cases b)
  have "widen (0, hi) b = (0, max hi h)" using Cons.prems by (auto simp: b widen_def)
  with Cons.IH [of "max hi h"] Cons.prems show ?case by auto
qed simp

lemma widen_bounds: "\<forall>b \<in> set bs. 0 \<le> fst b \<Longrightarrow> 0 \<le> hi \<Longrightarrow> \<exists>hi' \<ge> hi. foldl widen (0, hi) bs = (0, hi')"
  using widen_nonneg [of bs hi] by (metis prod.collapse)

lemma bounds_nonneg:
  "\<forall>x \<in> set (tdr_ranges r). 0 \<le> range_start x \<Longrightarrow> 0 \<le> fst (tdr_bounds r)"
  "\<forall>x \<in> set (te_events e). 0 \<le> event_at x \<Longrightarrow> 0 \<le> fst (te_bounds e)"
  by (simp_all add: tdr_bounds_def te_bounds_def)

lemma timelines_bounds_nonneg:
  assumes "\<forall>r \<in># all_ranges ts. 0 \<le> range_start r" "\<forall>e \<in># all_strs ts. 0 \<le> event_at e" "\<forall>e \<in># all_ints ts. 0 \<le> event_at e"
  shows "\<exists>hi \<ge> 0. timelines_bounds ts = (0, hi)"
proof -
  have "fst (timeline_bounds t) = 0" if "t \<in> set ts" for t
  proof -
    have "0 \<le> fst (tdr_bounds r)" if "r \<in> set (ranges t)" for r
      by (rule bounds_nonneg) (use assms(1) that \<open>t \<in> set ts\<close> in \<open>force simp: all_ranges_def\<close>)
    then obtain h1 where h1: "0 \<le> h1" "foldl widen (0, 0) (map tdr_bounds (ranges t)) = (0, h1)"
      using widen_bounds [of "map tdr_bounds (ranges t)" 0] by auto
    have "0 \<le> fst (te_bounds e)" if "e \<in> set (event_str t)" for e
      by (rule bounds_nonneg) (use assms(2) that \<open>t \<in> set ts\<close> in \<open>force simp: all_strs_def\<close>)
    then obtain h2 where h2: "0 \<le> h2" "foldl widen (0, h1) (map te_bounds (event_str t)) = (0, h2)"
      using widen_bounds [of "map te_bounds (event_str t)" h1] h1(1) by auto
    have "0 \<le> fst (te_bounds e)" if "e \<in> set (event_int t)" for e
      by (rule bounds_nonneg) (use assms(3) that \<open>t \<in> set ts\<close> in \<open>force simp: all_ints_def\<close>)
    then obtain h3 where "foldl widen (0, h2) (map te_bounds (event_int t)) = (0, h3)"
      using widen_bounds [of "map te_bounds (event_int t)" h2] h2(1) by auto
    then show ?thesis by (simp add: timeline_bounds_def h1(2) h2(2))
  qed
  then show ?thesis using widen_bounds [of "map timeline_bounds ts" 0] by (auto simp: timelines_bounds_def)
qed

lemma read_data_bounds:
  assumes "read_data lines = Inr (cs, ts)"
  shows "\<exists>hi \<ge> 0. timelines_bounds ts = (0, hi)"
proof -
  have all: "all_ranges ts = mset (List.map_filter line_range lines)" "all_strs ts = mset (List.map_filter line_str lines)"
    "all_ints ts = mset (List.map_filter line_int lines)" using read_data_spec [of lines] assms by auto
  have set_filter: "x \<in> set (List.map_filter f lines) \<Longrightarrow> \<exists>l. f l = Some x" for x and f :: "string \<Rightarrow> 'x option"
    by (auto simp: List.map_filter_def)
  show ?thesis
    by (rule timelines_bounds_nonneg) (auto simp: all dest!: set_filter dest: line_times_nonneg)
qed

section \<open>The legend\<close>

lemma map_of_color_add: "map_of (color_dict (color_add name c cs)) = (map_of (color_dict cs))(name \<mapsto> c)"
  by (simp add: color_add_def update_conv')

definition uncoloured :: "colors \<Rightarrow> string list \<Rightarrow> nat" where
  "uncoloured cs vs = length (filter (\<lambda>v. map_of (color_dict cs) v = None) vs)"

lemma color_lookup_known: "map_of (color_dict cs) v = Some c \<Longrightarrow> color_lookup v cs = Inr (c, cs)"
  by (simp add: color_lookup_def)

lemma color_lookup_new:
  assumes "map_of (color_dict cs) v = None" and "default_colors cs \<noteq> []"
  obtains c cs' where "color_lookup v cs = Inr (c, cs')" "map_of (color_dict cs') = (map_of (color_dict cs))(v \<mapsto> c)"
    "length (default_colors cs') = length (default_colors cs) - 1"
  using assms that by (simp add: color_lookup_def map_of_color_add Let_def) (simp add: color_add_def)

lemma legend_colors_keep:
  "legend_colors vs cs = Inr (out, cs') \<Longrightarrow> map_of (color_dict cs) \<subseteq>\<^sub>m map_of (color_dict cs')"
proof (induction vs arbitrary: cs out)
  case (Cons v vs)
  then obtain c cs1 rest where 1: "color_lookup v cs = Inr (c, cs1)" "legend_colors vs cs1 = Inr (rest, cs')"
    by (auto simp: bind_r_eq_Inr_iff)
  have "map_of (color_dict cs) \<subseteq>\<^sub>m map_of (color_dict cs1)"
    using 1(1) by (auto simp: color_lookup_def Let_def map_of_color_add map_le_def split: option.splits if_splits)
  then show ?case using Cons.IH [OF 1(2)] by (rule map_le_trans)
qed simp

text \<open>What the loop does, given the number of values with no colour yet.\<close>

definition legend_spec :: "string list \<Rightarrow> colors \<Rightarrow> bool" where
  "legend_spec vs cs \<longleftrightarrow> (case legend_colors vs cs of
       Inr (out, cs') \<Rightarrow> uncoloured cs vs \<le> length (default_colors cs) \<and>
         list_all2 (\<lambda>v c. map_of (color_dict cs') v = Some c) vs out
     | Inl e \<Rightarrow> e = IndexError \<and> length (default_colors cs) < uncoloured cs vs)"

lemma legend_spec_step:
  assumes "color_lookup v cs = Inr (c, cs1)" and "map_of (color_dict cs1) v = Some c" and "legend_spec vs cs1"
    and "uncoloured cs (v # vs) + length (default_colors cs1) = uncoloured cs1 vs + length (default_colors cs)"
  shows "legend_spec (v # vs) cs"
proof (cases "legend_colors vs cs1")
  case (Inl e)
  with assms show ?thesis by (simp add: legend_spec_def)
next
  case (Inr r)
  obtain out cs2 where r: "r = (out, cs2)" by (cases r)
  have "map_of (color_dict cs2) v = Some c"
    using legend_colors_keep [OF Inr [unfolded r]] assms(2) by (metis domI map_le_def)
  with assms Inr r show ?thesis by (simp add: legend_spec_def)
qed

lemma legend_spec_all: "distinct vs \<Longrightarrow> legend_spec vs cs"
proof (induction vs arbitrary: cs)
  case Nil
  show ?case by (simp add: legend_spec_def uncoloured_def)
next
  case (Cons v vs cs)
  show ?case
  proof (cases "map_of (color_dict cs) v")
    case (Some c)
    with Cons show ?thesis by (intro legend_spec_step [OF color_lookup_known [OF Some]]) (auto simp: uncoloured_def)
  next
    case None
    show ?thesis
    proof (cases "default_colors cs = []")
      case True
      with None show ?thesis by (simp add: legend_spec_def color_lookup_def uncoloured_def)
    next
      case False
      obtain c cs1 where c: "color_lookup v cs = Inr (c, cs1)" "map_of (color_dict cs1) = (map_of (color_dict cs))(v \<mapsto> c)"
        "length (default_colors cs1) = length (default_colors cs) - 1" using color_lookup_new [OF None False] by blast
      have "uncoloured cs1 vs = uncoloured cs vs"
        unfolding uncoloured_def using Cons.prems c(2) by (intro arg_cong [of _ _ length] filter_cong) auto
      with Cons None False c show ?thesis
        by (intro legend_spec_step [OF c(1)]) (auto simp: uncoloured_def Suc_le_eq)
    qed
  qed
qed

text \<open>
  The loop of \<open>main\<close> assigns a colour to each of the distinct range values exactly when those with no
  \<open>color\<close> line are no more than the default colours left, six at first, and the colours it returns are those
  in the dictionary at the end; with one more value \<open>pop\<close> raises \<open>IndexError\<close>.
\<close>

theorem legend_colors_limit:
  assumes "distinct vs"
  shows "case legend_colors vs cs of
       Inr (out, cs') \<Rightarrow> uncoloured cs vs \<le> length (default_colors cs) \<and>
         list_all2 (\<lambda>v c. map_of (color_dict cs') v = Some c) vs out
     | Inl e \<Rightarrow> e = IndexError \<and> length (default_colors cs) < uncoloured cs vs"
  using legend_spec_all [OF assms] unfolding legend_spec_def .

theorem legend_colors_limit_witness:
  "(case legend_colors [''a'', ''b'', ''c'', ''d'', ''e'', ''f'', ''g''] initial_colors of
     Inr (out, cs') \<Rightarrow> False | Inl e \<Rightarrow> e = IndexError)"
  using legend_colors_limit [of "[''a'', ''b'', ''c'', ''d'', ''e'', ''f'', ''g'']" initial_colors]
  by (auto simp: uncoloured_def initial_colors_def split: sum.splits)

end
