(* ===== verification/PyNum.thy ===== *)
theory PyNum
  imports Prelude
begin

text \<open>
  The numbers of Python 2: integers and floats, with the rules that mix them. The quotient of two integers
  rounds down, any operation with a float gives a float. Floats are exact rationals. A number
  compares by its value, so \<open>1\<close> and \<open>1.0\<close> are equal in order and different as values of the model.
\<close>

section \<open>Arithmetic\<close>

datatype pynum = PInt int | PFloat rat

fun num_val :: "pynum \<Rightarrow> rat" where
  "num_val (PInt i) = of_int i"
| "num_val (PFloat r) = r"

fun is_int :: "pynum \<Rightarrow> bool" where
  "is_int (PInt i) = True"
| "is_int (PFloat r) = False"

fun lift_num :: "(int \<Rightarrow> int \<Rightarrow> int) \<Rightarrow> (rat \<Rightarrow> rat \<Rightarrow> rat) \<Rightarrow> pynum \<Rightarrow> pynum \<Rightarrow> pynum" where
  "lift_num f g (PInt a) (PInt b) = PInt (f a b)"
| "lift_num f g a b = PFloat (g (num_val a) (num_val b))"

lemma pynum_eqI: "num_val x = num_val y \<Longrightarrow> is_int x = is_int y \<Longrightarrow> x = y"
  by (cases x; cases y) auto

lemma is_int_lift [simp]: "is_int (lift_num f g x y) \<longleftrightarrow> is_int x \<and> is_int y"
  by (cases x; cases y) auto

lemma num_val_lift: "(\<And>a b. of_int (f a b) = g (of_int a) (of_int b)) \<Longrightarrow> num_val (lift_num f g x y) = g (num_val x) (num_val y)"
  by (cases x; cases y) auto

instantiation pynum :: "{plus, minus, times, one, zero}"
begin

definition plus_pynum :: "pynum \<Rightarrow> pynum \<Rightarrow> pynum" where "plus_pynum = lift_num (+) (+)"
definition minus_pynum :: "pynum \<Rightarrow> pynum \<Rightarrow> pynum" where "minus_pynum = lift_num (-) (-)"
definition times_pynum :: "pynum \<Rightarrow> pynum \<Rightarrow> pynum" where "times_pynum = lift_num (*) (*)"
definition one_pynum :: pynum where "one_pynum = PInt 1"
definition zero_pynum :: pynum where "zero_pynum = PInt 0"

instance ..

end

lemma num_val_ops [simp]:
  fixes x y :: pynum
  shows "num_val (x + y) = num_val x + num_val y" and "num_val (x - y) = num_val x - num_val y"
    and "num_val (x * y) = num_val x * num_val y" and "num_val 1 = 1" and "num_val 0 = 0"
  by (simp_all add: plus_pynum_def minus_pynum_def times_pynum_def one_pynum_def zero_pynum_def num_val_lift)

lemma is_int_ops [simp]:
  fixes x y :: pynum
  shows "is_int (x + y) \<longleftrightarrow> is_int x \<and> is_int y" and "is_int (x - y) \<longleftrightarrow> is_int x \<and> is_int y"
    and "is_int (x * y) \<longleftrightarrow> is_int x \<and> is_int y" and "is_int 1" and "is_int 0"
  by (simp_all add: plus_pynum_def minus_pynum_def times_pynum_def one_pynum_def zero_pynum_def)

instance pynum :: semigroup_add
  by standard (auto intro: pynum_eqI)

instance pynum :: numeral ..

lemma numeral_pynum: "numeral n = PInt (numeral n)"
proof -
  have "num_val (numeral n) = numeral n \<and> is_int (numeral n)"
    by (induction n) (simp_all only: numeral.simps num_val_ops is_int_ops simp_thms)
  then show ?thesis by (intro pynum_eqI) simp_all
qed

lemma num_val_numeral [simp]: "num_val (numeral n) = numeral n" and is_int_numeral [simp]: "is_int (numeral n)"
  by (simp_all add: numeral_pynum)

text \<open>The sums, differences and products of literals.\<close>

lemma pynum_int_ops [simp]:
  "PInt a + PInt b = PInt (a + b)" "PInt a - PInt b = PInt (a - b)" "PInt a * PInt b = PInt (a * b)"
  by (simp_all add: plus_pynum_def minus_pynum_def times_pynum_def)

section \<open>Order\<close>

instantiation pynum :: preorder
begin

definition less_eq_pynum :: "pynum \<Rightarrow> pynum \<Rightarrow> bool" where "less_eq_pynum x y \<longleftrightarrow> num_val x \<le> num_val y"
definition less_pynum :: "pynum \<Rightarrow> pynum \<Rightarrow> bool" where "less_pynum x y \<longleftrightarrow> num_val x < num_val y"

instance
  by standard (auto simp: less_eq_pynum_def less_pynum_def)

end

lemmas pynum_order = less_eq_pynum_def less_pynum_def

text \<open>Of two numbers with the same value \<open>max\<close> and \<open>min\<close> return the first.\<close>

definition py_max :: "pynum \<Rightarrow> pynum \<Rightarrow> pynum" where
  "py_max a b = (if a < b then b else a)"

definition py_min :: "pynum \<Rightarrow> pynum \<Rightarrow> pynum" where
  "py_min a b = (if b < a then b else a)"

definition num_abs :: "pynum \<Rightarrow> pynum" where
  "num_abs x = (case x of PInt i \<Rightarrow> PInt \<bar>i\<bar> | PFloat r \<Rightarrow> PFloat \<bar>r\<bar>)"

lemma num_val_max [simp]: "num_val (py_max a b) = max (num_val a) (num_val b)"
  by (simp add: py_max_def less_pynum_def max_def)

lemma num_val_min [simp]: "num_val (py_min a b) = min (num_val a) (num_val b)"
  by (simp add: py_min_def less_pynum_def min_def)

lemma num_val_abs [simp]: "num_val (num_abs x) = \<bar>num_val x\<bar>"
  by (simp add: num_abs_def split: pynum.splits)

section \<open>Division\<close>

definition py_div :: "pynum \<Rightarrow> pynum \<Rightarrow> pynum result" where
  "py_div x y =
     (if num_val y = 0 then Inl ZeroDivisionError
      else Inr (lift_num (div) (/) x y))"

definition py_mod :: "pynum \<Rightarrow> pynum \<Rightarrow> pynum result" where
  "py_mod x y =
     (if num_val y = 0 then Inl ZeroDivisionError
      else Inr (lift_num (mod) (\<lambda>a b. a - b * of_int \<lfloor>a / b\<rfloor>) x y))"

definition num_trunc :: "pynum \<Rightarrow> int" where
  "num_trunc x = (case x of PInt i \<Rightarrow> i | PFloat r \<Rightarrow> trunc r)"

lemma num_trunc_val: "num_trunc x = trunc (num_val x)"
  by (simp add: num_trunc_def split: pynum.splits)

lemma py_div_zero [simp]: "num_val y = 0 \<Longrightarrow> py_div x y = Inl ZeroDivisionError"
  and py_mod_zero [simp]: "num_val y = 0 \<Longrightarrow> py_mod x y = Inl ZeroDivisionError"
  by (simp_all add: py_div_def py_mod_def)

lemma py_div_int [simp]: "b \<noteq> 0 \<Longrightarrow> py_div (PInt a) (PInt b) = Inr (PInt (a div b))"
  by (simp add: py_div_def)

lemma py_div_float: "num_val y \<noteq> 0 \<Longrightarrow> \<not> (is_int x \<and> is_int y) \<Longrightarrow> py_div x y = Inr (PFloat (num_val x / num_val y))"
  by (cases x; cases y) (auto simp: py_div_def)

text \<open>The value of a quotient: exact with a float, rounded down otherwise.\<close>

lemma py_div_val:
  assumes "num_val y \<noteq> 0"
  shows "\<exists>z. py_div x y = Inr z \<and> is_int z = (is_int x \<and> is_int y) \<and>
    num_val z = (if is_int x \<and> is_int y then of_int \<lfloor>num_val x / num_val y\<rfloor> else num_val x / num_val y)"
  using assms by (cases x; cases y) (auto simp: py_div_def floor_divide_of_int_eq)

text \<open>The remainder has the value of \<open>x - y * floor (x / y)\<close> for integers and floats alike.\<close>

lemma py_mod_val:
  assumes "num_val y \<noteq> 0"
  shows "\<exists>z. py_mod x y = Inr z \<and> is_int z = (is_int x \<and> is_int y) \<and>
    num_val z = num_val x - num_val y * of_int \<lfloor>num_val x / num_val y\<rfloor>"
proof -
  have "rat_of_int (a mod b) = of_int a - of_int b * of_int \<lfloor>rat_of_int a / rat_of_int b\<rfloor>" for a b
    by (simp add: floor_divide_of_int_eq flip: of_int_mult of_int_diff minus_mult_div_eq_mod)
  with assms show ?thesis by (cases x; cases y) (auto simp: py_mod_def)
qed

text \<open>Half of a number; two is no zero, so the division returns.\<close>

definition half :: "pynum \<Rightarrow> pynum" where
  "half x = lift_num (div) (/) x 2"

lemma py_div_two: "py_div x 2 = Inr (half x)"
  by (simp add: py_div_def half_def)

text \<open>\<open>range(a, b, d)\<close> for integers.\<close>

definition py_range :: "int \<Rightarrow> int \<Rightarrow> int \<Rightarrow> int list result" where
  "py_range a b d =
     (if d = 0 then Inl ValueError
      else Inr (map (\<lambda>k. a + int k * d) [0..<nat (if d > 0 then (b - a + d - 1) div d else (a - b - d - 1) div (- d))]))"

lemma le_div_int_iff: "0 < d \<Longrightarrow> q \<le> n div d \<longleftrightarrow> q * d \<le> (n :: int)"
  using zdiv_mono1 [of "q * d" n d] mult_right_mono [of q "n div d" d] div_mult_mod_eq [of n d] pos_mod_sign [of d n]
  by (auto; linarith)

lemma py_range_up:
  assumes "0 < d"
  shows "\<exists>xs. py_range a b d = Inr xs \<and> sorted_wrt (<) xs \<and> set xs = {x. a \<le> x \<and> x < b \<and> d dvd x - a}"
proof -
  let ?xs = "map (\<lambda>k. a + int k * d) [0..<nat ((b - a + d - 1) div d)]"
  have bound: "int k * d < b - a \<longleftrightarrow> k < nat ((b - a + d - 1) div d)" for k
  proof -
    have "int k * d < b - a \<longleftrightarrow> (int k + 1) * d \<le> b - a + d - 1" by (simp add: algebra_simps) linarith
    also have "\<dots> \<longleftrightarrow> int k + 1 \<le> (b - a + d - 1) div d" using le_div_int_iff [OF assms] by simp
    finally show ?thesis by linarith
  qed
  have "x \<in> set ?xs" if "a \<le> x" "x < b" "d dvd x - a" for x
  proof -
    from that(3) obtain c where c: "x - a = d * c" by blast
    then have "0 \<le> c" using that(1) assms by (metis diff_ge_0_iff_ge mult_less_0_iff not_less)
    then have "x = a + int (nat c) * d" "int (nat c) * d < b - a" using c that(2) by (auto simp: algebra_simps)
    with bound show ?thesis by (simp only: set_map set_upt) (rule image_eqI [of _ _ "nat c"]; simp)
  qed
  then have "set ?xs = {x. a \<le> x \<and> x < b \<and> d dvd x - a}" using bound assms by (auto simp: algebra_simps)
  moreover have "sorted_wrt (<) ?xs" using assms by (simp add: sorted_wrt_map sorted_wrt_iff_nth_less)
  ultimately show ?thesis using assms by (simp add: py_range_def)
qed

end
