(* ===== verification/GridRender.thy ===== *)
theory GridRender
  imports GridData PyNum
begin

text \<open>
  The renderers of \<^verbatim>\<open>utils/grid.py\<close>: the legend, the timelines, the scales and \<open>GraphicRenderer\<close>, which
  lays them out and keeps the window of time that is shown. A drawing is the list of the calls made on
  the cairo context. The extents of a text (its vertical bearing, width and height, as floats) come from
  cairo and are the parameter \<open>ext\<close>. An attribute that the constructor leaves unset holds a default in the model
  until the call of \<open>layout\<close> or \<open>set_range\<close> that sets it.
\<close>

section \<open>Drawing\<close>

type_synonym extents = "string \<Rightarrow> rat \<times> rat \<times> rat"

definition y_bearing :: "extents \<Rightarrow> string \<Rightarrow> pynum" where "y_bearing ext s = PFloat (fst (ext s))"
definition t_width :: "extents \<Rightarrow> string \<Rightarrow> pynum" where "t_width ext s = PFloat (fst (snd (ext s)))"
definition t_height :: "extents \<Rightarrow> string \<Rightarrow> pynum" where "t_height ext s = PFloat (snd (snd (ext s)))"

datatype cairo =
    Rectangle pynum pynum pynum pynum | Move_to pynum pynum | Line_to pynum pynum | Rel_line_to pynum pynum
  | Close_path | Set_source_rgb color | Set_line_width pynum | Set_operator_source | Set_dash "int list" int
  | Stroke | Stroke_preserve | Fill | Show_text string | Save | Restore | Translate pynum pynum
  | Clip | Set_source_surface "cairo list" | Paint

definition black :: color where "black = (0, 0, 0)"
definition grey :: color where "grey = (9/10, 9/10, 9/10)"
definition white :: color where "white = (1, 1, 1)"

definition alphabet :: string where
  "alphabet = ''ABCDEFGHIJKLMNOPQRSTUVWXYZabcedefghijklmnopqrstuvwxyz0123456789''"

section \<open>The legend\<close>

record legend =
  lg_padding :: pynum
  lg_legends :: "string list"
  lg_colors :: "color list"
  lg_width :: pynum
  lg_height :: pynum

definition new_legend :: legend where
  "new_legend = \<lparr>lg_padding = 10, lg_legends = [], lg_colors = [], lg_width = 0, lg_height = 0\<rparr>"

definition set_padding :: "pynum \<Rightarrow> legend \<Rightarrow> legend" where
  "set_padding p lg = lg\<lparr>lg_padding := p\<rparr>"

definition set_legends :: "string list \<Rightarrow> color list \<Rightarrow> legend \<Rightarrow> legend" where
  "set_legends ls cs lg = lg\<lparr>lg_legends := ls, lg_colors := cs\<rparr>"

text \<open>
  The body of the loop of \<open>layout\<close> and \<open>draw\<close>. The state is \<open>line_height\<close>, \<open>total_height\<close> and \<open>line_used\<close>; the
  result has \<open>x\<close> as well.
\<close>

definition item_width :: "extents \<Rightarrow> legend \<Rightarrow> string \<Rightarrow> pynum" where
  "item_width ext lg l = lg_padding lg + lg_padding lg + t_width ext l + lg_padding lg"

definition legend_item :: "extents \<Rightarrow> legend \<Rightarrow> pynum \<times> pynum \<times> pynum \<Rightarrow> string \<Rightarrow> pynum \<times> pynum \<times> pynum \<times> pynum" where
  "legend_item ext lg st l =
     (case st of (line_height, total_height, line_used) \<Rightarrow>
      let w = item_width ext lg l;
          item_height = t_height ext l + lg_padding lg;
          line_height = (if item_height > line_height then item_height else line_height);
          (line_used, total_height) =
            (if line_used + w > lg_width lg then (lg_padding lg + w, total_height + line_height)
             else (line_used + w, total_height))
      in (line_used - w, line_height, total_height, line_used))"

definition legend_start :: "legend \<Rightarrow> pynum \<times> pynum \<times> pynum" where
  "legend_start lg = (0, lg_padding lg, lg_padding lg)"

definition legend_layout :: "extents \<Rightarrow> pynum \<Rightarrow> legend \<Rightarrow> legend" where
  "legend_layout ext width lg =
     (let lg = lg\<lparr>lg_width := width\<rparr>;
          (line_height, total_height, line_used) = foldl (\<lambda>st l. snd (legend_item ext lg st l)) (legend_start lg) (lg_legends lg)
      in lg\<lparr>lg_height := total_height + line_height\<rparr>)"

fun legend_draw_items :: "extents \<Rightarrow> legend \<Rightarrow> nat \<Rightarrow> pynum \<times> pynum \<times> pynum \<Rightarrow> string list \<Rightarrow> cairo list result" where
  "legend_draw_items ext lg i st [] = Inr []"
| "legend_draw_items ext lg i st (l # ls) =
     (let (x, st') = legend_item ext lg st l; total_height = fst (snd st'); p = lg_padding lg
      in bind_r (py_index (lg_colors lg) (int i)) (\<lambda>c.
         bind_r (legend_draw_items ext lg (Suc i) st' ls) (\<lambda>rest.
           Inr ([Rectangle x total_height p p, Set_source_rgb black, Set_line_width 2, Stroke_preserve,
                 Set_source_rgb c, Fill, Move_to (x + p * 2) (total_height + t_height ext l),
                 Set_source_rgb black, Show_text l] @ rest))))"

definition legend_draw :: "extents \<Rightarrow> legend \<Rightarrow> cairo list result" where
  "legend_draw ext lg = legend_draw_items ext lg 0 (legend_start lg) (lg_legends lg)"

section \<open>The timelines\<close>

record data_view =
  dv_padding :: pynum
  dv_timelines :: "timeline list"
  dv_colors :: colors
  dv_start :: pynum
  dv_end :: pynum
  left_width :: pynum
  right_width :: pynum
  max_text_height :: pynum
  dv_width :: pynum
  dv_height :: pynum
  grey_background :: int

definition new_data_view :: "timeline list \<Rightarrow> colors \<Rightarrow> data_view" where
  "new_data_view ts cs = \<lparr>dv_padding = 10, dv_timelines = ts, dv_colors = cs, dv_start = 0, dv_end = 0,
     left_width = 0, right_width = 0, max_text_height = 0, dv_width = 0, dv_height = 0, grey_background = 0\<rparr>"

definition set_render_range :: "pynum \<Rightarrow> pynum \<Rightarrow> data_view \<Rightarrow> data_view" where
  "set_render_range start stop dv = dv\<lparr>dv_start := start, dv_end := stop\<rparr>"

definition get_data_x_start :: "data_view \<Rightarrow> pynum" where
  "get_data_x_start dv = half (dv_padding dv) + left_width dv + dv_padding dv + right_width dv + half (dv_padding dv)"

definition widest :: "extents \<Rightarrow> pynum \<Rightarrow> string list \<Rightarrow> pynum" where
  "widest ext w names = foldl (\<lambda>w s. py_max w (t_width ext s)) w names"

definition dv_layout :: "extents \<Rightarrow> pynum \<Rightarrow> data_view \<Rightarrow> data_view" where
  "dv_layout ext width dv =
     (let ts = dv_timelines dv;
          th = t_height ext alphabet;
          lw = widest ext 0 (map tl_name ts);
          rw = foldl (\<lambda>w t. widest ext (widest ext (widest ext w (map tdr_name (ranges t)))
                 (map te_name (event_int t))) (map te_name (event_str t))) 0 ts;
          left_n = PInt (int (length ts));
          range_n = PInt (int (length (concat (map ranges ts))));
          eventint_n = PInt (int (length (concat (map event_int ts))));
          eventstr_n = PInt (int (length (concat (map event_str ts))));
          p = dv_padding dv;
          left_h = left_n * th + (left_n - 1) * p;
          right_n = range_n + eventint_n + eventstr_n;
          right_h = (right_n - 1) * p + right_n * th;
          right_data_h = (eventint_n + eventstr_n) * (th + 5) + range_n * 10 + (right_n - 1) * p;
          h = py_max (py_max left_h right_h) right_data_h
      in dv\<lparr>left_width := lw, right_width := rw, max_text_height := th, dv_width := width, dv_height := h + p\<rparr>)"

definition draw_line :: "pynum \<Rightarrow> pynum \<Rightarrow> pynum \<Rightarrow> pynum \<Rightarrow> cairo list" where
  "draw_line x y width height =
     [Move_to x y, Rel_line_to width height, Close_path, Set_operator_source, Set_line_width (PFloat 1),
      Set_source_rgb black, Stroke]"

definition background :: "data_view \<Rightarrow> pynum \<Rightarrow> pynum \<Rightarrow> pynum \<Rightarrow> pynum \<Rightarrow> cairo list" where
  "background dv x y width height =
     (if grey_background dv mod 2 = 0
      then [Rectangle x (y - half (dv_padding dv)) width (height + dv_padding dv), Set_source_rgb grey, Fill]
      else [])"

text \<open>The column of pixels of the time \<open>t\<close>.\<close>

definition data_x :: "data_view \<Rightarrow> pynum \<Rightarrow> pynum \<Rightarrow> pynum \<Rightarrow> int result" where
  "data_x dv x width t =
     bind_r (py_div ((t - dv_start dv) * width) (dv_end dv - dv_start dv)) (\<lambda>q. Inr (num_trunc (x + q)))"

fun draw_event_list :: "data_view \<Rightarrow> ('v \<Rightarrow> string) \<Rightarrow> pynum \<Rightarrow> pynum \<Rightarrow> pynum \<Rightarrow> int \<Rightarrow> 'v event list \<Rightarrow> cairo list result" where
  "draw_event_list dv str x y width last_x [] = Inr []"
| "draw_event_list dv str x y width last_x (e # es) =
     bind_r (data_x dv x width (PInt (event_at e))) (\<lambda>real_x.
       if real_x > last_x + 2
       then bind_r (draw_event_list dv str x y width real_x es) (\<lambda>rest.
              Inr ([Rectangle (PInt real_x) y 1 1, Set_source_rgb (1, 0, 0), Stroke,
                    Move_to (PInt real_x) (y + max_text_height dv), Set_source_rgb black,
                    Show_text (str (event_value e))] @ rest))
       else draw_event_list dv str x y width last_x es)"

definition draw_events ::
  "('v \<Rightarrow> string) \<Rightarrow> 'v timeline_event \<Rightarrow> pynum \<Rightarrow> pynum \<Rightarrow> pynum \<Rightarrow> pynum \<Rightarrow> data_view \<Rightarrow> (cairo list \<times> data_view) result" where
  "draw_events str events x y width height dv =
     (let (lo, hi) = get_events_bounds events (num_val (dv_start dv)) (num_val (dv_end dv))
      in bind_r (draw_event_list dv str x y width (num_trunc x) (py_slice (te_events events) lo hi)) (\<lambda>ops.
           Inr (background dv x y width height @ ops, dv\<lparr>grey_background := grey_background dv + 1\<rparr>)))"

fun draw_range_list ::
  "data_view \<Rightarrow> pynum \<Rightarrow> pynum \<Rightarrow> pynum \<Rightarrow> int \<Rightarrow> colors \<Rightarrow> data_range list \<Rightarrow> (cairo list \<times> colors) result" where
  "draw_range_list dv x y width last_x cs [] = Inr ([], cs)"
| "draw_range_list dv x y width last_x cs (r # rs) =
     (let s = py_max (PInt (range_start r)) (dv_start dv); e = py_min (PInt (range_end r)) (dv_end dv)
      in bind_r (data_x dv x width s) (\<lambda>x_start. bind_r (data_x dv x width e) (\<lambda>x_end.
           if x_end > last_x
           then bind_r (color_lookup (range_value r) cs) (\<lambda>(c, cs).
                bind_r (draw_range_list dv x y width x_end cs rs) (\<lambda>(rest, cs).
                  Inr ([Rectangle (PInt x_start) y (PInt (x_end - x_start)) 10, Set_source_rgb black, Stroke_preserve,
                        Set_source_rgb c, Fill] @ rest, cs)))
           else draw_range_list dv x y width last_x cs rs)))"

definition draw_ranges ::
  "timeline_data_range \<Rightarrow> pynum \<Rightarrow> pynum \<Rightarrow> pynum \<Rightarrow> pynum \<Rightarrow> data_view \<Rightarrow> (cairo list \<times> data_view) result" where
  "draw_ranges rs x y width height dv =
     (let (lo, hi) = get_ranges_bounds rs (num_val (dv_start dv)) (num_val (dv_end dv))
      in bind_r (draw_range_list dv x y width (num_trunc (x - 1)) (dv_colors dv) (py_slice (tdr_ranges rs) lo hi)) (\<lambda>(ops, cs).
           Inr (background dv x y width height @ ops,
                dv\<lparr>dv_colors := cs, grey_background := grey_background dv + 1\<rparr>)))"

text \<open>
  One row of the right pane: the name, the data, and a line below. The state is the drawing so far, \<open>cur_y\<close>
  and the renderer.
\<close>

definition right_x_start :: "data_view \<Rightarrow> pynum" where
  "right_x_start dv = half (dv_padding dv) + left_width dv + dv_padding dv"

definition data_width :: "data_view \<Rightarrow> pynum" where
  "data_width dv = dv_width dv - (right_x_start dv + right_width dv + half (dv_padding dv))"

definition text_at :: "extents \<Rightarrow> data_view \<Rightarrow> pynum \<Rightarrow> pynum \<Rightarrow> string \<Rightarrow> cairo list" where
  "text_at ext dv x cur_y name =
     [Move_to x (cur_y + max_text_height dv - (t_height ext name + y_bearing ext name)), Show_text name]"

definition draw_row ::
  "extents \<Rightarrow> string \<Rightarrow> (pynum \<Rightarrow> pynum \<Rightarrow> pynum \<Rightarrow> data_view \<Rightarrow> (cairo list \<times> data_view) result) \<Rightarrow> pynum \<Rightarrow>
   cairo list \<times> pynum \<times> data_view \<Rightarrow> (cairo list \<times> pynum \<times> data_view) result" where
  "draw_row ext name draw row_height st =
     (case st of (ops, cur_y, dv) \<Rightarrow>
      bind_r (draw (right_x_start dv + right_width dv + half (dv_padding dv)) cur_y (data_width dv) dv) (\<lambda>(data_ops, dv).
        let y = cur_y + (row_height + dv_padding dv)
        in Inr (ops @ text_at ext dv (right_x_start dv) cur_y name @ data_ops @
                draw_line (right_x_start dv - half (dv_padding dv)) (y - half (dv_padding dv)) (right_width dv + dv_padding dv) 0,
                y, dv)))"

definition draw_timeline ::
  "extents \<Rightarrow> cairo list \<times> pynum \<times> data_view \<Rightarrow> timeline \<Rightarrow> (cairo list \<times> pynum \<times> data_view) result" where
  "draw_timeline ext st t =
     (case st of (ops, cur_y, dv) \<Rightarrow>
      let h = max_text_height dv
      in bind_r (foldM_r (\<lambda>st e. draw_row ext (te_name e) (\<lambda>x y w. draw_events str_of_int e x y w (h + 5)) (h + 5) st)
           (ops @ text_at ext dv (half (dv_padding dv)) cur_y (tl_name t), cur_y, dv) (event_int t)) (\<lambda>st.
         bind_r (foldM_r (\<lambda>st e. draw_row ext (te_name e) (\<lambda>x y w. draw_events (\<lambda>v. v) e x y w (h + 5)) (h + 5) st)
           st (event_str t)) (\<lambda>st.
         bind_r (foldM_r (\<lambda>st r. draw_row ext (tdr_name r) (\<lambda>x y w. draw_ranges r x y w 10) h st)
           st (ranges t)) (\<lambda>(ops, cur_y, dv).
           Inr (ops @ draw_line 0 (cur_y - half (dv_padding dv)) (dv_width dv) 0, cur_y, dv)))))"

definition dv_draw :: "extents \<Rightarrow> data_view \<Rightarrow> (cairo list \<times> data_view) result" where
  "dv_draw ext dv =
     (let dv = dv\<lparr>grey_background := 1\<rparr>; p = half (dv_padding dv)
      in bind_r (foldM_r (draw_timeline ext) (draw_line 0 0 (dv_width dv) 0, p, dv) (dv_timelines dv)) (\<lambda>(ops, cur_y, dv).
         let bot_y = cur_y - p; left_x_end = p + left_width dv; right_x_end = right_x_start dv + right_width dv
         in Inr (ops @ draw_line (left_x_end + p) 0 0 bot_y @ draw_line (right_x_end + p) 0 0 bot_y, dv)))"

section \<open>The scales\<close>

record scale =
  sc_top :: bool
  sc_lo :: pynum
  sc_hi :: pynum
  sc_delta :: pynum
  sc_width :: pynum
  sc_height :: pynum
  sc_text_height :: pynum

definition new_scale :: scale where
  "new_scale = \<lparr>sc_top = False, sc_lo = 0, sc_hi = 0, sc_delta = 0, sc_width = 0, sc_height = 0, sc_text_height = 0\<rparr>"

definition set_bounds :: "pynum \<Rightarrow> pynum \<Rightarrow> scale \<Rightarrow> scale" where
  "set_bounds lo hi sc = sc\<lparr>sc_lo := lo, sc_hi := hi\<rparr>"

definition set_top :: "scale \<Rightarrow> scale" where "set_top sc = sc\<lparr>sc_top := True\<rparr>"
definition set_bot :: "scale \<Rightarrow> scale" where "set_bot sc = sc\<lparr>sc_top := False\<rparr>"

definition get_position :: "scale \<Rightarrow> pynum \<Rightarrow> pynum result" where
  "get_position sc x = py_div ((x - sc_lo sc) * sc_width sc) (sc_hi sc - sc_lo sc)"

text \<open>The loop that looks for \<open>closest\<close>, which is a power of ten after every turn.\<close>

function scale_closest :: "nat \<Rightarrow> pynum \<Rightarrow> int" where
  "scale_closest n data_delta =
     (if PInt (10 ^ n * 10) < data_delta then scale_closest (Suc n) data_delta else 10 ^ n)"
  by pat_completeness auto
termination
proof (relation "measure (\<lambda>(n, d). nat \<lceil>num_val d\<rceil> - n)")
  fix n data_delta
  assume "PInt (10 ^ n * 10) < data_delta"
  then have "rat_of_int (10 ^ n * 10) < num_val data_delta" by (simp add: less_pynum_def)
  then have "10 ^ n * 10 < \<lceil>num_val data_delta\<rceil>" by (simp only: less_ceiling_iff)
  moreover have "int n < int (10 ^ n)" by (simp only: of_nat_less_iff) (simp add: power_gt_expt)
  then have "int n < 10 ^ n" unfolding of_nat_power by simp
  ultimately have "n < nat \<lceil>num_val data_delta\<rceil>" by linarith
  then show "((Suc n, data_delta), n, data_delta) \<in> measure (\<lambda>(n, d). nat \<lceil>num_val d\<rceil> - n)" by simp
qed auto

declare scale_closest.simps [simp del]

definition scale_delta :: "scale \<Rightarrow> pynum result" where
  "scale_delta sc =
     (let data_delta = sc_hi sc - sc_lo sc; closest = scale_closest 0 data_delta
      in bind_r (py_div data_delta (PInt closest)) (\<lambda>q.
         Inr (PInt (if num_val q = 0 then closest else if num_val q = 1 then closest div 10 else closest))))"

definition scale_layout :: "extents \<Rightarrow> pynum \<Rightarrow> scale \<Rightarrow> scale result" where
  "scale_layout ext width sc =
     bind_r (scale_delta sc) (\<lambda>delta.
     bind_r (py_mod (sc_lo sc) delta) (\<lambda>lo_rem.
     bind_r (py_mod (sc_hi sc) delta) (\<lambda>hi_rem.
       Inr (sc\<lparr>sc_delta := delta, sc_width := width, sc_text_height := t_height ext alphabet,
               sc_height := t_height ext alphabet + 10\<rparr>))))"

definition scale_ticks :: "scale \<Rightarrow> pynum \<Rightarrow> int list result" where
  "scale_ticks sc delta =
     bind_r (py_mod (sc_lo sc) delta) (\<lambda>lo_rem.
     bind_r (py_mod (sc_hi sc) delta) (\<lambda>hi_rem.
     let start = sc_lo sc - lo_rem + delta; stop = sc_hi sc - hi_rem
     in py_range (num_trunc start) (num_trunc (stop + delta)) (num_trunc delta)))"

definition tick :: "pynum \<Rightarrow> pynum \<Rightarrow> cairo list" where
  "tick real_x len = [Move_to real_x 0, Line_to real_x len, Close_path, Stroke]"

definition scale_draw :: "extents \<Rightarrow> scale \<Rightarrow> cairo list result" where
  "scale_draw ext sc =
     (let delta = sc_delta sc; s = (if sc_top sc then PInt (- 1) else 1)
      in bind_r (scale_ticks sc delta) (\<lambda>ticks.
         bind_r (mapM_r (\<lambda>x. bind_r (get_position sc (PInt x)) (\<lambda>real_x.
           let text = str_of_int x;
               text_delta = (if sc_top sc then t_height ext text + y_bearing ext text else 0 - y_bearing ext text)
           in Inr (tick real_x (5 * s) @ [Move_to (real_x - half (t_width ext text)) ((5 + 5 + text_delta) * s), Show_text text])))
           ticks) (\<lambda>main.
         bind_r (py_div delta 10) (\<lambda>sub.
         bind_r (if sub > 0
                 then bind_r (scale_ticks sc sub) (mapM_r (\<lambda>x. bind_r (get_position sc (PInt x)) (\<lambda>real_x. Inr (tick real_x (3 * s)))))
                 else Inr []) (\<lambda>subs.
           Inr ([Set_source_rgb black, Set_line_width (PFloat 1)] @ concat main @ concat subs))))))"

section \<open>The graphic\<close>

record graphic =
  g_start :: pynum
  g_end :: pynum
  mid_scale :: scale
  bot_scale :: scale
  g_width :: pynum
  g_height :: pynum
  r_start :: pynum
  r_end :: pynum
  g_data :: data_view
  top_legend :: legend

definition new_graphic :: "int \<Rightarrow> int \<Rightarrow> legend \<Rightarrow> data_view \<Rightarrow> graphic" where
  "new_graphic start stop lg dv =
     \<lparr>g_start = PFloat (of_int start), g_end = PFloat (of_int stop), mid_scale = set_top new_scale,
      bot_scale = set_bot (set_bounds (PInt start) (PInt stop) new_scale), g_width = 1, g_height = 1,
      r_start = 0, r_end = 0, g_data = dv, top_legend = lg\<rparr>"

definition get_data_rectangle :: "graphic \<Rightarrow> pynum \<times> pynum \<times> pynum \<times> pynum" where
  "get_data_rectangle g =
     (let x_start = get_data_x_start (g_data g)
      in (x_start, lg_height (top_legend g), g_width g - x_start, dv_height (g_data g)))"

definition scale_data :: "graphic \<Rightarrow> pynum \<Rightarrow> pynum result" where
  "scale_data g x =
     bind_r (py_div x (g_width g - get_data_x_start (g_data g))) (\<lambda>q. Inr (q * (r_end g - r_start g)))"

definition get_selection_rectangle :: "graphic \<Rightarrow> (pynum \<times> pynum \<times> pynum \<times> pynum) result" where
  "get_selection_rectangle g =
     (let y_start = lg_height (top_legend g) + dv_height (g_data g) + sc_height (mid_scale g) + 20;
          y_height = sc_height (bot_scale g) + 20
      in bind_r (get_position (bot_scale g) (r_start g)) (\<lambda>x_start.
         bind_r (get_position (bot_scale g) (r_end g)) (\<lambda>x_end. Inr (x_start, y_start, x_end - x_start, y_height))))"

definition scale_selection :: "graphic \<Rightarrow> pynum \<Rightarrow> pynum result" where
  "scale_selection g x = bind_r (py_div x (g_width g)) (\<lambda>q. Inr (q * (g_end g - g_start g)))"

definition layout :: "extents \<Rightarrow> pynum \<Rightarrow> pynum \<Rightarrow> graphic \<Rightarrow> graphic result" where
  "layout ext width height g =
     (let lg = legend_layout ext width (top_legend g); dv = dv_layout ext width (g_data g)
      in bind_r (scale_layout ext (width - get_data_x_start dv) (mid_scale g)) (\<lambda>mid.
         bind_r (scale_layout ext width (bot_scale g)) (\<lambda>bot.
           Inr (g\<lparr>g_width := width, g_height := height, top_legend := lg, g_data := dv, mid_scale := mid, bot_scale := bot\<rparr>))))"

definition set_range :: "extents \<Rightarrow> pynum \<Rightarrow> pynum \<Rightarrow> graphic \<Rightarrow> graphic result" where
  "set_range ext start stop g =
     (let s = py_min start stop; e = py_max start stop;
          start = py_max (g_start g) s; stop = py_min (g_end g) e
      in layout ext (g_width g) (g_height g)
           (g\<lparr>r_start := start, r_end := stop, g_data := set_render_range start stop (g_data g),
              mid_scale := set_bounds start stop (mid_scale g)\<rparr>))"

definition x_pixel :: "graphic \<Rightarrow> pynum \<Rightarrow> pynum \<Rightarrow> pynum result" where
  "x_pixel g x width = py_div ((x - g_start g) * width) (g_end g - g_start g)"

definition stroke_line :: "pynum \<Rightarrow> pynum \<Rightarrow> pynum \<Rightarrow> pynum \<Rightarrow> cairo list" where
  "stroke_line x y x' y' =
     [Move_to x y, Line_to x' y', Close_path, Set_line_width 2, Set_source_rgb black, Stroke]"

text \<open>The part of \<open>draw\<close> below the data: the connection to the bottom scale and its border.\<close>

definition fill_grey :: "cairo list" where
  "fill_grey = [Set_source_rgb black, Set_line_width 1, Stroke_preserve, Set_source_rgb grey, Fill]"

definition draw_selection :: "graphic \<Rightarrow> pynum \<Rightarrow> pynum \<Rightarrow> pynum \<Rightarrow> cairo list" where
  "draw_selection g height_used sel_start sel_end =
     (let w = g_width g; h = height_used + 20; uh = sc_height (bot_scale g) + 20
      in [Move_to 0 height_used, Line_to (get_data_x_start (g_data g)) height_used, Line_to sel_start h, Line_to 0 h,
          Line_to 0 height_used] @ fill_grey @
         [Move_to w height_used, Line_to w h, Line_to sel_end h, Line_to w height_used] @ fill_grey @
         [Rectangle 0 h sel_start uh, Rectangle sel_end h (w - sel_end) uh, Set_source_rgb grey, Fill,
          Move_to sel_end h, Line_to w h, Line_to w (h + uh), Line_to 0 (h + uh), Line_to 0 h, Line_to sel_start h,
          Close_path, Set_line_width 2, Set_source_rgb black, Stroke,
          Move_to sel_start h, Line_to sel_end h, Close_path, Set_line_width 1, Set_source_rgb grey, Stroke,
          Save, Move_to (py_max sel_start 2) h, Rel_line_to 0 uh, Move_to (py_min sel_end (w - 2)) h, Rel_line_to 0 uh,
          Set_dash [5] 0, Set_source_rgb black, Set_line_width 1, Stroke, Restore])"

definition graphic_draw :: "extents \<Rightarrow> graphic \<Rightarrow> (cairo list \<times> graphic) result" where
  "graphic_draw ext g =
     (let top_h = lg_height (top_legend g)
      in bind_r (legend_draw ext (top_legend g)) (\<lambda>legend_ops.
         bind_r (dv_draw ext (g_data g)) (\<lambda>(data_ops, dv).
         bind_r (scale_draw ext (mid_scale g)) (\<lambda>mid_ops.
         let g = g\<lparr>g_data := dv\<rparr>;
             height_used = top_h + dv_height dv + sc_height (mid_scale g)
         in bind_r (get_position (bot_scale g) (r_start g)) (\<lambda>sel_start.
            bind_r (get_position (bot_scale g) (r_end g)) (\<lambda>sel_end.
            bind_r (scale_draw ext (bot_scale g)) (\<lambda>bot_ops.
              Inr ([Save, Set_source_rgb white, Set_operator_source, Rectangle 0 0 (g_width g) (g_height g), Fill,
                    Save] @ legend_ops @ [Restore] @
                   stroke_line 0 top_h (g_width g) top_h @
                   [Save, Translate 0 top_h] @ data_ops @ [Restore,
                    Save, Translate (get_data_x_start dv) height_used] @ mid_ops @ [Restore,
                    Move_to (get_data_x_start dv) height_used, Rel_line_to 0 (0 - sc_height (mid_scale g)), Close_path,
                    Set_source_rgb black, Set_line_width 2, Stroke] @
                   stroke_line 0 height_used (g_width g) height_used @
                   draw_selection g height_used sel_start sel_end @
                   [Save, Translate 0 (height_used + 20)] @ bot_ops @ [Restore], g))))))))"

section \<open>The step of a scale\<close>

lemma scale_closest_spec:
  "\<exists>m \<ge> n. scale_closest n d = 10 ^ m \<and> num_val d \<le> 10 ^ m * 10 \<and> (m = n \<or> 10 ^ m < num_val d)"
proof (induction n d rule: scale_closest.induct)
  case (1 n d)
  show ?case
  proof (cases "PInt (10 ^ n * 10) < d")
    case True
    then obtain m where m: "Suc n \<le> m" "scale_closest (Suc n) d = 10 ^ m" "num_val d \<le> 10 ^ m * 10"
      "m = Suc n \<or> 10 ^ m < num_val d" using "1.IH" by blast
    have "10 ^ Suc n < num_val d" using True by (simp add: less_pynum_def mult.commute)
    with m True show ?thesis by (subst scale_closest.simps) (auto intro!: exI [of _ m])
  next
    case False
    then show ?thesis
      by (subst scale_closest.simps) (auto simp: less_pynum_def intro!: exI [of _ n])
  qed
qed

text \<open>
  The step is a power of ten and splits the window in at most twenty parts, except for a window of
  width one, whose step is zero.
\<close>

lemma scale_delta_cases:
  obtains "num_val (sc_hi sc - sc_lo sc) = 1" "scale_delta sc = Inr (PInt 0)"
  | k where "num_val (sc_hi sc - sc_lo sc) \<noteq> 1" "scale_delta sc = Inr (PInt (10 ^ k))" "num_val (sc_hi sc - sc_lo sc) < 20 * 10 ^ k"
proof -
  define d where "d = sc_hi sc - sc_lo sc"
  note that = that [folded d_def]
  obtain m where m: "scale_closest 0 d = 10 ^ m" "num_val d \<le> 10 ^ m * 10" "m = 0 \<or> 10 ^ m < num_val d"
    using scale_closest_spec [of 0 d] by auto
  obtain q where q: "py_div d (PInt (10 ^ m)) = Inr q"
    "num_val q = (if is_int d then of_int \<lfloor>num_val d / 10 ^ m\<rfloor> else num_val d / 10 ^ m)"
    using py_div_val [of "PInt (10 ^ m)" d] by auto
  have delta: "scale_delta sc = Inr (PInt (if num_val q = 0 then 10 ^ m else if num_val q = 1 then 10 ^ m div 10 else 10 ^ m))"
    by (simp add: scale_delta_def m(1) q(1) Let_def flip: d_def)
  have dint: "of_int \<lfloor>num_val d\<rfloor> = num_val d" if "is_int d" using that by (cases d) auto
  show ?thesis
  proof (cases "m = 0")
    case True
    then have "num_val q = num_val d" using q(2) dint by auto
    with delta m(2) True that(1) that(2) [of 0] show ?thesis
      by (cases "num_val d = 1") auto
  next
    case False
    then obtain k where k: "m = Suc k" by (cases m) auto
    have "1 \<le> (10::rat) ^ m" by simp
    then have n1: "num_val d \<noteq> 1" using m(3) False by linarith
    show ?thesis
    proof (cases "num_val q = 1")
      case True
      have "num_val d / 10 ^ m < 2"
        using q(2) True by (auto split: if_splits) linarith+
      then have "num_val d < 20 * 10 ^ k" by (simp add: k field_simps)
      with True delta n1 show ?thesis by (intro that(2) [of k]) (simp_all add: k)
    next
      case other: False
      have "num_val d < 20 * 10 ^ m" using m(2) zero_less_power [of "10::rat" m] by linarith
      with other delta n1 show ?thesis by (intro that(2) [of m]) auto
    qed
  qed
qed

abbreviation sc_span :: "scale \<Rightarrow> rat" where
  "sc_span sc \<equiv> num_val (sc_hi sc) - num_val (sc_lo sc)"

lemma scale_layout_cases:
  obtains "sc_span sc = 1" "scale_layout ext w sc = Inl ZeroDivisionError"
  | k where "sc_span sc \<noteq> 1" "sc_span sc < 20 * 10 ^ k"
      "scale_layout ext w sc = Inr (sc\<lparr>sc_delta := PInt (10 ^ k), sc_width := w,
         sc_text_height := t_height ext alphabet, sc_height := t_height ext alphabet + 10\<rparr>)"
proof (rule scale_delta_cases [of sc])
  assume "num_val (sc_hi sc - sc_lo sc) = 1" "scale_delta sc = Inr (PInt 0)"
  then show thesis by (intro that(1)) (simp_all add: scale_layout_def)
next
  fix k
  assume k: "num_val (sc_hi sc - sc_lo sc) \<noteq> 1" "scale_delta sc = Inr (PInt (10 ^ k))"
    "num_val (sc_hi sc - sc_lo sc) < 20 * 10 ^ k"
  obtain a b where "py_mod (sc_lo sc) (PInt (10 ^ k)) = Inr a" "py_mod (sc_hi sc) (PInt (10 ^ k)) = Inr b"
    using py_mod_val [of "PInt (10 ^ k)"] by (metis num_val.simps(1) of_int_eq_0_iff power_not_zero zero_neq_numeral)
  with k show thesis by (intro that(2) [of k]) (simp_all add: scale_layout_def)
qed

text \<open>The multiples of the step between the bounds.\<close>

lemma scale_ticks_set:
  assumes "0 < d"
  shows "\<exists>xs. scale_ticks sc (PInt d) = Inr xs \<and> sorted_wrt (<) xs \<and>
    set xs = {x. d dvd x \<and> num_val (sc_lo sc) < of_int x \<and> of_int x \<le> num_val (sc_hi sc)}"
proof -
  let ?l = "\<lfloor>num_val (sc_lo sc) / of_int d\<rfloor>" and ?h = "\<lfloor>num_val (sc_hi sc) / of_int d\<rfloor>"
  have nz: "num_val (PInt d) \<noteq> 0" using assms by simp
  obtain a where a: "py_mod (sc_lo sc) (PInt d) = Inr a" "num_val a = num_val (sc_lo sc) - of_int d * of_int ?l"
    using py_mod_val [OF nz] by (metis num_val.simps(1))
  obtain b where b: "py_mod (sc_hi sc) (PInt d) = Inr b" "num_val b = num_val (sc_hi sc) - of_int d * of_int ?h"
    using py_mod_val [OF nz] by (metis num_val.simps(1))
  have "num_trunc (sc_lo sc - a + PInt d) = d * ?l + d" "num_trunc (sc_hi sc - b + PInt d) = d * ?h + d" "num_trunc (PInt d) = d"
    using trunc_of_int [of "d * ?l + d"] trunc_of_int [of "d * ?h + d"] by (simp_all add: num_trunc_val a(2) b(2))
  then have ticks: "scale_ticks sc (PInt d) = py_range (d * ?l + d) (d * ?h + d) d"
    by (simp add: scale_ticks_def a(1) b(1))
  have "d * ?l + d \<le> x \<and> x < d * ?h + d \<and> d dvd x - (d * ?l + d) \<longleftrightarrow>
      d dvd x \<and> num_val (sc_lo sc) < of_int x \<and> of_int x \<le> num_val (sc_hi sc)" for x
  proof -
    have dvd: "d dvd x - (d * ?l + d) \<longleftrightarrow> d dvd x" by (rule dvd_diff_left_iff) simp
    show ?thesis
    proof (cases "d dvd x")
      case True
      then obtain c where x: "x = d * c" by blast
      have "d * ?l + d \<le> x \<longleftrightarrow> ?l < c" using assms mult_le_cancel_left_pos [of d "?l + 1" c] by (simp add: x algebra_simps) arith
      also have "\<dots> \<longleftrightarrow> num_val (sc_lo sc) < of_int x" using assms by (simp add: x floor_less_iff divide_less_eq mult.commute)
      finally have lo: "d * ?l + d \<le> x \<longleftrightarrow> num_val (sc_lo sc) < of_int x" .
      have "x < d * ?h + d \<longleftrightarrow> c \<le> ?h" using assms mult_less_cancel_left_pos [of d c "?h + 1"] by (simp add: x algebra_simps) arith
      also have "\<dots> \<longleftrightarrow> of_int x \<le> num_val (sc_hi sc)" using assms by (simp add: x le_floor_iff le_divide_eq mult.commute)
      finally show ?thesis using lo dvd True by simp
    qed (simp add: dvd)
  qed
  then show ?thesis using py_range_up [OF assms, of "d * ?l + d" "d * ?h + d"] unfolding ticks by simp
qed

text \<open>A strictly increasing list of multiples of \<open>d\<close> in a window is short.\<close>

lemma multiples_length:
  assumes "0 < d" and "sorted_wrt (<) xs" and "set xs \<subseteq> {x. d dvd x \<and> lo < rat_of_int x \<and> rat_of_int x \<le> hi}"
    and "hi - lo < of_nat n * of_int d"
  shows "length xs \<le> n"
proof -
  let ?f = "\<lambda>x. x div d"
  have "inj_on ?f (set xs)" using assms(3) by (intro inj_onI) (metis (mono_tags, lifting) dvd_div_mult_self mem_Collect_eq subsetD)
  then have "card (set xs) = card (?f ` set xs)" by (simp add: card_image)
  also have "?f ` set xs \<subseteq> {\<lfloor>lo / of_int d\<rfloor> + 1 .. \<lfloor>hi / of_int d\<rfloor>}"
  proof safe
    fix x
    assume "x \<in> set xs"
    then have x: "d dvd x" "lo < of_int x" "of_int x \<le> hi" using assms(3) by auto
    then obtain c where "x = d * c" by blast
    with x assms(1) have "\<lfloor>lo / of_int d\<rfloor> < x div d" "x div d \<le> \<lfloor>hi / of_int d\<rfloor>"
      by (simp_all add: floor_less_iff le_floor_iff field_simps)
    then show "x div d \<in> {\<lfloor>lo / of_int d\<rfloor> + 1 .. \<lfloor>hi / of_int d\<rfloor>}" by simp
  qed
  then have "card (?f ` set xs) \<le> card {\<lfloor>lo / of_int d\<rfloor> + 1 .. \<lfloor>hi / of_int d\<rfloor>}" by (intro card_mono) simp_all
  also have "\<dots> = nat (\<lfloor>hi / of_int d\<rfloor> - \<lfloor>lo / of_int d\<rfloor>)" by simp
  also have "\<dots> \<le> n"
  proof -
    have "hi / of_int d - lo / of_int d < of_nat n" using assms(1,4) by (simp add: field_simps)
    then show ?thesis by linarith
  qed
  finally show ?thesis using distinct_card [of xs] assms(2) by (simp add: strict_sorted_iff)
qed

lemma get_position_bounds:
  assumes "num_val (sc_lo sc) < num_val (sc_hi sc)" and "0 \<le> num_val (sc_width sc)"
    and "num_val (sc_lo sc) \<le> num_val x" and "num_val x \<le> num_val (sc_hi sc)"
  shows "\<exists>p. get_position sc x = Inr p \<and> 0 \<le> num_val p \<and> num_val p \<le> num_val (sc_width sc)"
proof -
  let ?n = "(x - sc_lo sc) * sc_width sc" and ?d = "sc_hi sc - sc_lo sc"
  have "num_val ?d \<noteq> 0" using assms(1) by simp
  then obtain p where p: "get_position sc x = Inr p"
    "num_val p = (if is_int ?n \<and> is_int ?d then of_int \<lfloor>num_val ?n / num_val ?d\<rfloor> else num_val ?n / num_val ?d)"
    unfolding get_position_def using py_div_val by blast
  have "(num_val x - num_val (sc_lo sc)) * num_val (sc_width sc) \<le> num_val ?d * num_val (sc_width sc)"
    using assms by (intro mult_right_mono) simp_all
  then have "num_val ?n / num_val ?d \<le> num_val (sc_width sc)" using assms(1) by (simp add: field_simps)
  moreover have "0 \<le> num_val ?n / num_val ?d" using assms by simp
  ultimately have "0 \<le> num_val p \<and> num_val p \<le> num_val (sc_width sc)"
    unfolding p(2) by (auto intro: order_trans [OF of_int_floor_le])
  with p(1) show ?thesis by blast
qed

text \<open>
  C7: for a window of positive width other than one, the layout of a scale chooses a power of ten as its
  step; the ticks are exactly the multiples of the step after the lower end of the window and up to its upper
  end, in ascending order and at most twenty of them, and each is drawn inside the width of the scale. The lower
  end itself has no tick, even when it is a multiple of the step, as zero is on the bottom scale.
\<close>

theorem scale_ticks_exact:
  assumes "num_val (sc_lo sc) < num_val (sc_hi sc)" and "sc_span sc \<noteq> 1" and "0 \<le> num_val w"
  shows "\<exists>sc' k xs. scale_layout ext w sc = Inr sc' \<and> sc_delta sc' = PInt (10 ^ k) \<and> scale_ticks sc' (sc_delta sc') = Inr xs \<and>
    sorted_wrt (<) xs \<and> length xs \<le> 20 \<and>
    set xs = {x. 10 ^ k dvd x \<and> num_val (sc_lo sc) < of_int x \<and> of_int x \<le> num_val (sc_hi sc)} \<and>
    num_val (sc_lo sc) \<notin> of_int ` set xs \<and>
    list_all (\<lambda>x. \<exists>p. get_position sc' (PInt x) = Inr p \<and> 0 \<le> num_val p \<and> num_val p \<le> num_val w) xs"
proof (rule scale_layout_cases [of sc ext w])
  assume "sc_span sc = 1"
  with assms(2) show ?thesis by simp
next
  fix k
  let ?sc = "sc\<lparr>sc_delta := PInt (10 ^ k), sc_width := w, sc_text_height := t_height ext alphabet,
    sc_height := t_height ext alphabet + 10\<rparr>"
  assume k: "sc_span sc < 20 * 10 ^ k" "scale_layout ext w sc = Inr ?sc"
  obtain xs where xs: "scale_ticks ?sc (PInt (10 ^ k)) = Inr xs" "sorted_wrt (<) xs"
    "set xs = {x. 10 ^ k dvd x \<and> num_val (sc_lo sc) < of_int x \<and> of_int x \<le> num_val (sc_hi sc)}"
    using scale_ticks_set [of "10 ^ k" ?sc] by auto
  have "length xs \<le> 20"
    by (rule multiples_length [of "10 ^ k" _ "num_val (sc_lo sc)" "num_val (sc_hi sc)"]) (use xs(2,3) k(1) in simp_all)
  moreover have "list_all (\<lambda>x. \<exists>p. get_position ?sc (PInt x) = Inr p \<and> 0 \<le> num_val p \<and> num_val p \<le> num_val w) xs"
    using get_position_bounds [of ?sc] assms by (auto simp: list_all_iff xs(3))
  moreover have "num_val (sc_lo sc) \<notin> of_int ` set xs" by (auto simp: xs(3))
  ultimately show ?thesis using k(2) xs by (intro exI [of _ ?sc] exI [of _ k] exI [of _ xs]) simp
qed

theorem scale_ticks_exact_witness:
  "\<exists>sc' k xs. scale_layout (\<lambda>s. (- 7, 40, 9)) 200 (set_bounds (PInt 3) (PFloat (31/2)) new_scale) = Inr sc' \<and>
    sc_delta sc' = PInt (10 ^ k) \<and> scale_ticks sc' (sc_delta sc') = Inr xs \<and> length xs \<le> 20"
  using scale_ticks_exact [of "set_bounds (PInt 3) (PFloat (31/2)) new_scale" 200 "\<lambda>s. (- 7, 40, 9)"]
  by (auto simp: set_bounds_def new_scale_def)

section \<open>The window\<close>

text \<open>The parts agree on the window and on the width, and the window neither starts before the data nor ends after
  them. Nothing says that it starts before the end of the data, nor that it starts before it ends.\<close>

definition view_ok :: "graphic \<Rightarrow> bool" where
  "view_ok g \<longleftrightarrow> dv_start (g_data g) = r_start g \<and> dv_end (g_data g) = r_end g \<and>
     sc_lo (mid_scale g) = r_start g \<and> sc_hi (mid_scale g) = r_end g \<and>
     g_start g \<le> r_start g \<and> r_end g \<le> g_end g \<and>
     num_val (sc_lo (bot_scale g)) = num_val (g_start g) \<and> num_val (sc_hi (bot_scale g)) = num_val (g_end g) \<and>
     num_val (r_end g) - num_val (r_start g) \<noteq> 1 \<and> num_val (g_end g) - num_val (g_start g) \<noteq> 1 \<and>
     lg_width (top_legend g) = g_width g \<and> dv_width (g_data g) = g_width g \<and> sc_width (bot_scale g) = g_width g \<and>
     sc_width (mid_scale g) = g_width g - get_data_x_start (g_data g)"

lemma legend_layout_fields [simp]:
  "lg_width (legend_layout ext w lg) = w" "lg_padding (legend_layout ext w lg) = lg_padding lg"
  "lg_legends (legend_layout ext w lg) = lg_legends lg" "lg_colors (legend_layout ext w lg) = lg_colors lg"
  by (simp_all add: legend_layout_def Let_def split: prod.splits)

lemma dv_layout_fields [simp]:
  "dv_width (dv_layout ext w dv) = w" "dv_start (dv_layout ext w dv) = dv_start dv" "dv_end (dv_layout ext w dv) = dv_end dv"
  "dv_timelines (dv_layout ext w dv) = dv_timelines dv" "dv_colors (dv_layout ext w dv) = dv_colors dv"
  "dv_padding (dv_layout ext w dv) = dv_padding dv"
  by (simp_all add: dv_layout_def Let_def)

lemma layout_cases:
  obtains "sc_span (mid_scale g) = 1 \<or> sc_span (bot_scale g) = 1" "layout ext w h g = Inl ZeroDivisionError"
  | g' where "sc_span (mid_scale g) \<noteq> 1" "sc_span (bot_scale g) \<noteq> 1" "layout ext w h g = Inr g'"
      "g_width g' = w" "g_height g' = h" "g_start g' = g_start g" "g_end g' = g_end g"
      "r_start g' = r_start g" "r_end g' = r_end g"
      "top_legend g' = legend_layout ext w (top_legend g)" "g_data g' = dv_layout ext w (g_data g)"
      "sc_lo (mid_scale g') = sc_lo (mid_scale g)" "sc_hi (mid_scale g') = sc_hi (mid_scale g)"
      "sc_lo (bot_scale g') = sc_lo (bot_scale g)" "sc_hi (bot_scale g') = sc_hi (bot_scale g)"
      "sc_width (bot_scale g') = w" "sc_width (mid_scale g') = w - get_data_x_start (g_data g')"
proof -
  let ?dv = "dv_layout ext w (g_data g)"
  show thesis
  proof (rule scale_layout_cases [of "mid_scale g" ext "w - get_data_x_start ?dv"])
    assume "sc_span (mid_scale g) = 1" "scale_layout ext (w - get_data_x_start ?dv) (mid_scale g) = Inl ZeroDivisionError"
    then show thesis by (intro that(1)) (simp_all add: layout_def Let_def)
  next
    fix k
    let ?mid = "(mid_scale g)\<lparr>sc_delta := PInt (10 ^ k), sc_width := w - get_data_x_start ?dv,
      sc_text_height := t_height ext alphabet, sc_height := t_height ext alphabet + 10\<rparr>"
    assume mid: "sc_span (mid_scale g) \<noteq> 1" "scale_layout ext (w - get_data_x_start ?dv) (mid_scale g) = Inr ?mid"
    show thesis
    proof (rule scale_layout_cases [of "bot_scale g" ext w])
      assume "sc_span (bot_scale g) = 1" "scale_layout ext w (bot_scale g) = Inl ZeroDivisionError"
      with mid show thesis by (intro that(1)) (simp_all add: layout_def Let_def)
    next
      fix j
      let ?bot = "(bot_scale g)\<lparr>sc_delta := PInt (10 ^ j), sc_width := w,
        sc_text_height := t_height ext alphabet, sc_height := t_height ext alphabet + 10\<rparr>"
      assume bot: "sc_span (bot_scale g) \<noteq> 1" "scale_layout ext w (bot_scale g) = Inr ?bot"
      have "layout ext w h g = Inr (g\<lparr>g_width := w, g_height := h, top_legend := legend_layout ext w (top_legend g),
          g_data := ?dv, mid_scale := ?mid, bot_scale := ?bot\<rparr>)"
        using mid bot by (simp add: layout_def Let_def)
      then show thesis by (rule that(2) [OF mid(1) bot(1)]) simp_all
    qed
  qed
qed

text \<open>Laying a consistent view out again keeps it consistent; so does any choice of the window.\<close>

lemma layout_view_ok: "view_ok g \<Longrightarrow> \<exists>g'. layout ext w h g = Inr g' \<and> view_ok g' \<and> g_width g' = w \<and>
    r_start g' = r_start g \<and> r_end g' = r_end g \<and> g_start g' = g_start g \<and> g_end g' = g_end g"
  by (rule layout_cases [of g ext w h]) (auto simp: view_ok_def)

lemma set_range_cases:
  fixes s e :: pynum and g :: graphic
  assumes "num_val (sc_lo (bot_scale g)) = num_val (g_start g)" "num_val (sc_hi (bot_scale g)) = num_val (g_end g)"
  defines "a \<equiv> max (num_val (g_start g)) (min (num_val s) (num_val e))"
    and "b \<equiv> min (num_val (g_end g)) (max (num_val s) (num_val e))"
  obtains "b - a = 1 \<or> num_val (g_end g) - num_val (g_start g) = 1" "set_range ext s e g = Inl ZeroDivisionError"
  | g' where "b - a \<noteq> 1" "num_val (g_end g) - num_val (g_start g) \<noteq> 1" "set_range ext s e g = Inr g'" "view_ok g'"
      "r_start g' = py_max (g_start g) (py_min s e)" "r_end g' = py_min (g_end g) (py_max s e)"
      "g_start g' = g_start g" "g_end g' = g_end g" "g_width g' = g_width g" "g_height g' = g_height g"
      "num_val (r_start g') = a" "num_val (r_end g') = b"
proof -
  let ?start = "py_max (g_start g) (py_min s e)" and ?stop = "py_min (g_end g) (py_max s e)"
  let ?g = "g\<lparr>r_start := ?start, r_end := ?stop, g_data := set_render_range ?start ?stop (g_data g),
    mid_scale := set_bounds ?start ?stop (mid_scale g)\<rparr>"
  have eq: "set_range ext s e g = layout ext (g_width g) (g_height g) ?g" by (simp add: set_range_def Let_def)
  show thesis
  proof (rule layout_cases [of ?g ext "g_width g" "g_height g"])
    assume "sc_span (mid_scale ?g) = 1 \<or> sc_span (bot_scale ?g) = 1" "layout ext (g_width g) (g_height g) ?g = Inl ZeroDivisionError"
    then show thesis by (intro that(1)) (simp_all add: eq assms set_bounds_def)
  next
    fix g'
    assume g': "sc_span (mid_scale ?g) \<noteq> 1" "sc_span (bot_scale ?g) \<noteq> 1" "layout ext (g_width g) (g_height g) ?g = Inr g'"
      "g_width g' = g_width g" "g_height g' = g_height g" "g_start g' = g_start ?g" "g_end g' = g_end ?g"
      "r_start g' = r_start ?g" "r_end g' = r_end ?g" "top_legend g' = legend_layout ext (g_width g) (top_legend ?g)"
      "g_data g' = dv_layout ext (g_width g) (g_data ?g)" "sc_lo (mid_scale g') = sc_lo (mid_scale ?g)"
      "sc_hi (mid_scale g') = sc_hi (mid_scale ?g)" "sc_lo (bot_scale g') = sc_lo (bot_scale ?g)"
      "sc_hi (bot_scale g') = sc_hi (bot_scale ?g)" "sc_width (bot_scale g') = g_width g"
      "sc_width (mid_scale g') = g_width g - get_data_x_start (g_data g')"
    have fields: "r_start g' = ?start" "r_end g' = ?stop" "g_start g' = g_start g" "g_end g' = g_end g"
      by (simp_all add: g'(6-9))
    have ok: "view_ok g'"
      using g'(1,2,4) unfolding view_ok_def fields g'(10-17)
      by (simp add: assms set_bounds_def set_render_range_def less_eq_pynum_def)
    have "set_range ext s e g = Inr g'" using eq g'(3) by (rule trans)
    with g'(1,2) show thesis
      by (intro that(2) [of g']) (simp_all add: g'(4,5) ok fields assms set_bounds_def)
  qed
qed

text \<open>
  C4: \<open>set_range\<close> of a graphic whose bottom scale shows the bounds of the data either fails with
  \<open>ZeroDivisionError\<close>, which is so exactly when the window cut to the bounds, or the bounds, are one apart, or
  shows that window: the timelines, the middle scale and the graphic hold the same window and the same width.
  The cut moves a start before the data to their start, and an end after the data to their end, and nothing
  else: a requested window that meets the data gives a window within them, and one that lies wholly before or
  after the data gives a window whose start is past its end.
\<close>

theorem set_range_outcome:
  assumes "num_val (sc_lo (bot_scale g)) = num_val (g_start g)" and "num_val (sc_hi (bot_scale g)) = num_val (g_end g)"
  shows "case set_range ext s e g of
      Inl er \<Rightarrow> er = ZeroDivisionError \<and>
        (min (num_val (g_end g)) (max (num_val s) (num_val e)) - max (num_val (g_start g)) (min (num_val s) (num_val e)) = 1 \<or>
         num_val (g_end g) - num_val (g_start g) = 1)
    | Inr g' \<Rightarrow> view_ok g' \<and> num_val (r_start g') = max (num_val (g_start g)) (min (num_val s) (num_val e)) \<and>
        num_val (r_end g') = min (num_val (g_end g)) (max (num_val s) (num_val e)) \<and>
        (if g_start g \<le> g_end g \<and> py_min s e \<le> g_end g \<and> g_start g \<le> py_max s e
         then g_start g \<le> r_start g' \<and> r_start g' \<le> r_end g' \<and> r_end g' \<le> g_end g else r_end g' < r_start g')"
  by (rule set_range_cases [OF assms, of s e ext]) (simp, simp add: pynum_order, auto simp: min_def max_def)

theorem set_range_outcome_witness:
  "(case set_range (\<lambda>s. (- 7, 40, 9)) (PInt 5) (PInt 6) (new_graphic 0 100 new_legend (new_data_view [] initial_colors)) of
      Inl er \<Rightarrow> er = ZeroDivisionError | Inr g' \<Rightarrow> False) \<and>
   (case set_range (\<lambda>s. (- 7, 40, 9)) (PInt 90) (PInt 130) (new_graphic 0 100 new_legend (new_data_view [] initial_colors)) of
      Inl er \<Rightarrow> False | Inr g' \<Rightarrow> num_val (r_start g') = 90 \<and> num_val (r_end g') = 100) \<and>
   (case set_range (\<lambda>s. (- 7, 40, 9)) (PInt 150) (PInt 200) (new_graphic 0 100 new_legend (new_data_view [] initial_colors)) of
      Inl er \<Rightarrow> False | Inr g' \<Rightarrow> num_val (r_start g') = 150 \<and> num_val (r_end g') = 100)"
  using set_range_outcome [of "new_graphic 0 100 new_legend (new_data_view [] initial_colors)" "PInt 5" "PInt 6" "\<lambda>s. (- 7, 40, 9)"]
    set_range_outcome [of "new_graphic 0 100 new_legend (new_data_view [] initial_colors)" "PInt 90" "PInt 130" "\<lambda>s. (- 7, 40, 9)"]
    set_range_outcome [of "new_graphic 0 100 new_legend (new_data_view [] initial_colors)" "PInt 150" "PInt 200" "\<lambda>s. (- 7, 40, 9)"]
  by (auto simp: new_graphic_def set_bot_def set_bounds_def new_scale_def view_ok_def split: sum.splits)

section \<open>The legend stays inside its area\<close>

definition extents_ok :: "extents \<Rightarrow> bool" where
  "extents_ok ext \<longleftrightarrow> (\<forall>s. 0 \<le> fst (snd (ext s)) \<and> 0 \<le> snd (snd (ext s)))"

lemma extents_ok_vals: "extents_ok ext \<Longrightarrow> 0 \<le> num_val (t_width ext s)" "extents_ok ext \<Longrightarrow> 0 \<le> num_val (t_height ext s)"
  by (simp_all add: extents_ok_def t_width_def t_height_def)

text \<open>The state of the loop: the current line has room for what it holds, and nothing is above the padding.\<close>

fun legend_st_ok :: "legend \<Rightarrow> pynum \<times> pynum \<times> pynum \<Rightarrow> bool" where
  "legend_st_ok lg (line_height, total_height, line_used) \<longleftrightarrow>
     0 \<le> num_val line_height \<and> lg_padding lg \<le> total_height \<and> lg_padding lg \<le> line_used"

lemma legend_item_cong:
  "lg_padding a = lg_padding b \<Longrightarrow> lg_width a = lg_width b \<Longrightarrow> legend_item ext a = legend_item ext b"
  unfolding legend_item_def item_width_def by (simp cong: if_cong)

lemma legend_item_spec:
  assumes "extents_ok ext" "0 \<le> num_val (lg_padding lg)" "legend_st_ok lg (lh, th, lu)"
    and "legend_item ext lg (lh, th, lu) l = (x, lh', th', lu')"
  shows "legend_st_ok lg (lh', th', lu')" and "lg_padding lg \<le> x" and "th \<le> th'" and "lh \<le> lh'"
    and "t_height ext l + lg_padding lg \<le> lh'"
    and "num_val x + num_val (item_width ext lg l) \<le> num_val (lg_width lg) \<or> num_val x = num_val (lg_padding lg)"
proof -
  let ?w = "num_val (item_width ext lg l)" and ?p = "num_val (lg_padding lg)"
  have w: "0 \<le> ?w" using assms(1,2) by (simp add: item_width_def extents_ok_vals)
  have lh': "num_val lh' = max (num_val lh) (num_val (t_height ext l) + ?p)"
    using assms(4) by (auto simp: legend_item_def Let_def pynum_order max_def split: if_splits)
  have th': "num_val th' = (if num_val lu + ?w > num_val (lg_width lg) then num_val th + num_val lh' else num_val th)"
    "num_val lu' = (if num_val lu + ?w > num_val (lg_width lg) then ?p + ?w else num_val lu + ?w)"
    "num_val x = num_val lu' - ?w"
    using assms(4) by (auto simp: legend_item_def Let_def pynum_order split: if_splits)
  have st: "0 \<le> num_val lh" "?p \<le> num_val th" "?p \<le> num_val lu" using assms(3) by (simp_all add: pynum_order)
  then have lh0: "0 \<le> num_val lh'" by (simp add: lh')
  show "legend_st_ok lg (lh', th', lu')" using st w lh0 th' by (auto simp: pynum_order)
  show "lg_padding lg \<le> x" "th \<le> th'" using st lh0 th' by (auto simp: pynum_order)
  show "lh \<le> lh'" "t_height ext l + lg_padding lg \<le> lh'" by (simp_all add: pynum_order lh')
  show "num_val x + ?w \<le> num_val (lg_width lg) \<or> num_val x = ?p" using th' by auto
qed

lemma legend_fold_mono:
  assumes "extents_ok ext" "0 \<le> num_val (lg_padding lg)" "legend_st_ok lg (lh, th, lu)"
    and "foldl (\<lambda>st l. snd (legend_item ext lg st l)) (lh, th, lu) ls = (lh', th', lu')"
  shows "lh \<le> lh'" and "th \<le> th'"
proof -
  have "lh \<le> lh' \<and> th \<le> th'"
    using assms(3,4)
  proof (induction ls arbitrary: lh th lu)
    case (Cons l ls)
    obtain x a b c where i: "legend_item ext lg (lh, th, lu) l = (x, a, b, c)" by (metis prod_cases4)
    note sp = legend_item_spec [OF assms(1,2) Cons.prems(1) i]
    have "a \<le> lh' \<and> b \<le> th'" using Cons.IH [OF sp(1)] Cons.prems(2) i by simp
    with sp(3,4) show ?case by (auto intro: order_trans)
  qed simp
  then show "lh \<le> lh'" and "th \<le> th'" by simp_all
qed

text \<open>
  A box lies within the padding and the height, and the item fits in the width or starts a line of its
  own; the text starts within the height too.
\<close>

fun legend_inside :: "legend \<Rightarrow> cairo \<Rightarrow> bool" where
  "legend_inside lg (Rectangle x y w h) \<longleftrightarrow> lg_padding lg \<le> x \<and> lg_padding lg \<le> y \<and> y + h \<le> lg_height lg \<and>
     (x + w \<le> lg_width lg \<or> num_val x = num_val (lg_padding lg))"
| "legend_inside lg (Move_to x y) \<longleftrightarrow> lg_padding lg \<le> x \<and> lg_padding lg \<le> y \<and> y \<le> lg_height lg"
| "legend_inside lg op \<longleftrightarrow> True"

lemma legend_draw_items_inside:
  assumes "extents_ok ext" "0 \<le> num_val (lg_padding lg)" "legend_st_ok lg (lh, th, lu)"
    and "foldl (\<lambda>st l. snd (legend_item ext lg st l)) (lh, th, lu) ls = (lh', th', lu')"
    and "num_val th' + num_val lh' \<le> num_val (lg_height lg)" and "i + length ls \<le> length (lg_colors lg)"
  shows "\<exists>ops. legend_draw_items ext lg i (lh, th, lu) ls = Inr ops \<and> list_all (legend_inside lg) ops"
  using assms(3,4,6)
proof (induction ls arbitrary: i lh th lu)
  case (Cons l ls)
  let ?p = "num_val (lg_padding lg)"
  obtain x a b c where it: "legend_item ext lg (lh, th, lu) l = (x, a, b, c)" by (metis prod_cases4)
  note sp = legend_item_spec [OF assms(1,2) Cons.prems(1) it]
  have f: "foldl (\<lambda>st l. snd (legend_item ext lg st l)) (a, b, c) ls = (lh', th', lu')" using Cons.prems(2) it by simp
  from Cons.IH [OF sp(1) f, of "Suc i"] Cons.prems(3)
  obtain ops where ops: "legend_draw_items ext lg (Suc i) (a, b, c) ls = Inr ops" "list_all (legend_inside lg) ops" by auto
  have "num_val a \<le> num_val lh'" "num_val b \<le> num_val th'" using legend_fold_mono [OF assms(1,2) sp(1) f] by (simp_all add: pynum_order)
  then have room: "num_val b + (num_val (t_height ext l) + ?p) \<le> num_val (lg_height lg)"
    using sp(5) assms(5) by (simp add: pynum_order)
  have h: "0 \<le> num_val (t_height ext l)" "0 \<le> num_val (t_width ext l)" using assms(1) by (simp_all add: extents_ok_vals)
  have "?p \<le> num_val b" "?p \<le> num_val x" using sp(1,2) by (simp_all add: pynum_order)
  moreover have "num_val x + ?p \<le> num_val (lg_width lg) \<or> num_val x = ?p"
    using sp(6) h(2) assms(2) by (auto simp: item_width_def)
  ultimately have "legend_inside lg (Rectangle x b (lg_padding lg) (lg_padding lg))"
    "legend_inside lg (Move_to (x + lg_padding lg * 2) (b + t_height ext l))"
    using room h(1) assms(2) by (auto simp: pynum_order)
  then show ?case using ops Cons.prems(3) by (simp add: it Let_def)
qed simp

text \<open>
  Drawing the legend after its layout returns as soon as every entry has a colour, and everything it
  draws lies in the area that \<open>layout\<close> computed: below the padding, above the height, and within the width
  except for an entry that is too wide for a line and starts one.
\<close>

theorem legend_draw_inside:
  assumes "extents_ok ext" and "0 \<le> num_val (lg_padding lg)" and "length (lg_legends lg) \<le> length (lg_colors lg)"
  shows "\<exists>ops. legend_draw ext (legend_layout ext w lg) = Inr ops \<and> list_all (legend_inside (legend_layout ext w lg)) ops"
proof -
  let ?lg = "legend_layout ext w lg" and ?lw = "lg\<lparr>lg_width := w\<rparr>"
  have item: "legend_item ext ?lg = legend_item ext ?lw"
    by (rule legend_item_cong) simp_all
  obtain lh th lu where f: "foldl (\<lambda>st l. snd (legend_item ext ?lg st l)) (legend_start ?lg) (lg_legends ?lg) = (lh, th, lu)"
    by (metis prod_cases3)
  then have "foldl (\<lambda>st l. snd (legend_item ext ?lw st l)) (0, lg_padding lg, lg_padding lg) (lg_legends lg) = (lh, th, lu)"
    unfolding item by (simp add: legend_start_def)
  then have "lg_height ?lg = th + lh" by (simp add: legend_layout_def legend_start_def)
  then show ?thesis unfolding legend_draw_def legend_start_def
    using f assms by (intro legend_draw_items_inside [of ext ?lg _ _ _ _ lh th lu]) (simp_all add: legend_start_def pynum_order)
qed

theorem legend_draw_inside_witness:
  "\<exists>ops. legend_draw (\<lambda>s. (- 7, 40, 9)) (legend_layout (\<lambda>s. (- 7, 40, 9)) 100 (set_legends [''a'', ''b''] [black, grey] new_legend)) = Inr ops \<and>
    list_all (legend_inside (legend_layout (\<lambda>s. (- 7, 40, 9)) 100 (set_legends [''a'', ''b''] [black, grey] new_legend))) ops"
  by (rule legend_draw_inside) (simp_all add: extents_ok_def set_legends_def new_legend_def)

end
