(* ===== verification/GridGtk.thy ===== *)
theory GridGtk
  imports GridRender
begin

text \<open>
  The window of \<^verbatim>\<open>utils/grid.py\<close>: the handlers of \<open>GtkGraphicRenderer\<close>, the callbacks of
  \<open>MainWindow\<close> and \<open>main\<close>. A handler takes the state of the widget and the event and returns what it returns
  and the new state, or the exception it raises; the state an exception leaves behind is not modelled. An
  attribute that only a handler sets is an option, and reading it before that is an
  \<open>AttributeError\<close>. The requests to redraw (\<open>queue_draw\<close>) go to GTK, which answers with an expose
  event; the model lists them in \<open>queued\<close>.
\<close>

section \<open>The widget\<close>

datatype cursor = Default_cursor | Double_arrow | Fleur

datatype redraw = Redraw_all | Redraw_area int int int int

record gtk_view =
  gv_data :: graphic
  moving_left :: bool
  moving_right :: bool
  moving_both :: bool
  moving_top :: bool
  force_full_redraw :: bool
  moving_left_cur :: "pynum option"
  moving_right_cur :: "pynum option"
  moving_both_start :: "pynum option"
  moving_both_cur :: "pynum option"
  moving_top_start :: "pynum option"
  moving_top_cur :: "pynum option"
  gv_width :: "pynum option"
  gv_height :: "pynum option"
  buffer_surface :: "cairo list option"
  gv_cursor :: cursor
  queued :: "redraw list"

definition new_gtk_view :: "graphic \<Rightarrow> gtk_view" where
  "new_gtk_view g =
     \<lparr>gv_data = g, moving_left = False, moving_right = False, moving_both = False, moving_top = False,
      force_full_redraw = True, moving_left_cur = None, moving_right_cur = None, moving_both_start = None,
      moving_both_cur = None, moving_top_start = None, moving_top_cur = None, gv_width = None, gv_height = None,
      buffer_surface = None, gv_cursor = Default_cursor, queued = []\<rparr>"

definition attr :: "'a option \<Rightarrow> 'a result" where
  "attr x = (case x of None \<Rightarrow> Inl AttributeError | Some a \<Rightarrow> Inr a)"

text \<open>A new graphic, a full redraw, and the request for it.\<close>

definition redraw_with :: "graphic \<Rightarrow> gtk_view \<Rightarrow> gtk_view" where
  "redraw_with g v = v\<lparr>gv_data := g, force_full_redraw := True, queued := queued v @ [Redraw_all]\<rparr>"

definition set_smaller_zoom :: "extents \<Rightarrow> gtk_view \<Rightarrow> gtk_view result" where
  "set_smaller_zoom ext v =
     (let g = gv_data v
      in bind_r (set_range ext (r_start g) (r_start g + (r_end g - r_start g) * 2) g) (\<lambda>g. Inr (redraw_with g v)))"

definition set_bigger_zoom :: "extents \<Rightarrow> gtk_view \<Rightarrow> gtk_view result" where
  "set_bigger_zoom ext v =
     (let g = gv_data v
      in bind_r (set_range ext (r_start g) (r_start g + half (r_end g - r_start g)) g) (\<lambda>g. Inr (redraw_with g v)))"

text \<open>
  The drawing goes to the buffer of the widget, and the file gets the other, new surface. The result has
  the contents of the file.
\<close>

definition output_png :: "extents \<Rightarrow> gtk_view \<Rightarrow> (cairo list \<times> gtk_view) result" where
  "output_png ext v =
     (let surface = []
      in bind_r (attr (buffer_surface v)) (\<lambda>buf.
         bind_r (graphic_draw ext (gv_data v)) (\<lambda>(ops, g).
           Inr (surface, v\<lparr>gv_data := g, buffer_surface := Some (buf @ ops)\<rparr>))))"

definition button_press :: "pynum \<Rightarrow> pynum \<Rightarrow> gtk_view \<Rightarrow> (bool \<times> gtk_view) result" where
  "button_press ex ey v =
     bind_r (get_selection_rectangle (gv_data v)) (\<lambda>(x, y, width, height).
     let (d_x, d_y, d_width, d_height) = get_data_rectangle (gv_data v);
         in_selection = (ey > y \<and> ey < y + height)
     in if in_selection \<and> num_abs (ex - x) < 5 then Inr (True, v\<lparr>moving_left := True\<rparr>)
        else if in_selection \<and> num_abs (ex - (x + width)) < 5 then Inr (True, v\<lparr>moving_right := True\<rparr>)
        else if in_selection \<and> ex > x \<and> ex < x + width
        then Inr (True, v\<lparr>moving_both := True, moving_both_start := Some ex, moving_both_cur := Some ex\<rparr>)
        else if ey > d_y \<and> ey < d_y + d_height \<and> ex > d_x \<and> ex < d_x + d_width
        then Inr (True, v\<lparr>moving_top := True, moving_top_start := Some ex, moving_top_cur := Some ex\<rparr>)
        else Inr (False, v))"

definition button_release :: "extents \<Rightarrow> gtk_view \<Rightarrow> (bool \<times> gtk_view) result" where
  "button_release ext v =
     (let g = gv_data v
      in if moving_left v
         then bind_r (attr (moving_left_cur v)) (\<lambda>cur.
              bind_r (scale_selection g cur) (\<lambda>left.
              bind_r (set_range ext left (r_end g) g) (\<lambda>g. Inr (True, redraw_with g (v\<lparr>moving_left := False\<rparr>)))))
         else if moving_right v
         then bind_r (attr (moving_right_cur v)) (\<lambda>cur.
              bind_r (scale_selection g cur) (\<lambda>right.
              bind_r (set_range ext (r_start g) right g) (\<lambda>g. Inr (True, redraw_with g (v\<lparr>moving_right := False\<rparr>)))))
         else if moving_both v
         then bind_r (attr (moving_both_cur v)) (\<lambda>cur.
              bind_r (attr (moving_both_start v)) (\<lambda>start.
              bind_r (scale_selection g (cur - start)) (\<lambda>delta.
              bind_r (set_range ext (r_start g + delta) (r_end g + delta) g) (\<lambda>g.
                Inr (True, redraw_with g (v\<lparr>moving_both := False\<rparr>))))))
         else Inr (False, if moving_top v then v\<lparr>moving_top := False\<rparr> else v))"

definition queue_selection :: "pynum \<Rightarrow> pynum \<Rightarrow> gtk_view \<Rightarrow> (bool \<times> gtk_view) result" where
  "queue_selection y height v =
     bind_r (attr (gv_width v)) (\<lambda>w.
       Inr (True, v\<lparr>queued := queued v @ [Redraw_area 0 (num_trunc y) (num_trunc w) (num_trunc height)]\<rparr>))"

text \<open>The shape of the pointer when nothing is dragged.\<close>

definition hover :: "pynum \<Rightarrow> pynum \<Rightarrow> pynum \<times> pynum \<times> pynum \<times> pynum \<Rightarrow> gtk_view \<Rightarrow> bool \<times> gtk_view" where
  "hover ex ey sel v =
     (case sel of (x, y, width, height) \<Rightarrow>
      let (d_x, d_y, d_width, d_height) = get_data_rectangle (gv_data v);
          in_selection = (ey > y \<and> ey < y + height)
      in if in_selection \<and> (num_abs (ex - x) < 5 \<or> num_abs (ex - (x + width)) < 5) then (True, v\<lparr>gv_cursor := Double_arrow\<rparr>)
         else if in_selection \<and> ex > x \<and> ex < x + width then (True, v\<lparr>gv_cursor := Fleur\<rparr>)
         else if ey > d_y \<and> ey < d_y + d_height \<and> ex > d_x \<and> ex < d_x + d_width then (True, v\<lparr>gv_cursor := Fleur\<rparr>)
         else (False, v\<lparr>gv_cursor := Default_cursor\<rparr>))"

text \<open>\<open>self.__moving_right = self.__width\<close> leaves a number in the flag, which counts as true unless it is zero.\<close>

definition motion_notify :: "extents \<Rightarrow> pynum \<Rightarrow> pynum \<Rightarrow> gtk_view \<Rightarrow> (bool \<times> gtk_view) result" where
  "motion_notify ext ex ey v =
     bind_r (get_selection_rectangle (gv_data v)) (\<lambda>(x, y, width, height).
     if moving_left v
     then queue_selection y height
            (v\<lparr>moving_left_cur := Some (if ex \<le> 0 then 0 else if ex \<ge> x + width then x + width else ex)\<rparr>)
     else if moving_right v
     then bind_r (attr (gv_width v)) (\<lambda>w.
            queue_selection y height
              (if ex \<ge> w then v\<lparr>moving_right := num_val w \<noteq> 0\<rparr>
               else if ex < x then v\<lparr>moving_right_cur := Some x\<rparr>
               else v\<lparr>moving_right_cur := Some ex\<rparr>))
     else if moving_both v
     then bind_r (attr (gv_width v)) (\<lambda>w. bind_r (attr (moving_both_start v)) (\<lambda>start.
            let cur_e = w - (x + width - start); cur_s = start - x
            in queue_selection y height
                 (v\<lparr>moving_both_cur := Some (if ex < cur_s then cur_s else if ex > cur_e then cur_e else ex)\<rparr>)))
     else if moving_top v
     then bind_r (attr (moving_top_start v)) (\<lambda>start.
          let g = gv_data v
          in bind_r (scale_data g (start - ex)) (\<lambda>delta.
             bind_r (set_range ext (r_start g + delta) (r_end g + delta) g) (\<lambda>g.
               Inr (True, redraw_with g (v\<lparr>moving_top_cur := Some ex, moving_top_start := Some ex\<rparr>)))))
     else Inr (hover ex ey (x, y, width, height) v))"

definition size_allocate :: "extents \<Rightarrow> pynum \<Rightarrow> pynum \<Rightarrow> gtk_view \<Rightarrow> gtk_view result" where
  "size_allocate ext width height v =
     bind_r (layout ext width height (gv_data v)) (\<lambda>g.
       Inr (redraw_with g (v\<lparr>gv_width := Some width, gv_height := Some height\<rparr>)))"

definition full_redraw :: "extents \<Rightarrow> gtk_view \<Rightarrow> gtk_view result" where
  "full_redraw ext v =
     (if force_full_redraw v
      then bind_r (graphic_draw ext (gv_data v)) (\<lambda>(ops, g).
             Inr (v\<lparr>gv_data := g, buffer_surface := Some ops, force_full_redraw := False\<rparr>))
      else Inr v)"

definition marker :: "pynum \<Rightarrow> pynum \<Rightarrow> pynum \<Rightarrow> cairo list" where
  "marker x y height = [Move_to x y, Rel_line_to 0 height, Close_path]"

definition mark :: "cairo list" where
  "mark = [Set_line_width 1, Set_source_rgb black, Stroke]"

definition expose :: "extents \<Rightarrow> pynum \<times> pynum \<times> pynum \<times> pynum \<Rightarrow> gtk_view \<Rightarrow> (cairo list \<times> gtk_view) result" where
  "expose ext area v =
     bind_r (full_redraw ext v) (\<lambda>v.
     bind_r (attr (buffer_surface v)) (\<lambda>buf.
     bind_r (get_selection_rectangle (gv_data v)) (\<lambda>(x, y, width, height).
     bind_r (if moving_left v then bind_r (attr (moving_left_cur v)) (\<lambda>c. Inr (marker (py_max c 2) y height @ mark)) else Inr []) (\<lambda>left.
     bind_r (if moving_right v
             then bind_r (attr (moving_right_cur v)) (\<lambda>c. bind_r (attr (gv_width v)) (\<lambda>w.
                    Inr (marker (py_min c (w - 2)) y height @ mark)))
             else Inr []) (\<lambda>right.
     bind_r (if moving_both v
             then bind_r (attr (moving_both_cur v)) (\<lambda>c. bind_r (attr (moving_both_start v)) (\<lambda>s.
                    let d = c - s
                    in Inr (marker (x + d) y height @ marker (x + width + d) y height @
                            [Set_source_rgb black, Set_line_width 1, Stroke])))
             else Inr []) (\<lambda>both.
       case area of (ax, ay, aw, ah) \<Rightarrow>
         Inr ([Rectangle ax ay aw ah, Clip, Set_source_surface buf, Paint] @ left @ right @ both, v)))))))"

section \<open>The program\<close>

text \<open>The events GTK delivers, with the handlers \<open>MainWindow.run\<close> and the constructor connect them to.\<close>

datatype ui_event =
    Zoom_out | Zoom_in | Save_png | Press pynum pynum | Release | Motion pynum pynum
  | Allocate pynum pynum | Expose pynum pynum pynum pynum

fun ui_step :: "extents \<Rightarrow> gtk_view \<Rightarrow> ui_event \<Rightarrow> gtk_view result" where
  "ui_step ext v Zoom_out = set_smaller_zoom ext v"
| "ui_step ext v Zoom_in = set_bigger_zoom ext v"
| "ui_step ext v Save_png = bind_r (output_png ext v) (\<lambda>(file, v). Inr v)"
| "ui_step ext v (Press x y) = bind_r (button_press x y v) (\<lambda>(handled, v). Inr v)"
| "ui_step ext v Release = bind_r (button_release ext v) (\<lambda>(handled, v). Inr v)"
| "ui_step ext v (Motion x y) = bind_r (motion_notify ext x y v) (\<lambda>(handled, v). Inr v)"
| "ui_step ext v (Allocate w h) = size_allocate ext w h v"
| "ui_step ext v (Expose x y w h) = bind_r (expose ext (x, y, w, h) v) (\<lambda>(drawn, v). Inr v)"

definition main_view :: "extents \<Rightarrow> (string list \<Rightarrow> string list) \<Rightarrow> string list \<Rightarrow> gtk_view result" where
  "main_view ext ko lines =
     bind_r (read_data lines) (\<lambda>(cs, ts).
     let (lower, upper) = timelines_bounds ts; range_values = get_all_range_values ko ts
     in bind_r (legend_colors range_values cs) (\<lambda>(range_colors, cs).
        let g = new_graphic lower upper (set_legends range_values range_colors new_legend) (new_data_view ts cs);
            range_mid = (upper - lower) div 2; range_width = (upper - lower) div 10
        in bind_r (set_range ext (PInt (range_mid - range_width div 2)) (PInt (range_mid + range_width div 2)) g) (\<lambda>g.
             Inr (new_gtk_view g))))"

section \<open>Drawing keeps the view\<close>

text \<open>The renderer of the timelines changes its colours and the parity of the background only.\<close>

definition dv_same :: "data_view \<Rightarrow> data_view \<Rightarrow> bool" where
  "dv_same a b \<longleftrightarrow> b\<lparr>dv_colors := dv_colors a, grey_background := grey_background a\<rparr> = a"

lemma dv_same_refl [simp]: "dv_same a a"
  by (simp add: dv_same_def)

lemma dv_same_trans: "dv_same a b \<Longrightarrow> dv_same b c \<Longrightarrow> dv_same a c"
  by (cases a; cases b; cases c) (simp add: dv_same_def)

lemma dv_same_fields:
  assumes "dv_same a b"
  shows "dv_start b = dv_start a" "dv_end b = dv_end a" "dv_width b = dv_width a" "dv_height b = dv_height a"
    "get_data_x_start b = get_data_x_start a" "dv_timelines b = dv_timelines a"
  using assms by (cases a; cases b; simp add: dv_same_def get_data_x_start_def)+

lemma draw_events_same: "draw_events str e x y w h dv = Inr (ops, dv') \<Longrightarrow> dv_same dv dv'"
  by (auto simp: draw_events_def dv_same_def bind_r_eq_Inr_iff split: prod.splits)

lemma draw_ranges_same: "draw_ranges r x y w h dv = Inr (ops, dv') \<Longrightarrow> dv_same dv dv'"
  by (auto simp: draw_ranges_def dv_same_def bind_r_eq_Inr_iff split: prod.splits)

lemma draw_row_same:
  assumes "draw_row ext name draw rh st = Inr st'"
    and "\<And>x y w dv ops dv'. draw x y w dv = Inr (ops, dv') \<Longrightarrow> dv_same dv dv'" and "dv_same dv0 (snd (snd st))"
  shows "dv_same dv0 (snd (snd st'))"
  using assms by (auto simp: draw_row_def bind_r_eq_Inr_iff Let_def split: prod.splits intro: dv_same_trans)

lemma draw_timeline_same:
  assumes "draw_timeline ext st t = Inr st'" and "dv_same dv0 (snd (snd st))"
  shows "dv_same dv0 (snd (snd st'))"
proof -
  obtain ops cur_y dv where st: "st = (ops, cur_y, dv)" by (metis prod_cases3)
  let ?h = "max_text_height dv"
  from assms(1) obtain s1 s2 s3 where
    1: "foldM_r (\<lambda>st e. draw_row ext (te_name e) (\<lambda>x y w. draw_events str_of_int e x y w (?h + 5)) (?h + 5) st)
      (ops @ text_at ext dv (half (dv_padding dv)) cur_y (tl_name t), cur_y, dv) (event_int t) = Inr s1" and
    2: "foldM_r (\<lambda>st e. draw_row ext (te_name e) (\<lambda>x y w. draw_events (\<lambda>v. v) e x y w (?h + 5)) (?h + 5) st) s1 (event_str t) = Inr s2" and
    3: "foldM_r (\<lambda>st r. draw_row ext (tdr_name r) (\<lambda>x y w. draw_ranges r x y w 10) ?h st) s2 (ranges t) = Inr s3" and
    4: "snd (snd st') = snd (snd s3)"
    by (auto simp: st draw_timeline_def Let_def bind_r_eq_Inr_iff split: prod.splits)
  have "dv_same dv0 (snd (snd s1))"
    by (rule foldM_r_invariant [OF 1]) (use assms(2) in \<open>auto simp: st intro: draw_row_same draw_events_same\<close>)
  then have "dv_same dv0 (snd (snd s2))"
    by (rule foldM_r_invariant [OF 2]) (auto intro: draw_row_same draw_events_same)
  then have "dv_same dv0 (snd (snd s3))"
    by (rule foldM_r_invariant [OF 3]) (auto intro: draw_row_same draw_ranges_same)
  with 4 show ?thesis by simp
qed

lemma dv_draw_same: "dv_draw ext dv = Inr (ops, dv') \<Longrightarrow> dv_same dv dv'"
proof -
  assume "dv_draw ext dv = Inr (ops, dv')"
  then obtain s where s: "foldM_r (draw_timeline ext) (draw_line 0 0 (dv_width dv) 0, half (dv_padding dv), dv\<lparr>grey_background := 1\<rparr>)
      (dv_timelines dv) = Inr s" "snd (snd s) = dv'"
    by (auto simp: dv_draw_def Let_def bind_r_eq_Inr_iff split: prod.splits)
  have "dv_same dv (snd (snd s))"
  proof (rule foldM_r_invariant [OF s(1)])
    show "dv_same dv (snd (snd (draw_line 0 0 (dv_width dv) 0, half (dv_padding dv), dv\<lparr>grey_background := 1\<rparr>)))"
      by (simp add: dv_same_def)
  qed (rule draw_timeline_same)
  with s(2) show ?thesis by simp
qed

lemma graphic_draw_view_ok:
  assumes "graphic_draw ext g = Inr (ops, g')" and "view_ok g"
  shows "view_ok g'" and "g_width g' = g_width g"
proof -
  from assms(1) obtain dv where "dv_same (g_data g) dv" and g': "g' = g\<lparr>g_data := dv\<rparr>"
    by (auto simp: graphic_draw_def Let_def bind_r_eq_Inr_iff dest: dv_draw_same)
  from dv_same_fields [OF this(1)] assms(2) show "view_ok g'" and "g_width g' = g_width g"
    by (simp_all add: g' view_ok_def)
qed

section \<open>What every handler keeps\<close>

text \<open>
  The view is consistent, a drag that moves the window or the data knows where it started, and the widget
  and the graphic agree on the width once GTK has allocated one.
\<close>

definition ui_ok :: "gtk_view \<Rightarrow> bool" where
  "ui_ok v \<longleftrightarrow> view_ok (gv_data v) \<and> (moving_both v \<longrightarrow> moving_both_start v \<noteq> None \<and> moving_both_cur v \<noteq> None) \<and>
     (moving_top v \<longrightarrow> moving_top_start v \<noteq> None) \<and> (\<forall>w. gv_width v = Some w \<longrightarrow> g_width (gv_data v) = w)"

lemma view_ok_bot: "view_ok g \<Longrightarrow> num_val (sc_lo (bot_scale g)) = num_val (g_start g)"
  "view_ok g \<Longrightarrow> num_val (sc_hi (bot_scale g)) = num_val (g_end g)"
  by (simp_all add: view_ok_def)

lemma set_range_view_ok:
  assumes "view_ok g" and "set_range ext s e g = Inr g'"
  shows "view_ok g'" and "g_width g' = g_width g" and "g_start g' = g_start g" and "g_end g' = g_end g"
  using set_range_cases [OF view_ok_bot [OF assms(1)], of s e ext] assms(2) by (metis Inl_Inr_False Inr_inject)+

lemma redraw_with_ok:
  assumes "ui_ok v" and "view_ok g" and "g_width g = g_width (gv_data v)"
  shows "ui_ok (redraw_with g v)"
  using assms by (simp add: ui_ok_def redraw_with_def)

lemma attr_eq [simp]: "attr x = Inr y \<longleftrightarrow> x = Some y" "attr x = Inl e \<longleftrightarrow> x = None \<and> e = AttributeError" "attr (Some y) = Inr y" "attr None = Inl AttributeError"
  by (auto simp: attr_def split: option.splits)

lemma zoom_ok:
  "ui_ok v \<Longrightarrow> set_smaller_zoom ext v = Inr v' \<Longrightarrow> ui_ok v'"
  "ui_ok v \<Longrightarrow> set_bigger_zoom ext v = Inr v' \<Longrightarrow> ui_ok v'"
  by (auto simp: set_smaller_zoom_def set_bigger_zoom_def Let_def bind_r_eq_Inr_iff ui_ok_def redraw_with_def
      dest: set_range_view_ok)

lemma output_png_ok: "ui_ok v \<Longrightarrow> output_png ext v = Inr (file, v') \<Longrightarrow> ui_ok v'"
  by (auto simp: output_png_def Let_def bind_r_eq_Inr_iff ui_ok_def dest: graphic_draw_view_ok)

lemma button_press_cases:
  assumes "button_press x y v = Inr (b, v')"
  obtains "v' = v" | "v' = v\<lparr>moving_left := True\<rparr>" | "v' = v\<lparr>moving_right := True\<rparr>"
  | "v' = v\<lparr>moving_both := True, moving_both_start := Some x, moving_both_cur := Some x\<rparr>"
  | "v' = v\<lparr>moving_top := True, moving_top_start := Some x, moving_top_cur := Some x\<rparr>"
proof -
  from assms obtain r where "(case r of (a, c, w, h) \<Rightarrow>
     let (d_x, d_y, d_width, d_height) = get_data_rectangle (gv_data v); in_selection = (y > c \<and> y < c + h)
     in if in_selection \<and> num_abs (x - a) < 5 then Inr (True, v\<lparr>moving_left := True\<rparr>)
        else if in_selection \<and> num_abs (x - (a + w)) < 5 then Inr (True, v\<lparr>moving_right := True\<rparr>)
        else if in_selection \<and> x > a \<and> x < a + w
        then Inr (True, v\<lparr>moving_both := True, moving_both_start := Some x, moving_both_cur := Some x\<rparr>)
        else if y > d_y \<and> y < d_y + d_height \<and> x > d_x \<and> x < d_x + d_width
        then Inr (True, v\<lparr>moving_top := True, moving_top_start := Some x, moving_top_cur := Some x\<rparr>)
        else Inr (False, v)) = (Inr (b, v') :: (bool \<times> gtk_view) result)"
    unfolding button_press_def bind_r_eq_Inr_iff by blast
  then show thesis
    by (simp add: get_data_rectangle_def Let_def case_prod_beta split: if_splits) (use that in blast)+
qed

lemma button_press_ok: "ui_ok v \<Longrightarrow> button_press x y v = Inr (b, v') \<Longrightarrow> ui_ok v'"
  by (erule button_press_cases) (simp_all add: ui_ok_def)

lemma button_release_ok: "ui_ok v \<Longrightarrow> button_release ext v = Inr (b, v') \<Longrightarrow> ui_ok v'"
  by (auto simp: button_release_def Let_def bind_r_eq_Inr_iff ui_ok_def redraw_with_def dest: set_range_view_ok split: if_splits)

lemma queue_selection_ok: "ui_ok v \<Longrightarrow> queue_selection y h v = Inr (b, v') \<Longrightarrow> ui_ok v'"
  by (auto simp: queue_selection_def bind_r_eq_Inr_iff ui_ok_def)

lemma hover_keeps: "\<exists>c. snd (hover x y sel v) = v\<lparr>gv_cursor := c\<rparr>"
  by (cases sel) (auto simp: hover_def get_data_rectangle_def Let_def)

lemma ui_ok_cursor: "ui_ok (v\<lparr>gv_cursor := c\<rparr>) \<longleftrightarrow> ui_ok v"
  by (simp add: ui_ok_def)

lemma motion_notify_ok:
  assumes "ui_ok v" "motion_notify ext x y v = Inr (b, v')"
  shows "ui_ok v'"
proof -
  obtain a c w h where sel: "get_selection_rectangle (gv_data v) = Inr (a, c, w, h)"
    using assms(2) by (auto simp: motion_notify_def bind_r_eq_Inr_iff)
  note m = assms(2) [unfolded motion_notify_def sel bind_r_Inr prod.case]
  consider "moving_left v" | "\<not> moving_left v" "moving_right v" | "\<not> moving_left v" "\<not> moving_right v" "moving_both v"
    | "\<not> moving_left v" "\<not> moving_right v" "\<not> moving_both v" "moving_top v"
    | "\<not> moving_left v" "\<not> moving_right v" "\<not> moving_both v" "\<not> moving_top v" by blast
  then show ?thesis
  proof cases
    case 1
    show ?thesis by (rule queue_selection_ok [OF _ m [unfolded if_P [OF 1]]]) (use assms(1) in \<open>simp add: ui_ok_def\<close>)
  next
    case 2
    with m obtain w0 where "queue_selection c h (if x \<ge> w0 then v\<lparr>moving_right := num_val w0 \<noteq> 0\<rparr>
        else if x < a then v\<lparr>moving_right_cur := Some a\<rparr> else v\<lparr>moving_right_cur := Some x\<rparr>) = Inr (b, v')"
      by (auto simp: bind_r_eq_Inr_iff)
    then show ?thesis by (rule queue_selection_ok [rotated]) (use assms(1) in \<open>simp add: ui_ok_def\<close>)
  next
    case 3
    with m obtain cur where "queue_selection c h (v\<lparr>moving_both_cur := Some cur\<rparr>) = Inr (b, v')"
      by (auto simp: bind_r_eq_Inr_iff Let_def)
    then show ?thesis by (rule queue_selection_ok [rotated]) (use assms(1) in \<open>simp add: ui_ok_def\<close>)
  next
    case 4
    with m obtain s e g where g: "set_range ext s e (gv_data v) = Inr g"
      "v' = redraw_with g (v\<lparr>moving_top_cur := Some x, moving_top_start := Some x\<rparr>)"
      by (auto simp: bind_r_eq_Inr_iff Let_def)
    show ?thesis unfolding g(2)
      by (rule redraw_with_ok) (use assms(1) set_range_view_ok [OF _ g(1)] in \<open>simp_all add: ui_ok_def\<close>)
  next
    case 5
    with m have "v' = snd (hover x y (a, c, w, h) v)" by simp
    with hover_keeps assms(1) show ?thesis by (metis ui_ok_cursor)
  qed
qed

lemma size_allocate_ok: "ui_ok v \<Longrightarrow> size_allocate ext w h v = Inr v' \<Longrightarrow> ui_ok v'"
  using layout_view_ok [of "gv_data v" ext w h]
  by (auto simp: size_allocate_def bind_r_eq_Inr_iff ui_ok_def redraw_with_def)

lemma full_redraw_ok: "ui_ok v \<Longrightarrow> full_redraw ext v = Inr v' \<Longrightarrow> ui_ok v'"
  by (auto simp: full_redraw_def bind_r_eq_Inr_iff ui_ok_def dest: graphic_draw_view_ok split: if_splits)

lemma expose_ok: "ui_ok v \<Longrightarrow> expose ext area v = Inr (ops, v') \<Longrightarrow> ui_ok v'"
  by (cases area) (auto simp: expose_def bind_r_eq_Inr_iff dest: full_redraw_ok)

lemma ui_step_ok: "ui_ok v \<Longrightarrow> ui_step ext v ev = Inr v' \<Longrightarrow> ui_ok v'"
  by (cases ev) (auto simp: bind_r_eq_Inr_iff intro: zoom_ok output_png_ok button_press_ok button_release_ok motion_notify_ok
      size_allocate_ok expose_ok)

interpretation ui: event_system "ui_step ext" ui_ok
  by unfold_locales (rule ui_step_ok)

text \<open>
  C5: from a consistent widget, whatever events GTK delivers and in whatever order, as long as no
  handler raises: the graphic, the timelines, the scales and the legend agree on the window and the
  width, the window neither starts before the data nor ends after them, and a drag that moves the window or
  the data knows where it started.
\<close>

theorem ui_invariant:
  assumes "ui_ok v" and "foldM_r (ui_step ext) v evs = Inr v'"
  shows "ui_ok v' \<and> g_start (gv_data v') \<le> r_start (gv_data v') \<and> r_end (gv_data v') \<le> g_end (gv_data v')"
  using ui.run_inv [OF assms] by (simp add: ui_ok_def view_ok_def)

section \<open>The initial window\<close>

lemma main_view_unfold:
  assumes "read_data lines = Inr (cs, ts)" and "timelines_bounds ts = (0, u)"
    and "legend_colors (get_all_range_values ko ts) cs = Inr (out, cs')"
  shows "main_view ext ko lines =
    bind_r (set_range ext (PInt (u div 2 - u div 10 div 2)) (PInt (u div 2 + u div 10 div 2))
      (new_graphic 0 u (set_legends (get_all_range_values ko ts) out new_legend) (new_data_view ts cs')))
      (\<lambda>g. Inr (new_gtk_view g))"
  using assms by (simp add: main_view_def Let_def)

lemma new_graphic_fields [simp]:
  "g_start (new_graphic lo hi lg dv) = PFloat (of_int lo)" "g_end (new_graphic lo hi lg dv) = PFloat (of_int hi)"
  "sc_lo (bot_scale (new_graphic lo hi lg dv)) = PInt lo" "sc_hi (bot_scale (new_graphic lo hi lg dv)) = PInt hi"
  by (simp_all add: new_graphic_def set_bot_def set_bounds_def)

lemma main_view_cases:
  assumes "read_data lines = Inr (cs, ts)" and "legend_colors (get_all_range_values ko ts) cs = Inr (out, cs')"
  obtains u where "0 \<le> u" "timelines_bounds ts = (0, u)" "u = 1" "main_view ext ko lines = Inl ZeroDivisionError"
  | u v where "0 \<le> u" "timelines_bounds ts = (0, u)" "u \<noteq> 1" "main_view ext ko lines = Inr v" "ui_ok v"
      "r_start (gv_data v) = py_max (PFloat 0) (PInt (u div 2 - u div 10 div 2))"
      "r_end (gv_data v) = py_min (PFloat (of_int u)) (PInt (u div 2 + u div 10 div 2))"
      "g_start (gv_data v) = PFloat 0" "g_end (gv_data v) = PFloat (of_int u)"
proof -
  obtain u where u: "0 \<le> u" "timelines_bounds ts = (0, u)" using read_data_bounds [OF assms(1)] by blast
  let ?g = "new_graphic 0 u (set_legends (get_all_range_values ko ts) out new_legend) (new_data_view ts cs')"
  let ?s = "u div 2 - u div 10 div 2" and ?e = "u div 2 + u div 10 div 2"
  have le: "u div 10 div 2 \<le> u div 2" "0 \<le> u div 10 div 2" "?e \<le> u" using u(1) by linarith+
  have mm: "py_min (PInt ?s) (PInt ?e) = PInt ?s" "py_max (PInt ?s) (PInt ?e) = PInt ?e"
    using le(2) by (auto simp: py_min_def py_max_def less_pynum_def)
  have odd: "rat_of_int ?e - rat_of_int ?s \<noteq> 1"
  proof
    assume "rat_of_int ?e - rat_of_int ?s = 1"
    then have "rat_of_int (?e - ?s) = rat_of_int 1" by simp
    then have "?e - ?s = 1" by (simp only: of_int_eq_iff)
    then have "2 * (u div 10 div 2) = 1" by linarith
    then show False by presburger
  qed
  have cut: "min (rat_of_int u) (max (of_int ?s) (of_int ?e)) = of_int ?e" "max 0 (min (of_int ?s) (of_int ?e)) = rat_of_int ?s"
    using le by (auto simp: min_def max_def)
  have bot: "num_val (sc_lo (bot_scale ?g)) = num_val (g_start ?g)" "num_val (sc_hi (bot_scale ?g)) = num_val (g_end ?g)" by simp_all
  note unfold = main_view_unfold [OF assms(1) u(2) assms(2), of ext]
  show thesis
  proof (rule set_range_cases [OF bot, of "PInt ?s" "PInt ?e" ext])
    assume *: "min (num_val (g_end ?g)) (max (num_val (PInt ?s)) (num_val (PInt ?e))) -
        max (num_val (g_start ?g)) (min (num_val (PInt ?s)) (num_val (PInt ?e))) = 1 \<or> num_val (g_end ?g) - num_val (g_start ?g) = 1"
      "set_range ext (PInt ?s) (PInt ?e) ?g = Inl ZeroDivisionError"
    have "u = 1" using *(1) odd cut by (simp del: of_int_add of_int_diff)
    then show thesis using u *(2) by (intro that(1) [of u]) (simp_all add: unfold)
  next
    fix g'
    assume g': "num_val (g_end ?g) - num_val (g_start ?g) \<noteq> 1" "set_range ext (PInt ?s) (PInt ?e) ?g = Inr g'" "view_ok g'"
      "r_start g' = py_max (g_start ?g) (py_min (PInt ?s) (PInt ?e))" "r_end g' = py_min (g_end ?g) (py_max (PInt ?s) (PInt ?e))"
      "g_start g' = g_start ?g" "g_end g' = g_end ?g"
    show thesis
      by (rule that(2) [of u "new_gtk_view g'"])
        (use u g' in \<open>simp_all add: unfold mm new_gtk_view_def ui_ok_def\<close>)
  qed
qed

text \<open>A small input on which the theorems below are instantiated.\<close>

definition demo_extents :: extents where
  "demo_extents s = (- 7, 40, 9)"

definition demo_lines :: "string list" where
  "demo_lines = [''event-int a b 5 400'']"

definition demo_timelines :: "timeline list" where
  "demo_timelines = [\<lparr>tl_name = ''a'', ranges = [], event_str = [],
     event_int = [\<lparr>te_name = ''b'', te_events = [\<lparr>event_at = 400, event_value = 5\<rparr>]\<rparr>]\<rparr>]"

lemma demo_read: "read_data demo_lines = Inr (initial_colors, demo_timelines)"
  by code_simp

lemma demo_legend: "legend_colors (get_all_range_values (\<lambda>xs. xs) demo_timelines) initial_colors = Inr ([], initial_colors)"
  by code_simp

lemma demo_bounds: "timelines_bounds demo_timelines = (0, 400)"
  by code_simp

lemma demo_view: "\<exists>v. main_view demo_extents (\<lambda>xs. xs) demo_lines = Inr v \<and> ui_ok v"
  by (rule main_view_cases [OF demo_read demo_legend, of demo_extents]) (auto simp: demo_bounds)

text \<open>
  With a legend that can be coloured, \<open>main\<close> fails only on data whose upper bound is one, with
  \<open>ZeroDivisionError\<close>. Otherwise the widget it opens is consistent and shows the middle tenth of the data, from
  zero to the upper bound; on data whose upper bound is below twenty that window is empty.
\<close>

theorem main_view_outcome:
  assumes "read_data lines = Inr (cs, ts)" and "legend_colors (get_all_range_values ko ts) cs = Inr (out, cs')"
  shows "\<exists>u \<ge> 0. timelines_bounds ts = (0, u) \<and>
    (case main_view ext ko lines of
       Inl e \<Rightarrow> u = 1 \<and> e = ZeroDivisionError
     | Inr v \<Rightarrow> u \<noteq> 1 \<and> ui_ok v \<and> num_val (r_start (gv_data v)) = of_int (u div 2 - u div 10 div 2) \<and>
         num_val (r_end (gv_data v)) = of_int (u div 2 + u div 10 div 2) \<and>
         (num_val (r_start (gv_data v)) = num_val (r_end (gv_data v)) \<longleftrightarrow> u < 20))"
proof (rule main_view_cases [OF assms, of ext])
  fix u v
  assume *: "0 \<le> u" "timelines_bounds ts = (0, u)" "u \<noteq> 1" "main_view ext ko lines = Inr v" "ui_ok v"
    "r_start (gv_data v) = py_max (PFloat 0) (PInt (u div 2 - u div 10 div 2))"
    "r_end (gv_data v) = py_min (PFloat (of_int u)) (PInt (u div 2 + u div 10 div 2))"
  have le: "0 \<le> u div 2 - u div 10 div 2" "u div 2 + u div 10 div 2 \<le> u" using *(1) by linarith+
  have val: "num_val (r_start (gv_data v)) = of_int (u div 2 - u div 10 div 2)"
    "num_val (r_end (gv_data v)) = of_int (u div 2 + u div 10 div 2)"
    unfolding *(6,7) num_val_max num_val_min num_val.simps using le
    by (simp_all only: of_int_le_iff max_def min_def of_int_0_le_iff if_True) auto
  have "u div 10 div 2 = 0 \<longleftrightarrow> u < 20" using *(1) by (intro iffI) linarith+
  then have "u div 2 - u div 10 div 2 = u div 2 + u div 10 div 2 \<longleftrightarrow> u < 20" by linarith
  then have "num_val (r_start (gv_data v)) = num_val (r_end (gv_data v)) \<longleftrightarrow> u < 20" unfolding val of_int_eq_iff .
  with * val show ?thesis by (intro exI [of _ u]) simp
qed auto

theorem main_view_outcome_witness:
  "\<exists>u \<ge> 0. timelines_bounds demo_timelines = (0, u) \<and>
    (case main_view demo_extents (\<lambda>xs. xs) demo_lines of
       Inl e \<Rightarrow> False
     | Inr v \<Rightarrow> num_val (r_start (gv_data v)) = of_int (u div 2 - u div 10 div 2) \<and> u = 400)"
  using main_view_outcome [OF demo_read demo_legend, of demo_extents] by (auto simp: demo_bounds split: sum.splits)

theorem ui_invariant_witness:
  "\<exists>v v'. main_view demo_extents (\<lambda>xs. xs) demo_lines = Inr v \<and> foldM_r (ui_step demo_extents) v [Allocate 640 480] = Inr v' \<and>
     ui_ok v' \<and> r_end (gv_data v') \<le> g_end (gv_data v')"
proof -
  obtain v where v: "main_view demo_extents (\<lambda>xs. xs) demo_lines = Inr v" "ui_ok v" using demo_view by blast
  obtain g where "layout demo_extents 640 480 (gv_data v) = Inr g"
    using layout_view_ok v(2) unfolding ui_ok_def by blast
  then obtain v' where "foldM_r (ui_step demo_extents) v [Allocate 640 480] = Inr v'" by (simp add: size_allocate_def)
  with v ui_invariant [OF v(2) this] show ?thesis by blast
qed

section \<open>Zooming in\<close>

lemma half_int [simp]: "half (PInt a) = PInt (a div 2)"
  by (simp add: half_def numeral_pynum)

text \<open>Zooming in on a window with integer ends halves it, rounding down.\<close>

lemma zoom_in_int:
  assumes "ui_ok v" and "r_start (gv_data v) = PInt a" and "r_end (gv_data v) = PInt b"
    and "num_val (g_start (gv_data v)) < of_int a" and "a < b"
  shows "if (b - a) div 2 = 1 then set_bigger_zoom ext v = Inl ZeroDivisionError
    else \<exists>v'. set_bigger_zoom ext v = Inr v' \<and> ui_ok v' \<and> r_start (gv_data v') = PInt a \<and>
      r_end (gv_data v') = PInt (a + (b - a) div 2) \<and> g_start (gv_data v') = g_start (gv_data v)"
proof -
  let ?g = "gv_data v" and ?e = "a + (b - a) div 2"
  have ok: "view_ok ?g" using assms(1) by (simp add: ui_ok_def)
  have b: "of_int b \<le> num_val (g_end ?g)" using ok assms(3) by (simp add: view_ok_def less_eq_pynum_def)
  have e: "a \<le> ?e" "?e < b" using assms(5) by linarith+
  then have eb: "rat_of_int ?e < num_val (g_end ?g)" using b of_int_less_iff [of ?e b, where ?'a = rat] by linarith
  have ends: "py_max (g_start ?g) (py_min (PInt a) (PInt ?e)) = PInt a" "py_min (g_end ?g) (py_max (PInt a) (PInt ?e)) = PInt ?e"
    using assms(4) eb e(1) by (auto simp: py_min_def py_max_def less_pynum_def)
  have vals: "min (num_val (g_end ?g)) (max (num_val (PInt a)) (num_val (PInt ?e))) = of_int ?e"
    "max (num_val (g_start ?g)) (min (num_val (PInt a)) (num_val (PInt ?e))) = of_int a"
    using arg_cong [OF ends(1), of num_val] arg_cong [OF ends(2), of num_val] by simp_all
  have one: "rat_of_int ?e - of_int a = 1 \<longleftrightarrow> (b - a) div 2 = 1" by (simp flip: of_int_diff add: of_int_eq_1_iff)
  have zoom: "set_bigger_zoom ext v = bind_r (set_range ext (PInt a) (PInt ?e) ?g) (\<lambda>g. Inr (redraw_with g v))"
    by (simp add: set_bigger_zoom_def assms(2,3) Let_def)
  show ?thesis
  proof (rule set_range_cases [OF view_ok_bot [OF ok], of "PInt a" "PInt ?e" ext], unfold vals one ends)
    assume "(b - a) div 2 = 1 \<or> num_val (g_end ?g) - num_val (g_start ?g) = 1"
      "set_range ext (PInt a) (PInt ?e) ?g = Inl ZeroDivisionError"
    with ok show ?thesis by (simp add: zoom view_ok_def)
  next
    fix g'
    assume g': "(b - a) div 2 \<noteq> 1" "set_range ext (PInt a) (PInt ?e) ?g = Inr g'" "view_ok g'" "r_start g' = PInt a"
      "r_end g' = PInt ?e" "g_start g' = g_start ?g" "g_width g' = g_width ?g"
    have "ui_ok (redraw_with g' v)" using assms(1) g'(3,7) by (rule redraw_with_ok)
    with g' show ?thesis by (simp add: zoom redraw_with_def)
  qed
qed

lemma zoom_in_run:
  assumes "ui_ok v" and "r_start (gv_data v) = PInt a" and "r_end (gv_data v) = PInt b"
    and "num_val (g_start (gv_data v)) < of_int a" and "2 ^ Suc n \<le> b - a" and "b - a < 2 ^ Suc (Suc n)"
  shows "foldM_r (ui_step ext) v (replicate (Suc n) Zoom_in) = Inl ZeroDivisionError"
  using assms
proof (induction n arbitrary: v b)
  case 0
  then have "(b - a) div 2 = 1" by simp
  with zoom_in_int [OF 0(1-4), of ext] 0(5) show ?case by simp
next
  case (Suc n)
  have w: "2 ^ Suc n \<le> (b - a) div 2" "(b - a) div 2 < 2 ^ Suc (Suc n)" using Suc.prems(5,6) by simp_all
  have "(2::int) \<le> 2 ^ Suc n" by simp
  with w(1) have "(b - a) div 2 \<noteq> 1" by linarith
  moreover have "a < b" using w(1) \<open>2 \<le> 2 ^ Suc n\<close> by linarith
  ultimately obtain v' where v': "set_bigger_zoom ext v = Inr v'" "ui_ok v'" "r_start (gv_data v') = PInt a"
    "r_end (gv_data v') = PInt (a + (b - a) div 2)" "g_start (gv_data v') = g_start (gv_data v)"
    using zoom_in_int [OF Suc.prems(1-4), of ext] by auto
  have "foldM_r (ui_step ext) v' (replicate (Suc n) Zoom_in) = Inl ZeroDivisionError"
    using w by (intro Suc.IH [OF v'(2-4)]) (simp_all add: v'(5) Suc.prems(4))
  then show ?case by (simp add: v'(1))
qed

text \<open>
  On the widget \<open>main\<close> opens on data whose upper bound is twenty or more, the button Zoom In works only
  a few times: the window has integer ends, each click halves it rounding down, and when its width reaches one,
  after as many clicks as the width has binary digits less one, the layout of the scale divides by zero.
\<close>

theorem zoom_in_fails:
  assumes "read_data lines = Inr (cs, ts)" and "main_view ext ko lines = Inr v" and "20 \<le> snd (timelines_bounds ts)"
  shows "\<exists>n. 2 ^ n \<le> num_val (r_end (gv_data v) - r_start (gv_data v)) \<and>
    num_val (r_end (gv_data v) - r_start (gv_data v)) < 2 ^ Suc n \<and>
    foldM_r (ui_step ext) v (replicate n Zoom_in) = Inl ZeroDivisionError"
proof -
  obtain out cs' where leg: "legend_colors (get_all_range_values ko ts) cs = Inr (out, cs')"
    using assms(1,2) by (auto simp: main_view_def bind_r_eq_Inr_iff Let_def split: prod.splits)
  show ?thesis
  proof (rule main_view_cases [OF assms(1) leg, of ext])
    fix u :: int and v'
    let ?a = "u div 2 - u div 10 div 2" and ?b = "u div 2 + u div 10 div 2"
    assume *: "0 \<le> u" "timelines_bounds ts = (0, u)" "main_view ext ko lines = Inr v'" "ui_ok v'"
      "r_start (gv_data v') = py_max (PFloat 0) (PInt ?a)" "r_end (gv_data v') = py_min (PFloat (of_int u)) (PInt ?b)"
      "g_start (gv_data v') = PFloat 0"
    have v: "v' = v" and u: "20 \<le> u" using assms(2,3) * by simp_all
    have "2 \<le> u div 10" using u by linarith
    then have "1 \<le> u div 10 div 2" by linarith
    then have ab: "0 < ?a" "?b < u" "2 \<le> ?b - ?a" using u by linarith+
    have r: "r_start (gv_data v) = PInt ?a" "r_end (gv_data v) = PInt ?b"
      using *(5,6) ab(1,2) unfolding v py_max_def py_min_def less_pynum_def num_val.simps
      by (simp_all only: of_int_less_iff of_int_0_less_iff if_True)
    have "1 \<le> nat (?b - ?a)" using ab(3) by linarith
    then obtain n where n: "2 ^ n \<le> nat (?b - ?a)" "nat (?b - ?a) < 2 ^ Suc n"
      using ex_power_ivl1 [OF order_refl] by (metis Suc_eq_plus1)
    have n': "2 ^ n \<le> ?b - ?a" "?b - ?a < 2 ^ Suc n"
      using n ab(3) by (simp_all add: nat_less_iff le_nat_iff)
    then obtain m where m: "n = Suc m" using ab(3) by (cases n) auto
    have "foldM_r (ui_step ext) v (replicate n Zoom_in) = Inl ZeroDivisionError"
      unfolding m using n' ab(1) *(4,7) by (intro zoom_in_run [of v ?a ?b]) (simp_all add: v r m)
    moreover have "rat_of_int (2 ^ n) \<le> of_int (?b - ?a)" "rat_of_int (?b - ?a) < of_int (2 ^ Suc n)"
      using n' by (simp_all only: of_int_le_iff of_int_less_iff)
    ultimately show ?thesis by (intro exI [of _ n]) (simp add: r)
  qed (use assms(2) in simp)
qed

theorem zoom_in_fails_witness:
  "\<exists>v n. main_view demo_extents (\<lambda>xs. xs) demo_lines = Inr v \<and>
     foldM_r (ui_step demo_extents) v (replicate n Zoom_in) = Inl ZeroDivisionError"
proof -
  obtain v where v: "main_view demo_extents (\<lambda>xs. xs) demo_lines = Inr v" using demo_view by blast
  with zoom_in_fails [OF demo_read v] show ?thesis by (auto simp: demo_bounds)
qed

section \<open>Dragging the ends of the window\<close>

text \<open>The rectangle of the selection does not depend on what is being dragged.\<close>

lemma press_left:
  assumes "button_press x y v = Inr (b, v')" and "\<not> moving_left v" and "moving_left v'"
  shows "v' = v\<lparr>moving_left := True\<rparr>"
  using assms by (elim button_press_cases) auto

lemma press_right:
  assumes "button_press x y v = Inr (b, v')" and "\<not> moving_right v" and "moving_right v'"
  shows "v' = v\<lparr>moving_right := True\<rparr>"
  using assms by (elim button_press_cases) auto

text \<open>The widget on the small input, once GTK has given it 640 by 480 pixels.\<close>

definition demo_widget :: gtk_view where
  "demo_widget = projr (bind_r (main_view demo_extents (\<lambda>xs. xs) demo_lines) (size_allocate demo_extents 640 480))"

lemma demo_widget_sel: "get_selection_rectangle (gv_data demo_widget) = Inr (PInt 288, PFloat 73, PInt 64, PFloat 39)"
  by code_simp

lemma demo_widget_idle:
  "gv_width demo_widget = Some 640" "\<not> moving_left demo_widget" "\<not> moving_right demo_widget"
  "moving_left_cur demo_widget = None" "moving_right_cur demo_widget = None"
  by code_simp+

lemma demo_press:
  "\<exists>v. button_press (PInt 290) (PInt 80) demo_widget = Inr (True, v) \<and> moving_left v"
  "\<exists>v. button_press (PInt 350) (PInt 80) demo_widget = Inr (True, v) \<and> moving_right v"
  by (simp_all add: button_press_def demo_widget_sel Let_def case_prod_beta pynum_order)

lemma demo_widget_ok: "ui_ok demo_widget"
proof -
  obtain v where v: "main_view demo_extents (\<lambda>xs. xs) demo_lines = Inr v" "ui_ok v" using demo_view by blast
  obtain g where "layout demo_extents 640 480 (gv_data v) = Inr g"
    using layout_view_ok v(2) unfolding ui_ok_def by blast
  then obtain v' where "size_allocate demo_extents 640 480 v = Inr v'" by (simp add: size_allocate_def)
  with v size_allocate_ok [OF v(2) this] show ?thesis by (simp add: demo_widget_def)
qed

lemma demo_widget_window:
  "num_val (g_start (gv_data demo_widget)) = 0" "num_val (g_end (gv_data demo_widget)) = 400"
  "num_val (r_start (gv_data demo_widget)) = 180" "num_val (r_end (gv_data demo_widget)) = 220"
  by code_simp+

text \<open>
  Nothing keeps the start of the window before the end of the data: two drags of the data by 1800 pixels, which
  the pointer makes by leaving the widget, put it past them.
\<close>

lemma drag_past_end:
  "case foldM_r (ui_step demo_extents) demo_widget
     [Press (PFloat 630) (PFloat 20), Motion (PFloat (- 1170)) (PFloat 20), Release,
      Press (PFloat 630) (PFloat 20), Motion (PFloat (- 1170)) (PFloat 20), Release] of
     Inl e \<Rightarrow> False | Inr v \<Rightarrow> g_end (gv_data v) < r_start (gv_data v) \<and> r_end (gv_data v) < r_start (gv_data v)"
  by code_simp

text \<open>The right edge of the selection is at most the column of the right end of the window.\<close>

lemma selection_right_edge:
  assumes "view_ok g" and "get_selection_rectangle g = Inr (x, y, width, height)"
    and "num_val (g_start g) = 0" and "0 < num_val (g_end g)"
  shows "num_val (x + width) \<le> num_val (r_end g) * num_val (g_width g) / num_val (g_end g)"
proof -
  have sc: "num_val (sc_lo (bot_scale g)) = 0" "num_val (sc_hi (bot_scale g)) = num_val (g_end g)"
    "sc_width (bot_scale g) = g_width g" using assms(1,3) by (simp_all add: view_ok_def)
  let ?n = "(r_end g - sc_lo (bot_scale g)) * g_width g" and ?d = "sc_hi (bot_scale g) - sc_lo (bot_scale g)"
  obtain q where q: "get_position (bot_scale g) (r_end g) = Inr q" "num_val (x + width) = num_val q"
    using assms(2) by (auto simp: get_selection_rectangle_def bind_r_eq_Inr_iff Let_def)
  have d: "num_val ?d = num_val (g_end g)" and n: "num_val ?n = num_val (r_end g) * num_val (g_width g)" by (simp_all add: sc)
  then have "num_val ?d \<noteq> 0" using assms(4) by simp
  from py_div_val [OF this, of ?n] q(1)
  have "num_val q = (if is_int ?n \<and> is_int ?d then of_int \<lfloor>num_val ?n / num_val ?d\<rfloor> else num_val ?n / num_val ?d)"
    unfolding get_position_def sc(3) by auto
  then have "num_val q \<le> num_val ?n / num_val ?d" by (auto intro: of_int_floor_le)
  then show ?thesis using q(2) unfolding d n by simp
qed

lemma scale_selection_float:
  assumes "\<not> is_int c" and "num_val (g_width g) \<noteq> 0"
  shows "\<exists>t. scale_selection g c = Inr t \<and>
    num_val t = num_val c / num_val (g_width g) * (num_val (g_end g) - num_val (g_start g))"
  using py_div_float [of "g_width g" c] assms by (auto simp: scale_selection_def)

lemma drag_left_run:
  assumes "get_selection_rectangle (gv_data v) = Inr (x, y, width, height)" and "gv_width v = Some w"
    and "0 < mx" and "mx < x + width"
  shows "bind_r (motion_notify ext mx my (v\<lparr>moving_left := True\<rparr>)) (\<lambda>(b, v2). bind_r (button_release ext v2) (\<lambda>(b, v3). Inr (gv_data v3))) =
      bind_r (scale_selection (gv_data v) mx) (\<lambda>left. set_range ext left (r_end (gv_data v)) (gv_data v))"
proof -
  have mx: "\<not> mx \<le> 0" "\<not> mx \<ge> x + width" using assms(3,4) by (auto simp: pynum_order)
  have bind_inr: "bind_r m Inr = m" for m :: "graphic result" by (cases m) auto
  have "bind_r (motion_notify ext mx my (v\<lparr>moving_left := True\<rparr>)) (\<lambda>(b, v2). bind_r (button_release ext v2) (\<lambda>(b, v3). Inr (gv_data v3))) =
      bind_r (scale_selection (gv_data v) mx) (\<lambda>left. bind_r (set_range ext left (r_end (gv_data v)) (gv_data v)) Inr)"
    using mx assms(1,2)
    by (cases "scale_selection (gv_data v) mx")
      (simp_all add: motion_notify_def queue_selection_def button_release_def redraw_with_def bind_r_def split: sum.splits)
  then show ?thesis by (simp add: bind_inr)
qed

text \<open>
  C6: dragging the left end of the window of a consistent widget on data that start at zero. A press that takes
  hold of it, a motion to a column inside the widget and left of the right end, which GTK gives as a float, and
  the release put the window from the time of that column, the same part of the data as the column is of the
  width of the widget, to the old right end, unless these are one apart, where the layout divides by zero; but a
  press and a release with no motion in between, the first time, raise \<open>AttributeError\<close>, because only a motion
  sets the position that the release reads.
\<close>

theorem drag_left:
  assumes "ui_ok v" and "num_val (g_start (gv_data v)) = 0" and "0 < num_val (g_end (gv_data v))"
    and "get_selection_rectangle (gv_data v) = Inr (x, y, width, height)" and "gv_width v = Some w" and "0 < w"
    and "button_press px py v = Inr (b, v1)" and "\<not> moving_left v" and "moving_left v1"
    and "\<not> is_int mx" and "0 < mx" and "mx < x + width"
  shows "(case bind_r (motion_notify ext mx my v1) (\<lambda>(b, v2). bind_r (button_release ext v2) (\<lambda>(b, v3). Inr (gv_data v3))) of
      Inl e \<Rightarrow> e = ZeroDivisionError \<and>
        num_val (r_end (gv_data v)) - num_val mx / num_val w * num_val (g_end (gv_data v)) = 1
    | Inr g \<Rightarrow> view_ok g \<and> num_val (r_start g) = num_val mx / num_val w * num_val (g_end (gv_data v)) \<and>
        num_val (r_end g) = num_val (r_end (gv_data v))) \<and>
    (case moving_left_cur v of None \<Rightarrow> button_release ext v1 = Inl AttributeError | Some cur \<Rightarrow> True)"
proof -
  let ?g = "gv_data v"
  have v1: "v1 = v\<lparr>moving_left := True\<rparr>" using assms(7-9) by (rule press_left)
  have ok: "view_ok ?g" and w: "g_width ?g = w" "0 < num_val w" using assms(1,5,6) by (auto simp: ui_ok_def pynum_order)
  then have re: "num_val (r_end ?g) \<le> num_val (g_end ?g)" "num_val (g_end ?g) - num_val (g_start ?g) \<noteq> 1"
    by (simp_all add: view_ok_def pynum_order)
  obtain t where t: "scale_selection ?g mx = Inr t" "num_val t = num_val mx / num_val w * num_val (g_end ?g)"
    using scale_selection_float [OF assms(10), of ?g] w assms(2) by auto
  have "num_val mx < num_val (r_end ?g) * num_val w / num_val (g_end ?g)"
    using selection_right_edge [OF ok assms(4,2,3)] assms(12) unfolding w(1) by (simp add: pynum_order)
  then have "num_val t < num_val (r_end ?g)" unfolding t(2) using w(2) assms(3) by (simp add: field_simps)
  moreover have "0 < num_val t" unfolding t(2) using w(2) assms(3,11) by (simp add: pynum_order)
  ultimately have cut: "max (num_val (g_start ?g)) (min (num_val t) (num_val (r_end ?g))) = num_val t"
    "min (num_val (g_end ?g)) (max (num_val t) (num_val (r_end ?g))) = num_val (r_end ?g)" using assms(2) re(1) by auto
  have "case set_range ext t (r_end ?g) ?g of
      Inl e \<Rightarrow> e = ZeroDivisionError \<and> num_val (r_end ?g) - num_val t = 1
    | Inr g \<Rightarrow> view_ok g \<and> num_val (r_start g) = num_val t \<and> num_val (r_end g) = num_val (r_end ?g)"
    by (rule set_range_cases [OF view_ok_bot [OF ok], of t "r_end ?g" ext]; use re(2) in \<open>simp only: cut sum.case\<close>) simp
  then have "case bind_r (motion_notify ext mx my v1) (\<lambda>(b, v2). bind_r (button_release ext v2) (\<lambda>(b, v3). Inr (gv_data v3))) of
      Inl e \<Rightarrow> e = ZeroDivisionError \<and> num_val (r_end ?g) - num_val t = 1
    | Inr g \<Rightarrow> view_ok g \<and> num_val (r_start g) = num_val t \<and> num_val (r_end g) = num_val (r_end ?g)"
    unfolding v1 drag_left_run [OF assms(4,5,11,12)] t(1) by simp
  moreover have "case moving_left_cur v of None \<Rightarrow> button_release ext v1 = Inl AttributeError | Some cur \<Rightarrow> True"
    by (simp add: v1 button_release_def split: option.splits)
  ultimately show ?thesis unfolding t(2) by blast
qed

theorem drag_left_witness:
  "\<exists>v1. button_press (PInt 290) (PInt 80) demo_widget = Inr (True, v1) \<and> button_release demo_extents v1 = Inl AttributeError \<and>
     (case bind_r (motion_notify demo_extents (PFloat 160) (PInt 80) v1) (\<lambda>(b, v2). bind_r (button_release demo_extents v2) (\<lambda>(b, v3). Inr (gv_data v3))) of
        Inl e \<Rightarrow> False | Inr g \<Rightarrow> num_val (r_start g) = 100 \<and> num_val (r_end g) = 220)"
proof -
  obtain v1 where v1: "button_press (PInt 290) (PInt 80) demo_widget = Inr (True, v1)" "moving_left v1" using demo_press(1) by blast
  have "\<not> is_int (PFloat 160)" "0 < PFloat 160" "PFloat 160 < PInt 288 + PInt 64" "0 < (640 :: pynum)" "0 < num_val (g_end (gv_data demo_widget))"
    by (simp_all add: pynum_order demo_widget_window)
  from drag_left [OF demo_widget_ok demo_widget_window(1) this(5) demo_widget_sel demo_widget_idle(1) this(4) v1(1) demo_widget_idle(2)
      v1(2) this(1-3), of demo_extents "PInt 80"] v1(1)
  show ?thesis by (auto simp: demo_widget_idle demo_widget_window split: sum.splits)
qed

text \<open>
  Dragging the right end of the window past the right edge of the widget, the first time, raises
  \<open>AttributeError\<close> on the release: the motion stores the edge in the flag of the drag and not in the position the
  release reads.
\<close>

theorem drag_right_past_edge:
  assumes "get_selection_rectangle (gv_data v) = Inr (x, y, width, height)" and "gv_width v = Some w" and "0 < w"
    and "button_press px py v = Inr (b, v1)" and "\<not> moving_left v" and "\<not> moving_right v" and "moving_right v1"
    and "moving_right_cur v = None" and "w \<le> mx"
  shows "\<exists>v2. motion_notify ext mx my v1 = Inr (True, v2) \<and> button_release ext v2 = Inl AttributeError"
proof -
  have v1: "v1 = v\<lparr>moving_right := True\<rparr>" using assms(4,6,7) by (rule press_right)
  have "num_val w \<noteq> 0" using assms(3) by (simp add: pynum_order)
  with assms(1,2,5,8,9) show ?thesis
    by (simp add: v1 motion_notify_def queue_selection_def button_release_def)
qed

theorem drag_right_past_edge_witness:
  "\<exists>v1 v2. button_press (PInt 350) (PInt 80) demo_widget = Inr (True, v1) \<and>
     motion_notify demo_extents (PFloat 700) (PInt 80) v1 = Inr (True, v2) \<and> button_release demo_extents v2 = Inl AttributeError"
proof -
  obtain v1 where v1: "button_press (PInt 350) (PInt 80) demo_widget = Inr (True, v1)" "moving_right v1" using demo_press(2) by blast
  have "0 < (640 :: pynum)" "640 \<le> PFloat 700" by (simp_all add: pynum_order)
  from drag_right_past_edge [OF demo_widget_sel demo_widget_idle(1) this(1) v1(1) demo_widget_idle(2,3) v1(2) demo_widget_idle(5) this(2)] v1(1)
  show ?thesis by blast
qed

end
