(* ===== verification/UavGenetic.thy ===== *)
theory UavGenetic
  imports PyString
begin

text \<open>
  The placement of drones by a genetic algorithm, \<^verbatim>\<open>scratch/uavs_ag.py\<close>. A solution is a list of
  movement vectors, one per drone. The random numbers come from two generators, \<open>np.random\<close> and
  \<open>random\<close>; the model takes the sequences they produce as a parameter and keeps the position in each. The
  logarithms and square roots of the signal model are those of the real numbers. NumPy rows are
  written through: the assignment in \<open>crossover\<close> is modelled as the two writes it makes.
\<close>

section \<open>Scenario\<close>

text \<open>A position is read from a file as a tuple, and becomes an array when a movement is added to it.\<close>

datatype place = Tuple real real | Array real real

type_synonym movement = "real \<times> real"
type_synonym solution = "movement list"

definition tx_power :: real where "tx_power = 15"
definition freq :: real where "freq = 600000000"
definition timestep :: real where "timestep = 5"
definition speed :: real where "speed = 50"

record uav =
  uav_id :: string
  uav_position :: place
  uav_energy :: string
  uav_computing :: nat
  uav_storage :: nat

record user =
  user_id :: string
  user_position :: place

fun place_xy :: "place \<Rightarrow> real \<times> real" where
  "place_xy (Tuple x y) = (x, y)"
| "place_xy (Array x y) = (x, y)"

definition set_new_position :: "movement \<Rightarrow> uav \<Rightarrow> uav" where
  "set_new_position m u =
     (case place_xy (uav_position u) of (x, y) \<Rightarrow> u\<lparr>uav_position := Array (x + fst m) (y + snd m)\<rparr>)"

text \<open>The difference of two tuples is a \<open>TypeError\<close>; NumPy takes care of the other cases.\<close>

fun distance :: "place \<Rightarrow> place \<Rightarrow> real result" where
  "distance (Tuple _ _) (Tuple _ _) = Inl TypeError"
| "distance a b = (case (place_xy a, place_xy b) of ((ax, ay), (bx, by)) \<Rightarrow> Inr (sqrt ((ax - bx)\<^sup>2 + (ay - by)\<^sup>2)))"

definition received_power_calculation :: "real \<Rightarrow> real" where
  "received_power_calculation d =
     (let d = (if d < 1 then 1 else d);
          loss = 20 * log 10 d + 20 * log 10 freq + 20 * log 10 (4 * pi / 300000000) - 1 - 1
      in tx_power - loss)"

text \<open>\<open>np.argmin\<close>: the first position of the least value, a \<open>ValueError\<close> on the empty list.\<close>

fun argmin_from :: "nat \<Rightarrow> real \<Rightarrow> nat \<Rightarrow> real list \<Rightarrow> nat" where
  "argmin_from best v i [] = best"
| "argmin_from best v i (x # xs) = (if x < v then argmin_from i x (Suc i) xs else argmin_from best v (Suc i) xs)"

definition argmin :: "real list \<Rightarrow> nat result" where
  "argmin xs = (case xs of [] \<Rightarrow> Inl ValueError | x # xs \<Rightarrow> Inr (argmin_from 0 x 1 xs))"

definition get_closest_uav :: "user \<Rightarrow> uav list \<Rightarrow> nat result" where
  "get_closest_uav u uavs = bind_r (mapM_r (\<lambda>d. distance (user_position u) (uav_position d)) uavs) argmin"

definition user_signal :: "uav list \<Rightarrow> user \<Rightarrow> real result" where
  "user_signal uavs u =
     bind_r (get_closest_uav u uavs) (\<lambda>i.
     bind_r (distance (user_position u) (uav_position (uavs ! i))) (\<lambda>d. Inr (received_power_calculation d)))"

definition scenario_fitness :: "user list \<Rightarrow> uav list \<Rightarrow> real result" where
  "scenario_fitness users uavs =
     foldM_r (\<lambda>sum u. bind_r (user_signal uavs u) (\<lambda>s. Inr (sum + s))) 0 users"

text \<open>The rows of the matrix are the drones, its columns the users.\<close>

definition get_coverage :: "user list \<Rightarrow> uav list \<Rightarrow> nat list list result" where
  "get_coverage users uavs =
     foldM_r (\<lambda>m (j, u). bind_r (get_closest_uav u uavs) (\<lambda>i.
       bind_r (distance (user_position u) (uav_position (uavs ! i))) (\<lambda>d. Inr (m[i := (m ! i)[j := 1]]))))
       (replicate (length uavs) (replicate (length users) 0)) (enumerate 0 users)"

definition read_xy :: "string \<Rightarrow> string \<Rightarrow> place result" where
  "read_xy x y = bind_r (py_float x) (\<lambda>x. bind_r (py_float y) (\<lambda>y.
     Inr (Tuple (of_int (py_round x)) (of_int (py_round y)))))"

text \<open>The rows of the two files, as \<open>csv.reader\<close> delivers them.\<close>

definition load_scenario :: "string list list \<Rightarrow> string list list \<Rightarrow> (uav list \<times> user list) result" where
  "load_scenario uav_rows user_rows =
     bind_r (mapM_r (\<lambda>r. case r of
         [i, x, y, e] \<Rightarrow> bind_r (read_xy x y) (\<lambda>p.
           Inr \<lparr>uav_id = i, uav_position = p, uav_energy = e, uav_computing = 100, uav_storage = 100\<rparr>)
       | _ \<Rightarrow> Inl ValueError) uav_rows) (\<lambda>uavs.
     bind_r (mapM_r (\<lambda>r. case r of
         [i, x, y] \<Rightarrow> bind_r (read_xy x y) (\<lambda>p. Inr \<lparr>user_id = i, user_position = p\<rparr>)
       | _ \<Rightarrow> Inl ValueError) user_rows) (\<lambda>users.
       Inr (uavs, users)))"

section \<open>Random movements\<close>

record rng =
  np_pos :: nat
  py_pos :: nat

text \<open>\<open>rand n\<close> is the n-th number of \<open>np.random.rand\<close>, \<open>coin n\<close> whether the n-th \<open>random.choice([-1, 1])\<close> is 1.\<close>

type_synonym source = "(nat \<Rightarrow> real) \<times> (nat \<Rightarrow> bool)"

definition rand1 :: "source \<Rightarrow> rng \<Rightarrow> real \<times> rng" where
  "rand1 src g = (fst src (np_pos g), g\<lparr>np_pos := np_pos g + 1\<rparr>)"

definition choice1 :: "source \<Rightarrow> rng \<Rightarrow> real \<times> rng" where
  "choice1 src g = (if snd src (py_pos g) then 1 else - 1, g\<lparr>py_pos := py_pos g + 1\<rparr>)"

definition gen_new_position :: "source \<Rightarrow> real \<Rightarrow> rng \<Rightarrow> movement \<times> rng" where
  "gen_new_position src time g =
     (let mov_range = speed * time;
          (s1, g) = choice1 src g; (s2, g) = choice1 src g;
          (r1, g) = rand1 src g; (r2, g) = rand1 src g
      in ((r1 * mov_range * s1, r2 * mov_range * s2), g))"

fun gen_movement_vector :: "source \<Rightarrow> uav list \<Rightarrow> rng \<Rightarrow> solution \<times> rng" where
  "gen_movement_vector src [] g = ([], g)"
| "gen_movement_vector src (u # us) g =
     (let (m, g) = gen_new_position src timestep g; (ms, g) = gen_movement_vector src us g in (m # ms, g))"

section \<open>The genetic algorithm\<close>

text \<open>The drones of a copy are moved, and the copy is scored; a movement with no drone is an \<open>IndexError\<close>.\<close>

fun move_all :: "uav list \<Rightarrow> solution \<Rightarrow> uav list result" where
  "move_all us [] = Inr us"
| "move_all [] (m # ms) = Inl IndexError"
| "move_all (u # us) (m # ms) = bind_r (move_all us ms) (\<lambda>us. Inr (set_new_position m u # us))"

definition score_solution :: "user list \<Rightarrow> uav list \<Rightarrow> solution \<Rightarrow> real result" where
  "score_solution users uavs mov_vector = bind_r (move_all uavs mov_vector) (scenario_fitness users)"

text \<open>\<open>sorted(..., reverse=True)\<close> computes the key of every item and keeps the order of equal ones.\<close>

definition sort_solutions :: "user list \<Rightarrow> uav list \<Rightarrow> solution list \<Rightarrow> solution list result" where
  "sort_solutions users uavs sols =
     bind_r (mapM_r (score_solution users uavs) sols) (\<lambda>keys.
       Inr (map snd (py_sort (\<lambda>a b. fst a > fst b) (zip keys sols))))"

fun mutate_from :: "source \<Rightarrow> uav list \<Rightarrow> nat \<Rightarrow> solution list \<Rightarrow> rng \<Rightarrow> solution list \<times> rng" where
  "mutate_from src uavs i [] g = ([], g)"
| "mutate_from src uavs i (s # ss) g =
     (let (r, g) = rand1 src g;
          (s, g) = (if r < 1/10 \<and> i \<noteq> 0 then gen_movement_vector src uavs g else (s, g));
          (ss, g) = mutate_from src uavs (Suc i) ss g
      in (s # ss, g))"

definition mutate :: "source \<Rightarrow> uav list \<Rightarrow> solution list \<Rightarrow> rng \<Rightarrow> solution list \<times> rng" where
  "mutate src uavs sols g = mutate_from src uavs 0 sols g"

text \<open>
  \<open>solutions[i][g], solutions[i+1][g] = solutions[i+1][g], solutions[i][g]\<close>: the right side holds views
  of the two rows. The first write copies row \<open>i+1\<close> into row \<open>i\<close>, the second writes the row \<open>i\<close>, as it is
  then, into row \<open>i+1\<close>. An index out of range ends the loop over the genes.
\<close>

fun swap_genes :: "nat \<Rightarrow> nat \<Rightarrow> solution list \<Rightarrow> nat \<Rightarrow> solution list" where
  "swap_genes 0 i sols k = sols"
| "swap_genes (Suc n) i sols k =
     (if Suc i < length sols \<and> k < length (sols ! Suc i)
      then let sols = sols[i := (sols ! i)[k := sols ! Suc i ! k]];
               sols = sols[Suc i := (sols ! Suc i)[k := sols ! i ! k]]
           in swap_genes n i sols (Suc k)
      else sols)"

fun crossover_from :: "source \<Rightarrow> nat \<Rightarrow> nat \<Rightarrow> solution list \<Rightarrow> rng \<Rightarrow> solution list \<times> rng" where
  "crossover_from src 0 i sols g = (sols, g)"
| "crossover_from src (Suc n) i sols g =
     (if i mod 2 = 0 \<and> i > 0
      then let (r, g) = rand1 src g
           in crossover_from src n (Suc i) (if r < 2/10 then swap_genes (length (sols ! i)) i sols 0 else sols) g
      else crossover_from src n (Suc i) sols g)"

definition crossover :: "source \<Rightarrow> solution list \<Rightarrow> rng \<Rightarrow> solution list \<times> rng" where
  "crossover src sols g = crossover_from src (length sols) 0 sols g"

fun prune_from :: "source \<Rightarrow> uav list \<Rightarrow> nat \<Rightarrow> nat \<Rightarrow> solution list \<Rightarrow> rng \<Rightarrow> solution list \<times> rng" where
  "prune_from src uavs len i [] g = ([], g)"
| "prune_from src uavs len i (s # ss) g =
     (let (s, g) = (if real i > 1/2 * real len then gen_movement_vector src uavs g else (s, g));
          (ss, g) = prune_from src uavs len (Suc i) ss g
      in (s # ss, g))"

definition prune :: "source \<Rightarrow> uav list \<Rightarrow> solution list \<Rightarrow> rng \<Rightarrow> solution list \<times> rng" where
  "prune src uavs sols g = prune_from src uavs (length sols) 0 sols g"

fun initial_solutions :: "source \<Rightarrow> uav list \<Rightarrow> nat \<Rightarrow> rng \<Rightarrow> solution list \<times> rng" where
  "initial_solutions src uavs 0 g = ([], g)"
| "initial_solutions src uavs (Suc n) g =
     (let (s, g) = gen_movement_vector src uavs g; (ss, g) = initial_solutions src uavs n g in (s # ss, g))"

definition ga_round :: "source \<Rightarrow> user list \<Rightarrow> uav list \<Rightarrow> solution list \<Rightarrow> rng \<Rightarrow> (real \<times> solution list \<times> rng) result" where
  "ga_round src users uavs sols g =
     bind_r (sort_solutions users uavs sols) (\<lambda>sols.
     let (sols, g) = mutate src uavs sols g; (sols, g) = crossover src sols g; (sols, g) = prune src uavs sols g
     in bind_r (py_index sols 0) (\<lambda>best. bind_r (score_solution users uavs best) (\<lambda>f. Inr (f, sols, g))))"

fun ga_rounds :: "source \<Rightarrow> user list \<Rightarrow> uav list \<Rightarrow> nat \<Rightarrow> solution list \<Rightarrow> rng \<Rightarrow> (real list \<times> solution list) result" where
  "ga_rounds src users uavs 0 sols g = Inr ([], sols)"
| "ga_rounds src users uavs (Suc n) sols g =
     bind_r (ga_round src users uavs sols g) (\<lambda>(f, sols, g).
     bind_r (ga_rounds src users uavs n sols g) (\<lambda>(fs, sols). Inr (f # fs, sols)))"

text \<open>What is plotted, and what goes to the file \<open>centroids.txt\<close>.\<close>

definition gen_solutions :: "source \<Rightarrow> user list \<Rightarrow> uav list \<Rightarrow> (real list \<times> (real \<times> real) list) result" where
  "gen_solutions src users uavs =
     (let (sols, g) = initial_solutions src uavs 100 \<lparr>np_pos = 0, py_pos = 0\<rparr>
      in bind_r (ga_rounds src users uavs 50 sols g) (\<lambda>(fitness, sols).
         bind_r (py_index sols 0) (\<lambda>best.
           if uavs = [] then Inl ValueError
           else Inr (fitness, map2 (\<lambda>u m. (fst (place_xy (uav_position u)) + fst m, snd (place_xy (uav_position u)) + snd m)) uavs best))))"

section \<open>Scoring\<close>

text \<open>A population: solutions with one movement per drone.\<close>

definition pop_ok :: "uav list \<Rightarrow> solution list \<Rightarrow> bool" where
  "pop_ok uavs sols \<longleftrightarrow> list_all (\<lambda>s. length s = length uavs) sols"

fun is_array :: "place \<Rightarrow> bool" where
  "is_array (Array x y) = True"
| "is_array (Tuple x y) = False"

lemma distance_array: "is_array b \<Longrightarrow> \<exists>d. distance a b = Inr d"
  by (cases a; cases b) auto

lemma move_all_arrays:
  "length ms = length us \<Longrightarrow> \<exists>us'. move_all us ms = Inr us' \<and> length us' = length us \<and> list_all (\<lambda>u. is_array (uav_position u)) us'"
proof (induction us ms rule: move_all.induct)
  case (3 u us m ms)
  then obtain us' where "move_all us ms = Inr us'" "length us' = length us" "list_all (\<lambda>u. is_array (uav_position u)) us'" by auto
  then show ?case by (simp add: set_new_position_def split: prod.splits)
qed auto

lemma argmin_from_bound: "best < i \<Longrightarrow> argmin_from best v i xs < i + length xs"
proof (induction xs arbitrary: best v i)
  case (Cons x xs)
  from Cons.IH [of i "Suc i" x] Cons.IH [of best "Suc i" v] Cons.prems show ?case by simp
qed simp

lemma user_signal_total:
  assumes "list_all (\<lambda>u. is_array (uav_position u)) us" and "us \<noteq> []"
  shows "\<exists>x. user_signal us u = Inr x"
proof -
  let ?d = "\<lambda>d. projr (distance (user_position u) (uav_position d))"
  have d: "distance (user_position u) (uav_position d) = Inr (?d d)" if "d \<in> set us" for d
    using distance_array [of "uav_position d" "user_position u"] assms(1) that by (auto simp: list_all_iff)
  have m: "mapM_r (\<lambda>d. distance (user_position u) (uav_position d)) us = Inr (map ?d us)"
    by (rule mapM_r_total) (rule d)
  obtain a xs where us: "us = a # xs" using assms(2) by (cases us) auto
  obtain j where j: "argmin (map ?d us) = Inr j" "j < length us"
    using argmin_from_bound [of 0 1 "?d a" "map ?d xs"] by (simp add: us argmin_def)
  then show ?thesis using d [OF nth_mem [OF j(2)]] unfolding user_signal_def get_closest_uav_def m by (metis bind_r_Inr)
qed

lemma score_total:
  assumes "uavs \<noteq> []" and "length s = length uavs"
  shows "\<exists>x. score_solution users uavs s = Inr x"
proof -
  obtain us where us: "move_all uavs s = Inr us" "length us = length uavs" "list_all (\<lambda>u. is_array (uav_position u)) us"
    using move_all_arrays [OF assms(2)] by blast
  then have "us \<noteq> []" using assms(1) by auto
  have "\<exists>x. foldM_r (\<lambda>sum u. bind_r (user_signal us u) (\<lambda>s. Inr (sum + s))) a users = Inr x" for a
    using user_signal_total [OF us(3) \<open>us \<noteq> []\<close>] by (induction users arbitrary: a) (auto, metis bind_r_Inr)
  then show ?thesis by (simp add: score_solution_def scenario_fitness_def us(1))
qed

definition the_score :: "user list \<Rightarrow> uav list \<Rightarrow> solution \<Rightarrow> real" where
  "the_score users uavs s = projr (score_solution users uavs s)"

lemma the_score: "uavs \<noteq> [] \<Longrightarrow> length s = length uavs \<Longrightarrow> score_solution users uavs s = Inr (the_score users uavs s)"
  using score_total [of uavs s users] by (auto simp: the_score_def)

text \<open>Sorting puts a solution of the highest score first.\<close>

lemma sort_solutions_best:
  assumes "uavs \<noteq> []" and "pop_ok uavs sols" and "sols \<noteq> []"
  shows "\<exists>h t. sort_solutions users uavs sols = Inr (h # t) \<and> mset (h # t) = mset sols \<and>
    (\<forall>s \<in> set sols. the_score users uavs s \<le> the_score users uavs h)"
proof -
  let ?f = "the_score users uavs" and ?lt = "\<lambda>a b. fst a > fst (b :: real \<times> solution)"
  let ?z = "zip (map ?f sols) sols"
  have keys: "mapM_r (score_solution users uavs) sols = Inr (map ?f sols)"
    by (rule mapM_r_total) (use assms(1,2) the_score in \<open>auto simp: pop_ok_def list_all_iff\<close>)
  have lt: "?lt = (\<lambda>a b. - fst a < - fst b)" by (simp add: fun_eq_iff)
  have z: "?z \<noteq> []" using assms(3) by simp
  then obtain p q where pq: "py_sort ?lt ?z = p # q" by (metis py_sort_Nil_iff neq_Nil_conv)
  have set_z: "x \<in> set ?z \<Longrightarrow> fst x = ?f (snd x)" for x by (auto simp: in_set_zip)
  have "sorted (map (\<lambda>x. - fst x) (p # q))" using sorted_py_sort [of "\<lambda>x. - fst x" ?z] unfolding lt [symmetric] pq .
  moreover have "set (p # q) = set ?z" using set_py_sort [of ?lt ?z] pq by simp
  ultimately have best: "fst x \<le> fst p" if "x \<in> set ?z" for x using that by auto
  have "map snd (p # q) = snd p # map snd q" by simp
  moreover have "mset (map snd (p # q)) = mset sols"
    using mset_py_sort [of ?lt ?z] arg_cong [of _ _ "image_mset snd"] unfolding pq by (metis map_snd_zip length_map mset_map)
  moreover have "?f s \<le> ?f (snd p)" if "s \<in> set sols" for s
  proof -
    have "(?f s, s) \<in> set ?z" using that by (auto simp: in_set_conv_nth in_set_zip)
    moreover have "p \<in> set ?z" using \<open>set (p # q) = set ?z\<close> by auto
    ultimately show ?thesis using best [of "(?f s, s)"] set_z [of p] by simp
  qed
  ultimately show ?thesis by (intro exI [of _ "snd p"] exI [of _ "map snd q"]) (simp add: sort_solutions_def keys pq)
qed

section \<open>The operators\<close>

text \<open>What holds of every movement: a predicate that every random movement has.\<close>

definition random_moves :: "source \<Rightarrow> (movement \<Rightarrow> bool) \<Rightarrow> bool" where
  "random_moves src P \<longleftrightarrow> (\<forall>g. P (fst (gen_new_position src timestep g)))"

definition sol_ok :: "(movement \<Rightarrow> bool) \<Rightarrow> uav list \<Rightarrow> solution \<Rightarrow> bool" where
  "sol_ok P uavs s \<longleftrightarrow> length s = length uavs \<and> list_all P s"

lemma gen_movement_vector_ok:
  assumes "random_moves src P"
  shows "sol_ok P us (fst (gen_movement_vector src us g))"
proof (induction us arbitrary: g)
  case (Cons u us)
  obtain m g1 where m: "gen_new_position src timestep g = (m, g1)" by fastforce
  obtain ms g2 where ms: "gen_movement_vector src us g1 = (ms, g2)" by fastforce
  have "P m" using assms m unfolding random_moves_def by (metis fst_conv)
  with Cons.IH [of g1] ms show ?case by (simp add: sol_ok_def m)
qed (simp add: sol_ok_def)

lemma mutate_from_ok:
  assumes "random_moves src P" and "list_all (sol_ok P uavs) sols"
  shows "list_all (sol_ok P uavs) (fst (mutate_from src uavs i sols g)) \<and> length (fst (mutate_from src uavs i sols g)) = length sols \<and>
    (i = 0 \<longrightarrow> sols \<noteq> [] \<longrightarrow> hd (fst (mutate_from src uavs i sols g)) = hd sols)"
  using assms(2)
proof (induction sols arbitrary: i g)
  case (Cons s sols)
  obtain r g1 where r: "rand1 src g = (r, g1)" by fastforce
  obtain s' g2 where s': "(if r < 1/10 \<and> i \<noteq> 0 then gen_movement_vector src uavs g1 else (s, g1)) = (s', g2)" by fastforce
  obtain ss g3 where ss: "mutate_from src uavs (Suc i) sols g2 = (ss, g3)" by fastforce
  have "sol_ok P uavs s'"
    using s' Cons.prems gen_movement_vector_ok [OF assms(1), of uavs g1] by (auto split: if_splits)
  moreover have "s' = s" if "i = 0" using s' that by simp
  moreover have eq: "mutate_from src uavs i (s # sols) g = (s' # ss, g3)"
    by (simp only: mutate_from.simps r s' ss Let_def prod.case)
  ultimately show ?case unfolding eq using Cons.IH [of "Suc i" g2] Cons.prems ss by simp
qed simp

lemma prune_from_ok:
  assumes "random_moves src P" and "list_all (sol_ok P uavs) sols"
  shows "list_all (sol_ok P uavs) (fst (prune_from src uavs n i sols g)) \<and> length (fst (prune_from src uavs n i sols g)) = length sols \<and>
    (i = 0 \<longrightarrow> sols \<noteq> [] \<longrightarrow> hd (fst (prune_from src uavs n i sols g)) = hd sols)"
  using assms(2)
proof (induction sols arbitrary: i g)
  case (Cons s sols)
  obtain s' g2 where s': "(if real i > 1/2 * real n then gen_movement_vector src uavs g else (s, g)) = (s', g2)" by fastforce
  obtain ss g3 where ss: "prune_from src uavs n (Suc i) sols g2 = (ss, g3)" by fastforce
  have "sol_ok P uavs s'"
    using s' Cons.prems gen_movement_vector_ok [OF assms(1), of uavs g] by (auto split: if_splits)
  moreover have "s' = s" if "i = 0" using s' that by simp
  moreover have eq: "prune_from src uavs n i (s # sols) g = (s' # ss, g3)"
    by (simp only: prune_from.simps s' ss Let_def prod.case)
  ultimately show ?case unfolding eq using Cons.IH [of "Suc i" g2] Cons.prems ss by simp
qed simp

lemma initial_solutions_ok:
  assumes "random_moves src P"
  shows "list_all (sol_ok P uavs) (fst (initial_solutions src uavs n g)) \<and> length (fst (initial_solutions src uavs n g)) = n"
proof (induction n arbitrary: g)
  case (Suc n)
  obtain s g1 where s: "gen_movement_vector src uavs g = (s, g1)" by fastforce
  have "sol_ok P uavs s" using gen_movement_vector_ok [OF assms, of uavs g] s by simp
  with Suc.IH [of g1] show ?case by (auto simp: s split: prod.splits)
qed simp

text \<open>The loop over the genes copies row \<open>i + 1\<close> into row \<open>i\<close>.\<close>

lemma swap_genes_copies:
  assumes "Suc i < length sols" and "length (sols ! i) = length (sols ! Suc i)" and "k + n = length (sols ! i)"
  shows "swap_genes n i sols k = sols[i := take k (sols ! i) @ drop k (sols ! Suc i)]"
  using assms
proof (induction n arbitrary: sols k)
  case 0
  then show ?case by (simp add: list_update_same_conv)
next
  case (Suc n)
  let ?s1 = "sols[i := (sols ! i)[k := sols ! Suc i ! k]]"
  have k: "k < length (sols ! Suc i)" "k < length (sols ! i)" using Suc.prems by auto
  have s2: "?s1[Suc i := (?s1 ! Suc i)[k := ?s1 ! i ! k]] = ?s1"
    using Suc.prems(1) k by (simp add: list_update_same_conv)
  have "swap_genes (Suc n) i sols k = swap_genes n i ?s1 (Suc k)"
    using Suc.prems(1) k(1) s2 by (simp add: Let_def)
  also have "\<dots> = ?s1[i := take (Suc k) (?s1 ! i) @ drop (Suc k) (?s1 ! Suc i)]"
    using Suc.prems by (intro Suc.IH) simp_all
  also have "\<dots> = sols[i := take k (sols ! i) @ drop k (sols ! Suc i)]"
    using Suc.prems(1) k by (simp add: take_Suc_conv_app_nth Cons_nth_drop_Suc)
  finally show ?case .
qed

lemma swap_genes_out: "\<not> Suc i < length sols \<Longrightarrow> swap_genes n i sols k = sols"
  by (cases n) auto

text \<open>Which solutions \<open>crossover\<close> changes, and into what.\<close>

definition crossed :: "source \<Rightarrow> nat \<Rightarrow> nat \<Rightarrow> nat \<Rightarrow> bool" where
  "crossed src base n j \<longleftrightarrow> even j \<and> 0 < j \<and> Suc j < n \<and> fst src (base + (j - 1) div 2) < 2/10"

lemma crossover_from_nth:
  assumes "pop_ok uavs sols" and "i + n = length sols" and "np_pos g = base + (i - 1) div 2"
  shows "length (fst (crossover_from src n i sols g)) = length sols \<and>
    (\<forall>j < length sols. fst (crossover_from src n i sols g) ! j =
      (if i \<le> j \<and> crossed src base (length sols) j then sols ! Suc j else sols ! j))"
  using assms
proof (induction n arbitrary: i sols g)
  case 0
  then show ?case by simp
next
  case (Suc n)
  have len: "length (sols ! j) = length uavs" if "j < length sols" for j
    using Suc.prems(1) that by (simp add: pop_ok_def list_all_length)
  show ?case
  proof (cases "i mod 2 = 0 \<and> i > 0")
    case False
    then have "i = 0 \<or> odd i" by presburger
    then have "(Suc i - 1) div 2 = (i - 1) div 2" by (auto elim!: oddE)
    then have *: "np_pos g = base + (Suc i - 1) div 2" using Suc.prems(3) by simp
    have not: "\<not> crossed src base m i" for m using False by (auto simp: crossed_def even_iff_mod_2_eq_zero)
    have "fst (crossover_from src (Suc n) i sols g) = fst (crossover_from src n (Suc i) sols g)" using False by auto
    moreover have "i \<le> j \<and> crossed src base m j \<longleftrightarrow> Suc i \<le> j \<and> crossed src base m j" for j m
      using not [of m] by (cases "j = i") auto
    ultimately show ?thesis using Suc.IH [OF Suc.prems(1) _ *] Suc.prems(2) by simp
  next
    case True
    define r where "r = fst src (np_pos g)"
    define s' where "s' = (if r < 2/10 then swap_genes (length (sols ! i)) i sols 0 else sols)"
    have step: "crossover_from src (Suc n) i sols g = crossover_from src n (Suc i) s' (g\<lparr>np_pos := np_pos g + 1\<rparr>)"
      using True by (simp add: rand1_def r_def s'_def)
    have cr: "crossed src base (length sols) i \<longleftrightarrow> Suc i < length sols \<and> r < 2/10"
      using True Suc.prems(3) by (simp add: crossed_def r_def even_iff_mod_2_eq_zero)
    have s': "s' = (if crossed src base (length sols) i then sols[i := sols ! Suc i] else sols)"
      using swap_genes_copies [of i sols 0 "length (sols ! i)"] swap_genes_out [of i sols] len by (auto simp: s'_def cr)
    have "pop_ok uavs s'" using Suc.prems(1) len by (auto simp: s' pop_ok_def list_all_length nth_list_update crossed_def)
    moreover have "length s' = length sols" by (simp add: s')
    moreover have "np_pos (g\<lparr>np_pos := np_pos g + 1\<rparr>) = base + (Suc i - 1) div 2"
      using True Suc.prems(3) by (auto elim!: evenE simp: even_iff_mod_2_eq_zero [symmetric])
    ultimately have IH: "length (fst (crossover_from src (Suc n) i sols g)) = length sols"
      "\<And>j. j < length sols \<Longrightarrow> fst (crossover_from src (Suc n) i sols g) ! j =
        (if Suc i \<le> j \<and> crossed src base (length sols) j then s' ! Suc j else s' ! j)"
      using Suc.IH [of s' "Suc i"] Suc.prems(2) unfolding step by simp_all
    have "(if Suc i \<le> j \<and> crossed src base (length sols) j then s' ! Suc j else s' ! j) =
        (if i \<le> j \<and> crossed src base (length sols) j then sols ! Suc j else sols ! j)" if "j < length sols" for j
      using that by (cases "j = i") (auto simp: s' nth_list_update)
    with IH show ?thesis by simp
  qed
qed

text \<open>
  \<open>crossover\<close> exchanges nothing. Because the rows on the right side of its assignment are views of the
  arrays, a pair of solutions \<open>j\<close>, \<open>j + 1\<close> with \<open>j\<close> even and positive whose random number is below 0.2
  becomes two copies of the second one; every other solution stays as it is.
\<close>

theorem crossover_copies:
  assumes "pop_ok uavs sols"
  shows "length (fst (crossover src sols g)) = length sols \<and>
    (\<forall>j < length sols. fst (crossover src sols g) ! j = (if crossed src (np_pos g) (length sols) j then sols ! Suc j else sols ! j))"
  using crossover_from_nth [OF assms, of 0 "length sols" g "np_pos g" src] by (simp add: crossover_def)

theorem crossover_copies_witness:
  "fst (crossover (\<lambda>_. 1/10, \<lambda>_. True) [[(0, 0)], [(1, 1)], [(2, 2)], [(3, 3)]] \<lparr>np_pos = 0, py_pos = 0\<rparr>) ! 2 = [(3, 3)]"
  using crossover_copies [of "[undefined]" "[[(0, 0)], [(1, 1)], [(2, 2)], [(3, 3)]]" "(\<lambda>_. 1/10, \<lambda>_. True)" "\<lparr>np_pos = 0, py_pos = 0\<rparr>"]
  by (simp add: pop_ok_def crossed_def)

section \<open>The rounds\<close>

lemma crossover_ok:
  assumes "list_all (sol_ok P uavs) sols"
  shows "list_all (sol_ok P uavs) (fst (crossover src sols g)) \<and> length (fst (crossover src sols g)) = length sols \<and>
    (sols \<noteq> [] \<longrightarrow> hd (fst (crossover src sols g)) = hd sols)"
proof -
  have "pop_ok uavs sols" using assms by (simp add: pop_ok_def sol_ok_def list_all_iff)
  note c = crossover_from_nth [OF this, of 0 "length sols" g "np_pos g" src, simplified, folded crossover_def]
  have "sol_ok P uavs (fst (crossover src sols g) ! j)" if "j < length sols" for j
    using c assms that by (auto simp: list_all_length crossed_def)
  moreover have "fst (crossover src sols g) ! 0 = sols ! 0" if "sols \<noteq> []" using c that by (simp add: crossed_def)
  moreover have "hd (fst (crossover src sols g)) = fst (crossover src sols g) ! 0" if "sols \<noteq> []"
    using c that by (intro hd_conv_nth) auto
  ultimately show ?thesis using c by (auto simp: list_all_length hd_conv_nth)
qed

text \<open>
  A round returns the score of the best solution it was given, and that solution is the first of the next
  population.
\<close>

lemma ga_round_best:
  assumes "random_moves src P" and "uavs \<noteq> []" and "list_all (sol_ok P uavs) sols" and "sols \<noteq> []"
  shows "\<exists>f sols' g'. ga_round src users uavs sols g = Inr (f, sols', g') \<and> list_all (sol_ok P uavs) sols' \<and> length sols' = length sols \<and>
    f = the_score users uavs (hd sols') \<and> (\<forall>s \<in> set sols. the_score users uavs s \<le> f)"
proof -
  have "pop_ok uavs sols" using assms(3) by (simp add: pop_ok_def sol_ok_def list_all_iff)
  from sort_solutions_best [OF assms(2) this assms(4), of users] obtain h t where
    ht: "sort_solutions users uavs sols = Inr (h # t)" "mset (h # t) = mset sols" "\<forall>s \<in> set sols. the_score users uavs s \<le> the_score users uavs h"
    by blast
  have ok: "list_all (sol_ok P uavs) (h # t)" using assms(3) mset_eq_setD [OF ht(2)] by (simp add: list_all_iff)
  obtain s1 g1 where 1: "mutate src uavs (h # t) g = (s1, g1)" by fastforce
  obtain s2 g2 where 2: "crossover src s1 g1 = (s2, g2)" by fastforce
  obtain s3 g3 where 3: "prune src uavs s2 g2 = (s3, g3)" by fastforce
  have m: "list_all (sol_ok P uavs) s1" "length s1 = length (h # t)" "hd s1 = h"
    using mutate_from_ok [OF assms(1) ok, of 0 g] 1 by (simp_all add: mutate_def)
  have c: "list_all (sol_ok P uavs) s2" "length s2 = length s1" "hd s2 = h"
    using crossover_ok [OF m(1), of src g1] 2 m by auto
  have p: "list_all (sol_ok P uavs) s3" "length s3 = length s2" "hd s3 = h"
    using prune_from_ok [OF assms(1) c(1), of "length s2" 0 g2] 3 c m(2) by (auto simp: prune_def)
  have len: "length s3 = length sols" using p(2) c(2) m(2) mset_eq_length [OF ht(2)] by simp
  then have "s3 \<noteq> []" using assms(4) by auto
  then have "py_index s3 0 = Inr h" using py_index_nat [of 0 s3] p(3) by (simp add: hd_conv_nth)
  moreover have "length h = length uavs" using ok by (simp add: sol_ok_def)
  ultimately have "ga_round src users uavs sols g = Inr (the_score users uavs h, s3, g3)"
    using the_score [OF assms(2), of h users] by (simp add: ga_round_def ht(1) 1 2 3)
  with p len ht(3) show ?thesis by simp
qed

lemma ga_rounds_monotone:
  assumes "random_moves src P" and "uavs \<noteq> []" and "list_all (sol_ok P uavs) sols" and "sols \<noteq> []"
  shows "\<exists>fs sols'. ga_rounds src users uavs n sols g = Inr (fs, sols') \<and> length fs = n \<and> sorted fs \<and>
    (\<forall>f \<in> set fs. the_score users uavs (hd sols) \<le> f \<and> f \<le> the_score users uavs (hd sols')) \<and>
    list_all (sol_ok P uavs) sols' \<and> length sols' = length sols"
  using assms(3,4)
proof (induction n arbitrary: sols g)
  case 0
  then show ?case by simp
next
  case (Suc n)
  obtain f s1 g1 where r: "ga_round src users uavs sols g = Inr (f, s1, g1)" "list_all (sol_ok P uavs) s1" "length s1 = length sols"
    "f = the_score users uavs (hd s1)" "\<forall>s \<in> set sols. the_score users uavs s \<le> f"
    using ga_round_best [OF assms(1,2) Suc.prems, of users g] by blast
  have "s1 \<noteq> []" using r(3) Suc.prems(2) by auto
  from Suc.IH [OF r(2) this, of g1] obtain fs s2 where
    2: "ga_rounds src users uavs n s1 g1 = Inr (fs, s2)" "length fs = n" "sorted fs"
      "\<forall>x \<in> set fs. f \<le> x \<and> x \<le> the_score users uavs (hd s2)" "list_all (sol_ok P uavs) s2" "length s2 = length s1"
    unfolding r(4) [symmetric] by blast
  have "f \<le> the_score users uavs (hd s2)"
  proof (cases n)
    case 0
    with 2(1) r(4) show ?thesis by simp
  next
    case (Suc m)
    with 2(2) obtain x xs where "fs = x # xs" by (cases fs) auto
    with 2(4) show ?thesis by force
  qed
  moreover have "the_score users uavs (hd sols) \<le> f" using r(5) Suc.prems(2) by simp
  ultimately show ?case using 2 r(1,3) by (force simp: r(1))
qed

lemma gen_solutions_run:
  assumes "random_moves src P" and "uavs \<noteq> []"
  shows "\<exists>fitness best. gen_solutions src users uavs = Inr (fitness, map2 (\<lambda>u m. (fst (place_xy (uav_position u)) + fst m, snd (place_xy (uav_position u)) + snd m)) uavs best) \<and>
    length fitness = 50 \<and> sorted fitness \<and> sol_ok P uavs best \<and> (\<forall>f \<in> set fitness. f \<le> the_score users uavs best)"
proof -
  obtain sols g where i: "initial_solutions src uavs 100 \<lparr>np_pos = 0, py_pos = 0\<rparr> = (sols, g)" by fastforce
  have s: "list_all (sol_ok P uavs) sols" "sols \<noteq> []"
    using initial_solutions_ok [OF assms(1), of uavs 100 "\<lparr>np_pos = 0, py_pos = 0\<rparr>"] i by auto
  from ga_rounds_monotone [OF assms s, of users 50 g] obtain fs sols' where
    r: "ga_rounds src users uavs 50 sols g = Inr (fs, sols')" "length fs = 50" "sorted fs"
      "\<forall>f \<in> set fs. f \<le> the_score users uavs (hd sols')" "list_all (sol_ok P uavs) sols'" "length sols' = length sols" by blast
  have ne: "sols' \<noteq> []" using r(6) s(2) by auto
  then have "py_index sols' 0 = Inr (hd sols')" using py_index_nat [of 0 sols'] by (simp add: hd_conv_nth)
  moreover have "sol_ok P uavs (hd sols')" using r(5) ne by (cases sols') auto
  ultimately show ?thesis using r assms(2) by (intro exI [of _ fs] exI [of _ "hd sols'"]) (simp add: gen_solutions_def i)
qed

text \<open>
  C35: with at least one drone the genetic algorithm always finishes, whatever the random numbers are, and it
  never loses ground: the fitness it records for its fifty rounds never decreases.
\<close>

theorem gen_solutions_monotone:
  assumes "uavs \<noteq> []"
  shows "\<exists>fitness centroids. gen_solutions src users uavs = Inr (fitness, centroids) \<and> length fitness = 50 \<and> sorted fitness"
  using gen_solutions_run [of src "\<lambda>_. True" uavs users] assms by (auto simp: random_moves_def)

theorem gen_solutions_monotone_witness:
  "\<exists>fitness centroids. gen_solutions (\<lambda>n. 1 / (1 + real n), even)
      [\<lparr>user_id = ''1'', user_position = Tuple 10 10\<rparr>]
      [\<lparr>uav_id = ''0'', uav_position = Tuple 0 0, uav_energy = ''99'', uav_computing = 100, uav_storage = 100\<rparr>] = Inr (fitness, centroids) \<and>
    length fitness = 50 \<and> sorted fitness"
  by (rule gen_solutions_monotone) simp

lemma random_moves_bounded:
  assumes "\<forall>n. 0 \<le> fst src n \<and> fst src n \<le> 1"
  shows "random_moves src (\<lambda>m. \<bar>fst m\<bar> \<le> speed * timestep \<and> \<bar>snd m\<bar> \<le> speed * timestep)"
proof -
  have "\<bar>fst src n * (speed * timestep) * s\<bar> \<le> speed * timestep" if "s = 1 \<or> s = - 1" for n s
    using assms that by (auto simp: speed_def timestep_def abs_mult)
  then show ?thesis by (simp add: random_moves_def gen_new_position_def choice1_def rand1_def Let_def)
qed

text \<open>
  The file of centroids has one line per drone, and each coordinate of it is at most
  \<open>speed * timestep\<close> away from where the drone is, for random numbers between 0 and 1.
\<close>

theorem centroids_in_reach:
  assumes "uavs \<noteq> []" and "\<forall>n. 0 \<le> fst src n \<and> fst src n \<le> 1"
  shows "\<exists>fitness centroids. gen_solutions src users uavs = Inr (fitness, centroids) \<and>
    list_all2 (\<lambda>u c. \<bar>fst c - fst (place_xy (uav_position u))\<bar> \<le> speed * timestep \<and> \<bar>snd c - snd (place_xy (uav_position u))\<bar> \<le> speed * timestep)
      uavs centroids"
proof -
  from gen_solutions_run [OF random_moves_bounded [OF assms(2)] assms(1), of users] obtain fitness best where
    run: "gen_solutions src users uavs = Inr (fitness, map2 (\<lambda>u m. (fst (place_xy (uav_position u)) + fst m, snd (place_xy (uav_position u)) + snd m)) uavs best)"
    and ok: "sol_ok (\<lambda>m. \<bar>fst m\<bar> \<le> speed * timestep \<and> \<bar>snd m\<bar> \<le> speed * timestep) uavs best" by blast
  have "list_all2 (\<lambda>u c. \<bar>fst c - fst (place_xy (uav_position u))\<bar> \<le> speed * timestep \<and> \<bar>snd c - snd (place_xy (uav_position u))\<bar> \<le> speed * timestep)
      uavs (map2 (\<lambda>u m. (fst (place_xy (uav_position u)) + fst m, snd (place_xy (uav_position u)) + snd m)) uavs best)"
    using ok by (auto simp: sol_ok_def list_all2_conv_all_nth list_all_length)
  with run show ?thesis by blast
qed

theorem centroids_in_reach_witness:
  "\<exists>fitness x y. gen_solutions (\<lambda>n. 1 / (1 + real n), even)
      [\<lparr>user_id = ''1'', user_position = Tuple 10 10\<rparr>]
      [\<lparr>uav_id = ''0'', uav_position = Tuple 0 0, uav_energy = ''99'', uav_computing = 100, uav_storage = 100\<rparr>] = Inr (fitness, [(x, y)]) \<and>
    \<bar>x\<bar> \<le> 250 \<and> \<bar>y\<bar> \<le> 250"
  using centroids_in_reach [of "[\<lparr>uav_id = ''0'', uav_position = Tuple 0 0, uav_energy = ''99'', uav_computing = 100, uav_storage = 100\<rparr>]"
      "(\<lambda>n. 1 / (1 + real n), even)" "[\<lparr>user_id = ''1'', user_position = Tuple 10 10\<rparr>]"]
  by (auto simp: list_all2_Cons1 speed_def timestep_def)

end
