(* ===== verification/XmlTree.thy ===== *)
theory XmlTree
  imports PyString
begin

text \<open>
  Documents as \<open>xml.etree.ElementTree\<close> delivers them: an element has a tag, attributes, the text before its first child and its
  children. The searches are those by a tag and by a path of two tags.
\<close>

datatype element = Element (tag: string) (attributes: "(string \<times> string) list") (elem_text: "string option") (children: "element list")

definition get_attr :: "element \<Rightarrow> string \<Rightarrow> string option" where
  "get_attr el a = map_of (attributes el) a"

definition findall :: "string \<Rightarrow> element \<Rightarrow> element list" where
  "findall t el = filter (\<lambda>c. tag c = t) (children el)"

text \<open>\<open>findall("a/b")\<close>\<close>

definition findall2 :: "string \<Rightarrow> string \<Rightarrow> element \<Rightarrow> element list" where
  "findall2 a b el = concat (map (findall b) (findall a el))"

text \<open>\<open>find\<close> is None when there is no such child.\<close>

definition find_child :: "string \<Rightarrow> element \<Rightarrow> element option" where
  "find_child t el = (case findall t el of [] \<Rightarrow> None | c # _ \<Rightarrow> Some c)"

text \<open>\<open>el.find(t).text\<close>; the attribute of None is an \<open>AttributeError\<close>.\<close>

definition child_text :: "string \<Rightarrow> element \<Rightarrow> string option result" where
  "child_text t el = (case find_child t el of None \<Rightarrow> Inl AttributeError | Some c \<Rightarrow> Inr (elem_text c))"

text \<open>A value in a format: the text \<open>None\<close> for None.\<close>

definition str_opt :: "string option \<Rightarrow> string" where
  "str_opt s = (case s of None \<Rightarrow> ''None'' | Some s \<Rightarrow> s)"

lemma children_size: "c \<in> set (children el) \<Longrightarrow> size c < size el"
  by (cases el) (auto dest: size_list_estimation' [where f = size, OF _ le_refl])

lemma findall_size: "c \<in> set (findall t el) \<Longrightarrow> size c < size el"
  by (simp add: findall_def children_size)

end
