(* ===== verification/FlowmonResults.thy ===== *)
theory FlowmonResults
  imports XmlTree
begin

text \<open>
  The report on the results of a flow monitor, \<^verbatim>\<open>src/flow-monitor/examples/flowmon-parse-results.py\<close>. The document is
  an element tree; \<open>iterparse\<close> delivers the start and the end of every element of it in document order. A flow is
  referred to by its position in the list of flows: \<open>flow_map\<close> maps an identifier to the position of the object,
  which the list and the dictionary share. Numbers are exact. The output is the text on the standard output, with the
  exception that ends the program, if one does.
\<close>

section \<open>Attributes\<close>

text \<open>\<open>int\<close> and \<open>float\<close> of a missing attribute are a \<open>TypeError\<close>, a method of it is an \<open>AttributeError\<close>.\<close>

definition int_attr :: "element \<Rightarrow> string \<Rightarrow> int result" where
  "int_attr el a = (case get_attr el a of None \<Rightarrow> Inl TypeError | Some s \<Rightarrow> py_int s)"

definition float_attr :: "element \<Rightarrow> string \<Rightarrow> rat result" where
  "float_attr el a = (case get_attr el a of None \<Rightarrow> Inl TypeError | Some s \<Rightarrow> py_float s)"

definition parse_time_ns :: "string option \<Rightarrow> rat result" where
  "parse_time_ns tm =
     (case tm of
        None \<Rightarrow> Inl AttributeError
      | Some s \<Rightarrow> if endswith s ''ns'' then py_float (py_slice s 0 (- 2)) else Inl ValueError)"

section \<open>Flows\<close>

record FiveTuple =
  sourceAddress :: "string option"
  destinationAddress :: "string option"
  sourcePort :: int
  destinationPort :: int
  protocol :: int

definition read_FiveTuple :: "element \<Rightarrow> FiveTuple result" where
  "read_FiveTuple el =
     bind_r (int_attr el ''sourcePort'') (\<lambda>sp.
     bind_r (int_attr el ''destinationPort'') (\<lambda>dp.
     bind_r (int_attr el ''protocol'') (\<lambda>p.
       Inr \<lparr>sourceAddress = get_attr el ''sourceAddress'', destinationAddress = get_attr el ''destinationAddress'',
            sourcePort = sp, destinationPort = dp, protocol = p\<rparr>)))"

text \<open>The bins of a histogram: start, width and count.\<close>

type_synonym bins = "(rat \<times> rat \<times> int) list"

definition Histogram :: "element option \<Rightarrow> bins result" where
  "Histogram el =
     (case el of
        None \<Rightarrow> Inr []
      | Some el \<Rightarrow> mapM_r (\<lambda>b. bind_r (float_attr b ''start'') (\<lambda>s. bind_r (float_attr b ''width'') (\<lambda>w.
          bind_r (int_attr b ''count'') (\<lambda>n. Inr (s, w, n))))) (findall ''bin'' el))"

record ProbeFlowStats =
  probeId :: int
  packets :: int
  bytes :: rat
  delayFromFirstProbe :: rat

text \<open>The attribute \<open>fiveTuple\<close> has no value until a classifier sets it.\<close>

record Flow =
  flowId :: int
  delayMean :: "rat option"
  packetLossRatio :: "rat option"
  rxBitrate :: "rat option"
  txBitrate :: "rat option"
  fiveTuple :: "FiveTuple option"
  packetSizeMean :: "rat option"
  probe_stats_unsorted :: "ProbeFlowStats list"
  hopCount :: rat
  flowInterruptionsHistogram :: "bins option"
  rx_duration :: rat

definition duration :: "element \<Rightarrow> string \<Rightarrow> string \<Rightarrow> rat result" where
  "duration el last_attr first_attr =
     bind_r (parse_time_ns (get_attr el last_attr)) (\<lambda>l.
     bind_r (parse_time_ns (get_attr el first_attr)) (\<lambda>f. Inr ((l - f) / 10 ^ 9)))"

definition delay_mean :: "element \<Rightarrow> rat \<Rightarrow> rat result" where
  "delay_mean el rxPackets =
     (case get_attr el ''delaySum'' of
        None \<Rightarrow> Inl TypeError
      | Some s \<Rightarrow> bind_r (py_float (py_slice s 0 (- 2))) (\<lambda>d. Inr (d / rxPackets / 10 ^ 9)))"

definition bitrate :: "element \<Rightarrow> string \<Rightarrow> rat \<Rightarrow> rat option result" where
  "bitrate el a d = (if d > 0 then bind_r (float_attr el a) (\<lambda>b. Inr (Some (b * 8 / d))) else Inr None)"

definition loss_ratio :: "rat \<Rightarrow> rat \<Rightarrow> rat option result" where
  "loss_ratio rxPackets lost =
     (if rxPackets = 0 then Inr None
      else if rxPackets + lost = 0 then Inl ZeroDivisionError
      else Inr (Some (lost / (rxPackets + lost))))"

definition interruptions :: "element \<Rightarrow> bins option result" where
  "interruptions el =
     (case find_child ''flowInterruptionsHistogram'' el of
        None \<Rightarrow> Inr None
      | Some h \<Rightarrow> bind_r (Histogram (Some h)) (\<lambda>b. Inr (Some b)))"

definition read_Flow :: "element \<Rightarrow> Flow result" where
  "read_Flow el =
     bind_r (int_attr el ''flowId'') (\<lambda>i.
     bind_r (float_attr el ''rxPackets'') (\<lambda>rxPackets.
     bind_r (float_attr el ''txPackets'') (\<lambda>txPackets.
     bind_r (duration el ''timeLastTxPacket'' ''timeFirstTxPacket'') (\<lambda>tx_duration.
     bind_r (duration el ''timeLastRxPacket'' ''timeFirstRxPacket'') (\<lambda>rx_duration.
     bind_r (if rxPackets \<noteq> 0 then bind_r (float_attr el ''timesForwarded'') (\<lambda>t. Inr (t / rxPackets + 1)) else Inr (- 1000)) (\<lambda>hops.
     bind_r (if rxPackets \<noteq> 0 then bind_r (delay_mean el rxPackets) (\<lambda>d. Inr (Some d)) else Inr None) (\<lambda>delay.
     bind_r (if rxPackets \<noteq> 0 then bind_r (float_attr el ''rxBytes'') (\<lambda>b. Inr (Some (b / rxPackets))) else Inr None) (\<lambda>sz.
     bind_r (bitrate el ''rxBytes'' rx_duration) (\<lambda>rxb.
     bind_r (bitrate el ''txBytes'' tx_duration) (\<lambda>txb.
     bind_r (float_attr el ''lostPackets'') (\<lambda>lost.
     bind_r (loss_ratio rxPackets lost) (\<lambda>ratio.
     bind_r (interruptions el) (\<lambda>hist.
       Inr \<lparr>flowId = i, delayMean = delay, packetLossRatio = ratio, rxBitrate = rxb, txBitrate = txb, fiveTuple = None,
            packetSizeMean = sz, probe_stats_unsorted = [], hopCount = hops, flowInterruptionsHistogram = hist,
            rx_duration = rx_duration\<rparr>)))))))))))))"

section \<open>A simulation\<close>

text \<open>The flows, and the position of the flow with an identifier.\<close>

type_synonym flow_map = "int \<rightharpoonup> nat"

definition add_flow :: "Flow list \<times> flow_map \<Rightarrow> element \<Rightarrow> (Flow list \<times> flow_map) result" where
  "add_flow st el = (case st of (flows, m) \<Rightarrow>
     bind_r (read_Flow el) (\<lambda>f. Inr (flows @ [f], m(flowId f \<mapsto> length flows))))"

text \<open>\<open>flow_map[flowId]\<close> is changed in place.\<close>

definition change_flow :: "flow_map \<Rightarrow> int \<Rightarrow> (Flow \<Rightarrow> Flow) \<Rightarrow> Flow list \<Rightarrow> Flow list result" where
  "change_flow m i g flows = (case m i of None \<Rightarrow> Inl KeyError | Some k \<Rightarrow> Inr (flows[k := g (flows ! k)]))"

definition classify :: "flow_map \<Rightarrow> Flow list \<Rightarrow> element \<Rightarrow> Flow list result" where
  "classify m flows el =
     bind_r (int_attr el ''flowId'') (\<lambda>i. bind_r (read_FiveTuple el) (\<lambda>t.
       change_flow m i (\<lambda>f. f\<lparr>fiveTuple := Some t\<rparr>) flows))"

definition read_stats :: "int \<Rightarrow> element \<Rightarrow> (int \<times> ProbeFlowStats) result" where
  "read_stats probe el =
     bind_r (int_attr el ''flowId'') (\<lambda>i.
     bind_r (int_attr el ''packets'') (\<lambda>n.
     bind_r (float_attr el ''bytes'') (\<lambda>b.
     bind_r (if n > 0 then bind_r (parse_time_ns (get_attr el ''delayFromFirstProbeSum'')) (\<lambda>t. Inr (t / of_int n)) else Inr 0) (\<lambda>d.
       Inr (i, \<lparr>probeId = probe, packets = n, bytes = b, delayFromFirstProbe = d\<rparr>)))))"

definition add_stats :: "flow_map \<Rightarrow> int \<Rightarrow> Flow list \<Rightarrow> element \<Rightarrow> Flow list result" where
  "add_stats m probe flows el =
     bind_r (read_stats probe el) (\<lambda>(i, s).
       change_flow m i (\<lambda>f. f\<lparr>probe_stats_unsorted := probe_stats_unsorted f @ [s]\<rparr>) flows)"

definition add_probe :: "flow_map \<Rightarrow> Flow list \<Rightarrow> element \<Rightarrow> Flow list result" where
  "add_probe m flows el =
     bind_r (int_attr el ''index'') (\<lambda>p. foldM_r (add_stats m p) flows (findall ''FlowStats'' el))"

definition Simulation :: "element \<Rightarrow> Flow list result" where
  "Simulation el =
     (case findall ''Ipv4FlowClassifier'' el of
        [classifier] \<Rightarrow>
          bind_r (foldM_r add_flow ([], Map.empty) (findall2 ''FlowStats'' ''Flow'' el)) (\<lambda>(flows, m).
          bind_r (foldM_r (classify m) flows (findall ''Flow'' classifier)) (\<lambda>flows.
            foldM_r (add_probe m) flows (findall2 ''FlowProbes'' ''FlowProbe'' el)))
      | _ \<Rightarrow> Inl ValueError)"

section \<open>The program\<close>

datatype xml_event = Start element | End element

fun iterparse :: "element \<Rightarrow> xml_event list" where
  "iterparse (Element t as tx cs) =
     Start (Element t as tx cs) # concat (map iterparse cs) @ [End (Element t as tx cs)]"

fun read_events :: "int \<Rightarrow> Flow list list \<Rightarrow> xml_event list \<Rightarrow> Flow list list \<times> py_error option" where
  "read_events level sims [] = (sims, None)"
| "read_events level sims (Start el # evs) = read_events (level + 1) sims evs"
| "read_events level sims (End el # evs) =
     (if level - 1 = 0 \<and> tag el = ''FlowMonitor''
      then case Simulation el of
             Inl e \<Rightarrow> (sims, Some e)
           | Inr sim \<Rightarrow> read_events (level - 1) (sims @ [sim]) evs
      else read_events (level - 1) sims evs)"

definition proto_name :: "int \<Rightarrow> string result" where
  "proto_name p = (if p = 6 then Inr ''TCP'' else if p = 17 then Inr ''UDP'' else Inl KeyError)"

definition metric_line :: "string \<Rightarrow> rat \<Rightarrow> string \<Rightarrow> rat option \<Rightarrow> string" where
  "metric_line label factor unit v =
     CHR 0x09 # label @ '': '' @ (case v of None \<Rightarrow> ''None'' | Some q \<Rightarrow> format_fixed 2 (q * factor) @ '' '' @ unit) @ [CHR 0x0A]"

definition print_flow :: "Flow \<Rightarrow> string result" where
  "print_flow f =
     (case fiveTuple f of
        None \<Rightarrow> Inl AttributeError
      | Some t \<Rightarrow> bind_r (proto_name (protocol t)) (\<lambda>proto.
          Inr (''FlowID: '' @ str_of_int (flowId f) @ '' ('' @ proto @ '' '' @ str_opt (sourceAddress t) @ ''/'' @ str_of_int (sourcePort t) @
               '' --> '' @ str_opt (destinationAddress t) @ ''/'' @ str_of_int (destinationPort t) @ '')'' @ [CHR 0x0A] @
               metric_line ''TX bitrate'' (1 / 1000) ''kbit/s'' (txBitrate f) @
               metric_line ''RX bitrate'' (1 / 1000) ''kbit/s'' (rxBitrate f) @
               metric_line ''Mean Delay'' 1000 ''ms'' (delayMean f) @
               metric_line ''Packet Loss Ratio'' 100 ''%'' (packetLossRatio f))))"

fun print_flows :: "Flow list \<Rightarrow> string \<times> py_error option" where
  "print_flows [] = ([], None)"
| "print_flows (f # fs) =
     (case print_flow f of
        Inl e \<Rightarrow> ([], Some e)
      | Inr s \<Rightarrow> (case print_flows fs of (out, e) \<Rightarrow> (s @ out, e)))"

text \<open>A dot is written for every simulation that has been read.\<close>

definition flowmon_main :: "element \<Rightarrow> string \<times> py_error option" where
  "flowmon_main doc =
     (case read_events 0 [] (iterparse doc) of
        (sims, Some e) \<Rightarrow> (''Reading XML file  '' @ replicate (length sims) (CHR ''.''), Some e)
      | (sims, None) \<Rightarrow> (case print_flows (concat sims) of (out, e) \<Rightarrow>
          (''Reading XML file  '' @ replicate (length sims) (CHR ''.'') @ '' done.'' @ [CHR 0x0A] @ out, e)))"

section \<open>The flows of a simulation\<close>

text \<open>
  What a simulation should hold, without positions and a dictionary: the flows in document order, and what the
  classifier and the probes say about an identifier goes to the last flow that has it.
\<close>

definition about :: "(int \<times> 'a) list \<Rightarrow> int \<Rightarrow> 'a list" where
  "about es i = map snd (filter (\<lambda>e. fst e = i) es)"

definition described :: "(int \<times> FiveTuple) list \<Rightarrow> (int \<times> ProbeFlowStats) list \<Rightarrow> Flow \<Rightarrow> Flow" where
  "described cs ps f =
     f\<lparr>fiveTuple := (if about cs (flowId f) = [] then fiveTuple f else Some (last (about cs (flowId f)))),
       probe_stats_unsorted := probe_stats_unsorted f @ about ps (flowId f)\<rparr>"

fun joined :: "(int \<times> FiveTuple) list \<Rightarrow> (int \<times> ProbeFlowStats) list \<Rightarrow> Flow list \<Rightarrow> Flow list" where
  "joined cs ps [] = []"
| "joined cs ps (f # fs) =
     (if flowId f \<in> flowId ` set fs then f else described cs ps f) # joined cs ps fs"

definition read_class :: "element \<Rightarrow> (int \<times> FiveTuple) result" where
  "read_class el = bind_r (int_attr el ''flowId'') (\<lambda>i. bind_r (read_FiveTuple el) (\<lambda>t. Inr (i, t)))"

definition read_probe :: "element \<Rightarrow> (int \<times> ProbeFlowStats) list result" where
  "read_probe el = bind_r (int_attr el ''index'') (\<lambda>p. mapM_r (read_stats p) (findall ''FlowStats'' el))"

text \<open>The dictionary of the flows read so far.\<close>

fun last_pos :: "Flow list \<Rightarrow> flow_map" where
  "last_pos [] i = None"
| "last_pos (f # fs) i =
     (case last_pos fs i of Some k \<Rightarrow> Some (Suc k) | None \<Rightarrow> if flowId f = i then Some 0 else None)"

lemma last_pos_None: "last_pos fs i = None \<longleftrightarrow> i \<notin> flowId ` set fs"
  by (induction fs) (auto split: option.splits)

lemma last_pos_Some: "last_pos fs i = Some k \<Longrightarrow> k < length fs \<and> flowId (fs ! k) = i"
  by (induction fs arbitrary: k) (auto split: option.splits if_splits)

lemma last_pos_snoc: "last_pos (fs @ [f]) = (last_pos fs)(flowId f \<mapsto> length fs)"
  by (rule ext, induction fs) (auto split: option.splits)

lemma last_pos_cong: "map flowId fs = map flowId gs \<Longrightarrow> last_pos fs = last_pos gs"
proof (induction fs arbitrary: gs)
  case (Cons f fs)
  then obtain g gs' where g: "gs = g # gs'" "flowId f = flowId g" "map flowId fs = map flowId gs'" by auto
  from Cons.IH [OF g(3)] show ?case by (intro ext) (simp add: g(1,2))
qed simp

text \<open>What a change to one flow does, one description more at a time.\<close>

fun change_last :: "int \<Rightarrow> (Flow \<Rightarrow> Flow) \<Rightarrow> Flow list \<Rightarrow> Flow list" where
  "change_last i g [] = []"
| "change_last i g (f # fs) =
     (if i \<in> flowId ` set fs then f # change_last i g fs else (if flowId f = i then g f else f) # fs)"

lemma change_flow_last:
  "change_flow (last_pos fs) i g fs =
     (if i \<in> flowId ` set fs then Inr (change_last i g fs) else Inl KeyError)"
proof (induction fs)
  case (Cons f fs)
  show ?case
  proof (cases "last_pos fs i")
    case None
    then show ?thesis using last_pos_None [of fs i] by (auto simp: change_flow_def)
  next
    case (Some k)
    with Cons.IH last_pos_None [of fs i] show ?thesis by (simp add: change_flow_def split: if_splits)
  qed
qed (simp add: change_flow_def)

definition add_tuple :: "FiveTuple \<Rightarrow> Flow \<Rightarrow> Flow" where "add_tuple t f = f\<lparr>fiveTuple := Some t\<rparr>"
definition add_stat :: "ProbeFlowStats \<Rightarrow> Flow \<Rightarrow> Flow" where
  "add_stat s f = f\<lparr>probe_stats_unsorted := probe_stats_unsorted f @ [s]\<rparr>"

lemma joined_ids [simp]: "map flowId (joined cs ps fs) = map flowId fs"
  by (induction fs) (auto simp: described_def)

lemma joined_id_set [simp]: "flowId ` set (joined cs ps fs) = flowId ` set fs"
  by (metis joined_ids list.set_map)

lemma last_pos_joined [simp]: "last_pos (joined cs ps fs) = last_pos fs"
  by (rule last_pos_cong) simp

lemma about_snoc: "about (es @ [(i, x)]) j = (if i = j then about es j @ [x] else about es j)"
  by (simp add: about_def)

lemma described_tuple:
  "described (cs @ [(i, t)]) ps f = (if flowId f = i then add_tuple t (described cs ps f) else described cs ps f)"
  by (simp add: described_def about_snoc add_tuple_def)

lemma described_stat:
  "described cs (ps @ [(i, s)]) f = (if flowId f = i then add_stat s (described cs ps f) else described cs ps f)"
  by (simp add: described_def about_snoc add_stat_def)

lemma described_id [simp]: "flowId (described cs ps f) = flowId f"
  by (simp add: described_def)

lemma joined_same: "i \<notin> flowId ` set fs \<Longrightarrow> joined (cs @ [(i, t)]) ps fs = joined cs ps fs"
    "i \<notin> flowId ` set fs \<Longrightarrow> joined cs (ps @ [(i, s)]) fs = joined cs ps fs"
  by (induction fs) (auto simp: described_tuple described_stat)

lemma joined_tuple: "joined (cs @ [(i, t)]) ps fs = change_last i (add_tuple t) (joined cs ps fs)"
  by (induction fs) (auto simp: described_tuple joined_same)

lemma joined_stat: "joined cs (ps @ [(i, s)]) fs = change_last i (add_stat s) (joined cs ps fs)"
  by (induction fs) (auto simp: described_stat joined_same)

lemma joined_fresh: "\<forall>f \<in> set fs. fiveTuple f = None \<and> probe_stats_unsorted f = [] \<Longrightarrow> joined [] [] fs = fs"
  by (induction fs) (auto simp: described_def about_def)

text \<open>The three loops of a simulation.\<close>

lemma read_Flow_fresh: "read_Flow el = Inr f \<Longrightarrow> fiveTuple f = None \<and> probe_stats_unsorted f = []"
  by (auto simp: read_Flow_def bind_r_eq_Inr_iff)

lemma add_flow_step: "add_flow (fs, last_pos fs) el = bind_r (read_Flow el) (\<lambda>f. Inr (fs @ [f], last_pos (fs @ [f])))"
  unfolding last_pos_snoc by (simp add: add_flow_def)

lemma add_flows:
  "foldM_r add_flow (fs, last_pos fs) els = bind_r (mapM_r read_Flow els) (\<lambda>gs. Inr (fs @ gs, last_pos (fs @ gs)))"
proof (induction els arbitrary: fs)
  case (Cons el els)
  show ?case
  proof (cases "read_Flow el")
    case (Inr f)
    then show ?thesis using Cons.IH [of "fs @ [f]"] by (cases "mapM_r read_Flow els") (simp_all add: add_flow_step)
  qed (simp add: add_flow_step)
qed simp

lemma change_funs: "(\<lambda>f. f\<lparr>fiveTuple := Some t\<rparr>) = add_tuple t"
    "(\<lambda>f. f\<lparr>probe_stats_unsorted := probe_stats_unsorted f @ [s]\<rparr>) = add_stat s"
  by (auto simp: add_tuple_def add_stat_def)

lemma classify_joined:
  "classify (last_pos fs) (joined cs ps fs) el =
     bind_r (read_class el) (\<lambda>(i, t). if i \<in> flowId ` set fs then Inr (joined (cs @ [(i, t)]) ps fs) else Inl KeyError)"
proof -
  have "change_flow (last_pos fs) i (\<lambda>f. f\<lparr>fiveTuple := Some t\<rparr>) (joined cs ps fs) =
      (if i \<in> flowId ` set fs then Inr (joined (cs @ [(i, t)]) ps fs) else Inl KeyError)" for i t
    unfolding change_funs using change_flow_last [of "joined cs ps fs" i "add_tuple t"] by (simp add: joined_tuple)
  then show ?thesis by (cases "int_attr el ''flowId''"; cases "read_FiveTuple el") (simp_all add: classify_def read_class_def)
qed

lemma add_stats_joined:
  "add_stats (last_pos fs) p (joined cs ps fs) el =
     bind_r (read_stats p el) (\<lambda>(i, s). if i \<in> flowId ` set fs then Inr (joined cs (ps @ [(i, s)]) fs) else Inl KeyError)"
proof -
  have "change_flow (last_pos fs) i (\<lambda>f. f\<lparr>probe_stats_unsorted := probe_stats_unsorted f @ [s]\<rparr>) (joined cs ps fs) =
      (if i \<in> flowId ` set fs then Inr (joined cs (ps @ [(i, s)]) fs) else Inl KeyError)" for i s
    unfolding change_funs using change_flow_last [of "joined cs ps fs" i "add_stat s"] by (simp add: joined_stat)
  then show ?thesis by (cases "read_stats p el") (simp_all add: add_stats_def split: prod.splits)
qed

text \<open>A loop that reads entries and files each one under a known key, or fails.\<close>

lemma filing_loop:
  assumes step: "\<And>es el s. body (st es) el = Inr s \<longleftrightarrow> (\<exists>x. rd el = Inr x \<and> fst ` set (ent x) \<subseteq> K \<and> s = st (es @ ent x))"
  shows "foldM_r body (st es) els = Inr s' \<longleftrightarrow>
    (\<exists>xs. mapM_r rd els = Inr xs \<and> fst ` set (concat (map ent xs)) \<subseteq> K \<and> s' = st (es @ concat (map ent xs)))"
proof (induction els arbitrary: es)
  case (Cons el els)
  have "foldM_r body (st es) (el # els) = Inr s' \<longleftrightarrow>
      (\<exists>x. rd el = Inr x \<and> fst ` set (ent x) \<subseteq> K \<and> foldM_r body (st (es @ ent x)) els = Inr s')"
    by (simp add: bind_r_eq_Inr_iff step) blast
  also have "\<dots> \<longleftrightarrow> (\<exists>x ys. rd el = Inr x \<and> mapM_r rd els = Inr ys \<and> fst ` set (concat (map ent (x # ys))) \<subseteq> K \<and>
      s' = st (es @ concat (map ent (x # ys))))"
    unfolding Cons.IH by (simp add: image_Un) blast
  also have "\<dots> \<longleftrightarrow> (\<exists>xs. mapM_r rd (el # els) = Inr xs \<and> fst ` set (concat (map ent xs)) \<subseteq> K \<and> s' = st (es @ concat (map ent xs)))"
    unfolding mapM_r_Cons_iff by blast
  finally show ?case .
qed auto

lemma classify_all:
  "foldM_r (classify (last_pos fs)) (joined [] ps fs) els = Inr s' \<longleftrightarrow>
    (\<exists>es. mapM_r read_class els = Inr es \<and> fst ` set es \<subseteq> flowId ` set fs \<and> s' = joined es ps fs)"
proof -
  have "classify (last_pos fs) (joined cs ps fs) el = Inr s \<longleftrightarrow>
      (\<exists>x. read_class el = Inr x \<and> fst ` set [x] \<subseteq> flowId ` set fs \<and> s = joined (cs @ [x]) ps fs)" for cs el s
    unfolding classify_joined by (auto simp: bind_r_eq_Inr_iff split: if_splits)
  from filing_loop [of "classify (last_pos fs)" "\<lambda>cs. joined cs ps fs", OF this, of "[]" els s'] show ?thesis by simp
qed

lemma add_probe_joined:
  "add_probe (last_pos fs) (joined cs ps fs) el = Inr s' \<longleftrightarrow>
    (\<exists>es. read_probe el = Inr es \<and> fst ` set es \<subseteq> flowId ` set fs \<and> s' = joined cs (ps @ es) fs)"
proof (cases "int_attr el ''index''")
  case (Inr p)
  have "add_stats (last_pos fs) p (joined cs ps fs) el = Inr s \<longleftrightarrow>
      (\<exists>x. read_stats p el = Inr x \<and> fst ` set [x] \<subseteq> flowId ` set fs \<and> s = joined cs (ps @ [x]) fs)" for ps el s
    unfolding add_stats_joined by (auto simp: bind_r_eq_Inr_iff split: if_splits)
  from filing_loop [of "add_stats (last_pos fs) p" "\<lambda>ps. joined cs ps fs", OF this, of ps "findall ''FlowStats'' el" s'] Inr show ?thesis
    by (simp add: add_probe_def read_probe_def)
qed (simp add: add_probe_def read_probe_def)

lemma add_probes:
  "foldM_r (add_probe (last_pos fs)) (joined cs [] fs) els = Inr s' \<longleftrightarrow>
    (\<exists>ess. mapM_r read_probe els = Inr ess \<and> fst ` set (concat ess) \<subseteq> flowId ` set fs \<and> s' = joined cs (concat ess) fs)"
  using filing_loop [of "add_probe (last_pos fs)" "\<lambda>ps. joined cs ps fs" read_probe "\<lambda>es. es", OF add_probe_joined, of "[]" els s']
  by simp

lemma flows_fresh: "mapM_r read_Flow els = Inr fs \<Longrightarrow> joined [] [] fs = fs"
proof (rule joined_fresh)
  show "mapM_r read_Flow els = Inr fs \<Longrightarrow> \<forall>f \<in> set fs. fiveTuple f = None \<and> probe_stats_unsorted f = []"
    by (induction els arbitrary: fs) (auto simp: bind_r_eq_Inr_iff dest: read_Flow_fresh)
qed

text \<open>
  C36: reading a simulation, with its dictionary of shared objects, is joining three tables. It succeeds exactly when
  there is one classifier, every row can be read and every row of the classifier and of the probes names a flow; the
  result is then the flows in document order, each with the last classification and all the probe statistics of its
  identifier, in document order. Of several flows with one identifier the last receives them.
\<close>

theorem Simulation_joins:
  "Simulation el = Inr flows \<longleftrightarrow>
    (\<exists>classifier fs cs pss. findall ''Ipv4FlowClassifier'' el = [classifier] \<and>
       mapM_r read_Flow (findall2 ''FlowStats'' ''Flow'' el) = Inr fs \<and>
       mapM_r read_class (findall ''Flow'' classifier) = Inr cs \<and>
       mapM_r read_probe (findall2 ''FlowProbes'' ''FlowProbe'' el) = Inr pss \<and>
       fst ` set cs \<subseteq> flowId ` set fs \<and> fst ` set (concat pss) \<subseteq> flowId ` set fs \<and>
       flows = joined cs (concat pss) fs)"
proof (cases "\<exists>c. findall ''Ipv4FlowClassifier'' el = [c]")
  case True
  then obtain c where c: "findall ''Ipv4FlowClassifier'' el = [c]" by blast
  have empty_map: "(Map.empty :: flow_map) = last_pos []" by (rule ext) simp
  show ?thesis
  proof (cases "mapM_r read_Flow (findall2 ''FlowStats'' ''Flow'' el)")
    case (Inr fs)
    have cl: "foldM_r (classify (last_pos fs)) fs els = Inr s' \<longleftrightarrow>
        (\<exists>es. mapM_r read_class els = Inr es \<and> fst ` set es \<subseteq> flowId ` set fs \<and> s' = joined es [] fs)" for els s'
      using classify_all [of fs "[]" els s'] by (simp add: flows_fresh [OF Inr])
    have "foldM_r add_flow ([], Map.empty) (findall2 ''FlowStats'' ''Flow'' el) = Inr (fs, last_pos fs)"
      unfolding empty_map using add_flows [of "[]"] by (simp add: Inr)
    then have "Simulation el = Inr flows \<longleftrightarrow>
        (\<exists>cs. mapM_r read_class (findall ''Flow'' c) = Inr cs \<and> fst ` set cs \<subseteq> flowId ` set fs \<and>
          foldM_r (add_probe (last_pos fs)) (joined cs [] fs) (findall2 ''FlowProbes'' ''FlowProbe'' el) = Inr flows)"
      by (simp add: Simulation_def c bind_r_eq_Inr_iff cl) blast
    also have "\<dots> \<longleftrightarrow> (\<exists>cs pss. mapM_r read_class (findall ''Flow'' c) = Inr cs \<and>
          mapM_r read_probe (findall2 ''FlowProbes'' ''FlowProbe'' el) = Inr pss \<and>
          fst ` set cs \<subseteq> flowId ` set fs \<and> fst ` set (concat pss) \<subseteq> flowId ` set fs \<and> flows = joined cs (concat pss) fs)"
      unfolding add_probes by blast
    finally show ?thesis by (simp add: c Inr)
  next
    case (Inl e)
    then show ?thesis using add_flows [of "[]" "findall2 ''FlowStats'' ''Flow'' el"] by (simp add: Simulation_def c empty_map)
  qed
qed (auto simp: Simulation_def split: list.splits)

section \<open>The report\<close>

text \<open>The events of an element inside the root change nothing: the level is back where it was.\<close>

lemma read_events_inner:
  "level \<ge> 1 \<Longrightarrow> read_events level sims (iterparse el @ evs) = read_events level sims evs"
proof (induction el arbitrary: evs level rule: iterparse.induct)
  case (1 t as tx cs)
  have "read_events l sims (concat (map iterparse cs') @ evs') = read_events l sims evs'" if "set cs' \<subseteq> set cs" "l \<ge> 1" for cs' l evs'
    using that 1(1) by (induction cs') simp_all
  from this [of cs "level + 1"] 1(2) show ?case by simp
qed

lemma read_events_inner_all:
  "level \<ge> 1 \<Longrightarrow> read_events level sims (concat (map iterparse els) @ evs) = read_events level sims evs"
  by (induction els) (simp_all add: read_events_inner)

definition printable :: "Flow \<Rightarrow> bool" where
  "printable f = (case fiveTuple f of None \<Rightarrow> False | Some t \<Rightarrow> protocol t = 6 \<or> protocol t = 17)"

lemma print_flow_outcome:
  "print_flow f = (if printable f then Inr (projr (print_flow f)) else Inl (if fiveTuple f = None then AttributeError else KeyError))"
  by (auto simp: print_flow_def printable_def proto_name_def split: option.splits)

lemma print_flows_outcome:
  "print_flows flows =
     (case dropWhile printable flows of
        [] \<Rightarrow> (concat (map (projr \<circ> print_flow) flows), None)
      | f # _ \<Rightarrow> (concat (map (projr \<circ> print_flow) (takeWhile printable flows)),
          Some (if fiveTuple f = None then AttributeError else KeyError)))"
proof (induction flows)
  case (Cons f flows)
  show ?case
  proof (cases "printable f")
    case True
    then obtain s where "print_flow f = Inr s" using print_flow_outcome [of f] by auto
    with True Cons show ?thesis
      by (cases "dropWhile printable flows") (simp_all add: comp_def del: dropWhile_eq_Nil_conv)
  next
    case False
    then show ?thesis using print_flow_outcome [of f] by simp
  qed
qed simp

text \<open>
  C37: the report of a document. Only the root element counts, whatever is nested in it: if it is no
  \<open>FlowMonitor\<close> the report is empty; otherwise the program ends with the exception of the simulation, or writes
  one paragraph per flow, in the order of the document, up to the first flow without classification or with a
  protocol other than TCP and UDP, which ends it with \<open>AttributeError\<close> or \<open>KeyError\<close>.
\<close>

theorem flowmon_report:
  "flowmon_main doc =
    (if tag doc \<noteq> ''FlowMonitor'' then (''Reading XML file   done.'' @ [CHR 0x0A], None)
     else case Simulation doc of
       Inl e \<Rightarrow> (''Reading XML file  '', Some e)
     | Inr flows \<Rightarrow>
         (case dropWhile printable flows of
            [] \<Rightarrow> (''Reading XML file  . done.'' @ [CHR 0x0A] @ concat (map (projr \<circ> print_flow) flows), None)
          | f # _ \<Rightarrow> (''Reading XML file  . done.'' @ [CHR 0x0A] @
              concat (map (projr \<circ> print_flow) (takeWhile printable flows)),
              Some (if fiveTuple f = None then AttributeError else KeyError))))"
proof -
  obtain t as tx cs where doc: "doc = Element t as tx cs" by (cases doc)
  have "read_events 0 [] (iterparse doc) =
      (if t \<noteq> ''FlowMonitor'' then ([], None)
       else case Simulation doc of Inl e \<Rightarrow> ([], Some e) | Inr flows \<Rightarrow> ([flows], None))"
    by (simp add: doc read_events_inner_all split: sum.splits)
  then show ?thesis 
    by (auto simp: flowmon_main_def doc print_flows_outcome simp del: dropWhile_eq_Nil_conv split: sum.splits list.splits)
qed

section \<open>Figures of a flow\<close>

lemma ratio_unit: "(0::rat) \<le> a \<Longrightarrow> 0 \<le> b \<Longrightarrow> 0 \<le> a / (b + a) \<and> a / (b + a) \<le> 1"
  by (cases "b + a = 0") (auto simp: divide_le_eq_1)

text \<open>
  The figures of a flow with non-negative counters are in range: the loss ratio, when there is one, is between 0 and
  1, a flow that received packets has at least one hop, and every flow with a positive duration has a
  bit rate, which is not negative. A flow that received nothing has neither a mean delay nor a loss ratio, however many of its
  packets were lost.
\<close>

theorem flow_figures:
  assumes "read_Flow el = Inr f" and "float_attr el ''rxPackets'' = Inr rx" and "float_attr el ''lostPackets'' = Inr lost"
    and "float_attr el ''timesForwarded'' = Inr fw" and "float_attr el ''rxBytes'' = Inr rb" and "float_attr el ''txBytes'' = Inr tb"
    and "0 \<le> rx" and "0 \<le> lost" and "0 \<le> fw" and "0 \<le> rb" and "0 \<le> tb"
  shows "(case packetLossRatio f of None \<Rightarrow> rx = 0 \<and> delayMean f = None \<and> packetSizeMean f = None \<and> hopCount f = - 1000
      | Some r \<Rightarrow> rx > 0 \<and> r * (rx + lost) = lost \<and> 0 \<le> r \<and> r \<le> 1 \<and> hopCount f \<ge> 1) \<and>
    (case rxBitrate f of None \<Rightarrow> rx_duration f \<le> 0 | Some b \<Rightarrow> rx_duration f > 0 \<and> b * rx_duration f = 8 * rb \<and> 0 \<le> b) \<and>
    (case txBitrate f of None \<Rightarrow> True | Some b \<Rightarrow> 0 \<le> b)"
proof -
  have unit: "rx > 0 \<Longrightarrow> 0 \<le> lost / (rx + lost) \<and> lost / (rx + lost) \<le> 1 \<and> rx + lost \<noteq> 0"
    using ratio_unit [OF assms(8,7)] assms(8) by auto
  have rx: "rx = 0 \<or> rx > 0" using assms(7) by auto
  show ?thesis using assms rx unit
    by (auto simp: read_Flow_def bind_r_eq_Inr_iff bitrate_def loss_ratio_def split: if_splits)
qed

definition demo_flow :: element where
  "demo_flow = Element ''Flow''
     [(''flowId'', ''1''), (''timeFirstTxPacket'', ''+1.0e+01ns''), (''timeLastTxPacket'', ''+3.0e+01ns''),
      (''timeFirstRxPacket'', ''+1.0e+01ns''), (''timeLastRxPacket'', ''+2.0e+01ns''), (''delaySum'', ''+3.0e+01ns''),
      (''txBytes'', ''4''), (''rxBytes'', ''3''), (''txPackets'', ''4''), (''rxPackets'', ''3''),
      (''lostPackets'', ''1''), (''timesForwarded'', ''6'')] None []"

lemma demo_flow_floats:
  "float_attr demo_flow ''rxPackets'' = Inr 3" "float_attr demo_flow ''txPackets'' = Inr 4" "float_attr demo_flow ''lostPackets'' = Inr 1"
  "float_attr demo_flow ''timesForwarded'' = Inr 6" "float_attr demo_flow ''rxBytes'' = Inr 3" "float_attr demo_flow ''txBytes'' = Inr 4"
  by code_simp+

lemma demo_flow_times:
  "parse_time_ns (get_attr demo_flow ''timeFirstTxPacket'') = Inr 10" "parse_time_ns (get_attr demo_flow ''timeLastTxPacket'') = Inr 30"
  "parse_time_ns (get_attr demo_flow ''timeFirstRxPacket'') = Inr 10" "parse_time_ns (get_attr demo_flow ''timeLastRxPacket'') = Inr 20"
  "get_attr demo_flow ''delaySum'' = Some ''+3.0e+01ns''" "py_float (py_slice ''+3.0e+01ns'' 0 (- 2)) = Inr 30"
  "int_attr demo_flow ''flowId'' = Inr 1" "findall ''flowInterruptionsHistogram'' demo_flow = []"
  by code_simp+

theorem flow_figures_witness:
  "\<exists>f. read_Flow demo_flow = Inr f \<and> packetLossRatio f = Some (1 / 4) \<and> hopCount f \<ge> 1 \<and> rxBitrate f = Some (8 * 3 / (10 / 10 ^ 9))"
proof -
  obtain f where f: "read_Flow demo_flow = Inr f" "packetLossRatio f = Some (1 / 4)" "rxBitrate f = Some (8 * 3 / (10 / 10 ^ 9))"
    by (simp add: read_Flow_def demo_flow_floats demo_flow_times duration_def delay_mean_def bitrate_def loss_ratio_def interruptions_def find_child_def)
  from flow_figures [OF f(1) demo_flow_floats(1,3,4,5,6)] f show ?thesis by simp
qed

end
