(* ===== verification/TestPool.thy ===== *)
theory TestPool
  imports PyString
begin

text \<open>
  The worker threads of the test runner, \<^verbatim>\<open>test.py\<close>: the class \<open>Job\<close>, the loop of \<open>worker_thread.run\<close> and the part of
  \<open>run_tests\<close> that puts the jobs on the input queue, takes the results from the output queue and joins the threads. One step is one operation on a
  queue or on the flag \<open>thread_exit\<close>, by whichever thread comes next; the signal handler can set the flag at any
  time. What the process of a job returns, and when, is up to the process. A thread that dies of an exception is not modelled.
\<close>

section \<open>Jobs\<close>

record job =
  is_break :: bool
  is_skip :: bool
  skip_reason :: string
  is_example :: bool
  is_pyexample :: bool
  shell_command :: string
  display_name :: string
  basedir :: string
  tempdir :: string
  cwd :: string
  tmp_file_name :: string
  returncode :: int
  elapsed_time :: rat
  build_path :: string

text \<open>The return code of a new job is \<open>False\<close>, which is the number 0.\<close>

definition Job :: job where
  "Job = \<lparr>is_break = False, is_skip = False, skip_reason = [], is_example = False, is_pyexample = False, shell_command = [],
     display_name = [], basedir = [], tempdir = [], cwd = [], tmp_file_name = [], returncode = 0, elapsed_time = 0, build_path = []\<rparr>"

definition set_is_break :: "bool \<Rightarrow> job \<Rightarrow> job" where "set_is_break b j = j\<lparr>is_break := b\<rparr>"
definition set_is_skip :: "bool \<Rightarrow> job \<Rightarrow> job" where "set_is_skip b j = j\<lparr>is_skip := b\<rparr>"
definition set_skip_reason :: "string \<Rightarrow> job \<Rightarrow> job" where "set_skip_reason s j = j\<lparr>skip_reason := s\<rparr>"
definition set_is_example :: "bool \<Rightarrow> job \<Rightarrow> job" where "set_is_example b j = j\<lparr>is_example := b\<rparr>"
definition set_is_pyexample :: "bool \<Rightarrow> job \<Rightarrow> job" where "set_is_pyexample b j = j\<lparr>is_pyexample := b\<rparr>"
definition set_shell_command :: "string \<Rightarrow> job \<Rightarrow> job" where "set_shell_command s j = j\<lparr>shell_command := s\<rparr>"
definition set_build_path :: "string \<Rightarrow> job \<Rightarrow> job" where "set_build_path s j = j\<lparr>build_path := s\<rparr>"
definition set_display_name :: "string \<Rightarrow> job \<Rightarrow> job" where "set_display_name s j = j\<lparr>display_name := s\<rparr>"
definition set_basedir :: "string \<Rightarrow> job \<Rightarrow> job" where "set_basedir s j = j\<lparr>basedir := s\<rparr>"
definition set_tempdir :: "string \<Rightarrow> job \<Rightarrow> job" where "set_tempdir s j = j\<lparr>tempdir := s\<rparr>"
definition set_cwd :: "string \<Rightarrow> job \<Rightarrow> job" where "set_cwd s j = j\<lparr>cwd := s\<rparr>"
definition set_tmp_file_name :: "string \<Rightarrow> job \<Rightarrow> job" where "set_tmp_file_name s j = j\<lparr>tmp_file_name := s\<rparr>"
definition set_returncode :: "int \<Rightarrow> job \<Rightarrow> job" where "set_returncode r j = j\<lparr>returncode := r\<rparr>"
definition set_elapsed_time :: "rat \<Rightarrow> job \<Rightarrow> job" where "set_elapsed_time t j = j\<lparr>elapsed_time := t\<rparr>"

section \<open>Threads\<close>

text \<open>A worker waits for a job, has taken one from the queue, runs its process, or has returned.\<close>

datatype worker = Waiting | Holding job | Running job | Returned

text \<open>
  The fields \<open>to_put\<close>, \<open>to_get\<close>, \<open>results\<close> and \<open>joined\<close> are the progress of the main thread: the jobs it has still to
  put, the number of results it has still to get, those it has, and the number of threads it has joined.
\<close>

record pool =
  to_put :: "job list"
  input_queue :: "job list"
  workers :: "worker list"
  output_queue :: "job list"
  thread_exit :: bool
  to_get :: nat
  results :: "job list"
  joined :: nat

definition break_job :: job where "break_job = set_is_break True Job"

definition start_pool :: "job list \<Rightarrow> nat \<Rightarrow> pool" where
  "start_pool jobs processors =
     \<lparr>to_put = jobs @ replicate processors break_job, input_queue = [], workers = replicate processors Waiting, output_queue = [],
      thread_exit = False, to_get = length jobs, results = [], joined = 0\<rparr>"

definition set_worker :: "nat \<Rightarrow> worker \<Rightarrow> pool \<Rightarrow> pool" where
  "set_worker i w s = s\<lparr>workers := (workers s)[i := w]\<rparr>"

definition put_output :: "job \<Rightarrow> pool \<Rightarrow> pool" where
  "put_output j s = s\<lparr>output_queue := output_queue s @ [j]\<rparr>"

text \<open>What a worker does with the job it has taken.\<close>

definition worker_check :: "nat \<Rightarrow> job \<Rightarrow> pool \<Rightarrow> pool" where
  "worker_check i j s =
     (if is_break j then set_worker i Returned s
      else if thread_exit s then set_worker i Waiting (put_output (set_is_break True j) s)
      else if is_skip j then set_worker i Waiting (put_output j s)
      else set_worker i (Running j) s)"

definition worker_done :: "nat \<Rightarrow> job \<Rightarrow> int \<Rightarrow> rat \<Rightarrow> pool \<Rightarrow> pool" where
  "worker_done i j rc et s = set_worker i Waiting (put_output (set_elapsed_time et (set_returncode rc j)) s)"

inductive pool_step :: "pool \<Rightarrow> pool \<Rightarrow> bool" where
  put: "to_put s = j # js \<Longrightarrow> pool_step s (s\<lparr>to_put := js, input_queue := input_queue s @ [j]\<rparr>)"
| get: "i < length (workers s) \<Longrightarrow> workers s ! i = Waiting \<Longrightarrow> input_queue s = j # q \<Longrightarrow>
    pool_step s (set_worker i (Holding j) (s\<lparr>input_queue := q\<rparr>))"
| check: "i < length (workers s) \<Longrightarrow> workers s ! i = Holding j \<Longrightarrow> pool_step s (worker_check i j s)"
| finish: "i < length (workers s) \<Longrightarrow> workers s ! i = Running j \<Longrightarrow> pool_step s (worker_done i j rc et s)"
| signal: "\<not> thread_exit s \<Longrightarrow> pool_step s (s\<lparr>thread_exit := True\<rparr>)"
| collect: "to_put s = [] \<Longrightarrow> to_get s = Suc n \<Longrightarrow> output_queue s = j # q \<Longrightarrow>
    pool_step s (s\<lparr>to_get := n, output_queue := q, results := results s @ [j]\<rparr>)"
| join: "to_put s = [] \<Longrightarrow> to_get s = 0 \<Longrightarrow> joined s < length (workers s) \<Longrightarrow> workers s ! joined s = Returned \<Longrightarrow>
    pool_step s (s\<lparr>joined := Suc (joined s)\<rparr>)"

definition finished :: "pool \<Rightarrow> bool" where
  "finished s \<longleftrightarrow> to_put s = [] \<and> to_get s = 0 \<and> joined s = length (workers s)"

section \<open>Invariant\<close>

text \<open>
  What a worker holds of the jobs proper, the number of break jobs it will still take from the queue, and the steps it is away from
  giving its job back.
\<close>

fun held :: "worker \<Rightarrow> job list" where
  "held (Holding j) = (if is_break j then [] else [j])"
| "held (Running j) = [j]"
| "held w = []"

fun owed :: "worker \<Rightarrow> nat" where
  "owed (Holding j) = (if is_break j then 0 else 1)"
| "owed Returned = 0"
| "owed w = 1"

fun worker_rank :: "worker \<Rightarrow> nat" where
  "worker_rank (Holding j) = 3"
| "worker_rank (Running j) = 2"
| "worker_rank w = 0"

text \<open>The job as it was put on the queue.\<close>

definition plan :: "job \<Rightarrow> job" where
  "plan j = j\<lparr>is_break := False, returncode := 0, elapsed_time := 0\<rparr>"

text \<open>The jobs that are on the way: with the main thread, on a queue, or with a worker.\<close>

definition under_way :: "job list \<Rightarrow> pool \<Rightarrow> job multiset" where
  "under_way js s = mset js + sum_list (map (\<lambda>w. mset (held w)) (workers s)) + mset (output_queue s) + mset (results s)"

text \<open>
  The queue holds jobs followed by break jobs, as many as the workers will take; once a break job has been taken, no job is left
  in the queue.
\<close>

definition queue_ok :: "job list \<Rightarrow> nat \<Rightarrow> pool \<Rightarrow> bool" where
  "queue_ok js k s \<longleftrightarrow> input_queue s @ to_put s = js @ replicate k break_job \<and> list_all (\<lambda>j. \<not> is_break j) js \<and>
     k = sum_list (map owed (workers s)) \<and> (js \<noteq> [] \<longrightarrow> list_all (\<lambda>w. owed w = Suc 0) (workers s))"

definition jobs_ok :: "job list \<Rightarrow> pool \<Rightarrow> bool" where
  "jobs_ok jobs s \<longleftrightarrow> (\<exists>js k. queue_ok js k s \<and> image_mset plan (under_way js s) = mset jobs)"

definition workers_ok :: "pool \<Rightarrow> bool" where
  "workers_ok s \<longleftrightarrow> list_all (\<lambda>w. \<forall>j. w = Running j \<longrightarrow> \<not> is_break j) (workers s) \<and>
     workers s \<noteq> [] \<and> joined s \<le> length (workers s) \<and> list_all ((=) Returned) (take (joined s) (workers s))"

definition pool_inv :: "job list \<Rightarrow> pool \<Rightarrow> bool" where
  "pool_inv jobs s \<longleftrightarrow> jobs_ok jobs s \<and> workers_ok s \<and> length (results s) + to_get s = length jobs \<and>
     (thread_exit s \<or> list_all (\<lambda>j. \<not> is_break j) (output_queue s @ results s))"

definition pool_rank :: "pool \<Rightarrow> nat" where
  "pool_rank s = 5 * length (to_put s) + 4 * length (input_queue s) + sum_list (map worker_rank (workers s)) +
     length (output_queue s) + (length (workers s) - joined s) + (if thread_exit s then 0 else 1)"

lemmas worker_defs = set_worker_def put_output_def worker_check_def worker_done_def set_is_break_def set_elapsed_time_def set_returncode_def

lemma pool_step_rank: "pool_step s t \<Longrightarrow> pool_rank t < pool_rank s"
proof (induction rule: pool_step.induct)
  case (get i s j q)
  then show ?case using sum_list_update_add [of i "workers s" worker_rank "Holding j"] by (simp add: pool_rank_def worker_defs)
next
  case (check i s j)
  then show ?case using sum_list_update_add [of i "workers s" worker_rank Returned]
      sum_list_update_add [of i "workers s" worker_rank Waiting] sum_list_update_add [of i "workers s" worker_rank "Running j"]
    by (simp add: pool_rank_def worker_defs)
next
  case (finish i s j rc et)
  then show ?case using sum_list_update_add [of i "workers s" worker_rank Waiting] by (simp add: pool_rank_def worker_defs)
qed (auto simp: pool_rank_def)

lemma update_workers:
  assumes "i < length ws" and "ws ! i = w" and "list_all ((=) Returned) (take n ws)" and "w \<noteq> Returned"
  shows "take n (ws[i := w']) = take n ws"
proof -
  have "\<not> i < n" using assms by (auto simp: list_all_length)
  then show ?thesis by simp
qed

lemma owed_all_update: "list_all (\<lambda>w. owed w = Suc 0) ws \<Longrightarrow> owed w' = Suc 0 \<Longrightarrow> list_all (\<lambda>w. owed w = Suc 0) (ws[i := w'])"
  by (auto simp: list_all_iff dest: set_update_subset_insert [THEN subsetD])

lemma running_update:
  "list_all (\<lambda>w. \<forall>j. w = Running j \<longrightarrow> \<not> is_break j) ws \<Longrightarrow> (\<And>j. w' = Running j \<Longrightarrow> \<not> is_break j) \<Longrightarrow>
   list_all (\<lambda>w. \<forall>j. w = Running j \<longrightarrow> \<not> is_break j) (ws[i := w'])"
  by (auto simp: list_all_iff dest: set_update_subset_insert [THEN subsetD])

lemma plan_idem [simp]: "plan (j\<lparr>is_break := b\<rparr>) = plan j" "plan (j\<lparr>returncode := r, elapsed_time := e\<rparr>) = plan j"
  by (simp_all add: plan_def)

lemma break_job_break [simp]: "is_break break_job"
  by (simp add: break_job_def set_is_break_def)

lemma queue_get:
  assumes "queue_ok js k s" and "i < length (workers s)" and "workers s ! i = Waiting" and "input_queue s = j # q"
  shows "\<exists>js' k'. queue_ok js' k' (set_worker i (Holding j) (s\<lparr>input_queue := q\<rparr>)) \<and>
    under_way js' (set_worker i (Holding j) (s\<lparr>input_queue := q\<rparr>)) = under_way js s"
proof -
  let ?t = "set_worker i (Holding j) (s\<lparr>input_queue := q\<rparr>)"
  note owed = sum_list_update_add [OF assms(2), of owed "Holding j"]
    and held = sum_list_update_add [OF assms(2), of "\<lambda>w. mset (held w)" "Holding j"]
  have queue: "j # q @ to_put s = js @ replicate k break_job" and js: "list_all (\<lambda>j. \<not> is_break j) js"
    and k: "k = sum_list (map owed (workers s))" and all: "js \<noteq> [] \<longrightarrow> list_all (\<lambda>w. owed w = Suc 0) (workers s)"
    using assms(1,4) by (auto simp: queue_ok_def)
  show ?thesis
  proof (cases js)
    case Nil
    with queue obtain k' where k': "k = Suc k'" "j = break_job" "q @ to_put s = replicate k' break_job" by (cases k) auto
    then have "queue_ok [] k' ?t" using owed k assms(3) by (simp add: queue_ok_def set_worker_def)
    moreover have "under_way [] ?t = under_way js s" using held Nil k'(2) assms(3) by (simp add: under_way_def set_worker_def)
    ultimately show ?thesis by blast
  next
    case (Cons j' js')
    with queue js have j: "j' = j" "q @ to_put s = js' @ replicate k break_job" "\<not> is_break j" by auto
    with Cons js k all owed assms(3) have "queue_ok js' k ?t"
      by (simp add: queue_ok_def set_worker_def owed_all_update)
    moreover have "under_way js' ?t = under_way js s" using held Cons j assms(3) by (simp add: under_way_def set_worker_def)
    ultimately show ?thesis by blast
  qed
qed

text \<open>A worker that changes its state without taking a break job from the queue.\<close>

lemma queue_worker:
  assumes "queue_ok js k s" and "i < length (workers s)" and "workers s ! i = w" and "owed w' = owed w"
    and "t = set_worker i w' s \<or> t = set_worker i w' (put_output j s)"
  shows "queue_ok js k t"
proof -
  have "js \<noteq> [] \<Longrightarrow> owed w = Suc 0" using assms(1,2,3) by (auto simp: queue_ok_def list_all_length)
  with assms sum_list_update_add [OF assms(2), of owed w'] show ?thesis
    by (auto simp: queue_ok_def set_worker_def put_output_def owed_all_update)
qed

lemma under_way_worker:
  assumes "i < length (workers s)" and "workers s ! i = w" and "mset (held w') + N = mset (held w)"
    and "t = s\<lparr>workers := (workers s)[i := w'], output_queue := output_queue s @ out\<rparr>" and "image_mset plan (mset out) = image_mset plan N"
  shows "image_mset plan (under_way js t) = image_mset plan (under_way js s)"
proof -
  have "sum_list (map (\<lambda>w. mset (held w)) ((workers s)[i := w'])) + N = sum_list (map (\<lambda>w. mset (held w)) (workers s))"
  proof -
    have "sum_list (map (\<lambda>w. mset (held w)) ((workers s)[i := w'])) + N + mset (held w') =
        sum_list (map (\<lambda>w. mset (held w)) (workers s)) + mset (held w')"
      using sum_list_update_add [OF assms(1), of "\<lambda>w. mset (held w)" w'] by (simp add: assms(2) assms(3) [symmetric] ac_simps)
    then show ?thesis by simp
  qed
  then have "image_mset plan (sum_list (map (\<lambda>w. mset (held w)) ((workers s)[i := w']))) + image_mset plan N =
      image_mset plan (sum_list (map (\<lambda>w. mset (held w)) (workers s)))" by (metis image_mset_union)
  then show ?thesis by (simp add: assms(4,5) under_way_def ac_simps)
qed

lemma workers_ok_update:
  assumes "workers_ok s" and "i < length (workers s)" and "workers s ! i = w" and "w \<noteq> Returned"
    and "\<And>j. w' = Running j \<Longrightarrow> \<not> is_break j" and "workers t = (workers s)[i := w']" and "joined t = joined s"
  shows "workers_ok t"
  using assms update_workers [OF assms(2,3) _ assms(4)] running_update by (simp add: workers_ok_def)

lemma jobs_ok_worker:
  assumes "jobs_ok jobs s" and "i < length (workers s)" and "workers s ! i = w" and "owed w' = owed w"
    and "t = set_worker i w' s \<and> mset (held w') = mset (held w) \<or>
         t = set_worker i w' (put_output j s) \<and> (\<exists>j'. held w = [j'] \<and> plan j' = plan j) \<and> held w' = []"
  shows "jobs_ok jobs t"
proof -
  obtain js k where js: "queue_ok js k s" "image_mset plan (under_way js s) = mset jobs" using assms(1) by (auto simp: jobs_ok_def)
  have "queue_ok js k t" using queue_worker [OF js(1) assms(2,3,4)] assms(5) by blast
  moreover have "image_mset plan (under_way js t) = mset jobs"
    using assms(5)
  proof (elim disjE conjE)
    assume "t = set_worker i w' s" "mset (held w') = mset (held w)"
    then show ?thesis using under_way_worker [OF assms(2,3), of w' "{#}" t "[]"] js(2) by (simp add: set_worker_def)
  next
    assume t: "t = set_worker i w' (put_output j s)" "\<exists>j'. held w = [j'] \<and> plan j' = plan j" "held w' = []"
    then obtain j' where "held w = [j']" "plan j' = plan j" by blast
    with t show ?thesis using under_way_worker [OF assms(2,3), of w' "{#j'#}" t "[j]"] js(2) by (simp add: set_worker_def put_output_def)
  qed
  ultimately show ?thesis by (auto simp: jobs_ok_def)
qed

lemma jobs_ok_same:
  "jobs_ok jobs s \<Longrightarrow> input_queue t @ to_put t = input_queue s @ to_put s \<Longrightarrow> workers t = workers s \<Longrightarrow>
   mset (output_queue t) + mset (results t) = mset (output_queue s) + mset (results s) \<Longrightarrow> jobs_ok jobs t"
  by (simp add: jobs_ok_def queue_ok_def under_way_def add.assoc)

lemma jobs_ok_get:
  "jobs_ok jobs s \<Longrightarrow> i < length (workers s) \<Longrightarrow> workers s ! i = Waiting \<Longrightarrow> input_queue s = j # q \<Longrightarrow>
   jobs_ok jobs (set_worker i (Holding j) (s\<lparr>input_queue := q\<rparr>))"
  unfolding jobs_ok_def by (metis queue_get)

lemma jobs_ok_check: "jobs_ok jobs s \<Longrightarrow> i < length (workers s) \<Longrightarrow> workers s ! i = Holding j \<Longrightarrow> jobs_ok jobs (worker_check i j s)"
  unfolding worker_check_def
  by (auto intro: jobs_ok_worker [where w = "Holding j" and w' = Returned] jobs_ok_worker [where w = "Holding j" and w' = Waiting]
      jobs_ok_worker [where w = "Holding j" and w' = "Running j"] simp: set_is_break_def)

lemma jobs_ok_done:
  "jobs_ok jobs s \<Longrightarrow> i < length (workers s) \<Longrightarrow> workers s ! i = Running j \<Longrightarrow> jobs_ok jobs (worker_done i j rc et s)"
  unfolding worker_done_def
  by (rule jobs_ok_worker [where w = "Running j" and w' = Waiting]) (auto simp: set_returncode_def set_elapsed_time_def)

lemma pool_step_inv: "pool_step s t \<Longrightarrow> pool_inv jobs s \<Longrightarrow> pool_inv jobs t"
proof (induction rule: pool_step.induct)
  case (put s j js)
  then show ?case using jobs_ok_same [of jobs s "s\<lparr>to_put := js, input_queue := input_queue s @ [j]\<rparr>"] by (auto simp: pool_inv_def workers_ok_def)
next
  case (get i s j q)
  then show ?case using workers_ok_update [of s i Waiting "Holding j"] jobs_ok_get [of jobs s i j q] by (auto simp: pool_inv_def set_worker_def)
next
  case (check i s j)
  have "workers_ok (worker_check i j s)"
    by (rule workers_ok_update [where s = s and i = i and w = "Holding j" and
        w' = "if is_break j then Returned else if thread_exit s \<or> is_skip j then Waiting else Running j"])
      (use check in \<open>auto simp: pool_inv_def worker_defs split: if_splits\<close>)
  with check jobs_ok_check [of jobs s i j] show ?case by (auto simp: pool_inv_def worker_defs)
next
  case (finish i s j rc et)
  have "workers_ok (worker_done i j rc et s)"
    by (rule workers_ok_update [where s = s and i = i and w = "Running j" and w' = Waiting])
      (use finish in \<open>auto simp: pool_inv_def worker_defs\<close>)
  moreover have "\<not> is_break j" using finish by (auto simp: pool_inv_def workers_ok_def list_all_length)
  ultimately show ?case using finish jobs_ok_done [of jobs s i j rc et] by (auto simp: pool_inv_def worker_defs)
next
  case (signal s)
  then show ?case using jobs_ok_same [of jobs s "s\<lparr>thread_exit := True\<rparr>"] by (auto simp: pool_inv_def workers_ok_def)
next
  case (collect s n j q)
  then show ?case using jobs_ok_same [of jobs s "s\<lparr>to_get := n, output_queue := q, results := results s @ [j]\<rparr>"]
    by (auto simp: pool_inv_def workers_ok_def)
next
  case (join s)
  then show ?case using jobs_ok_same [of jobs s "s\<lparr>joined := Suc (joined s)\<rparr>"]
    by (auto simp: pool_inv_def workers_ok_def take_Suc_conv_app_nth)
qed

text \<open>When all workers have returned, every job has a result.\<close>

lemma all_returned:
  assumes "pool_inv jobs s" and "list_all ((=) Returned) (workers s)"
  shows "input_queue s = []" and "to_put s = []" and "to_get s = length (output_queue s)"
    and "image_mset plan (mset (output_queue s) + mset (results s)) = mset jobs"
proof -
  obtain js k where q: "queue_ok js k s" "image_mset plan (under_way js s) = mset jobs" using assms(1) by (auto simp: pool_inv_def jobs_ok_def)
  have ne: "workers s \<noteq> []" using assms(1) by (simp add: pool_inv_def workers_ok_def)
  have "w = Returned" if "w \<in> set (workers s)" for w using assms(2) that by (auto simp: list_all_iff)
  then obtain n where ws: "workers s = replicate n Returned" using replicate_eqI [of "workers s" _ Returned] by blast
  have "sum_list (map owed (replicate n Returned)) = 0" "sum_list (map (\<lambda>w. mset (held w)) (replicate n Returned)) = {#}" for n
    by (induction n) auto
  then have sums: "sum_list (map owed (workers s)) = 0" "sum_list (map (\<lambda>w. mset (held w)) (workers s)) = {#}" by (simp_all only: ws)
  have js: "js = []"
  proof (rule ccontr)
    assume "js \<noteq> []"
    then have "owed (hd (workers s)) = Suc 0" using q(1) ne by (simp add: queue_ok_def list_all_iff)
    then show False using ne by (cases n) (simp_all add: ws)
  qed
  with q(1) sums show "input_queue s = []" "to_put s = []" by (auto simp: queue_ok_def)
  from js q(2) sums show m: "image_mset plan (mset (output_queue s) + mset (results s)) = mset jobs" by (simp add: under_way_def)
  have "length (output_queue s) + length (results s) = length jobs"
    using arg_cong [OF m, of size] by simp
  then show "to_get s = length (output_queue s)" using assms(1) by (simp add: pool_inv_def)
qed

lemma pool_progress:
  assumes "pool_inv jobs s" and "\<not> finished s"
  shows "\<exists>t. pool_step s t \<and> (thread_exit t \<longleftrightarrow> thread_exit s)"
proof (cases "to_put s = []")
  case put: True
  show ?thesis
  proof (cases "\<exists>i < length (workers s). \<exists>j. workers s ! i = Holding j \<or> workers s ! i = Running j")
    case True
    then obtain i j where i: "i < length (workers s)" "workers s ! i = Holding j \<or> workers s ! i = Running j" by blast
    moreover have "thread_exit (worker_check i j s) = thread_exit s" "thread_exit (worker_done i j 0 0 s) = thread_exit s"
      by (simp_all add: worker_defs)
    ultimately show ?thesis using pool_step.check [of i s j] pool_step.finish [of i s j 0 0] by blast
  next
    case idle: False
    show ?thesis
    proof (cases "\<exists>i < length (workers s). workers s ! i = Waiting")
      case True
      then obtain i where i: "i < length (workers s)" "workers s ! i = Waiting" by blast
      obtain js k where q: "queue_ok js k s" using assms(1) by (auto simp: pool_inv_def jobs_ok_def)
      have "Waiting \<in> set (workers s)" using i by (metis nth_mem)
      then have "owed Waiting \<in> set (map owed (workers s))" unfolding set_map by (rule imageI)
      then have "owed Waiting \<le> sum_list (map owed (workers s))" by (rule member_le_sum_list) simp
      also have "\<dots> = k" using q unfolding queue_ok_def by blast
      finally have "k \<noteq> 0" by auto
      moreover have "input_queue s = js @ replicate k break_job" using q put unfolding queue_ok_def by (metis append_Nil2)
      ultimately have "input_queue s \<noteq> []" by simp
      then obtain j r where "input_queue s = j # r" by (cases "input_queue s") auto
      from pool_step.get [OF i this] show ?thesis by (force simp: set_worker_def)
    next
      case False
      have all: "list_all ((=) Returned) (workers s)"
        unfolding list_all_length
      proof (intro allI impI)
        fix i assume "i < length (workers s)"
        with idle False show "Returned = workers s ! i" by (cases "workers s ! i") auto
      qed
      show ?thesis
      proof (cases "to_get s")
        case 0
        then have "joined s < length (workers s)" using assms put by (auto simp: finished_def pool_inv_def workers_ok_def)
        moreover from this have "workers s ! joined s = Returned" using all by (auto simp: list_all_length)
        ultimately show ?thesis using pool_step.join [OF put 0] by force
      next
        case (Suc n)
        with all_returned(3) [OF assms(1) all] obtain j q where "output_queue s = j # q" by (cases "output_queue s") auto
        from pool_step.collect [OF put Suc this] show ?thesis by force
      qed
    qed
  qed
next
  case False
  then obtain j js where "to_put s = j # js" by (cases "to_put s") auto
  from pool_step.put [OF this] show ?thesis by force
qed

interpretation pool: finite_system pool_step "pool_inv jobs" pool_rank finished
  by unfold_locales (use pool_step_inv pool_step_rank pool_progress in blast)+

text \<open>The jobs as \<open>run_tests\<close> makes them: new, apart from the description.\<close>

definition fresh :: "job \<Rightarrow> bool" where "fresh j \<longleftrightarrow> \<not> is_break j \<and> plan j = j"

lemma start_inv:
  assumes "list_all fresh jobs" and "0 < processors"
  shows "pool_inv jobs (start_pool jobs processors)"
proof -
  have sums: "sum_list (map owed (replicate n Waiting)) = n" "sum_list (map (\<lambda>w. mset (held w)) (replicate n Waiting)) = {#}" for n
    by (induction n) auto
  have "map plan jobs = jobs" using assms(1) by (induction jobs) (auto simp: fresh_def)
  then have "image_mset plan (mset jobs) = mset jobs" by (metis mset_map)
  then have "jobs_ok jobs (start_pool jobs processors)"
    unfolding jobs_ok_def using assms(1) sums
    by (intro exI [of _ jobs] exI [of _ processors]) (auto simp: queue_ok_def under_way_def start_pool_def fresh_def list_all_iff)
  then show ?thesis using assms(2) by (simp add: pool_inv_def workers_ok_def start_pool_def list_all_iff)
qed

lemma start_rank: "pool_rank (start_pool jobs processors) = 5 * length jobs + 6 * processors + 1"
  by (simp add: pool_rank_def start_pool_def sum_list_replicate)

section \<open>Every run of the pool\<close>

text \<open>
  C30: whatever the order in which the threads are scheduled and whenever the user interrupts, a run of the pool with at least one worker
  is finite, with at most five steps per job, six per worker and one for the interrupt, and it does not get stuck before the end: a
  state in which no thread can make a step is one in which the main thread has put all jobs, has as many results as jobs
  and has joined all threads. From every state of a run the end can be reached.
\<close>

theorem pool_completes:
  assumes "list_all fresh jobs" and "0 < processors"
  shows "((pool_step ^^ n) (start_pool jobs processors) s \<longrightarrow> n \<le> 5 * length jobs + 6 * processors + 1) \<and>
    (pool_step\<^sup>*\<^sup>* (start_pool jobs processors) s \<longrightarrow>
       (\<exists>t. pool_step s t \<and> (thread_exit t \<longleftrightarrow> thread_exit s)) \<or> finished s \<and> length (results s) = length jobs) \<and>
    (pool_step\<^sup>*\<^sup>* (start_pool jobs processors) s \<longrightarrow> (\<exists>t. pool_step\<^sup>*\<^sup>* s t \<and> finished t))"
proof (intro conjI impI)
  note start = start_inv [OF assms]
  show "n \<le> 5 * length jobs + 6 * processors + 1" if "(pool_step ^^ n) (start_pool jobs processors) s"
    using pool.run_bound [OF that start] by (simp add: start_rank)
  assume run: "pool_step\<^sup>*\<^sup>* (start_pool jobs processors) s"
  then have inv: "pool_inv jobs s" using pool.reach_inv start by blast
  have "finished s \<Longrightarrow> length (results s) = length jobs" using inv by (simp add: pool_inv_def finished_def)
  then show "(\<exists>t. pool_step s t \<and> (thread_exit t \<longleftrightarrow> thread_exit s)) \<or> finished s \<and> length (results s) = length jobs"
    using pool_progress [OF inv] by blast
  show "\<exists>t. pool_step\<^sup>*\<^sup>* s t \<and> finished t" using pool.reaches_final inv by blast
qed

definition demo_jobs :: "job list" where
  "demo_jobs = [set_display_name ''a'' Job, set_is_skip True (set_display_name ''b'' Job)]"

lemma demo_jobs_fresh: "list_all fresh demo_jobs"
  by (simp add: demo_jobs_def fresh_def plan_def Job_def set_display_name_def set_is_skip_def)

theorem pool_completes_witness:
  "\<exists>t. pool_step\<^sup>*\<^sup>* (start_pool demo_jobs 2) t \<and> finished t"
  using pool_completes [OF demo_jobs_fresh, of 2 0 "start_pool demo_jobs 2"] by simp

lemma finished_returned:
  assumes "pool_inv jobs s" and "finished s"
  shows "list_all ((=) Returned) (workers s)" and "output_queue s = []" and "image_mset plan (mset (results s)) = mset jobs"
proof -
  show all: "list_all ((=) Returned) (workers s)" using assms by (simp add: pool_inv_def workers_ok_def finished_def)
  from all_returned [OF assms(1) all] assms(2) show out: "output_queue s = []" by (simp add: finished_def)
  from all_returned(4) [OF assms(1) all] out show "image_mset plan (mset (results s)) = mset jobs" by simp
qed

text \<open>
  C31: at the end of a run all workers have returned, the queues are empty, and the main thread has got every job exactly
  once: the results, up to the return code, the time and the mark of an interrupted job, are a permutation of the
  jobs. Without an interrupt no result has that mark.
\<close>

theorem pool_results:
  assumes "list_all fresh jobs" and "0 < processors" and "pool_step\<^sup>*\<^sup>* (start_pool jobs processors) s" and "finished s"
  shows "list_all ((=) Returned) (workers s) \<and> input_queue s = [] \<and> output_queue s = [] \<and>
    mset (map plan (results s)) = mset jobs \<and> (thread_exit s \<or> list_all (\<lambda>j. \<not> is_break j) (results s))"
proof -
  have inv: "pool_inv jobs s" using pool.reach_inv start_inv [OF assms(1,2)] assms(3) by blast
  note f = finished_returned [OF inv assms(4)]
  show ?thesis using f all_returned(1) [OF inv f(1)] inv by (simp add: pool_inv_def)
qed

theorem pool_results_witness:
  "\<exists>s. pool_step\<^sup>*\<^sup>* (start_pool demo_jobs 2) s \<and> finished s \<and> mset (map plan (results s)) = mset demo_jobs"
proof -
  obtain s where s: "pool_step\<^sup>*\<^sup>* (start_pool demo_jobs 2) s" "finished s"
    using pool.reaches_final start_inv [OF demo_jobs_fresh, of 2] by fastforce
  with pool_results [OF demo_jobs_fresh _ s] show ?thesis by auto
qed

text \<open>With no worker, the first job is never done, and the main thread waits for ever.\<close>

lemma no_worker_waits:
  assumes "pool_step\<^sup>*\<^sup>* (start_pool jobs 0) s" and "jobs \<noteq> []"
  shows "\<not> finished s"
proof -
  from assms(1) have "workers s = [] \<and> output_queue s = [] \<and> to_get s = length jobs"
    by (induction rule: rtranclp_induct) (auto simp: start_pool_def elim: pool_step.cases)
  with assms(2) show ?thesis by (simp add: finished_def)
qed

end
