(* ===== verification/TestSummary.thy ===== *)
theory TestSummary
  imports TestPool "HOL-Library.List_Lexorder" "HOL-Library.Char_ord"
begin

text \<open>
  What \<open>run_tests\<close> of \<^verbatim>\<open>test.py\<close> does with the results it takes from the output queue: the counters, the lines on the
  console, the file of results in XML, the summary and the exit status. The contents of the files that the test suites have
  written are a parameter.
\<close>

section \<open>Options and colours\<close>

record options =
  buildpath :: string
  constrain :: string
  duration :: bool
  opt_example :: string
  update_data :: bool
  fullness :: string
  valgrind :: bool
  kinds :: bool
  list_tests :: bool
  multiple :: bool
  no_build :: bool
  opt_pyexample :: string
  retain :: bool
  opt_suite :: string
  text_file :: string
  html_file :: string
  xml_file :: string
  nocolor :: bool
  process_limit :: int

definition colors_lst :: "(string \<times> string) list" where
  "colors_lst = [(''BOLD'', ''[01;1m''), (''RED'', ''[01;31m''), (''GREEN'', ''[32m''), (''YELLOW'', ''[33m''), (''PINK'', ''[35m''),
     (''BLUE'', ''[01;34m''), (''CYAN'', ''[36m''), (''GREY'', ''[37m''), (''NORMAL'', ''[0m''), (''cursor_on'', ''[?25h''), (''cursor_off'', ''[?25l'')]"

definition get_color :: "bool \<Rightarrow> string \<Rightarrow> string" where
  "get_color use cl = (if use then (case map_of colors_lst cl of None \<Rightarrow> [] | Some s \<Rightarrow> CHR 0x1B # s) else [])"

section \<open>Results\<close>

datatype status = PASS | FAIL | VALGR | CRASH | SKIP

fun status_text :: "status \<Rightarrow> string" where
  "status_text PASS = ''PASS''"
| "status_text FAIL = ''FAIL''"
| "status_text VALGR = ''VALGR''"
| "status_text CRASH = ''CRASH''"
| "status_text SKIP = ''SKIP''"

fun status_color :: "status \<Rightarrow> string" where
  "status_color PASS = ''GREEN''"
| "status_color FAIL = ''RED''"
| "status_color VALGR = ''CYAN''"
| "status_color CRASH = ''PINK''"
| "status_color SKIP = ''GREY''"

definition job_status :: "job \<Rightarrow> status" where
  "job_status j =
     (if is_skip j then SKIP
      else if returncode j = 0 then PASS
      else if returncode j = 1 then FAIL
      else if returncode j = 2 then VALGR
      else CRASH)"

record tally =
  passed_tests :: nat
  failed_tests :: nat
  failed_testnames :: "string list"
  crashed_tests :: nat
  crashed_testnames :: "string list"
  valgrind_errors :: nat
  valgrind_testnames :: "string list"
  skipped_tests :: nat
  skipped_testnames :: "string list"
  console :: string
  results_xml :: string

definition nl :: string where "nl = [CHR 0x0A]"

definition new_tally :: tally where
  "new_tally = \<lparr>passed_tests = 0, failed_tests = 0, failed_testnames = [], crashed_tests = 0, crashed_testnames = [], valgrind_errors = 0,
     valgrind_testnames = [], skipped_tests = 0, skipped_testnames = [], console = [], results_xml = ''<?xml version=\"1.0\"?>'' @ nl @ ''<Results>'' @ nl\<rparr>"

definition count_status :: "job \<Rightarrow> tally \<Rightarrow> tally" where
  "count_status j t =
     (case job_status j of
        SKIP \<Rightarrow> t\<lparr>skipped_tests := skipped_tests t + 1, skipped_testnames := skipped_testnames t @ [display_name j @ '' ('' @ skip_reason j @ '')'']\<rparr>
      | PASS \<Rightarrow> t\<lparr>passed_tests := passed_tests t + 1\<rparr>
      | FAIL \<Rightarrow> t\<lparr>failed_tests := failed_tests t + 1, failed_testnames := failed_testnames t @ [display_name j]\<rparr>
      | VALGR \<Rightarrow> t\<lparr>valgrind_errors := valgrind_errors t + 1, valgrind_testnames := valgrind_testnames t @ [display_name j]\<rparr>
      | CRASH \<Rightarrow> t\<lparr>crashed_tests := crashed_tests t + 1, crashed_testnames := crashed_testnames t @ [display_name j]\<rparr>)"

definition progress_count :: "tally \<Rightarrow> nat" where
  "progress_count t = passed_tests t + failed_tests t + skipped_tests t + crashed_tests t"

definition status_line :: "options \<Rightarrow> bool \<Rightarrow> nat \<Rightarrow> tally \<Rightarrow> job \<Rightarrow> string" where
  "status_line opts use total_tests t j =
     (let st = get_color use (status_color (job_status j)) @ status_text (job_status j) @ get_color use ''NORMAL'';
          kind = (if is_example j \<or> is_pyexample j then ''Example'' else ''TestSuite'')
      in ''['' @ str_of_nat (progress_count t) @ ''/'' @ str_of_nat total_tests @ ''] '' @
         (if duration opts \<or> constrain opts = ''performance''
          then st @ '' ('' @ format_fixed 3 (elapsed_time j) @ ''): '' @ kind @ '' '' @ display_name j
          else st @ '': '' @ kind @ '' '' @ display_name j) @ nl)"

text \<open>The part of the results file that belongs to a job.\<close>

definition example_xml :: "job \<Rightarrow> string" where
  "example_xml j = ''<Example>'' @ nl @ ''  <Name>'' @ display_name j @ ''</Name>'' @ nl @
     ''  <Result>'' @ status_text (job_status j) @ ''</Result>'' @ nl @
     ''  <Time real=\"'' @ format_fixed 3 (elapsed_time j) @ ''\"/>'' @ nl @ ''</Example>'' @ nl"

definition suite_xml :: "(string \<Rightarrow> string option) \<Rightarrow> job \<Rightarrow> string result" where
  "suite_xml files j =
     (if is_skip j
      then Inr (''<Test>'' @ nl @ ''  <Name>'' @ display_name j @ ''</Name>'' @ nl @ ''  <Result>SKIP</Result>'' @ nl @
             ''  <Reason>'' @ skip_reason j @ ''</Reason>'' @ nl @ ''</Test>'' @ nl)
      else if returncode j = 0 \<or> returncode j = 1 \<or> returncode j = 2
      then (case files (tmp_file_name j) of None \<Rightarrow> Inl FileNotFoundError | Some s \<Rightarrow> Inr s)
      else Inr (''<Test>'' @ nl @ ''  <Name>'' @ display_name j @ ''</Name>'' @ nl @ ''  <Result>CRASH</Result>'' @ nl @ ''</Test>'' @ nl))"

definition job_xml :: "(string \<Rightarrow> string option) \<Rightarrow> job \<Rightarrow> string result" where
  "job_xml files j = (if is_example j \<or> is_pyexample j then Inr (example_xml j) else suite_xml files j)"

definition count_job :: "options \<Rightarrow> bool \<Rightarrow> (string \<Rightarrow> string option) \<Rightarrow> nat \<Rightarrow> tally \<Rightarrow> job \<Rightarrow> tally result" where
  "count_job opts use files total_tests t j =
     (if is_break j then Inr t
      else let t = count_status j t; t = t\<lparr>console := console t @ status_line opts use total_tests t j\<rparr>
           in bind_r (job_xml files j) (\<lambda>x. Inr (t\<lparr>results_xml := results_xml t @ x\<rparr>)))"

section \<open>Summary\<close>

definition summary_list :: "string \<Rightarrow> string list \<Rightarrow> string" where
  "summary_list label names =
     (if names = [] then [] else label @ nl @ ''    '' @ join_with (nl @ ''    '') (sort names) @ nl)"

definition summary :: "nat \<Rightarrow> tally \<Rightarrow> string" where
  "summary total_tests t =
     str_of_nat (passed_tests t) @ '' of '' @ str_of_nat total_tests @ '' tests passed ('' @ str_of_nat (passed_tests t) @ '' passed, '' @
     str_of_nat (skipped_tests t) @ '' skipped, '' @ str_of_nat (failed_tests t) @ '' failed, '' @ str_of_nat (crashed_tests t) @ '' crashed, '' @
     str_of_nat (valgrind_errors t) @ '' valgrind errors)'' @ nl @
     summary_list ''List of SKIPped tests:'' (skipped_testnames t) @
     summary_list ''List of FAILed tests:'' (failed_testnames t) @
     summary_list ''List of CRASHed tests:'' (crashed_testnames t) @
     summary_list ''List of VALGR failures:'' (valgrind_testnames t)"

definition exit_status :: "nat \<Rightarrow> tally \<Rightarrow> nat" where
  "exit_status total_tests t = (if passed_tests t + skipped_tests t = total_tests then 0 else 1)"

text \<open>All results are counted, the document is closed, the summary is printed, and the status is returned.\<close>

definition collect_results :: "options \<Rightarrow> bool \<Rightarrow> (string \<Rightarrow> string option) \<Rightarrow> nat \<Rightarrow> job list \<Rightarrow> (tally \<times> nat) result" where
  "collect_results opts use files total_tests js =
     bind_r (foldM_r (count_job opts use files total_tests) new_tally js) (\<lambda>t.
       let t = t\<lparr>results_xml := results_xml t @ ''</Results>'' @ nl, console := console t @ summary total_tests t\<rparr>
       in Inr (t, exit_status total_tests t))"

section \<open>Exit status\<close>

definition with_status :: "status \<Rightarrow> job list \<Rightarrow> nat" where
  "with_status st js = length (filter (\<lambda>j. \<not> is_break j \<and> job_status j = st) js)"

definition interrupted :: "job list \<Rightarrow> nat" where
  "interrupted js = length (filter is_break js)"

lemma count_job_total:
  "foldM_r (count_job opts use files n) t js = Inr t' \<Longrightarrow>
     passed_tests t' = passed_tests t + with_status PASS js \<and> failed_tests t' = failed_tests t + with_status FAIL js \<and>
     crashed_tests t' = crashed_tests t + with_status CRASH js \<and> valgrind_errors t' = valgrind_errors t + with_status VALGR js \<and>
     skipped_tests t' = skipped_tests t + with_status SKIP js"
proof (induction js arbitrary: t)
  case Nil
  then show ?case by (simp add: with_status_def)
next
  case (Cons j js)
  then obtain u where u: "count_job opts use files n t j = Inr u" "foldM_r (count_job opts use files n) u js = Inr t'"
    by (auto simp: bind_r_eq_Inr_iff)
  from Cons.IH [OF u(2)] u(1) show ?case
    by (cases "is_break j"; cases "job_status j")
      (auto simp: count_job_def count_status_def with_status_def Let_def bind_r_eq_Inr_iff)
qed

lemma count_job_xml:
  "foldM_r (count_job opts use files n) t js = Inr t' \<Longrightarrow>
     results_xml t' = results_xml t @ concat (map (projr \<circ> job_xml files) (filter (\<lambda>j. \<not> is_break j) js))"
proof (induction js arbitrary: t)
  case (Cons j js)
  then obtain u where u: "count_job opts use files n t j = Inr u" "foldM_r (count_job opts use files n) u js = Inr t'"
    by (auto simp: bind_r_eq_Inr_iff)
  have "results_xml u = results_xml t @ (if is_break j then [] else projr (job_xml files j))"
    using u(1) by (cases "job_status j") (auto simp: count_job_def count_status_def Let_def bind_r_eq_Inr_iff split: if_splits)
  with Cons.IH [OF u(2)] show ?case by simp
qed simp

lemma job_xml_error:
  "job_xml files j = Inl e \<longleftrightarrow>
     e = FileNotFoundError \<and> \<not> is_example j \<and> \<not> is_pyexample j \<and> job_status j \<in> {PASS, FAIL, VALGR} \<and> files (tmp_file_name j) = None"
  by (auto simp: job_xml_def suite_xml_def job_status_def split: option.splits)

lemma count_jobs_error:
  "foldM_r (count_job opts use files n) t js = Inl e \<Longrightarrow> \<exists>j \<in> set js. \<not> is_break j \<and> job_xml files j = Inl e"
proof (induction js arbitrary: t)
  case (Cons j js)
  then show ?case by (auto simp: bind_r_eq_Inl_iff count_job_def Let_def split: if_splits)
qed simp

lemma statuses_add_up:
  "with_status PASS js + with_status FAIL js + with_status CRASH js + with_status VALGR js + with_status SKIP js + interrupted js = length js"
proof (induction js)
  case (Cons j js)
  then show ?case by (cases "is_break j"; cases "job_status j") (simp_all add: with_status_def interrupted_def)
qed (simp add: with_status_def interrupted_def)

lemma all_good:
  "with_status PASS js + with_status SKIP js = length js \<longleftrightarrow> list_all (\<lambda>j. \<not> is_break j \<and> (is_skip j \<or> returncode j = 0)) js"
proof (induction js)
  case (Cons j js)
  have "with_status PASS js + with_status SKIP js \<le> length js" using statuses_add_up [of js] by linarith
  with Cons show ?case by (auto simp: with_status_def job_status_def)
qed (simp add: with_status_def)

text \<open>
  A worker marks a job when it finds, before running it, that the user has interrupted. A job that is running when the interrupt comes is not
  marked and counts like any other, so a run that was interrupted while its last jobs were running can still report success.
\<close>

text \<open>
  C32: the outcome of a test run, for every schedule of the threads. The run reports success exactly when no job came back marked as
  interrupted and every job was skipped or returned 0. The counters of the summary and the marked
  jobs add up to the number of jobs; the results file is the parts of the unmarked jobs in the order in which they came
  back. The only exception is that of a test suite that returned 0, 1 or 2 and left no file.
\<close>

theorem tests_summary:
  assumes "list_all fresh jobs" and "0 < processors" and "pool_step\<^sup>*\<^sup>* (start_pool jobs processors) s" and "finished s"
  shows "case collect_results opts use files (length jobs) (results s) of
      Inl e \<Rightarrow> e = FileNotFoundError \<and> (\<exists>j \<in> set (results s). \<not> is_break j \<and> \<not> is_example j \<and> \<not> is_pyexample j \<and>
        job_status j \<in> {PASS, FAIL, VALGR} \<and> files (tmp_file_name j) = None)
    | Inr (t, rc) \<Rightarrow>
        (rc = 0 \<longleftrightarrow> list_all (\<lambda>j. \<not> is_break j \<and> (is_skip j \<or> returncode j = 0)) (results s)) \<and>
        passed_tests t + failed_tests t + crashed_tests t + valgrind_errors t + skipped_tests t + interrupted (results s) = length jobs \<and>
        results_xml t = results_xml new_tally @ concat (map (projr \<circ> job_xml files) (filter (\<lambda>j. \<not> is_break j) (results s))) @ ''</Results>'' @ nl"
proof -
  have len: "length (results s) = length jobs"
    using pool.reach_inv [OF assms(3) start_inv [OF assms(1,2)]] assms(4) by (simp add: pool_inv_def finished_def)
  show ?thesis
  proof (cases "foldM_r (count_job opts use files (length jobs)) new_tally (results s)")
    case (Inl e)
    from count_jobs_error [OF Inl] obtain j where "j \<in> set (results s)" "\<not> is_break j" "job_xml files j = Inl e" by blast
    with Inl show ?thesis by (auto simp: collect_results_def job_xml_error)
  next
    case (Inr t)
    note c = count_job_total [OF Inr] and x = count_job_xml [OF Inr]
    have "passed_tests t + skipped_tests t = length jobs \<longleftrightarrow> list_all (\<lambda>j. \<not> is_break j \<and> (is_skip j \<or> returncode j = 0)) (results s)"
      using c all_good [of "results s"] len by (simp add: new_tally_def)
    moreover have "passed_tests t + failed_tests t + crashed_tests t + valgrind_errors t + skipped_tests t + interrupted (results s) = length jobs"
      using c statuses_add_up [of "results s"] len by (simp add: new_tally_def)
    ultimately show ?thesis using x by (simp add: collect_results_def exit_status_def Inr)
  qed
qed

text \<open>The options without any argument on the command line.\<close>

definition default_options :: options where
  "default_options = \<lparr>buildpath = [], constrain = [], duration = False, opt_example = [], update_data = False, fullness = ''QUICK'', valgrind = False,
     kinds = False, list_tests = False, multiple = False, no_build = False, opt_pyexample = [], retain = False, opt_suite = [], text_file = [],
     html_file = [], xml_file = [], nocolor = False, process_limit = 0\<rparr>"

theorem tests_summary_witness:
  "\<exists>s. pool_step\<^sup>*\<^sup>* (start_pool demo_jobs 2) s \<and> finished s \<and>
    (\<exists>t rc. collect_results default_options True (\<lambda>_. Some []) 2 (results s) = Inr (t, rc) \<and>
      passed_tests t + failed_tests t + crashed_tests t + valgrind_errors t + skipped_tests t + interrupted (results s) = 2)"
proof -
  obtain s where s: "pool_step\<^sup>*\<^sup>* (start_pool demo_jobs 2) s" "finished s"
    using pool.reaches_final start_inv [OF demo_jobs_fresh, of 2] by fastforce
  have len: "length demo_jobs = 2" by (simp add: demo_jobs_def)
  from tests_summary [OF demo_jobs_fresh _ s, of "\<lambda>_. Some []" default_options True, unfolded len] s show ?thesis
    by (intro exI [of _ s]) (auto split: sum.splits)
qed

end
