(* ===== verification/ConfigFile.thy ===== *)
theory ConfigFile
  imports PyString
begin

text \<open>
  Reading \<^verbatim>\<open>.ns3rc\<close>, \<^verbatim>\<open>utils.py\<close>. A file is the list of its lines, or nothing when it does not exist. The
  texts are evaluated by Python's \<open>eval\<close>, which is a parameter: it returns a list or a truth value for a
  text, or the exception it raises.
\<close>

section \<open>Lists and truth values\<close>

definition strip_comment :: "string \<Rightarrow> string" where
  "strip_comment line = (if CHR ''#'' \<in> set line then hd (split_once (CHR ''#'') line) else line)"

text \<open>\<open>s.split('=', 1)[1].strip()\<close>\<close>

definition right_side :: "string \<Rightarrow> string result" where
  "right_side s = bind_r (py_index (split_once (CHR ''='') s) 1) (\<lambda>r. Inr (strip r))"

fun list_lines :: "(string \<Rightarrow> 'a list result) \<Rightarrow> string \<Rightarrow> string \<Rightarrow> bool \<Rightarrow> string list \<Rightarrow> 'a list result" where
  "list_lines ev name list_string parsing [] = Inr []"
| "list_lines ev name list_string parsing (line # lines) =
     (let line = strip_comment line
      in if substring name line \<or> parsing
         then let list_string = list_string @ line
              in if CHR '']'' \<notin> set list_string then list_lines ev name list_string True lines
                 else bind_r (right_side list_string) ev
         else list_lines ev name list_string parsing lines)"

definition get_list_from_file :: "(string \<Rightarrow> 'a list result) \<Rightarrow> string list option \<Rightarrow> string \<Rightarrow> 'a list result" where
  "get_list_from_file ev file name =
     (case file of None \<Rightarrow> Inr [] | Some lines \<Rightarrow> list_lines ev name [] False lines)"

text \<open>The variable \<open>bool_found\<close> has a value only when the file exists.\<close>

fun bool_lines :: "(string \<Rightarrow> bool result) \<Rightarrow> string \<Rightarrow> string list \<Rightarrow> bool option result" where
  "bool_lines ev name [] = Inr None"
| "bool_lines ev name (line # lines) =
     (let line = strip_comment line
      in if substring name line
         then bind_r (bind_r (right_side line) ev) (\<lambda>b. Inr (Some b))
         else bool_lines ev name lines)"

definition get_bool_from_file :: "(string \<Rightarrow> bool result) \<Rightarrow> string list option \<Rightarrow> string \<Rightarrow> bool \<Rightarrow> bool result" where
  "get_bool_from_file ev file name value_if_missing =
     (case file of
        None \<Rightarrow> Inl UnboundLocalError
      | Some lines \<Rightarrow> bind_r (bool_lines ev name lines) (\<lambda>found.
          Inr (case found of Some b \<Rightarrow> b | None \<Rightarrow> value_if_missing)))"

text \<open>The file in the working directory and the one in the home directory.\<close>

definition read_config_file ::
  "(string \<Rightarrow> string list result) \<Rightarrow> (string \<Rightarrow> bool result) \<Rightarrow> string list option \<Rightarrow> string list option \<Rightarrow>
   (bool \<times> string list \<times> bool \<times> bool) result" where
  "read_config_file evl evb here home =
     (let file = (if here \<noteq> None then here else home)
      in if file = None then Inr (False, [''all_modules''], False, False)
         else bind_r (get_list_from_file evl file ''modules_enabled'') (\<lambda>ms.
              let ms = (if ms = [] then [''all_modules''] else ms)
              in bind_r (get_bool_from_file evb file ''examples_enabled'' False) (\<lambda>ex.
                 bind_r (get_bool_from_file evb file ''tests_enabled'' False) (\<lambda>te.
                   Inr (True, ms, ex, te)))))"

section \<open>Properties\<close>

lemma list_lines_skip:
  "list_all (\<lambda>l. \<not> substring name (strip_comment l)) pre \<Longrightarrow>
   list_lines ev name [] False (pre @ rest) = list_lines ev name [] False rest"
  by (induction pre) auto

lemma list_lines_multi:
  assumes "CHR '']'' \<notin> set acc" and "list_all (\<lambda>l. CHR '']'' \<notin> set (strip_comment l)) mid" and "CHR '']'' \<in> set (strip_comment l)"
  shows "list_lines ev name acc True (mid @ l # rest) =
    bind_r (right_side (acc @ concat (map strip_comment mid) @ strip_comment l)) ev"
  using assms(1,2)
proof (induction mid arbitrary: acc)
  case Nil
  with assms(3) show ?case by simp
next
  case (Cons m mid)
  then show ?case by simp
qed

text \<open>
  \<open>get_list_from_file\<close> evaluates exactly the text of the assignment: the first line that mentions the
  name and the lines after it up to the first closing bracket, without comments, joined and cut at the first
  equals sign; the lines before and after play no part. A list that is never closed reads as empty.
\<close>

theorem get_list_exact:
  assumes "list_all (\<lambda>l. \<not> substring name (strip_comment l)) pre" and "substring name (strip_comment first)"
    and "CHR '']'' \<notin> set (strip_comment first)" and "list_all (\<lambda>l. CHR '']'' \<notin> set (strip_comment l)) mid"
    and "CHR '']'' \<in> set (strip_comment l)"
  shows "get_list_from_file ev (Some (pre @ first # mid @ l # rest)) name =
      bind_r (right_side (strip_comment first @ concat (map strip_comment mid) @ strip_comment l)) ev \<and>
    get_list_from_file ev (Some (pre @ first # mid)) name = Inr []"
proof -
  have unclosed: "list_lines ev name acc True ms = Inr []"
    if "CHR '']'' \<notin> set acc" "list_all (\<lambda>l. CHR '']'' \<notin> set (strip_comment l)) ms" for acc ms
    using that by (induction ms arbitrary: acc) auto
  show ?thesis using assms list_lines_multi [OF assms(3,4,5)] unclosed [OF assms(3,4)]
    by (simp add: get_list_from_file_def list_lines_skip)
qed

theorem get_list_exact_witness:
  "get_list_from_file (\<lambda>s. if s = ''[   1]'' then Inr [''one''] else Inl ValueError)
     (Some ([''# modules_enabled = [2]''] @ ''modules_enabled = ['' # [''   # none''] @ ''1] # end'' # [''tests_enabled = True'']))
     ''modules_enabled'' = Inr [''one''] \<and>
   get_list_from_file (\<lambda>s. if s = ''[   1]'' then Inr [''one''] else Inl ValueError)
     (Some ([''# modules_enabled = [2]''] @ ''modules_enabled = ['' # [''   # none''])) ''modules_enabled'' = Inr []"
proof -
  have pre: "list_all (\<lambda>l. \<not> substring ''modules_enabled'' (strip_comment l)) [''# modules_enabled = [2]'']" by code_simp
  have first: "substring ''modules_enabled'' (strip_comment ''modules_enabled = ['')" by code_simp
  have open_line: "CHR '']'' \<notin> set (strip_comment ''modules_enabled = ['')" by code_simp
  have mid: "list_all (\<lambda>l. CHR '']'' \<notin> set (strip_comment l)) [''   # none'']" by code_simp
  have closing: "CHR '']'' \<in> set (strip_comment ''1] # end'')" by code_simp
  have rhs: "right_side (strip_comment ''modules_enabled = ['' @ concat (map strip_comment [''   # none'']) @ strip_comment ''1] # end'') = Inr ''[   1]''"
    by code_simp
  show ?thesis
    using get_list_exact [OF pre first open_line mid closing, of "\<lambda>s. if s = ''[   1]'' then Inr [''one''] else Inl ValueError" "[''tests_enabled = True'']"]
    unfolding rhs by simp
qed

text \<open>
  The outcome of \<open>read_config_file\<close> without a module list: with no file in either place the defaults are
  returned and nothing is found, and a file whose lines name none of the three settings gives the same
  defaults, found; the file of the working directory hides the one of the home directory. Reading a
  truth value directly from a file that does not exist is not the default: it is an \<open>UnboundLocalError\<close>.
\<close>

lemma read_config_defaults:
  "read_config_file evl evb None None = Inr (False, [''all_modules''], False, False) \<and>
   read_config_file evl evb (Some lines) home = read_config_file evl evb None (Some lines) \<and>
   (list_all (\<lambda>l. list_all (\<lambda>n. \<not> substring n (strip_comment l)) [''modules_enabled'', ''examples_enabled'', ''tests_enabled'']) lines \<longrightarrow>
      read_config_file evl evb None (Some lines) = Inr (True, [''all_modules''], False, False)) \<and>
   get_bool_from_file evb None name b = Inl UnboundLocalError"
proof -
  have b: "list_all (\<lambda>l. \<not> substring n (strip_comment l)) ls \<Longrightarrow> bool_lines evb n ls = Inr None" for n ls
    by (induction ls) auto
  have l: "list_all (\<lambda>l. \<not> substring n (strip_comment l)) ls \<Longrightarrow> list_lines evl n [] False ls = Inr []" for n ls
    using list_lines_skip [of n ls evl "[]"] by simp
  show ?thesis
    using l [of "''modules_enabled''" lines] b [of "''examples_enabled''" lines] b [of "''tests_enabled''" lines]
    by (auto simp: read_config_file_def get_list_from_file_def get_bool_from_file_def list_all_iff)
qed

end
