(* ===== verification/TestJobs.thy ===== *)
theory TestJobs
  imports TestSummary ConfigFile
begin

text \<open>
  How \<open>run_tests\<close> of \<^verbatim>\<open>test.py\<close> chooses what to run: the lists of examples of the source directories, the test suites that the test runner
  knows, the jobs made of them, the commands, the environment and the number of workers. Parameters: the files (the lines of each
  file that exists), what the test runner prints for a command, and the evaluation of the Python texts in the lists of examples.
\<close>

section \<open>Paths and patterns\<close>

definition path_join :: "string \<Rightarrow> string \<Rightarrow> string" where
  "path_join a b =
     (if startswith b ''/'' then b else if a = [] \<or> endswith a ''/'' then a @ b else a @ ''/'' @ b)"

definition basename :: "string \<Rightarrow> string" where
  "basename p = last (split_char (CHR ''/'') p)"

fun norm_parts :: "string list \<Rightarrow> string list \<Rightarrow> string list" where
  "norm_parts acc [] = rev acc"
| "norm_parts acc (p # ps) =
     (if p = [] \<or> p = ''.'' then norm_parts acc ps
      else if p = ''..'' then norm_parts (tl acc) ps
      else norm_parts (p # acc) ps)"

definition abs_parts :: "string \<Rightarrow> string \<Rightarrow> string list" where
  "abs_parts here p = norm_parts [] (split_char (CHR ''/'') (path_join here p))"

definition abspath :: "string \<Rightarrow> string \<Rightarrow> string" where
  "abspath here p = ''/'' @ join_with ''/'' (abs_parts here p)"

fun common_length :: "'a list \<Rightarrow> 'a list \<Rightarrow> nat" where
  "common_length (x # xs) (y # ys) = (if x = y then Suc (common_length xs ys) else 0)"
| "common_length xs ys = 0"

definition relpath :: "string \<Rightarrow> string \<Rightarrow> string \<Rightarrow> string" where
  "relpath here p start =
     (let ps = abs_parts here p; ss = abs_parts here start; n = common_length ps ss;
          rel = replicate (length ss - n) ''..'' @ drop n ps
      in if rel = [] then ''.'' else join_with ''/'' rel)"

text \<open>\<open>fnmatch\<close>: a star, a question mark, and a class in brackets, which an exclamation mark negates.\<close>

fun in_class :: "string \<Rightarrow> char \<Rightarrow> bool" where
  "in_class (a # CHR ''-'' # b # cs) c \<longleftrightarrow> a \<le> c \<and> c \<le> b \<or> in_class cs c"
| "in_class (a # cs) c \<longleftrightarrow> c = a \<or> in_class cs c"
| "in_class [] c \<longleftrightarrow> False"

text \<open>The class after an opening bracket, and the rest of the pattern; a bracket at its start belongs to the class.\<close>

definition class_split :: "string \<Rightarrow> (bool \<times> string \<times> string) option" where
  "class_split p =
     (let (neg, p1) = (case p of c # r \<Rightarrow> if c = CHR ''!'' then (True, r) else (False, p) | [] \<Rightarrow> (False, p));
          (first, p2) = (case p1 of c # r \<Rightarrow> if c = CHR '']'' then ([c], r) else ([], p1) | [] \<Rightarrow> ([], p1));
          body = takeWhile (\<lambda>c. c \<noteq> CHR '']'') p2
      in if body = p2 then None else Some (neg, first @ body, drop (length body + 1) p2))"

lemma class_split_length: "class_split p = Some (neg, cls, rest) \<Longrightarrow> length rest < length p"
  by (auto simp: class_split_def Let_def split: list.splits if_splits)

function (sequential) fnmatch :: "string \<Rightarrow> string \<Rightarrow> bool" where
  "fnmatch [] s = (s = [])"
| "fnmatch (c # p) s =
     (if c = CHR ''*'' then fnmatch p s \<or> (case s of [] \<Rightarrow> False | x # t \<Rightarrow> fnmatch (c # p) t)
      else case s of
        [] \<Rightarrow> False
      | x # t \<Rightarrow>
          if c = CHR ''?'' then fnmatch p t
          else if c = CHR ''['' then
            (case class_split p of
               None \<Rightarrow> x = c \<and> fnmatch p t
             | Some (neg, cls, rest) \<Rightarrow> in_class cls x \<noteq> neg \<and> fnmatch rest t)
          else x = c \<and> fnmatch p t)"
  by pat_completeness auto
termination
  by (relation "measures [\<lambda>(p, s). length p, \<lambda>(p, s). length s]") (auto dest: class_split_length)

definition fnmatch_filter :: "string list \<Rightarrow> string \<Rightarrow> string list" where
  "fnmatch_filter names pat = filter (fnmatch pat) names"

section \<open>Configuration and commands\<close>

record config =
  APPNAME :: string
  VERSION :: string
  BUILD_PROFILE :: string
  NS3_BASEDIR :: string
  NS3_BUILDDIR :: string
  NS3_MODULE_PATH :: "string list"
  PYTHON :: "string list"
  ENABLE_EXAMPLES :: bool
  ENABLE_PYTHON_BINDINGS :: bool
  EXAMPLE_DIRECTORIES :: "string list"
  NS3_ENABLED_MODULES :: "string list"
  NS3_ENABLED_CONTRIBUTED_MODULES :: "string list"
  getcwd :: string

definition BUILD_PROFILE_SUFFIX :: "config \<Rightarrow> string" where
  "BUILD_PROFILE_SUFFIX cfg = (if BUILD_PROFILE cfg = ''release'' then [] else ''-'' @ BUILD_PROFILE cfg)"

definition built_name :: "config \<Rightarrow> string \<Rightarrow> string" where
  "built_name cfg name = APPNAME cfg @ VERSION cfg @ ''-'' @ name @ BUILD_PROFILE_SUFFIX cfg"

definition test_runner_name :: "config \<Rightarrow> string" where
  "test_runner_name cfg = built_name cfg ''test-runner''"

definition core_kinds :: "string list" where
  "core_kinds = [''core'', ''performance'', ''system'', ''unit'']"

text \<open>The command that builds what will be run; \<open>python\<close> is the interpreter, which Windows needs in front.\<close>

definition build_cmd :: "options \<Rightarrow> string \<Rightarrow> string \<Rightarrow> string option" where
  "build_cmd opts platform python =
     (if no_build opts then None
      else let cmd =
             (if kinds opts \<or> list_tests opts \<or> (constrain opts \<noteq> [] \<and> constrain opts \<in> set core_kinds) then ''./ns3 build test-runner''
              else if opt_example opts \<noteq> [] then ''./ns3 build '' @ basename (opt_example opts)
              else ''./ns3'')
           in Some (if platform = ''win32'' then python @ '' '' @ cmd else cmd))"

text \<open>The command of \<open>run_job_synchronously\<close>.\<close>

definition job_command :: "config \<Rightarrow> string \<Rightarrow> bool \<Rightarrow> bool \<Rightarrow> string \<Rightarrow> string result" where
  "job_command cfg command grind python path =
     bind_r (if python then bind_r (py_index (PYTHON cfg) 0) (\<lambda>py. Inr (py @ '' '' @ path_join (NS3_BASEDIR cfg) command))
             else if path \<noteq> [] then Inr (path_join path command)
             else Inr (path_join (NS3_BUILDDIR cfg) command)) (\<lambda>cmd.
       Inr (if grind
            then ''valgrind --suppressions='' @ path_join (NS3_BASEDIR cfg) ''testpy.supp'' @
                 '' --leak-check=full --show-reachable=yes --error-exitcode=2 --errors-for-leak-kinds=all '' @ cmd
            else cmd))"

text \<open>The command a worker runs for a job.\<close>

definition worker_command :: "config \<Rightarrow> options \<Rightarrow> job \<Rightarrow> string result" where
  "worker_command cfg opts j =
     (if is_example j \<or> is_pyexample j then job_command cfg (shell_command j) (valgrind opts) (is_pyexample j) (build_path j)
      else job_command cfg (shell_command j @ '' --xml --tempdir='' @ tempdir j @ '' --out='' @ tmp_file_name j @ '' '' @
             (if update_data opts then ''--update-data'' else [])) (valgrind opts) False [])"

text \<open>The environment variables that \<open>make_paths\<close> sets, in a dictionary.\<close>

definition append_paths :: "string \<Rightarrow> string \<Rightarrow> string list \<Rightarrow> (string \<times> string) list \<Rightarrow> (string \<times> string) list" where
  "append_paths var sep paths env =
     (let old = (case map_of env var of None \<Rightarrow> [] | Some v \<Rightarrow> v)
      in AList.update var (old @ concat (map (\<lambda>p. sep @ p) paths)) env)"

definition make_paths :: "config \<Rightarrow> string \<Rightarrow> (string \<times> string) list \<Rightarrow> (string \<times> string) list" where
  "make_paths cfg platform env =
     (let have_PYTHONPATH = (map_of env ''PYTHONPATH'' \<noteq> None);
          pypath = path_join (path_join (NS3_BUILDDIR cfg) ''bindings'') ''python'';
          env = AList.update ''PYTHONPATH'' pypath env;
          env = AList.update ''PYTHONPATH'' (if have_PYTHONPATH then the (map_of env ''PYTHONPATH'') @ '':'' @ pypath else pypath) env
      in if platform = ''darwin'' then append_paths ''DYLD_LIBRARY_PATH'' '':'' (NS3_MODULE_PATH cfg) env
         else if platform = ''win32'' then append_paths ''PATH'' '';'' (NS3_MODULE_PATH cfg) env
         else if platform = ''cygwin'' then append_paths ''PATH'' '':'' (NS3_MODULE_PATH cfg) env
         else append_paths ''LD_LIBRARY_PATH'' '':'' (NS3_MODULE_PATH cfg) env)"

section \<open>Examples\<close>

text \<open>The lists that grow while the example files are read, and the parameters of the reading.\<close>

record examples =
  example_tests :: "(string \<times> string \<times> string \<times> string) list"
  example_names_original :: "string list"
  python_tests :: "(string \<times> string) list"

record sources =
  file_lines :: "string \<Rightarrow> string list option"
  eval_cpp :: "string \<Rightarrow> (string \<times> string \<times> string) list result"
  eval_py :: "string \<Rightarrow> (string \<times> string) list result"
  eval_bool :: "string \<Rightarrow> bool result"

definition path_exists :: "sources \<Rightarrow> string \<Rightarrow> bool" where
  "path_exists src p \<longleftrightarrow> file_lines src p \<noteq> None"

text \<open>The name of an example and its arguments, if it has any.\<close>

definition name_parts :: "string \<Rightarrow> string \<times> string option" where
  "name_parts s = (case split_once (CHR '' '') s of n # a # _ \<Rightarrow> (n, Some a) | n # _ \<Rightarrow> (n, None) | [] \<Rightarrow> ([], None))"

definition add_args :: "string option \<Rightarrow> string \<Rightarrow> string" where
  "add_args args s = (case args of None \<Rightarrow> s | Some a \<Rightarrow> s @ '' '' @ a)"

definition cpp_example :: "config \<Rightarrow> sources \<Rightarrow> string \<Rightarrow> examples \<Rightarrow> string \<times> string \<times> string \<Rightarrow> examples" where
  "cpp_example cfg src dir ex e =
     (case e of (original, do_run, do_valgrind_run) \<Rightarrow>
      let (name, args) = name_parts original;
          path = path_join dir (built_name cfg name);
          name = path_join (relpath (getcwd cfg) dir (NS3_BUILDDIR cfg)) name
      in if path_exists src path
         then ex\<lparr>example_tests := example_tests ex @ [(add_args args name, add_args args path, do_run, do_valgrind_run)],
                example_names_original := example_names_original ex @ [original]\<rparr>
         else ex)"

definition py_example :: "sources \<Rightarrow> string \<Rightarrow> examples \<Rightarrow> string \<times> string \<Rightarrow> examples" where
  "py_example src dir ex e =
     (case e of (name, do_run) \<Rightarrow>
      let (name, args) = name_parts name; path = path_join dir name
      in if path_exists src path then ex\<lparr>python_tests := python_tests ex @ [(add_args args path, do_run)]\<rparr> else ex)"

definition parse_examples_to_run_file ::
  "config \<Rightarrow> sources \<Rightarrow> string \<Rightarrow> string \<Rightarrow> string \<Rightarrow> examples \<Rightarrow> examples result" where
  "parse_examples_to_run_file cfg src path cpp_dir py_dir ex =
     (if path_exists src path
      then bind_r (get_list_from_file (eval_cpp src) (file_lines src path) ''cpp_examples'') (\<lambda>cpp.
           let ex = foldl (cpp_example cfg src cpp_dir) ex cpp
           in bind_r (get_list_from_file (eval_py src) (file_lines src path) ''python_examples'') (\<lambda>py.
              Inr (foldl (py_example src py_dir) ex py)))
      else Inr ex)"

definition example_directory :: "config \<Rightarrow> sources \<Rightarrow> examples \<Rightarrow> string \<Rightarrow> examples result" where
  "example_directory cfg src ex d =
     (let dir = path_join ''examples'' d
      in parse_examples_to_run_file cfg src (path_join dir ''examples-to-run.py'') (path_join (NS3_BUILDDIR cfg) dir) dir ex)"

definition module_directory :: "string \<Rightarrow> config \<Rightarrow> sources \<Rightarrow> examples \<Rightarrow> string \<Rightarrow> examples result" where
  "module_directory tree cfg src ex m =
     (let m = path_join tree (drop 4 m); dir = path_join m ''examples''
      in parse_examples_to_run_file cfg src (path_join (path_join m ''test'') ''examples-to-run.py'') (path_join (NS3_BUILDDIR cfg) dir) dir ex)"

definition find_examples :: "config \<Rightarrow> sources \<Rightarrow> examples result" where
  "find_examples cfg src =
     bind_r (foldM_r (example_directory cfg src) \<lparr>example_tests = [], example_names_original = [], python_tests = []\<rparr> (EXAMPLE_DIRECTORIES cfg)) (\<lambda>ex.
     bind_r (foldM_r (module_directory ''src'' cfg src) ex (NS3_ENABLED_MODULES cfg)) (\<lambda>ex.
       foldM_r (module_directory ''contrib'' cfg src) ex (NS3_ENABLED_CONTRIBUTED_MODULES cfg)))"

section \<open>Test suites\<close>

text \<open>A run can end with an exit status or an exception.\<close>

datatype abort = Exit nat | Raise py_error

definition raising :: "'a result \<Rightarrow> abort + 'a" where
  "raising m = (case m of Inl e \<Rightarrow> Inl (Raise e) | Inr x \<Rightarrow> Inr x)"

text \<open>The command of the test runner; a parameter maps a command to its return code and what it prints.\<close>

definition runner_args :: "config \<Rightarrow> string \<Rightarrow> string" where
  "runner_args cfg args = path_join (NS3_BUILDDIR cfg) (path_join ''utils'' (test_runner_name cfg @ args))"

definition lines_of :: "string \<Rightarrow> string list" where
  "lines_of s = split_char (CHR 0x0A) s"

text \<open>The list of the known tests, which is printed instead of running anything.\<close>

definition list_report :: "options \<Rightarrow> config \<Rightarrow> (string \<Rightarrow> int \<times> string) \<Rightarrow> examples \<Rightarrow> string" where
  "list_report opts cfg runner ex =
     (let args = (if constrain opts \<noteq> [] then '' --print-test-name-list --print-test-types --test-type='' @ constrain opts
                  else '' --print-test-name-list --print-test-types'')
      in case runner (runner_args cfg args) of (rc, out) \<Rightarrow>
         if rc \<noteq> 0
         then ''test.py error:  test-runner return code returned '' @ str_of_int rc @ nl @
              ''To debug, try running '' @ [CHR 0x27] @ ''./ns3 run \"test-runner --print-test-name-list\"'' @ [CHR 0x27] @ nl @ nl
         else ''Test Type    Test Name'' @ nl @ ''---------    ---------'' @ nl @
              concat (map (\<lambda>s. s @ nl) (filter (\<lambda>s. strip s \<noteq> []) (sort (lines_of out)))) @
              concat (map (\<lambda>s. ''example      '' @ s @ nl) (sort (example_names_original ex))) @ nl)"

definition requested_suites :: "options \<Rightarrow> config \<Rightarrow> (string \<Rightarrow> int \<times> string) \<Rightarrow> abort + string list \<times> bool" where
  "requested_suites opts cfg runner =
     (if opt_suite opts \<noteq> []
      then let found = fnmatch_filter (lines_of (snd (runner (runner_args cfg '' --print-test-name-list'')))) (opt_suite opts)
           in if found = [] then Inl (Exit 2) else Inr (lines_of (join_with nl found), length found = 1)
      else if opt_example opts = [] \<and> opt_pyexample opts = []
      then Inr (lines_of (snd (runner (runner_args cfg (if constrain opts \<noteq> [] then '' --print-test-name-list --test-type='' @ constrain opts
                                                   else '' --print-test-name-list'')))), False)
      else Inr (lines_of [], False))"

definition drop_performance :: "string list \<Rightarrow> string list \<Rightarrow> string list" where
  "drop_performance performance suites = foldl (\<lambda>ss t. if t \<in> set ss then remove1 t ss else ss) suites performance"

definition suite_list :: "options \<Rightarrow> config \<Rightarrow> (string \<Rightarrow> int \<times> string) \<Rightarrow> abort + string list" where
  "suite_list opts cfg runner =
     bind_r (requested_suites opts cfg runner) (\<lambda>(suites, single_suite).
       Inr (if \<not> single_suite \<and> constrain opts \<noteq> ''performance''
            then drop_performance (lines_of (snd (runner (runner_args cfg '' --print-test-name-list --test-type=performance'')))) suites
            else suites))"

definition core_valgrind_skip_tests :: "string list" where
  "core_valgrind_skip_tests = [''routing-click'', ''lte-rr-ff-mac-scheduler'', ''lte-tdmt-ff-mac-scheduler'', ''lte-fdmt-ff-mac-scheduler'',
     ''lte-pf-ff-mac-scheduler'', ''lte-tta-ff-mac-scheduler'', ''lte-fdbet-ff-mac-scheduler'', ''lte-ttbet-ff-mac-scheduler'',
     ''lte-fdtbfq-ff-mac-scheduler'', ''lte-tdtbfq-ff-mac-scheduler'', ''lte-pss-ff-mac-scheduler'']"

text \<open>Letters in upper case, as \<open>str.upper\<close> on the names of the fullness levels.\<close>

definition upper :: "string \<Rightarrow> string" where
  "upper = map (\<lambda>c. if CHR ''a'' \<le> c \<and> c \<le> CHR ''z'' then char_of (of_char c - 32 :: nat) else c)"

definition skip_job :: "string \<Rightarrow> job \<Rightarrow> job" where
  "skip_job reason j = set_skip_reason reason (set_is_skip True j)"

definition suite_job :: "options \<Rightarrow> config \<Rightarrow> string \<Rightarrow> string \<Rightarrow> job" where
  "suite_job opts cfg out_dir test =
     (let j = set_is_pyexample False (set_is_example False Job);
          j = set_tmp_file_name (path_join out_dir (test @ ''.xml'')) (set_display_name test j);
          j = set_tempdir out_dir (set_basedir (getcwd cfg) (set_cwd (getcwd cfg) j));
          multiple = (if multiple opts then [] else '' --stop-on-failure'');
          fullness = (if fullness opts \<noteq> [] then '' --fullness='' @ upper (fullness opts) else '' --fullness=QUICK'');
          j = set_shell_command (path_join ''utils'' (test_runner_name cfg @ '' --test-name='' @ test @ multiple @ fullness)) j
      in if valgrind opts \<and> test \<in> set core_valgrind_skip_tests then skip_job ''crashes valgrind'' j else j)"

definition suite_jobs :: "options \<Rightarrow> config \<Rightarrow> string \<Rightarrow> string list \<Rightarrow> job list" where
  "suite_jobs opts cfg out_dir suites = map (suite_job opts cfg out_dir) (filter (\<lambda>t. t \<noteq> []) (map strip suites))"

section \<open>Example jobs\<close>

definition example_job :: "config \<Rightarrow> string \<Rightarrow> bool \<Rightarrow> string \<Rightarrow> string \<Rightarrow> string \<Rightarrow> job" where
  "example_job cfg out_dir python name command path =
     (let j = set_is_pyexample python (set_is_example (\<not> python) Job);
          j = set_cwd out_dir (set_tmp_file_name [] (set_display_name name j));
          j = set_tempdir out_dir (set_basedir (getcwd cfg) j)
      in set_build_path path (set_shell_command command j))"

text \<open>The programs that can be run, by their names.\<close>

definition programs_dictionary :: "string list \<Rightarrow> (string \<times> string) list" where
  "programs_dictionary programs = foldl (\<lambda>d p. AList.update (basename p) p d) [] programs"

fun cpp_jobs :: "options \<Rightarrow> config \<Rightarrow> sources \<Rightarrow> string \<Rightarrow> (string \<times> string) list \<Rightarrow> (string \<times> string \<times> string \<times> string) list \<Rightarrow> job list result" where
  "cpp_jobs opts cfg src out_dir dict [] = Inr []"
| "cpp_jobs opts cfg src out_dir dict ((name, test, do_run, do_valgrind_run) # es) =
     (if basename (hd (split_once (CHR '' '') test)) \<in> fst ` set dict
      then bind_r (eval_bool src do_run) (\<lambda>run.
           if run
           then let j = example_job cfg out_dir False name test (buildpath opts)
                in bind_r (if valgrind opts
                           then bind_r (eval_bool src do_valgrind_run) (\<lambda>ok. Inr (if ok then j else skip_job ''skip in valgrind runs'' j))
                           else Inr j) (\<lambda>j.
                   bind_r (cpp_jobs opts cfg src out_dir dict es) (\<lambda>js. Inr (j # js)))
           else cpp_jobs opts cfg src out_dir dict es)
      else cpp_jobs opts cfg src out_dir dict es)"

fun py_jobs :: "options \<Rightarrow> config \<Rightarrow> sources \<Rightarrow> string \<Rightarrow> string list \<Rightarrow> (string \<times> string) list \<Rightarrow> job list result" where
  "py_jobs opts cfg src out_dir scripts [] = Inr []"
| "py_jobs opts cfg src out_dir scripts ((test, do_run) # es) =
     (if basename (hd (split_once (CHR '' '') test)) \<in> set scripts
      then bind_r (eval_bool src do_run) (\<lambda>run.
           if run
           then let j = example_job cfg out_dir True test test [];
                    j = (if valgrind opts then skip_job ''skip in valgrind runs'' j else j);
                    j = (if \<not> ENABLE_PYTHON_BINDINGS cfg then skip_job ''requires Python bindings'' j else j)
                in bind_r (py_jobs opts cfg src out_dir scripts es) (\<lambda>js. Inr (j # js))
           else py_jobs opts cfg src out_dir scripts es)
      else py_jobs opts cfg src out_dir scripts es)"

definition no_selection :: "options \<Rightarrow> bool" where
  "no_selection opts \<longleftrightarrow> opt_suite opts = [] \<and> opt_example opts = [] \<and> opt_pyexample opts = []"

definition example_jobs :: "options \<Rightarrow> config \<Rightarrow> sources \<Rightarrow> string \<Rightarrow> string list \<Rightarrow> examples \<Rightarrow> job list result" where
  "example_jobs opts cfg src out_dir programs ex =
     (let dict = programs_dictionary programs
      in if no_selection opts
         then if (constrain opts = [] \<or> constrain opts = ''example'') \<and> ENABLE_EXAMPLES cfg
              then cpp_jobs opts cfg src out_dir dict (example_tests ex) else Inr []
         else if opt_example opts \<noteq> []
         then Inr (map (\<lambda>k. let path = abspath (getcwd cfg) (the (map_of dict k)) in example_job cfg out_dir False path path (buildpath opts))
                (fnmatch_filter (map fst dict) (built_name cfg (opt_example opts))))
         else Inr [])"

definition pyexample_jobs :: "options \<Rightarrow> config \<Rightarrow> sources \<Rightarrow> string \<Rightarrow> string list \<Rightarrow> examples \<Rightarrow> job list result" where
  "pyexample_jobs opts cfg src out_dir scripts ex =
     (if no_selection opts
      then if (constrain opts = [] \<or> constrain opts = ''pyexample'') \<and> ENABLE_EXAMPLES cfg
           then py_jobs opts cfg src out_dir scripts (python_tests ex) else Inr []
      else if opt_pyexample opts \<noteq> []
      then Inr (if basename (opt_pyexample opts) \<in> set scripts
             then [example_job cfg out_dir True (opt_pyexample opts) (opt_pyexample opts) []] else [])
      else Inr [])"

text \<open>
  All jobs, in the order in which they are put on the queue; the lists of programs and scripts come from the build status file. With the options
  that only list tests or kinds of tests the program returns before, with the exit status 0.
\<close>

definition queued_jobs ::
  "options \<Rightarrow> config \<Rightarrow> sources \<Rightarrow> (string \<Rightarrow> int \<times> string) \<Rightarrow> string \<Rightarrow> string list \<Rightarrow> string list \<Rightarrow> abort + job list" where
  "queued_jobs opts cfg src runner out_dir programs scripts =
     bind_r (raising (find_examples cfg src)) (\<lambda>ex.
     bind_r (if kinds opts \<or> list_tests opts then Inl (Exit 0) else suite_list opts cfg runner) (\<lambda>suites.
     bind_r (raising (example_jobs opts cfg src out_dir programs ex)) (\<lambda>cpp.
     bind_r (raising (pyexample_jobs opts cfg src out_dir (map basename scripts) ex)) (\<lambda>py.
       Inr (suite_jobs opts cfg out_dir suites @ cpp @ py)))))"

definition worker_count :: "options \<Rightarrow> int \<Rightarrow> nat" where
  "worker_count opts processors =
     nat (if process_limit opts \<noteq> 0 \<and> \<not> processors < process_limit opts then process_limit opts else processors)"

section \<open>Which jobs are run\<close>

lemmas job_setters = set_is_break_def set_is_skip_def set_skip_reason_def set_is_example_def set_is_pyexample_def set_shell_command_def
  set_build_path_def set_display_name_def set_basedir_def set_tempdir_def set_cwd_def set_tmp_file_name_def

lemma fresh_made: "fresh (suite_job opts cfg d t)" "fresh (example_job cfg d p n c b)"
  by (simp_all add: suite_job_def example_job_def skip_job_def Let_def job_setters fresh_def plan_def Job_def)

lemma fresh_skip: "fresh j \<Longrightarrow> fresh (skip_job r j)"
  by (cases j) (simp add: fresh_def skip_job_def job_setters plan_def)

lemma cpp_jobs_fresh: "cpp_jobs opts cfg src d dict es = Inr js \<Longrightarrow> list_all fresh js"
proof (induction es arbitrary: js)
  case (Cons e es)
  then show ?case
    by (cases e) (auto simp: bind_r_eq_Inr_iff Let_def fresh_made fresh_skip split: if_splits)
qed simp

lemma py_jobs_fresh: "py_jobs opts cfg src d scripts es = Inr js \<Longrightarrow> list_all fresh js"
proof (induction es arbitrary: js)
  case (Cons e es)
  then show ?case
    by (cases e) (auto simp: bind_r_eq_Inr_iff Let_def fresh_made fresh_skip split: if_splits)
qed simp

lemma raising_Inr: "raising m = Inr x \<longleftrightarrow> m = Inr x"
  by (auto simp: raising_def split: sum.splits)

lemma queued_fresh:
  assumes "queued_jobs opts cfg src runner d programs scripts = Inr jobs"
  shows "list_all fresh jobs"
proof -
  from assms obtain ex suites cpp py where
    j: "jobs = suite_jobs opts cfg d suites @ cpp @ py" "example_jobs opts cfg src d programs ex = Inr cpp"
      "pyexample_jobs opts cfg src d (map basename scripts) ex = Inr py"
    by (auto simp: queued_jobs_def bind_r_eq_Inr_iff raising_Inr split: if_splits)
  have "list_all fresh cpp" using j(2) cpp_jobs_fresh
    by (auto simp: example_jobs_def Let_def list_all_iff fresh_made split: if_splits)
  moreover have "list_all fresh py" using j(3) py_jobs_fresh
    by (auto simp: pyexample_jobs_def fresh_made split: if_splits)
  ultimately show ?thesis by (auto simp: j(1) suite_jobs_def list_all_iff fresh_made)
qed

lemma worker_command_returns: "PYTHON cfg \<noteq> [] \<Longrightarrow> \<exists>cmd. worker_command cfg opts j = Inr cmd"
  by (cases "PYTHON cfg") (auto simp: worker_command_def job_command_def py_index_def Let_def)

text \<open>
  C33: on a machine with at least one processor and with a Python interpreter in the configuration, so that the command of every job can be
  composed, a test run with something to do can come to its end exactly when the limit on the number of
  processes is not negative, and then every run does: it makes at most five steps per job, six per worker and one for an interrupt, and in every state
  before the end some thread can make a step, without an interrupt too. With a negative limit no worker is started and the main thread waits for ever.
\<close>

theorem test_run_ends:
  assumes "queued_jobs opts cfg src runner d programs scripts = Inr jobs" and "jobs \<noteq> []" and "1 \<le> processors" and "PYTHON cfg \<noteq> []"
  shows "((\<exists>s. pool_step\<^sup>*\<^sup>* (start_pool jobs (worker_count opts processors)) s \<and> finished s) \<longleftrightarrow> 0 \<le> process_limit opts) \<and>
    (0 \<le> process_limit opts \<longrightarrow> (pool_step ^^ n) (start_pool jobs (worker_count opts processors)) s \<longrightarrow>
       n \<le> 5 * length jobs + 6 * worker_count opts processors + 1 \<and>
       (finished s \<or> (\<exists>t. pool_step s t \<and> (thread_exit t \<longleftrightarrow> thread_exit s)))) \<and>
    (\<forall>j \<in> set jobs. \<exists>cmd. worker_command cfg opts j = Inr cmd)"
proof -
  have cmd: "\<forall>j \<in> set jobs. \<exists>cmd. worker_command cfg opts j = Inr cmd" using worker_command_returns [OF assms(4)] by blast
  show ?thesis
  proof (cases "0 \<le> process_limit opts")
    case True
    with assms(3) have "0 < worker_count opts processors" by (auto simp: worker_count_def)
    note inv = start_inv [OF queued_fresh [OF assms(1)] this]
    have "n \<le> 5 * length jobs + 6 * worker_count opts processors + 1 \<and> (finished s \<or> (\<exists>t. pool_step s t \<and> (thread_exit t \<longleftrightarrow> thread_exit s)))"
      if "(pool_step ^^ n) (start_pool jobs (worker_count opts processors)) s"
      using pool.run_bound [OF that inv] pool_progress by (auto simp: start_rank)
    with True pool.reaches_final [OF inv] cmd show ?thesis by blast
  next
    case False
    with assms(3) have "worker_count opts processors = 0" by (auto simp: worker_count_def)
    with False no_worker_waits [OF _ assms(2)] cmd show ?thesis by auto
  qed
qed

text \<open>A small configuration: two suites, one of which is a performance test, and no examples.\<close>

definition demo_config :: config where
  "demo_config = \<lparr>APPNAME = ''ns'', VERSION = ''3'', BUILD_PROFILE = ''debug'', NS3_BASEDIR = ''/ns'', NS3_BUILDDIR = ''/ns/build'', NS3_MODULE_PATH = [],
     PYTHON = [''python3''], ENABLE_EXAMPLES = True, ENABLE_PYTHON_BINDINGS = False, EXAMPLE_DIRECTORIES = [], NS3_ENABLED_MODULES = [],
     NS3_ENABLED_CONTRIBUTED_MODULES = [], getcwd = ''/ns''\<rparr>"

definition demo_sources :: sources where
  "demo_sources = \<lparr>file_lines = (\<lambda>_. None), eval_cpp = (\<lambda>_. Inr []), eval_py = (\<lambda>_. Inr []), eval_bool = (\<lambda>_. Inr True)\<rparr>"

definition demo_runner :: "string \<Rightarrow> int \<times> string" where
  "demo_runner cmd = (0, if cmd = runner_args demo_config '' --print-test-name-list'' then ''a'' @ nl @ ''b'' @ nl else ''b'' @ nl)"

lemma default_simps:
  "constrain default_options = []" "opt_suite default_options = []" "opt_example default_options = []"
  "opt_pyexample default_options = []" "process_limit default_options = 0" "\<not> kinds default_options" "\<not> list_tests default_options"
  by (simp_all add: default_options_def)

lemma demo_suites:
  "requested_suites default_options demo_config demo_runner = Inr ([''a'', ''b'', []], False)"
  "lines_of (snd (demo_runner (runner_args demo_config '' --print-test-name-list --test-type=performance''))) = [''b'', []]"
  by code_simp+

lemma demo_queued:
  "queued_jobs default_options demo_config demo_sources demo_runner ''out'' [] [] = Inr [suite_job default_options demo_config ''out'' ''a'']"
proof -
  have "suite_list default_options demo_config demo_runner = Inr [''a'']"
    by (simp add: suite_list_def demo_suites drop_performance_def default_simps)
  moreover have "strip ''a'' = ''a''" by code_simp
  ultimately show ?thesis
    by (simp add: queued_jobs_def find_examples_def demo_config_def raising_def example_jobs_def pyexample_jobs_def no_selection_def
        default_simps suite_jobs_def)
qed

theorem test_run_ends_witness:
  "\<exists>s. pool_step\<^sup>*\<^sup>* (start_pool [suite_job default_options demo_config ''out'' ''a''] (worker_count default_options 4)) s \<and> finished s"
  using test_run_ends [OF demo_queued, of 4] by (simp add: default_simps demo_config_def)

lemma drop_performance_filter: "distinct suites \<Longrightarrow> drop_performance ps suites = filter (\<lambda>t. t \<notin> set ps) suites"
proof (induction ps arbitrary: suites)
  case (Cons p ps)
  have "(if p \<in> set suites then remove1 p suites else suites) = filter (\<lambda>t. t \<noteq> p) suites"
    using Cons.prems by (cases "p \<in> set suites") (auto simp: distinct_remove1_removeAll removeAll_filter_not_eq eq_commute intro: filter_True [symmetric])
  with Cons.IH [of "filter (\<lambda>t. t \<noteq> p) suites"] Cons.prems show ?case
    by (simp add: drop_performance_def filter_filter)
qed (simp add: drop_performance_def)

lemma suite_job_name [simp]: "display_name (suite_job opts cfg d t) = t"
  by (simp add: suite_job_def Let_def skip_job_def job_setters Job_def)

lemma suite_job_names:
  "list_all (\<lambda>t. strip t = t) suites \<Longrightarrow> map display_name (suite_jobs opts cfg d suites) = filter (\<lambda>t. t \<noteq> []) suites"
  by (induction suites) (auto simp: suite_jobs_def)

text \<open>
  A performance test is run only on request. When not exactly one suite was asked for and the tests are not
  constrained to performance tests, the jobs of the test suites are those of the suites that were found, in their order, without the performance
  tests and the blank lines of the output.
\<close>

theorem performance_on_request:
  assumes "requested_suites opts cfg runner = Inr (suites, False)" and "constrain opts \<noteq> ''performance''" and "distinct suites"
    and "list_all (\<lambda>t. strip t = t) suites"
  shows "\<exists>ss. suite_list opts cfg runner = Inr ss \<and>
    map display_name (suite_jobs opts cfg d ss) =
      filter (\<lambda>t. t \<noteq> [] \<and> t \<notin> set (lines_of (snd (runner (runner_args cfg '' --print-test-name-list --test-type=performance''))))) suites"
proof -
  let ?ps = "lines_of (snd (runner (runner_args cfg '' --print-test-name-list --test-type=performance'')))"
  have ss: "suite_list opts cfg runner = Inr (filter (\<lambda>t. t \<notin> set ?ps) suites)"
    using assms by (simp add: suite_list_def drop_performance_filter)
  have "list_all (\<lambda>t. strip t = t) (filter (\<lambda>t. t \<notin> set ?ps) suites)" using assms(4) by (auto simp: list_all_iff)
  from suite_job_names [OF this] have "map display_name (suite_jobs opts cfg d (filter (\<lambda>t. t \<notin> set ?ps) suites)) =
      filter (\<lambda>t. t \<noteq> [] \<and> t \<notin> set ?ps) suites" by (simp add: conj_commute)
  with ss show ?thesis by blast
qed

theorem performance_on_request_witness:
  "\<exists>ss. suite_list default_options demo_config demo_runner = Inr ss \<and>
    map display_name (suite_jobs default_options demo_config ''out'' ss) = [''a'']"
proof -
  have "list_all (\<lambda>t. strip t = t) [''a'', ''b'', []]" by code_simp
  moreover have "constrain default_options \<noteq> ''performance''" by (simp add: default_simps)
  ultimately show ?thesis
    using performance_on_request [OF demo_suites(1), of "''out''"] by (simp add: demo_suites(2))
qed

text \<open>
  The search path for Python modules after \<open>make_paths\<close> does not depend on the value it had: the directory of the bindings, once if the variable was
  not set and twice if it was.
\<close>

lemma make_paths_PYTHONPATH:
  "map_of (make_paths cfg platform env) ''PYTHONPATH'' =
     (let p = path_join (path_join (NS3_BUILDDIR cfg) ''bindings'') ''python''
      in Some (if map_of env ''PYTHONPATH'' = None then p else p @ '':'' @ p))"
  by (auto simp: make_paths_def append_paths_def Let_def update_conv')

text \<open>A pattern without special characters matches only itself.\<close>

lemma fnmatch_plain:
  "list_all (\<lambda>c. c \<notin> {CHR ''*'', CHR ''?'', CHR ''[''}) p \<Longrightarrow> fnmatch p s \<longleftrightarrow> s = p"
proof (induction p arbitrary: s)
  case (Cons c p)
  then show ?case by (cases s) auto
qed simp

text \<open>A star matches any text.\<close>

lemma fnmatch_star: "fnmatch ''*'' s"
  by (induction s) auto

end
