(* ===== verification/TestReport.thy ===== *)
theory TestReport
  imports XmlTree TestSummary
begin

text \<open>
  The translations of the results file into text and HTML, \<open>translate_to_text\<close> and \<open>translate_to_html\<close> of \<^verbatim>\<open>test.py\<close>. The document is
  an element tree; a translation is the list of the texts it writes, or the exception it raises.
\<close>

section \<open>Text\<close>

type_synonym test_data = "string option \<times> string option \<times> string option \<times> string option"

definition real_time :: "element \<Rightarrow> string option" where
  "real_time el = (case find_child ''Time'' el of None \<Rightarrow> Some [] | Some t \<Rightarrow> get_attr t ''real'')"

text \<open>Result, name, reason and time.\<close>

definition read_test :: "element \<Rightarrow> test_data result" where
  "read_test test =
     bind_r (child_text ''Result'' test) (\<lambda>result. bind_r (child_text ''Name'' test) (\<lambda>name.
       Inr (result, name, (case find_child ''Reason'' test of None \<Rightarrow> Some [] | Some r \<Rightarrow> elem_text r), real_time test)))"

definition detail :: "element \<Rightarrow> string \<times> string \<times> string \<Rightarrow> string result" where
  "detail details f = (case f of (before, t, after) \<Rightarrow> bind_r (child_text t details) (\<lambda>s. Inr (before @ str_opt s @ after)))"

definition text_details :: "element \<Rightarrow> string list result" where
  "text_details details =
     bind_r (mapM_r (detail details)
       [(''      Message:   '', ''Message'', nl), (''      Condition: '', ''Condition'', nl), (''      Actual:    '', ''Actual'', nl),
        (''      Limit:     '', ''Limit'', nl), (''      File:      '', ''File'', nl), (''      Line:      '', ''Line'', nl)]) (\<lambda>ls.
       Inr ((''    Details:'' @ nl) # ls))"

text \<open>An empty reason is left out; a reason element with no text is the value None.\<close>

definition reason_text :: "string option \<Rightarrow> string" where
  "reason_text r = (case r of None \<Rightarrow> ''None'' | Some s \<Rightarrow> if s = [] then [] else '' ('' @ s @ '')'')"

definition test_head :: "string \<Rightarrow> test_data \<Rightarrow> string" where
  "test_head test_type d = (case d of (result, name, reason, time_real) \<Rightarrow>
     str_opt result @ '': Test '' @ test_type @ '' \"'' @ str_opt name @ ''\" ('' @ str_opt time_real @ '')'' @ reason_text reason @ nl)"

function node_to_text :: "string \<Rightarrow> element \<Rightarrow> string list result" where
  "node_to_text test_type test =
     bind_r (read_test test) (\<lambda>d.
     bind_r (mapM_r text_details (findall ''FailureDetails'' test)) (\<lambda>ds.
     bind_r (mapM_r (node_to_text ''Case'') (findall ''Test'' test)) (\<lambda>cs.
       Inr (test_head test_type d # concat ds @ concat cs))))"
  by pat_completeness auto
termination
  by (relation "measure (\<lambda>(ty, el). size el)") (auto dest: findall_size)

declare node_to_text.simps [simp del]

definition example_text :: "element \<Rightarrow> string result" where
  "example_text example =
     bind_r (child_text ''Result'' example) (\<lambda>result. bind_r (child_text ''Name'' example) (\<lambda>name.
       Inr (str_opt result @ '': Example \"'' @ str_opt name @ ''\" ('' @ str_opt (real_time example) @ '')'' @ nl)))"

definition translate_to_text :: "element \<Rightarrow> string list result" where
  "translate_to_text doc =
     bind_r (mapM_r (node_to_text ''Suite'') (findall ''Test'' doc)) (\<lambda>ts.
     bind_r (mapM_r example_text (findall ''Example'' doc)) (\<lambda>es.
       Inr (concat ts @ es)))"

section \<open>HTML\<close>

definition td_color :: "string \<Rightarrow> string option \<Rightarrow> string" where
  "td_color c s = ''<td style=\"color:'' @ c @ ''\">'' @ str_opt s @ ''</td>'' @ nl"

definition td :: "string option \<Rightarrow> string" where
  "td s = ''<td>'' @ str_opt s @ ''</td>'' @ nl"

definition tag_line :: "string \<Rightarrow> string" where
  "tag_line s = s @ nl"

definition suite_heading :: "test_data \<Rightarrow> string" where
  "suite_heading d = (case d of (result, name, reason, tm) \<Rightarrow>
     if result = Some ''PASS''
     then ''<h3 style=\"color:green\">'' @ str_opt result @ '': '' @ str_opt name @ '' ('' @ str_opt tm @ '')</h3>'' @ nl
     else if result = Some ''SKIP''
     then ''<h3 style=\"color:#ff6600\">'' @ str_opt result @ '': '' @ str_opt name @ '' ('' @ str_opt tm @ '') ('' @ str_opt reason @ '')</h3>'' @ nl
     else ''<h3 style=\"color:red\">'' @ str_opt result @ '': '' @ str_opt name @ '' ('' @ str_opt tm @ '')</h3>'' @ nl)"

text \<open>The row of a failure; the first row of a test case has its result, name and time. The row ends with a closing cell.\<close>

definition failure_row :: "test_data \<Rightarrow> bool \<Rightarrow> element \<Rightarrow> string list result" where
  "failure_row d first_row details = (case d of (result, name, reason, tm) \<Rightarrow>
     bind_r (mapM_r (detail details)
       [(''<b>Message: </b>'', ''Message'', '', ''), (''<b>Condition: </b>'', ''Condition'', '', ''), (''<b>Actual: </b>'', ''Actual'', '', ''),
        (''<b>Limit: </b>'', ''Limit'', '', ''), (''<b>File: </b>'', ''File'', '', ''), (''<b>Line: </b>'', ''Line'', [])]) (\<lambda>ls.
       Inr ([tag_line ''<tr>''] @
            (if first_row then [td_color ''red'' result, td name, td tm] else [tag_line ''<td></td>'', tag_line ''<td></td>'', tag_line ''<td></td>'']) @
            [''<td>''] @ ls @ [tag_line ''</td>''] @ [tag_line ''</td>''])))"

fun failure_rows :: "test_data \<Rightarrow> bool \<Rightarrow> element list \<Rightarrow> string list result" where
  "failure_rows d first_row [] = Inr []"
| "failure_rows d first_row (x # xs) =
     bind_r (failure_row d first_row x) (\<lambda>r. bind_r (failure_rows d False xs) (\<lambda>rs. Inr (r @ rs)))"

definition case_html :: "element \<Rightarrow> string list result" where
  "case_html c =
     bind_r (read_test c) (\<lambda>d. case d of (result, name, reason, tm) \<Rightarrow>
       if result = Some ''FAIL'' then failure_rows d True (findall ''FailureDetails'' c)
       else Inr [tag_line ''<tr>'', td_color ''green'' result, td name, td tm, td reason, tag_line ''</tr>''])"

definition suite_html :: "element \<Rightarrow> string list result" where
  "suite_html suite =
     bind_r (read_test suite) (\<lambda>d. case d of (result, name, reason, tm) \<Rightarrow>
       let start = [suite_heading d, tag_line ''<table border=\"1\">'', tag_line ''<th> Result </th>'']
       in if result = Some ''CRASH'' \<or> result = Some ''SKIP'' \<or> result = Some ''VALGR''
          then Inr (start @ [tag_line ''<tr>'', td_color (if result = Some ''SKIP'' then ''#ff6600'' else ''red'') result, tag_line ''</tr>'', tag_line ''</table>''])
          else bind_r (mapM_r case_html (findall ''Test'' suite)) (\<lambda>cs.
            Inr (start @ [tag_line ''<th>Test Case Name</th>'', tag_line ''<th> Time </th>''] @
              (if result = Some ''FAIL'' then [tag_line ''<th>Failure Details</th>''] else []) @ concat cs @ [tag_line ''</table>''])))"

definition example_html :: "element \<Rightarrow> string list result" where
  "example_html example =
     bind_r (read_test example) (\<lambda>d. case d of (result, name, reason, tm) \<Rightarrow>
       Inr [tag_line ''<tr>'',
            if result = Some ''PASS'' then td_color ''green'' result
            else if result = Some ''SKIP'' then ''<td style=\"color:#ff6600\">'' @ str_opt result @ ''</fd>'' @ nl
            else td_color ''red'' result,
            td name, td tm, td reason, tag_line ''</tr>''])"

definition translate_to_html :: "element \<Rightarrow> string list result" where
  "translate_to_html doc =
     bind_r (mapM_r suite_html (findall ''Test'' doc)) (\<lambda>ss.
     bind_r (mapM_r example_html (findall ''Example'' doc)) (\<lambda>es.
       Inr ([tag_line ''<html>'', tag_line ''<body>'', tag_line ''<center><h1>ns-3 Test Results</h1></center>'', tag_line ''<h2>Test Suites</h2>''] @
            concat ss @
            [tag_line ''<h2>Examples</h2>'', tag_line ''<table border=\"1\">'', tag_line ''<th> Result </th>'', tag_line ''<th>Example Name</th>'',
             tag_line ''<th>Elapsed Time</th>'', tag_line ''<th>Details</th>''] @
            concat es @ [tag_line ''</table>'', tag_line ''</body>'', tag_line ''</html>''])))"

section \<open>The text has every test once\<close>

text \<open>The tests below a test in document order, each with its type, and the text of one test without those below it.\<close>

function test_nodes :: "string \<Rightarrow> element \<Rightarrow> (string \<times> element) list" where
  "test_nodes ty el = (ty, el) # concat (map (test_nodes ''Case'') (findall ''Test'' el))"
  by pat_completeness auto
termination
  by (relation "measure (\<lambda>(ty, el). size el)") (auto dest: findall_size)

declare test_nodes.simps [simp del]

definition own_text :: "string \<times> element \<Rightarrow> string list result" where
  "own_text n = (case n of (ty, el) \<Rightarrow>
     bind_r (read_test el) (\<lambda>d. bind_r (mapM_r text_details (findall ''FailureDetails'' el)) (\<lambda>ds. Inr (test_head ty d # concat ds))))"

lemma mapM_r_cong_iff:
  assumes "\<And>x y. x \<in> set xs \<Longrightarrow> f x = Inr y \<longleftrightarrow> (\<exists>z. g x = Inr z \<and> y = h z)"
  shows "mapM_r f xs = Inr ys \<longleftrightarrow> (\<exists>zs. mapM_r g xs = Inr zs \<and> ys = map h zs)"
  using assms
proof (induction xs arbitrary: ys)
  case (Cons x xs)
  then have x: "f x = Inr y \<longleftrightarrow> (\<exists>z. g x = Inr z \<and> y = h z)" for y by simp
  have xs: "mapM_r f xs = Inr ys \<longleftrightarrow> (\<exists>zs. mapM_r g xs = Inr zs \<and> ys = map h zs)" for ys by (rule Cons.IH) (simp add: Cons.prems)
  show ?case unfolding mapM_r_Cons_iff x xs by auto
qed auto

lemma concat_map_concat: "concat (map concat xsss) = concat (concat xsss)"
  by (induction xsss) auto

lemma node_text_nodes:
  "node_to_text ty el = Inr ws \<longleftrightarrow> (\<exists>xs. mapM_r own_text (test_nodes ty el) = Inr xs \<and> ws = concat xs)"
proof (induction ty el arbitrary: ws rule: test_nodes.induct)
  case (1 ty el)
  let ?cs = "findall ''Test'' el"
  have sub: "mapM_r (node_to_text ''Case'') ?cs = Inr css \<longleftrightarrow>
      (\<exists>xss. mapM_r (\<lambda>c. mapM_r own_text (test_nodes ''Case'' c)) ?cs = Inr xss \<and> css = map concat xss)" for css
    by (rule mapM_r_cong_iff) (rule 1)
  have nodes: "mapM_r own_text (concat (map (test_nodes ''Case'') ?cs)) = Inr xs \<longleftrightarrow>
      (\<exists>xss. mapM_r (\<lambda>c. mapM_r own_text (test_nodes ''Case'' c)) ?cs = Inr xss \<and> xs = concat xss)" for xs
    unfolding mapM_r_concat_iff by (simp add: mapM_r_Inr_iff list_all2_map1)
  have "node_to_text ty el = Inr ws \<longleftrightarrow>
      (\<exists>h css. own_text (ty, el) = Inr h \<and> mapM_r (node_to_text ''Case'') ?cs = Inr css \<and> ws = h @ concat css)"
    by (subst node_to_text.simps) (auto simp: own_text_def bind_r_eq_Inr_iff)
  also have "\<dots> \<longleftrightarrow> (\<exists>h xss. own_text (ty, el) = Inr h \<and>
      mapM_r (\<lambda>c. mapM_r own_text (test_nodes ''Case'' c)) ?cs = Inr xss \<and> ws = h @ concat (concat xss))"
    unfolding sub by (auto simp: concat_map_concat)
  also have "\<dots> \<longleftrightarrow> (\<exists>xs. mapM_r own_text (test_nodes ty el) = Inr xs \<and> ws = concat xs)"
    unfolding test_nodes.simps [of ty el] mapM_r_Cons_iff nodes by auto
  finally show ?case .
qed

text \<open>
  C34: the recursive translation to text is the flat one over the tests in document order: it succeeds exactly when every test,
  at whatever depth, and every example can be read, and its output is then the head line and the failure details of every
  test once, suites and test cases in document order, followed by one line for every example.
\<close>

theorem translate_to_text_flat:
  "translate_to_text doc = Inr ws \<longleftrightarrow>
    (\<exists>xs es. mapM_r own_text (concat (map (test_nodes ''Suite'') (findall ''Test'' doc))) = Inr xs \<and>
       mapM_r example_text (findall ''Example'' doc) = Inr es \<and> ws = concat xs @ es)"
proof -
  have sub: "mapM_r (node_to_text ''Suite'') (findall ''Test'' doc) = Inr css \<longleftrightarrow>
      (\<exists>xss. mapM_r (\<lambda>c. mapM_r own_text (test_nodes ''Suite'' c)) (findall ''Test'' doc) = Inr xss \<and> css = map concat xss)" for css
    by (rule mapM_r_cong_iff) (rule node_text_nodes)
  have nodes: "mapM_r own_text (concat (map (test_nodes ''Suite'') (findall ''Test'' doc))) = Inr xs \<longleftrightarrow>
      (\<exists>xss. mapM_r (\<lambda>c. mapM_r own_text (test_nodes ''Suite'' c)) (findall ''Test'' doc) = Inr xss \<and> xs = concat xss)" for xs
    unfolding mapM_r_concat_iff by (simp add: mapM_r_Inr_iff list_all2_map1)
  show ?thesis unfolding translate_to_text_def bind_r_eq_Inr_iff sub nodes by (auto simp: concat_map_concat)
qed

section \<open>The rows of the HTML tables\<close>

definition fail_rows :: "element \<Rightarrow> nat" where
  "fail_rows c = (if child_text ''Result'' c = Inr (Some ''FAIL'') then length (findall ''FailureDetails'' c) else 0)"

definition suite_fail_rows :: "element \<Rightarrow> nat" where
  "suite_fail_rows s =
     (if child_text ''Result'' s \<in> {Inr (Some ''CRASH''), Inr (Some ''SKIP''), Inr (Some ''VALGR'')} then 0
      else sum_list (map fail_rows (findall ''Test'' s)))"

text \<open>The opening and closing of rows and of tables among the texts written.\<close>

definition opened :: "string list \<Rightarrow> nat" where "opened ws = count_list ws (tag_line ''<tr>'')"
definition closed :: "string list \<Rightarrow> nat" where "closed ws = count_list ws (tag_line ''</tr>'')"
definition tables :: "string list \<Rightarrow> nat" where "tables ws = count_list ws (tag_line ''<table border=\"1\">'')"
definition tables_closed :: "string list \<Rightarrow> nat" where "tables_closed ws = count_list ws (tag_line ''</table>'')"

lemmas tag_counts = opened_def closed_def tables_def tables_closed_def

lemma counts_append [simp]:
  "opened (xs @ ys) = opened xs + opened ys" "closed (xs @ ys) = closed xs + closed ys"
  "tables (xs @ ys) = tables xs + tables ys" "tables_closed (xs @ ys) = tables_closed xs + tables_closed ys"
  by (simp_all add: tag_counts)

lemmas html_texts = tag_line_def td_def td_color_def suite_heading_def nl_def

fun bold :: "string \<Rightarrow> bool" where
  "bold (a # b # s) \<longleftrightarrow> a = CHR ''<'' \<and> b = CHR ''b''"
| "bold s \<longleftrightarrow> False"

lemma bold_append: "bold b \<Longrightarrow> bold (b @ s)"
  by (cases b rule: bold.cases) auto

lemma detail_bold: "mapM_r (detail x) fs = Inr ls \<Longrightarrow> list_all (\<lambda>(b, t, a). bold b) fs \<Longrightarrow> list_all bold ls"
  by (induction fs arbitrary: ls) (auto simp: bind_r_eq_Inr_iff detail_def bold_append)

lemma bold_no_tag: "bold l \<Longrightarrow> l \<noteq> tag_line ''<tr>'' \<and> l \<noteq> tag_line ''</tr>'' \<and> l \<noteq> tag_line ''<table border=\"1\">'' \<and> l \<noteq> tag_line ''</table>''"
  by (auto simp: tag_line_def)

lemma bold_counts: "list_all bold ls \<Longrightarrow> opened ls = 0 \<and> closed ls = 0 \<and> tables ls = 0 \<and> tables_closed ls = 0"
  by (induction ls) (auto simp: tag_counts dest: bold_no_tag)

lemma failure_row_counts:
  assumes "failure_row d first x = Inr ws"
  shows "opened ws = 1 \<and> closed ws = 0 \<and> tables ws = 0 \<and> tables_closed ws = 0"
proof -
  obtain result name reason tm where d: "d = (result, name, reason, tm)" by (cases d)
  obtain ls where ls: "list_all bold ls" and
    ws: "ws = [tag_line ''<tr>''] @ (if first then [td_color ''red'' result, td name, td tm] else [tag_line ''<td></td>'', tag_line ''<td></td>'', tag_line ''<td></td>'']) @
            [''<td>''] @ ls @ [tag_line ''</td>''] @ [tag_line ''</td>'']"
    using assms by (auto simp: failure_row_def d bind_r_eq_Inr_iff simp del: mapM_r.simps dest!: detail_bold)
  show ?thesis unfolding ws using bold_counts [OF ls] by (simp add: tag_counts html_texts)
qed

lemma failure_rows_counts:
  "failure_rows d first xs = Inr ws \<Longrightarrow> opened ws = length xs \<and> closed ws = 0 \<and> tables ws = 0 \<and> tables_closed ws = 0"
proof (induction xs arbitrary: first ws)
  case Nil
  then show ?case by (simp add: tag_counts)
next
  case (Cons x xs)
  then obtain r rs where "failure_row d first x = Inr r" "failure_rows d False xs = Inr rs" "ws = r @ rs"
    by (auto simp: bind_r_eq_Inr_iff)
  with Cons.IH failure_row_counts show ?case by fastforce
qed

lemma read_test_result: "read_test c = Inr (result, name, reason, tm) \<Longrightarrow> child_text ''Result'' c = Inr result"
  by (auto simp: read_test_def bind_r_eq_Inr_iff)

lemma case_html_counts:
  assumes "case_html c = Inr ws"
  shows "opened ws = closed ws + fail_rows c \<and> tables ws = 0 \<and> tables_closed ws = 0"
proof -
  obtain result name reason tm where d: "read_test c = Inr (result, name, reason, tm)"
    using assms by (auto simp: case_html_def bind_r_eq_Inr_iff)
  show ?thesis
  proof (cases "result = Some ''FAIL''")
    case True
    with assms d have "failure_rows (result, name, reason, tm) True (findall ''FailureDetails'' c) = Inr ws" by (simp add: case_html_def)
    from failure_rows_counts [OF this] show ?thesis using read_test_result [OF d] True by (simp add: fail_rows_def)
  next
    case False
    with assms d have "ws = [tag_line ''<tr>'', td_color ''green'' result, td name, td tm, td reason, tag_line ''</tr>'']" by (simp add: case_html_def)
    then show ?thesis using read_test_result [OF d] False by (simp add: fail_rows_def tag_counts html_texts)
  qed
qed

lemma cases_html_counts:
  "mapM_r case_html cs = Inr css \<Longrightarrow>
   opened (concat css) = closed (concat css) + sum_list (map fail_rows cs) \<and> tables (concat css) = 0 \<and> tables_closed (concat css) = 0"
proof (induction cs arbitrary: css)
  case Nil
  then show ?case by (simp add: tag_counts)
next
  case (Cons c cs)
  from Cons.prems obtain w ws where w: "case_html c = Inr w" "mapM_r case_html cs = Inr ws" "css = w # ws"
    unfolding mapM_r_Cons_iff by blast
  with Cons.IH [OF w(2)] case_html_counts [OF w(1)] show ?case by simp
qed

lemma suite_html_counts:
  assumes "suite_html s = Inr ws"
  shows "opened ws = closed ws + suite_fail_rows s \<and> tables ws = tables_closed ws"
proof -
  obtain result name reason tm where d: "read_test s = Inr (result, name, reason, tm)"
    using assms by (auto simp: suite_html_def bind_r_eq_Inr_iff)
  note r = read_test_result [OF d]
  show ?thesis
  proof (cases "result = Some ''CRASH'' \<or> result = Some ''SKIP'' \<or> result = Some ''VALGR''")
    case True
    with assms d show ?thesis using r by (auto simp: suite_html_def suite_fail_rows_def tag_counts html_texts)
  next
    case False
    with assms d obtain css where css: "mapM_r case_html (findall ''Test'' s) = Inr css" and
      ws: "ws = [suite_heading (result, name, reason, tm), tag_line ''<table border=\"1\">'', tag_line ''<th> Result </th>''] @
        [tag_line ''<th>Test Case Name</th>'', tag_line ''<th> Time </th>''] @
        (if result = Some ''FAIL'' then [tag_line ''<th>Failure Details</th>''] else []) @ concat css @ [tag_line ''</table>'']"
      by (auto simp: suite_html_def bind_r_eq_Inr_iff)
    show ?thesis unfolding ws using cases_html_counts [OF css] r False
      by (simp add: suite_fail_rows_def) (auto simp: tag_counts html_texts)
  qed
qed

lemma suites_html_counts:
  "mapM_r suite_html ss = Inr wss \<Longrightarrow>
   opened (concat wss) = closed (concat wss) + sum_list (map suite_fail_rows ss) \<and> tables (concat wss) = tables_closed (concat wss)"
proof (induction ss arbitrary: wss)
  case Nil
  then show ?case by (simp add: tag_counts)
next
  case (Cons s ss)
  from Cons.prems obtain w ws where w: "suite_html s = Inr w" "mapM_r suite_html ss = Inr ws" "wss = w # ws"
    unfolding mapM_r_Cons_iff by blast
  with Cons.IH [OF w(2)] suite_html_counts [OF w(1)] show ?case by simp
qed

lemma examples_html_counts:
  "mapM_r example_html xs = Inr wss \<Longrightarrow> opened (concat wss) = closed (concat wss) \<and> tables (concat wss) = tables_closed (concat wss)"
proof (induction xs arbitrary: wss)
  case (Cons x xs)
  from Cons.prems obtain w ws where w: "example_html x = Inr w" "mapM_r example_html xs = Inr ws" "wss = w # ws"
    unfolding mapM_r_Cons_iff by blast
  have "opened w = closed w \<and> tables w = tables_closed w"
    using w(1) by (auto simp: example_html_def bind_r_eq_Inr_iff tag_counts html_texts)
  with Cons.IH [OF w(2)] w(3) show ?case by simp
qed (simp add: tag_counts)

text \<open>
  In the HTML report every table that is opened is closed, and every row is, except the rows of failure details, which
  are closed with the tag of a cell: the report has as many rows left open as the failed test cases have failure details.
\<close>

theorem html_rows:
  assumes "translate_to_html doc = Inr ws"
  shows "count_list ws (tag_line ''<table border=\"1\">'') = count_list ws (tag_line ''</table>'') \<and>
    count_list ws (tag_line ''<tr>'') = count_list ws (tag_line ''</tr>'') + sum_list (map suite_fail_rows (findall ''Test'' doc))"
proof -
  obtain ss es where s: "mapM_r suite_html (findall ''Test'' doc) = Inr ss" "mapM_r example_html (findall ''Example'' doc) = Inr es"
    and ws: "ws = [tag_line ''<html>'', tag_line ''<body>'', tag_line ''<center><h1>ns-3 Test Results</h1></center>'', tag_line ''<h2>Test Suites</h2>''] @
            concat ss @
            [tag_line ''<h2>Examples</h2>'', tag_line ''<table border=\"1\">'', tag_line ''<th> Result </th>'', tag_line ''<th>Example Name</th>'',
             tag_line ''<th>Elapsed Time</th>'', tag_line ''<th>Details</th>''] @
            concat es @ [tag_line ''</table>'', tag_line ''</body>'', tag_line ''</html>'']"
    using assms by (auto simp: translate_to_html_def bind_r_eq_Inr_iff)
  have "tables ws = tables_closed ws \<and> opened ws = closed ws + sum_list (map suite_fail_rows (findall ''Test'' doc))"
    unfolding ws using suites_html_counts [OF s(1)] examples_html_counts [OF s(2)]
    by simp (simp add: tag_counts tag_line_def)
  then show ?thesis by (simp add: tag_counts)
qed

definition demo_leaf :: "string \<Rightarrow> string \<Rightarrow> element" where
  "demo_leaf t s = Element t [] (Some s) []"

text \<open>A suite with one failed test case, with one failure.\<close>

definition demo_results :: element where
  "demo_results = Element ''Results'' [] None
     [Element ''Test'' [] None [demo_leaf ''Name'' ''a'', demo_leaf ''Result'' ''FAIL'',
        Element ''Test'' [] None [demo_leaf ''Name'' ''b'', demo_leaf ''Result'' ''FAIL'',
          Element ''FailureDetails'' [] None [demo_leaf ''Condition'' ''x'', demo_leaf ''Actual'' ''1'', demo_leaf ''Limit'' ''2'',
            demo_leaf ''Message'' ''m'', demo_leaf ''File'' ''f'', demo_leaf ''Line'' ''3'']]]]"

theorem html_rows_witness:
  "\<exists>ws. translate_to_html demo_results = Inr ws \<and> count_list ws (tag_line ''<tr>'') = count_list ws (tag_line ''</tr>'') + 1"
proof -
  have "\<not> isl (translate_to_html demo_results)" by code_simp
  then obtain ws where ws: "translate_to_html demo_results = Inr ws" by (cases "translate_to_html demo_results") auto
  have "sum_list (map suite_fail_rows (findall ''Test'' demo_results)) = 1" by code_simp
  with html_rows [OF ws] ws show ?thesis by simp
qed

end
