(* ===== verification/VizThreads.thy ===== *)
theory VizThreads
  imports Prelude
begin

text \<open>
  The two threads of the simulation visualizer, \<^verbatim>\<open>visualizer/core.py\<close>: \<open>SimulationThread.run\<close>, which advances the simulator, and the view thread
  with its main loop, the timer callbacks \<open>update_view_timeout\<close> and \<open>autoscale_view\<close>, \<open>update_model\<close>, the play button, the speed control and \<open>_quit\<close>. They share a lock, the
  event \<open>go\<close>, the flag \<open>quit\<close>, the target time and the pause messages. A step is what one thread does between two such accesses; an
  action says which thread is next and what comes from outside: the user, the timers, and the simulator, which decides how far
  it gets and which messages it has. Timers are those of GLib: a source that is being dispatched is not dispatched again inside
  its own callback, but others are. A callback of a timer that raises is removed like one that returns \<open>False\<close>.
\<close>

section \<open>State\<close>

text \<open>Where the simulation thread is in \<open>run\<close>.\<close>

datatype sim_pc = SLoop | SWait | SClear | SCheck | SAcquire | SRun | SMessages | SRelease | SDone

text \<open>
  Where the view thread is: in the main loop, in the three parts of \<open>update_view_timeout\<close> (trying the lock, handling events while it is taken,
  updating the view, and what follows after the lock is released), in a handler that takes the lock, in \<open>autoscale_view\<close>, which does not take it, in \<open>_quit\<close>, or at the end.
\<close>

datatype view_pc = VMain | VTry | VEvents | VHold | VAfter | VAcquire | VHandler | VScale | VSetGo | VJoin | VEnded

datatype thread = Sim_thread | View_thread

record viz =
  sim_pc :: sim_pc
  view_pc :: view_pc
  lock :: "thread option"
  go :: bool
  quit :: bool
  sim_now :: rat
  target_time :: rat
  shown_time :: rat
  pause_messages :: "string list"
  taken_messages :: "string list"
  dialogs :: "string list"
  lost_messages :: "string list"
  emitted :: "string list"
  play_active :: bool
  speed :: rat
  sample_period :: rat
  update_timeout_id :: "nat option"
  live_timers :: "(nat \<times> int) list"
  next_id :: nat
  dispatching :: "nat list"
  idle_updates :: nat
  autoscale_due :: bool
  main_quit :: bool

definition SAMPLE_PERIOD :: rat where "SAMPLE_PERIOD = 1 / 10"

section \<open>Simulation thread\<close>

text \<open>One step of \<open>run\<close>; the simulator stops at \<open>t\<close>, at the latest at the target time, with the messages \<open>ms\<close>.\<close>

definition sim_next :: "rat \<Rightarrow> string list \<Rightarrow> viz \<Rightarrow> unit + viz" where
  "sim_next t ms s =
     (case sim_pc s of
        SLoop \<Rightarrow> Inr (s\<lparr>sim_pc := if quit s then SDone else SWait\<rparr>)
      | SWait \<Rightarrow> if go s then Inr (s\<lparr>sim_pc := SClear\<rparr>) else Inl ()
      | SClear \<Rightarrow> Inr (s\<lparr>go := False, sim_pc := SCheck\<rparr>)
      | SCheck \<Rightarrow> Inr (s\<lparr>sim_pc := if quit s then SDone else SAcquire\<rparr>)
      | SAcquire \<Rightarrow> if lock s = None then Inr (s\<lparr>lock := Some Sim_thread, sim_pc := SRun\<rparr>) else Inl ()
      | SRun \<Rightarrow> if sim_now s \<le> t \<and> t \<le> max (sim_now s) (target_time s) then Inr (s\<lparr>sim_now := t, sim_pc := SMessages\<rparr>) else Inl ()
      | SMessages \<Rightarrow> Inr (s\<lparr>pause_messages := pause_messages s @ ms, emitted := emitted s @ ms, idle_updates := idle_updates s + 1, sim_pc := SRelease\<rparr>)
      | SRelease \<Rightarrow> Inr (s\<lparr>lock := None, sim_pc := SLoop\<rparr>)
      | SDone \<Rightarrow> Inl ())"

section \<open>View thread\<close>

text \<open>\<open>GLib.source_remove\<close> of an identifier that is not there has no effect.\<close>

definition source_remove :: "nat \<Rightarrow> viz \<Rightarrow> viz" where
  "source_remove i s = s\<lparr>live_timers := filter (\<lambda>(k, _). k \<noteq> i) (live_timers s)\<rparr>"

definition remove_timer :: "viz \<Rightarrow> viz" where
  "remove_timer s = (case update_timeout_id s of None \<Rightarrow> s | Some i \<Rightarrow> source_remove i s)"

definition start_update_timer :: "viz \<Rightarrow> viz" where
  "start_update_timer s =
     (let s = remove_timer s; interval = \<lfloor>SAMPLE_PERIOD / min (speed s) 1 * 1000\<rfloor>
      in s\<lparr>update_timeout_id := Some (next_id s), live_timers := live_timers s @ [(next_id s, interval)], next_id := next_id s + 1\<rparr>)"

definition play_button_toggled :: "viz \<Rightarrow> viz" where
  "play_button_toggled s = (if play_active s then start_update_timer s else remove_timer s)"

text \<open>\<open>set_active\<close> calls the handler only when the state of the button changes.\<close>

definition set_active :: "bool \<Rightarrow> viz \<Rightarrow> viz" where
  "set_active b s = (if play_active s = b then s else play_button_toggled (s\<lparr>play_active := b\<rparr>))"

definition speed_changed :: "rat \<Rightarrow> viz \<Rightarrow> viz" where
  "speed_changed v s = start_update_timer (s\<lparr>speed := v, sample_period := SAMPLE_PERIOD * v\<rparr>)"

text \<open>Back to the loop that called the handler: that of a callback that waits for the lock, or the main loop.\<close>

definition return_to_loop :: "viz \<Rightarrow> viz" where
  "return_to_loop s = s\<lparr>view_pc := if dispatching s = [] then VMain else VEvents\<rparr>"

text \<open>The end of \<open>update_view_timeout\<close>; the source is removed when it returns \<open>False\<close>.\<close>

definition finish_timeout :: "viz \<Rightarrow> viz" where
  "finish_timeout s =
     (let s = (if taken_messages s \<noteq> [] then set_active False (s\<lparr>dialogs := dialogs s @ taken_messages s, taken_messages := []\<rparr>) else s);
          s = (if \<not> play_active s then source_remove (hd (dispatching s)) (s\<lparr>update_timeout_id := None\<rparr>) else s\<lparr>go := True\<rparr>)
      in return_to_loop (s\<lparr>dispatching := tl (dispatching s)\<rparr>))"

text \<open>The next step of a handler, or of the main loop after \<open>main_quit\<close>.\<close>

definition view_next :: "viz \<Rightarrow> unit + viz" where
  "view_next s =
     (case view_pc s of
        VTry \<Rightarrow> Inr (if lock s = None
                   then s\<lparr>lock := Some View_thread, taken_messages := pause_messages s, pause_messages := [], view_pc := VHold\<rparr>
                   else s\<lparr>view_pc := VEvents\<rparr>)
      | VEvents \<Rightarrow> Inr (s\<lparr>view_pc := VTry\<rparr>)
      | VHold \<Rightarrow> Inr (s\<lparr>shown_time := sim_now s, target_time := sim_now s + sample_period s, lock := None, view_pc := VAfter\<rparr>)
      | VAfter \<Rightarrow> Inr (finish_timeout s)
      | VAcquire \<Rightarrow> if lock s = None then Inr (s\<lparr>lock := Some View_thread, view_pc := VHandler\<rparr>) else Inl ()
      | VHandler \<Rightarrow> Inr (return_to_loop (s\<lparr>lock := None\<rparr>))
      | VScale \<Rightarrow> Inr (return_to_loop s)
      | VSetGo \<Rightarrow> Inr (s\<lparr>go := True, view_pc := VJoin\<rparr>)
      | VJoin \<Rightarrow> if sim_pc s = SDone then Inr (return_to_loop (s\<lparr>main_quit := True\<rparr>)) else Inl ()
      | VMain \<Rightarrow> if main_quit s then Inr (s\<lparr>view_pc := VEnded\<rparr>) else Inl ()
      | VEnded \<Rightarrow> Inl ())"

text \<open>
  \<open>update_view\<close> raises: the \<open>finally\<close> clause releases the lock, the messages that were taken go with the frame of the callback, and GLib
  removes its source. Nothing after the \<open>try\<close> is done: no dialog, no new target time, no signal, and the button and the identifier stay.
\<close>

definition view_raises :: "viz \<Rightarrow> unit + viz" where
  "view_raises s =
     (if view_pc s = VHold
      then Inr (return_to_loop ((source_remove (hd (dispatching s)) s)
             \<lparr>lock := None, lost_messages := lost_messages s @ taken_messages s, taken_messages := [], dispatching := tl (dispatching s)\<rparr>))
      else Inl ())"

definition in_loop :: "viz \<Rightarrow> bool" where
  "in_loop s \<longleftrightarrow> view_pc s = VMain \<and> \<not> main_quit s \<or> view_pc s = VEvents"

definition quit_handler :: "viz \<Rightarrow> viz" where
  "quit_handler s =
     (case update_timeout_id s of None \<Rightarrow> s | Some i \<Rightarrow> (source_remove i s)\<lparr>update_timeout_id := None\<rparr>)\<lparr>quit := True, view_pc := VSetGo\<rparr>"

text \<open>
  The actions: a step of either thread, a timer, the idle callback \<open>update_model\<close>, the play button, the speed control (from 0.01 to 10), a handler
  that takes the lock (tooltips, dragging, selection, information windows), the timer of \<open>autoscale_view\<close>, once, an exception in \<open>update_view\<close>, and closing
  the window, once.
\<close>

datatype action = Sim rat "string list" | View | Fire nat | Model | Toggle | Speed rat | Locked | Autoscale | View_raises | Quit

fun viz_act :: "viz \<Rightarrow> action \<Rightarrow> unit + viz" where
  "viz_act s (Sim t ms) = sim_next t ms s"
| "viz_act s View = view_next s"
| "viz_act s (Fire i) =
     (if in_loop s \<and> i \<in> fst ` set (live_timers s) \<and> i \<notin> set (dispatching s)
      then Inr (s\<lparr>dispatching := i # dispatching s, view_pc := VTry\<rparr>) else Inl ())"
| "viz_act s Model =
     (if in_loop s \<and> idle_updates s > 0 then Inr (s\<lparr>idle_updates := idle_updates s - 1, view_pc := VAcquire\<rparr>) else Inl ())"
| "viz_act s Toggle = (if in_loop s then Inr (set_active (\<not> play_active s) s) else Inl ())"
| "viz_act s (Speed v) = (if in_loop s \<and> 1 / 100 \<le> v \<and> v \<le> 10 then Inr (speed_changed v s) else Inl ())"
| "viz_act s Locked = (if in_loop s then Inr (s\<lparr>view_pc := VAcquire\<rparr>) else Inl ())"
| "viz_act s Autoscale = (if in_loop s \<and> autoscale_due s then Inr (s\<lparr>autoscale_due := False, view_pc := VScale\<rparr>) else Inl ())"
| "viz_act s View_raises = view_raises s"
| "viz_act s Quit = (if in_loop s \<and> \<not> quit s then Inr (quit_handler s) else Inl ())"

text \<open>
  The state when the main loop starts: the speed control has started a timer, that of \<open>autoscale_view\<close> is started too, and the simulation
  is not playing.
\<close>

definition viz_start :: viz where
  "viz_start = speed_changed 1
     \<lparr>sim_pc = SLoop, view_pc = VMain, lock = None, go = False, quit = False, sim_now = 0, target_time = 0, shown_time = 0, pause_messages = [],
      taken_messages = [], dialogs = [], lost_messages = [], emitted = [], play_active = False, speed = 1, sample_period = SAMPLE_PERIOD, update_timeout_id = None,
      live_timers = [], next_id = 0, dispatching = [], idle_updates = 0, autoscale_due = True, main_quit = False\<rparr>"

definition viz_run :: "action list \<Rightarrow> unit + viz" where
  "viz_run as = foldM_r viz_act viz_start as"

section \<open>Invariant\<close>

definition lock_ok :: "viz \<Rightarrow> bool" where
  "lock_ok s \<longleftrightarrow> (lock s = Some Sim_thread \<longleftrightarrow> sim_pc s \<in> {SRun, SMessages, SRelease}) \<and>
     (lock s = Some View_thread \<longleftrightarrow> view_pc s \<in> {VHold, VHandler}) \<and> (view_pc s = VScale \<longrightarrow> \<not> autoscale_due s)"

definition quit_ok :: "viz \<Rightarrow> bool" where
  "quit_ok s \<longleftrightarrow> (quit s \<and> sim_pc s = SWait \<longrightarrow> go s \<or> view_pc s = VSetGo) \<and> (view_pc s \<in> {VSetGo, VJoin} \<longrightarrow> quit s) \<and>
     (view_pc s = VJoin \<and> sim_pc s = SWait \<longrightarrow> go s) \<and> (main_quit s \<or> view_pc s = VEnded \<longrightarrow> sim_pc s = SDone)"

definition time_ok :: "viz \<Rightarrow> bool" where
  "time_ok s \<longleftrightarrow> shown_time s \<le> sim_now s \<and> sim_now s \<le> target_time s \<and> target_time s \<le> shown_time s + 1 \<and> 0 < sample_period s \<and> sample_period s \<le> 1"

definition messages_ok :: "viz \<Rightarrow> bool" where
  "messages_ok s \<longleftrightarrow> (\<exists>e \<in> shuffles (dialogs s) (lost_messages s). emitted s = e @ taken_messages s @ pause_messages s) \<and>
     (view_pc s \<notin> {VHold, VAfter} \<longrightarrow> taken_messages s = [])"

lemma shuffles_append:
  "e \<in> shuffles xs ys \<Longrightarrow> e @ zs \<in> shuffles (xs @ zs) ys" "e \<in> shuffles xs ys \<Longrightarrow> e @ zs \<in> shuffles xs (ys @ zs)"
proof -
  show 1: "e @ zs \<in> shuffles (xs @ zs) ys" if "e \<in> shuffles xs ys" for xs ys
    using that
  proof (induction xs ys arbitrary: e rule: shuffles.induct)
    case (1 ys)
    have "shuffles zs ys \<noteq> {} \<and> ys @ zs \<in> shuffles zs ys"
    proof (induction ys)
      case (Cons y ys)
      then show ?case by (cases zs) auto
    qed simp
    then show ?case using 1 by simp
  next
    case (3 x xs y ys)
    then show ?case by auto
  qed auto
  show "e @ zs \<in> shuffles xs (ys @ zs)" if "e \<in> shuffles xs ys"
    using 1 [of ys xs] that shuffles_commutes by metis
qed

definition viz_inv :: "viz \<Rightarrow> bool" where
  "viz_inv s \<longleftrightarrow> lock_ok s \<and> quit_ok s \<and> time_ok s \<and> messages_ok s"

text \<open>Timers change nothing but themselves.\<close>

lemma timer_frames [simp]:
  "sim_pc (source_remove i s) = sim_pc s" "view_pc (source_remove i s) = view_pc s" "lock (source_remove i s) = lock s" "go (source_remove i s) = go s"
  "quit (source_remove i s) = quit s" "sim_now (source_remove i s) = sim_now s" "target_time (source_remove i s) = target_time s"
  "shown_time (source_remove i s) = shown_time s" "sample_period (source_remove i s) = sample_period s" "emitted (source_remove i s) = emitted s"
  "dialogs (source_remove i s) = dialogs s" "lost_messages (source_remove i s) = lost_messages s" "autoscale_due (source_remove i s) = autoscale_due s" "taken_messages (source_remove i s) = taken_messages s" "pause_messages (source_remove i s) = pause_messages s"
  "main_quit (source_remove i s) = main_quit s" "dispatching (source_remove i s) = dispatching s" "play_active (source_remove i s) = play_active s"
  by (simp_all add: source_remove_def)

definition same_core :: "viz \<Rightarrow> viz \<Rightarrow> bool" where
  "same_core s t \<longleftrightarrow> sim_pc t = sim_pc s \<and> view_pc t = view_pc s \<and> lock t = lock s \<and> go t = go s \<and> quit t = quit s \<and> sim_now t = sim_now s \<and>
     target_time t = target_time s \<and> shown_time t = shown_time s \<and> emitted t = emitted s \<and> dialogs t = dialogs s \<and> lost_messages t = lost_messages s \<and> autoscale_due t = autoscale_due s \<and>
     taken_messages t = taken_messages s \<and> pause_messages t = pause_messages s \<and> main_quit t = main_quit s \<and> dispatching t = dispatching s"

lemma remove_timer_core: "same_core s (remove_timer s)" "sample_period (remove_timer s) = sample_period s"
  by (auto simp: remove_timer_def same_core_def split: option.splits)

lemma start_timer_core: "same_core s (start_update_timer s)" "sample_period (start_update_timer s) = sample_period s"
  using remove_timer_core [of s] by (auto simp: start_update_timer_def same_core_def Let_def)

lemma set_active_core: "same_core s (set_active b s)" "sample_period (set_active b s) = sample_period s"
  using start_timer_core [of "s\<lparr>play_active := b\<rparr>"] remove_timer_core [of "s\<lparr>play_active := b\<rparr>"]
  by (cases b; simp add: set_active_def play_button_toggled_def same_core_def)+

lemma speed_core: "same_core s (speed_changed v s)" "sample_period (speed_changed v s) = SAMPLE_PERIOD * v"
  using start_timer_core [of "s\<lparr>speed := v, sample_period := SAMPLE_PERIOD * v\<rparr>"] by (auto simp: speed_changed_def same_core_def)

lemma same_core_inv:
  assumes "same_core s t" and "0 < sample_period t" and "sample_period t \<le> 1" and "viz_inv s"
  shows "viz_inv t"
  unfolding viz_inv_def
proof (intro conjI)
  have i: "lock_ok s" "quit_ok s" "time_ok s" "messages_ok s" using assms(4) by (simp_all add: viz_inv_def)
  note c = assms(1) [unfolded same_core_def]
  show "lock_ok t" using i(1) c by (simp add: lock_ok_def)
  show "quit_ok t" using i(2) c by (simp add: quit_ok_def)
  show "time_ok t" using i(3) c assms(2,3) by (simp add: time_ok_def)
  show "messages_ok t" using i(4) c by (simp add: messages_ok_def)
qed

lemmas inv_defs = lock_ok_def quit_ok_def time_ok_def messages_ok_def

lemma sim_next_inv:
  assumes "viz_inv s" and "sim_next t ms s = Inr s'"
  shows "viz_inv s'"
  unfolding viz_inv_def
proof (intro conjI)
  have i: "lock_ok s" "quit_ok s" "time_ok s" "messages_ok s" using assms(1) by (simp_all add: viz_inv_def)
  show "lock_ok s'" using assms(2) i(1) by (cases "sim_pc s"; clarsimp simp: sim_next_def split: if_splits; simp add: lock_ok_def)
  show "quit_ok s'" using assms(2) i(2) by (cases "sim_pc s"; clarsimp simp: sim_next_def split: if_splits; simp add: quit_ok_def)
  show "time_ok s'" using assms(2) i(3) by (cases "sim_pc s"; clarsimp simp: sim_next_def split: if_splits; simp add: time_ok_def)
  show "messages_ok s'" using assms(2) i(4) by (cases "sim_pc s"; clarsimp simp: sim_next_def split: if_splits; force simp: messages_ok_def)
qed

lemma finish_timeout_fields:
  fixes s :: viz
  assumes "messages_ok s"
  shows "sim_pc (finish_timeout s) = sim_pc s" "lock (finish_timeout s) = lock s" "quit (finish_timeout s) = quit s"
    "sim_now (finish_timeout s) = sim_now s" "target_time (finish_timeout s) = target_time s" "shown_time (finish_timeout s) = shown_time s"
    "\<exists>e \<in> shuffles (dialogs (finish_timeout s)) (lost_messages (finish_timeout s)). emitted (finish_timeout s) = e @ pause_messages (finish_timeout s)" "taken_messages (finish_timeout s) = []"
    "main_quit (finish_timeout s) = main_quit s" "sample_period (finish_timeout s) = sample_period s"
    "go s \<Longrightarrow> go (finish_timeout s)" "view_pc (finish_timeout s) \<in> {VMain, VEvents}"
proof -
  define m where "m = (if taken_messages s \<noteq> [] then set_active False (s\<lparr>dialogs := dialogs s @ taken_messages s, taken_messages := []\<rparr>) else s)"
  have m: "sim_pc m = sim_pc s" "lock m = lock s" "quit m = quit s" "go m = go s" "sim_now m = sim_now s" "target_time m = target_time s" "shown_time m = shown_time s"
    "taken_messages m = []" "main_quit m = main_quit s" "sample_period m = sample_period s"
    using assms set_active_core [where b = False and s = "s\<lparr>dialogs := dialogs s @ taken_messages s, taken_messages := []\<rparr>"]
    by (simp_all add: m_def same_core_def messages_ok_def)
  obtain e where e: "e \<in> shuffles (dialogs s) (lost_messages s)" "emitted s = (e @ taken_messages s) @ pause_messages s"
    using assms by (auto simp: messages_ok_def)
  have d: "dialogs m = dialogs s @ taken_messages s" "lost_messages m = lost_messages s" "emitted m = emitted s" "pause_messages m = pause_messages s"
    using set_active_core(1) [where b = False and s = "s\<lparr>dialogs := dialogs s @ taken_messages s, taken_messages := []\<rparr>"]
    by (simp_all add: m_def same_core_def)
  have sh: "\<exists>e \<in> shuffles (dialogs m) (lost_messages m). emitted m = e @ pause_messages m"
    unfolding d using shuffles_append(1) [OF e(1), of "taken_messages s"] e(2) by blast
  have f: "finish_timeout s = (let u = (if \<not> play_active m then source_remove (hd (dispatching m)) (m\<lparr>update_timeout_id := None\<rparr>) else m\<lparr>go := True\<rparr>)
      in return_to_loop (u\<lparr>dispatching := tl (dispatching u)\<rparr>))"
    by (simp add: finish_timeout_def m_def Let_def)
  show "sim_pc (finish_timeout s) = sim_pc s" "lock (finish_timeout s) = lock s" "quit (finish_timeout s) = quit s"
    "sim_now (finish_timeout s) = sim_now s" "target_time (finish_timeout s) = target_time s" "shown_time (finish_timeout s) = shown_time s"
    "\<exists>e \<in> shuffles (dialogs (finish_timeout s)) (lost_messages (finish_timeout s)). emitted (finish_timeout s) = e @ pause_messages (finish_timeout s)" "taken_messages (finish_timeout s) = []"
    "main_quit (finish_timeout s) = main_quit s" "sample_period (finish_timeout s) = sample_period s"
    "go s \<Longrightarrow> go (finish_timeout s)" "view_pc (finish_timeout s) \<in> {VMain, VEvents}"
    unfolding f using sh by (simp_all add: m return_to_loop_def Let_def)
qed

lemma finish_timeout_inv:
  assumes "viz_inv s" and "view_pc s = VAfter"
  shows "viz_inv (finish_timeout s)"
  unfolding viz_inv_def
proof (intro conjI)
  have i: "lock_ok s" "quit_ok s" "time_ok s" "messages_ok s" using assms(1) by (simp_all add: viz_inv_def)
  note f = finish_timeout_fields [OF i(4)]
  show "lock_ok (finish_timeout s)" using i(1) f(12) assms(2) by (auto simp: lock_ok_def f(1-10))
  show "quit_ok (finish_timeout s)" using i(2) f(11,12) assms(2) by (auto simp: quit_ok_def f(1-10))
  show "time_ok (finish_timeout s)" using i(3) by (simp add: time_ok_def f(1-10))
  show "messages_ok (finish_timeout s)" using f(7,8) by (simp add: messages_ok_def)
qed

lemma view_next_inv:
  assumes "viz_inv s" and "view_next s = Inr s'"
  shows "viz_inv s'"
proof (cases "view_pc s = VAfter")
  case True
  then show ?thesis using assms finish_timeout_inv [of s] by (simp add: view_next_def)
next
  case False
  have i: "lock_ok s" "quit_ok s" "time_ok s" "messages_ok s" using assms(1) by (simp_all add: viz_inv_def)
  have "lock_ok s'" using False assms(2) i(1)
    by (cases "view_pc s"; clarsimp simp: view_next_def return_to_loop_def split: if_splits; simp add: lock_ok_def)
  moreover have "quit_ok s'" using False assms(2) i(2)
    by (cases "view_pc s"; clarsimp simp: view_next_def return_to_loop_def split: if_splits; simp add: quit_ok_def)
  moreover have "time_ok s'" using False assms(2) i(3)
    by (cases "view_pc s"; clarsimp simp: view_next_def return_to_loop_def split: if_splits; simp add: time_ok_def)
  moreover have "messages_ok s'" using False assms(2) i(4)
    by (cases "view_pc s"; clarsimp simp: view_next_def return_to_loop_def split: if_splits; simp add: messages_ok_def)
  ultimately show ?thesis by (simp add: viz_inv_def)
qed

lemma view_raises_inv:
  assumes "viz_inv s" and "view_raises s = Inr s'"
  shows "viz_inv s'"
proof -
  have v: "view_pc s = VHold" and s': "s' = return_to_loop ((source_remove (hd (dispatching s)) s)
      \<lparr>lock := None, lost_messages := lost_messages s @ taken_messages s, taken_messages := [], dispatching := tl (dispatching s)\<rparr>)"
    using assms(2) by (auto simp: view_raises_def split: if_splits)
  have i: "lock_ok s" "quit_ok s" "time_ok s" "messages_ok s" using assms(1) by (simp_all add: viz_inv_def)
  have "lock_ok s'" using i(1) v by (auto simp: s' return_to_loop_def lock_ok_def)
  moreover have "quit_ok s'" using i(2) v by (simp add: s' return_to_loop_def quit_ok_def)
  moreover have "time_ok s'" using i(3) by (simp add: s' return_to_loop_def time_ok_def)
  moreover have "\<exists>e \<in> shuffles (dialogs s) (lost_messages s @ taken_messages s). emitted s = e @ pause_messages s"
  proof -
    obtain e where e: "e \<in> shuffles (dialogs s) (lost_messages s)" "emitted s = (e @ taken_messages s) @ pause_messages s"
      using i(4) by (auto simp: messages_ok_def)
    then show ?thesis using shuffles_append(2) [OF e(1), of "taken_messages s"] by blast
  qed
  then have "messages_ok s'" by (simp add: s' return_to_loop_def messages_ok_def)
  ultimately show ?thesis by (simp add: viz_inv_def)
qed

lemma loop_inv:
  assumes "viz_inv s" and "in_loop s"
  shows "viz_inv (s\<lparr>dispatching := ds, view_pc := VTry\<rparr>)" "viz_inv (s\<lparr>idle_updates := n, view_pc := VAcquire\<rparr>)"
    "viz_inv (s\<lparr>view_pc := VAcquire\<rparr>)" "viz_inv (s\<lparr>autoscale_due := False, view_pc := VScale\<rparr>)"
  using assms by (cases "view_pc s"; simp add: viz_inv_def inv_defs in_loop_def; fail)+

lemma quit_inv:
  assumes "viz_inv s" and "in_loop s"
  shows "viz_inv (quit_handler s)"
  using assms by (cases "update_timeout_id s"; cases "view_pc s"; simp add: quit_handler_def viz_inv_def inv_defs in_loop_def)

lemma viz_act_inv:
  assumes "viz_inv s" and "viz_act s a = Inr s'"
  shows "viz_inv s'"
proof (cases a)
  case (Speed v)
  then show ?thesis using assms same_core_inv [OF speed_core(1) _ _ assms(1), of v] by (simp add: speed_core SAMPLE_PERIOD_def split: if_splits)
next
  case Toggle
  then show ?thesis using assms same_core_inv [OF set_active_core(1) _ _ assms(1)]
    by (auto simp: set_active_core viz_inv_def time_ok_def split: if_splits)
next
  case (Sim t ms)
  then show ?thesis using assms sim_next_inv by simp
next
  case View
  then show ?thesis using assms view_next_inv by simp
next
  case View_raises
  then show ?thesis using assms view_raises_inv by simp
qed (use assms loop_inv [OF assms(1)] quit_inv [OF assms(1)] in \<open>auto split: if_splits\<close>)

lemma viz_start_inv: "viz_inv viz_start"
  by (simp add: viz_start_def speed_changed_def start_update_timer_def remove_timer_def viz_inv_def inv_defs SAMPLE_PERIOD_def Let_def)

interpretation viz: event_system viz_act viz_inv
  by unfold_locales (rule viz_act_inv)

lemma viz_run_inv: "viz_run as = Inr s \<Longrightarrow> viz_inv s"
  unfolding viz_run_def by (rule viz.run_inv [OF viz_start_inv])

section \<open>Mutual exclusion, time and messages\<close>



text \<open>A run in which the view waits for the simulator, and one in which it is scaled while the simulator runs.\<close>

definition busy_run :: "action list" where
  "busy_run = [Toggle, Fire 1, View, View, View, Sim 0 [], Sim 0 [], Sim 0 [], Sim 0 [], Sim 0 [], Locked]"


lemmas viz_eval = viz_run_def viz_start_def sim_next_def view_next_def source_remove_def remove_timer_def start_update_timer_def
  play_button_toggled_def set_active_def speed_changed_def return_to_loop_def finish_timeout_def view_raises_def in_loop_def quit_handler_def SAMPLE_PERIOD_def Let_def

lemma busy_run_state: "\<exists>s. viz_run busy_run = Inr s \<and> view_pc s = VAcquire \<and> lock s = Some Sim_thread \<and> sim_pc s = SRun \<and> target_time s = 1 / 10"
  by (simp add: viz_eval busy_run_def)





text \<open>
  The view never runs ahead of the simulation, the simulation never runs past the target time the view has set, and the
  target is never more than one second of simulated time after what the view shows, at any speed the control allows.
\<close>

theorem viz_lag:
  assumes "viz_run as = Inr s"
  shows "shown_time s \<le> sim_now s \<and> sim_now s \<le> target_time s \<and> target_time s \<le> shown_time s + 1"
  using viz_run_inv [OF assms] by (simp add: viz_inv_def time_ok_def)

theorem viz_lag_witness: "\<exists>s. viz_run busy_run = Inr s \<and> target_time s = 1 / 10 \<and> shown_time s \<le> sim_now s"
proof -
  obtain s where s: "viz_run busy_run = Inr s" "target_time s = 1 / 10" using busy_run_state by blast
  then show ?thesis using viz_lag [OF s(1)] by blast
qed

text \<open>Only an exception loses messages.\<close>

lemma set_active_lost [simp]: "lost_messages (set_active b s) = lost_messages s" "lost_messages (speed_changed v s) = lost_messages s"
  using set_active_core(1) [of s b] speed_core(1) [of s v] by (simp_all add: same_core_def)

lemma act_lost:
  assumes "viz_act s a = Inr t" and "a \<noteq> View_raises"
  shows "lost_messages t = lost_messages s"
proof (cases a)
  case (Sim u ms)
  then show ?thesis using assms by (cases "sim_pc s") (clarsimp simp: sim_next_def split: if_splits)+
next
  case View
  show ?thesis
  proof (cases "view_pc s = VAfter")
    case True
    then show ?thesis using assms View by (auto simp: view_next_def finish_timeout_def return_to_loop_def Let_def)
  qed (use assms View in \<open>cases "view_pc s"; clarsimp simp: view_next_def return_to_loop_def split: if_splits\<close>)
qed (use assms in \<open>auto simp: quit_handler_def split: if_splits option.splits\<close>)

lemma run_lost: "foldM_r viz_act s as = Inr t \<Longrightarrow> View_raises \<notin> set as \<Longrightarrow> lost_messages t = lost_messages s"
proof (induction as arbitrary: s)
  case (Cons a as)
  then obtain u where u: "viz_act s a = Inr u" "foldM_r viz_act u as = Inr t" by (auto simp: bind_r_eq_Inr_iff)
  then show ?case using Cons.IH [OF u(2)] Cons.prems(2) act_lost [OF u(1)] by auto
qed simp

text \<open>
  C10: Pause messages are neither repeated nor reordered, and lost only by an exception: what the simulator has emitted is, in this order, what the dialogs have shown mixed with
  what was lost, each in its own order, then what the running callback has taken, then what waits for the next one, and outside a callback nothing
  is taken. As long as \<open>update_view\<close> does not raise, nothing is lost. A callback in which it raises loses just the messages it had taken; its timer is
  gone, although the play button keeps its state.
\<close>

theorem pause_messages_kept:
  assumes "viz_run as = Inr s"
  shows "(\<exists>e \<in> shuffles (dialogs s) (lost_messages s). emitted s = e @ taken_messages s @ pause_messages s) \<and>
    (in_loop s \<longrightarrow> taken_messages s = []) \<and>
    (View_raises \<notin> set as \<longrightarrow> lost_messages s = [] \<and> emitted s = dialogs s @ taken_messages s @ pause_messages s) \<and>
    (view_pc s = VHold \<longrightarrow> (\<exists>t. viz_act s View_raises = Inr t \<and> lost_messages t = lost_messages s @ taken_messages s \<and> dialogs t = dialogs s \<and>
       pause_messages t = pause_messages s \<and> taken_messages t = [] \<and> play_active t = play_active s \<and> hd (dispatching s) \<notin> fst ` set (live_timers t)))"
proof -
  have m: "messages_ok s" using viz_run_inv [OF assms] by (simp add: viz_inv_def)
  moreover have "lost_messages s = []" if "View_raises \<notin> set as"
    using run_lost [OF assms [unfolded viz_run_def] that] by (simp add: viz_start_def)
  moreover have "hd (dispatching s) \<notin> fst ` set (live_timers (source_remove (hd (dispatching s)) s))" by (auto simp: source_remove_def)
  ultimately show ?thesis by (auto simp: messages_ok_def in_loop_def view_raises_def return_to_loop_def)
qed

definition message_run :: "action list" where
  "message_run = [Toggle, Fire 1, View, View, View, Sim 0 [], Sim 0 [], Sim 0 [], Sim 0 [], Sim 0 [], Sim (1 / 20) [], Sim 0 [''a''], Sim 0 [], Fire 1, View, View, View]"

lemma message_run_state: "\<exists>s. viz_run message_run = Inr s \<and> dialogs s = [''a''] \<and> in_loop s \<and> \<not> play_active s"
  by (simp add: viz_eval message_run_def)

theorem pause_messages_kept_witness: "\<exists>s. viz_run message_run = Inr s \<and> emitted s = [''a''] @ pause_messages s"
proof -
  obtain s where s: "viz_run message_run = Inr s" "dialogs s = [''a'']" "in_loop s" using message_run_state by blast
  moreover have "View_raises \<notin> set message_run" by (simp add: message_run_def)
  ultimately show ?thesis using pause_messages_kept [OF s(1)] by auto
qed

section \<open>Closing the window\<close>

text \<open>Each step between \<open>_quit\<close> and \<open>main_quit\<close> brings the end nearer.\<close>

primrec sim_rank :: "sim_pc \<Rightarrow> nat" where
  "sim_rank SDone = 0"
| "sim_rank SLoop = 1"
| "sim_rank SRelease = 2"
| "sim_rank SMessages = 3"
| "sim_rank SRun = 4"
| "sim_rank SAcquire = 5"
| "sim_rank SCheck = 1"
| "sim_rank SClear = 2"
| "sim_rank SWait = 3"

definition quit_rank :: "viz \<Rightarrow> nat" where
  "quit_rank s = sim_rank (sim_pc s) + (if view_pc s = VSetGo then 2 else if view_pc s = VJoin then 1 else 0)"

definition closing :: "viz \<Rightarrow> bool" where
  "closing s \<longleftrightarrow> viz_inv s \<and> (main_quit s \<or> view_pc s \<in> {VSetGo, VJoin})"

definition closing_step :: "viz \<Rightarrow> viz \<Rightarrow> bool" where
  "closing_step s t \<longleftrightarrow> \<not> main_quit s \<and> (\<exists>a. viz_act s a = Inr t)"

lemma closing_actions:
  assumes "closing s" and "\<not> main_quit s" and "viz_act s a = Inr t"
  shows "a = View \<or> (\<exists>u ms. a = Sim u ms)"
  using assms by (cases a) (auto simp: closing_def in_loop_def view_raises_def)

lemma closing_sim:
  assumes "closing s" and "\<not> main_quit s" and "sim_next u ms s = Inr t"
  shows "view_pc t = view_pc s \<and> main_quit t = main_quit s \<and> sim_rank (sim_pc t) < sim_rank (sim_pc s)"
proof -
  have "quit s" using assms by (auto simp: closing_def viz_inv_def quit_ok_def)
  then show ?thesis using assms(3) by (cases "sim_pc s") (clarsimp simp: sim_next_def split: if_splits)+
qed

lemma closing_view:
  assumes "closing s" and "\<not> main_quit s" and "view_next s = Inr t"
  shows "(view_pc t = VJoin \<and> view_pc s = VSetGo \<or> main_quit t \<and> view_pc t \<notin> {VSetGo, VJoin}) \<and> sim_pc t = sim_pc s \<and> quit_rank t < quit_rank s"
  using assms by (auto simp: closing_def view_next_def return_to_loop_def quit_rank_def split: if_splits)

lemma closing_progress:
  assumes "closing s" and "\<not> main_quit s"
  shows "\<exists>a t. viz_act s a = Inr t"
proof (cases "view_pc s = VSetGo")
  case True
  then have "viz_act s View = Inr (s\<lparr>go := True, view_pc := VJoin\<rparr>)" by (simp add: view_next_def)
  then show ?thesis by blast
next
  case False
  then have v: "view_pc s = VJoin" and i: "lock_ok s" "quit_ok s" using assms by (auto simp: closing_def viz_inv_def)
  show ?thesis
  proof (cases "sim_pc s = SDone")
    case True
    with v have "viz_act s View = Inr (return_to_loop (s\<lparr>main_quit := True\<rparr>))" by (simp add: view_next_def)
    then show ?thesis by blast
  next
    case False
    have "lock s = None" if "sim_pc s = SAcquire" using i(1) that v by (cases "lock s"; cases "the (lock s)") (auto simp: lock_ok_def)
    then have "\<exists>t. viz_act s (Sim (sim_now s) []) = Inr t" using False i(2) v by (cases "sim_pc s") (auto simp: sim_next_def quit_ok_def)
    then show ?thesis by blast
  qed
qed

interpretation closing: finite_system closing_step closing quit_rank main_quit
proof
  fix s t assume s: "closing s" "closing_step s t"
  then obtain a where a: "\<not> main_quit s" "viz_act s a = Inr t" by (auto simp: closing_step_def)
  have i: "viz_inv t" using viz_act_inv a(2) s(1) by (auto simp: closing_def)
  have v: "view_pc s \<in> {VSetGo, VJoin}" using s a by (auto simp: closing_def)
  consider "view_next s = Inr t" | u ms where "sim_next u ms s = Inr t" using closing_actions [OF s(1) a] a(2) by auto
  then show "closing t" using i v closing_view [OF s(1) a(1)] closing_sim [OF s(1) a(1)] by cases (fastforce simp: closing_def)+
  consider "view_next s = Inr t" | u ms where "sim_next u ms s = Inr t" using closing_actions [OF s(1) a] a(2) by auto
  then show "quit_rank t < quit_rank s" using closing_view [OF s(1) a(1)] closing_sim [OF s(1) a(1)] by cases (simp, simp add: quit_rank_def)
qed (use closing_progress in \<open>unfold closing_step_def; blast\<close>)

lemma main_quit_stays:
  assumes "viz_act s a = Inr t" and "main_quit s"
  shows "main_quit t"
proof (cases a)
  case (Sim u ms)
  then show ?thesis using assms by (cases "sim_pc s") (clarsimp simp: sim_next_def split: if_splits)+
next
  case View
  show ?thesis
  proof (cases "view_pc s = VAfter")
    case True
    then show ?thesis using assms View set_active_core(1) [where b = False and s = "s\<lparr>dialogs := dialogs s @ taken_messages s, taken_messages := []\<rparr>"]
      by (auto simp: view_next_def finish_timeout_def return_to_loop_def Let_def same_core_def)
  qed (use assms View in \<open>cases "view_pc s"; clarsimp simp: view_next_def return_to_loop_def split: if_splits\<close>)
next
  case Toggle
  then show ?thesis using assms set_active_core(1) by (auto simp: same_core_def split: if_splits)
next
  case (Speed v)
  then show ?thesis using assms speed_core(1) by (auto simp: same_core_def split: if_splits)
qed (use assms in \<open>auto simp: quit_handler_def view_raises_def return_to_loop_def split: if_splits option.splits\<close>)

lemma closing_run:
  "foldM_r viz_act s bs = Inr u \<Longrightarrow> \<not> main_quit u \<Longrightarrow> (closing_step ^^ length bs) s u \<and> \<not> main_quit s"
proof (induction bs arbitrary: s)
  case (Cons b bs)
  then obtain t where t: "viz_act s b = Inr t" "foldM_r viz_act t bs = Inr u" by (auto simp: bind_r_eq_Inr_iff)
  with Cons.IH [OF t(2) Cons.prems(2)] main_quit_stays [OF t(1)] have "closing_step s t" by (auto simp: closing_step_def)
  then show ?case using Cons.IH [OF t(2) Cons.prems(2)] main_quit_stays [OF t(1)]
    by (metis length_Cons relpowp_Suc_I2)
qed simp

text \<open>
  C9: Closing the window always ends the program: after \<open>_quit\<close> has started, wherever the simulation thread then is (waiting for \<open>go\<close>, about to clear it, waiting
  for the lock or running the simulator) and whichever thread is scheduled next, at most six steps pass before the join returns and the main loop is
  told to quit, and until then some thread can go on; \<open>go\<close> set after \<open>quit\<close> is what excludes a lost wake-up.
\<close>

theorem quit_ends:
  assumes "viz_run as = Inr s" and "viz_act s Quit = Inr t" and "foldM_r viz_act t bs = Inr u" and "\<not> main_quit u"
  shows "length bs \<le> 6 \<and> (\<exists>b v. viz_act u b = Inr v)"
proof -
  have c: "closing t" using assms(1,2) viz_act_inv [OF viz_run_inv [OF assms(1)] assms(2)]
    by (auto simp: closing_def quit_handler_def split: if_splits option.splits)
  note b = closing.run_bound [OF conjunct1 [OF closing_run [OF assms(3,4)]] c]
  have "quit_rank t \<le> 7" by (cases "sim_pc t") (simp_all add: quit_rank_def)
  moreover have "0 < quit_rank u" using b assms(4) by (auto simp: closing_def quit_rank_def)
  ultimately show ?thesis using b closing_progress assms(4) by auto
qed

theorem quit_ends_witness:
  "\<exists>s t u. viz_run (butlast busy_run) = Inr s \<and> viz_act s Quit = Inr t \<and> viz_act t (Sim 0 []) = Inr u \<and> (\<exists>b v. viz_act u b = Inr v)"
proof -
  have "\<exists>s t u. viz_run (butlast busy_run) = Inr s \<and> viz_act s Quit = Inr t \<and> foldM_r viz_act t [Sim 0 []] = Inr u \<and> \<not> main_quit u"
    by (simp add: viz_eval busy_run_def)
  then obtain s t u where r: "viz_run (butlast busy_run) = Inr s" "viz_act s Quit = Inr t" "foldM_r viz_act t [Sim 0 []] = Inr u" "\<not> main_quit u" by blast
  then have "viz_act t (Sim 0 []) = Inr u" by (auto simp: bind_r_eq_Inr_iff)
  then show ?thesis using quit_ends [OF r] r by blast
qed

section \<open>Timers\<close>

text \<open>The identifiers of the live timers have been given out.\<close>

definition timers_ok :: "viz \<Rightarrow> bool" where
  "timers_ok s \<longleftrightarrow> (\<forall>k i. (k, i) \<in> set (live_timers s) \<longrightarrow> k < next_id s)"

lemma timers_less: "timers_ok s \<Longrightarrow> k \<in> fst ` set (live_timers s) \<Longrightarrow> k < next_id s"
  by (auto simp: timers_ok_def)

lemma timers_ok_fewer: "timers_ok s \<Longrightarrow> set (live_timers t) \<subseteq> set (live_timers s) \<Longrightarrow> next_id t = next_id s \<Longrightarrow> timers_ok t"
  by (auto simp: timers_ok_def)

lemma source_remove_timers [simp]:
  "next_id (source_remove i s) = next_id s" "update_timeout_id (source_remove i s) = update_timeout_id s"
  "fst ` set (live_timers (source_remove i s)) = fst ` set (live_timers s) - {i}" "set (live_timers (source_remove i s)) \<subseteq> set (live_timers s)"
  by (auto simp: source_remove_def)

lemma remove_timer_timers:
  "timers_ok s \<Longrightarrow> timers_ok (remove_timer s)" "next_id (remove_timer s) = next_id s"
  by (auto simp: remove_timer_def timers_ok_def source_remove_def split: option.split)

lemma start_timer_timers:
  "timers_ok s \<Longrightarrow> timers_ok (start_update_timer s)"
  using remove_timer_timers [of s] by (auto simp: start_update_timer_def Let_def timers_ok_def less_Suc_eq)

lemma set_active_timers: "timers_ok s \<Longrightarrow> timers_ok (set_active b s)"
  using start_timer_timers [of "s\<lparr>play_active := b\<rparr>"] remove_timer_timers(1) [of "s\<lparr>play_active := b\<rparr>"]
  by (cases b) (simp_all add: set_active_def play_button_toggled_def timers_ok_def)

lemma finish_timeout_timers:
  assumes "timers_ok s"
  shows "timers_ok (finish_timeout s)"
proof -
  let ?d = "s\<lparr>dialogs := dialogs s @ taken_messages s, taken_messages := []\<rparr>"
  have "timers_ok ?d" using assms by (simp add: timers_ok_def)
  from set_active_timers [OF this, of False] assms show ?thesis
    by (auto simp: finish_timeout_def return_to_loop_def source_remove_def timers_ok_def Let_def)
qed

lemma viz_act_timers:
  assumes "timers_ok s" and "viz_act s a = Inr t"
  shows "timers_ok t"
proof (cases a)
  case (Sim u ms)
  then show ?thesis using assms by (cases "sim_pc s"; clarsimp simp: sim_next_def split: if_splits; simp add: timers_ok_def)
next
  case View
  show ?thesis
  proof (cases "view_pc s = VAfter")
    case True
    then show ?thesis using assms View finish_timeout_timers by (auto simp: view_next_def)
  qed (use assms View in \<open>cases "view_pc s"; clarsimp simp: view_next_def return_to_loop_def split: if_splits; simp add: timers_ok_def\<close>)
next
  case (Speed v)
  have "timers_ok (s\<lparr>speed := v, sample_period := SAMPLE_PERIOD * v\<rparr>)" using assms(1) by (simp add: timers_ok_def)
  then show ?thesis using Speed assms(2) start_timer_timers by (auto simp: speed_changed_def split: if_splits)
next
  case Toggle
  then show ?thesis using assms set_active_timers by (auto split: if_splits)
next
  case View_raises
  then have t: "live_timers t = live_timers (source_remove (hd (dispatching s)) s)" "next_id t = next_id s"
    using assms(2) by (auto simp: view_raises_def return_to_loop_def split: if_splits)
  show ?thesis by (rule timers_ok_fewer [OF assms(1) _ t(2)]) (simp add: t(1))
next
  case Quit
  then have "live_timers t = live_timers s \<or> (\<exists>i. live_timers t = live_timers (source_remove i s))" and t: "next_id t = next_id s"
    using assms(2) by (auto simp: quit_handler_def split: if_splits option.splits)
  then have "set (live_timers t) \<subseteq> set (live_timers s)" by (metis source_remove_timers(4) order_refl)
  then show ?thesis by (rule timers_ok_fewer [OF assms(1) _ t])
qed (use assms in \<open>clarsimp split: if_splits; simp add: timers_ok_def\<close>)+

interpretation timers: event_system viz_act timers_ok
  by unfold_locales (rule viz_act_timers)

text \<open>
  A live timer that finds the lock free and no messages, while the button is pressed, updates the view, gives the signal and stays.
\<close>

lemma fire_signals:
  assumes "view_pc s = VMain" and "\<not> main_quit s" and "dispatching s = []" and "k \<in> fst ` set (live_timers s)" and "lock s = None"
    and "pause_messages s = []" and "play_active s"
  shows "\<exists>t. foldM_r viz_act s [Fire k, View, View, View] = Inr t \<and> go t \<and> shown_time t = sim_now s \<and> live_timers t = live_timers s"
  using assms by (simp add: view_next_def in_loop_def finish_timeout_def return_to_loop_def Let_def)

lemma forget_and_start:
  assumes "view_pc s = VAfter" and "dispatching s = [i]" and "\<not> main_quit s" and "\<not> play_active s"
  shows "\<exists>u. foldM_r viz_act s [View, Toggle] = Inr u \<and> update_timeout_id u = Some (next_id s) \<and> view_pc u = VMain \<and> \<not> main_quit u \<and>
    dispatching u = [] \<and> play_active u \<and> lock u = lock s \<and> pause_messages u = pause_messages s \<and> sim_now u = sim_now s \<and>
    fst ` set (live_timers u) = insert (next_id s) (fst ` set (live_timers s) - {i})"
  using assms by (cases "taken_messages s = []"; simp add: view_next_def finish_timeout_def return_to_loop_def in_loop_def set_active_def
      play_button_toggled_def start_update_timer_def remove_timer_def source_remove_def Let_def; force simp: image_iff)

text \<open>
  C11: One update timer is meant to be live, since a new one is started only after the old one is removed. But a callback that ends with the button released
  forgets whatever timer is registered, not only its own. When that is another one, which was started while the callback waited for the lock and is still live, the next press
  of the button starts a second timer and leaves both live; and when the lock is free and no message waits, either of them then updates the view, gives the simulation thread
  its signal, and leaves both live.
\<close>

theorem two_timers:
  assumes "viz_run as = Inr s" and "view_pc s = VAfter" and "dispatching s = [i]" and "\<not> main_quit s" and "\<not> play_active s"
    and "update_timeout_id s = Some j" and "j \<in> fst ` set (live_timers s)" and "j \<noteq> i"
  shows "\<exists>u. foldM_r viz_act s [View, Toggle] = Inr u \<and> update_timeout_id u = Some (next_id s) \<and> j \<noteq> next_id s \<and>
    {j, next_id s} \<subseteq> fst ` set (live_timers u) \<and>
    (lock s = None \<and> pause_messages s = [] \<longrightarrow> (\<forall>k \<in> {j, next_id s}. \<exists>t. foldM_r viz_act u [Fire k, View, View, View] = Inr t \<and>
       go t \<and> shown_time t = sim_now s \<and> {j, next_id s} \<subseteq> fst ` set (live_timers t)))"
proof -
  have "timers_ok viz_start" by (simp add: viz_start_def speed_changed_def start_update_timer_def remove_timer_def timers_ok_def Let_def)
  then have "timers_ok s" using timers.run_inv assms(1) unfolding viz_run_def by blast
  then have j: "j \<noteq> next_id s" using timers_less assms(7) by blast
  obtain u where u: "foldM_r viz_act s [View, Toggle] = Inr u" "update_timeout_id u = Some (next_id s)" "view_pc u = VMain" "\<not> main_quit u"
      "dispatching u = []" "play_active u" "lock u = lock s" "pause_messages u = pause_messages s" "sim_now u = sim_now s"
      "fst ` set (live_timers u) = insert (next_id s) (fst ` set (live_timers s) - {i})"
    using forget_and_start [OF assms(2-5)] by blast
  then have l: "{j, next_id s} \<subseteq> fst ` set (live_timers u)" using assms(7,8) by auto
  have "\<exists>t. foldM_r viz_act u [Fire k, View, View, View] = Inr t \<and> go t \<and> shown_time t = sim_now s \<and> {j, next_id s} \<subseteq> fst ` set (live_timers t)"
    if "lock s = None" "pause_messages s = []" "k \<in> {j, next_id s}" for k
  proof -
    have "k \<in> fst ` set (live_timers u)" and free: "lock u = None" "pause_messages u = []" using that l u(7,8) by auto
    from fire_signals [OF u(3-5) this u(6)] obtain t where "foldM_r viz_act u [Fire k, View, View, View] = Inr t" "go t"
        "shown_time t = sim_now u" "live_timers t = live_timers u" by blast
    then show ?thesis using u(9) l by metis
  qed
  then show ?thesis using u(1,2) j l by blast
qed

text \<open>A press, a callback that waits, a release, a change of speed, and the callback about to end.\<close>

definition two_timers_run :: "action list" where
  "two_timers_run = [Toggle, Fire 1, View, View, View, Sim 0 [], Sim 0 [], Sim 0 [], Sim 0 [], Sim 0 [], Fire 1, View,
     Toggle, Speed 2, Sim 0 [], Sim 0 [], Sim 0 [], View, View, View]"

lemma two_timers_run_state:
  "\<exists>s. viz_run two_timers_run = Inr s \<and> view_pc s = VAfter \<and> dispatching s = [1] \<and> \<not> main_quit s \<and> \<not> play_active s \<and>
     update_timeout_id s = Some 2 \<and> live_timers s = [(2, 100)] \<and> next_id s = 3 \<and> lock s = None \<and> pause_messages s = []"
  by (simp add: viz_eval two_timers_run_def)

theorem two_timers_witness:
  "\<exists>s u t. viz_run two_timers_run = Inr s \<and> foldM_r viz_act s [View, Toggle] = Inr u \<and> {2, 3} \<subseteq> fst ` set (live_timers u) \<and>
     foldM_r viz_act u [Fire 2, View, View, View] = Inr t \<and> go t \<and> {2, 3} \<subseteq> fst ` set (live_timers t)"
proof -
  obtain s where s: "viz_run two_timers_run = Inr s" "view_pc s = VAfter" "dispatching s = [1]" "\<not> main_quit s" "\<not> play_active s"
      "update_timeout_id s = Some 2" "live_timers s = [(2, 100)]" "next_id s = 3" "lock s = None" "pause_messages s = []"
    using two_timers_run_state by blast
  then have "2 \<in> fst ` set (live_timers s)" "(2 :: nat) \<noteq> 1" by simp_all
  from two_timers [OF s(1-6) this] s(1,8-10) show ?thesis by (auto simp del: foldM_r.simps)
qed

end
