(* ===== verification/VizBase.thy ===== *)
theory VizBase
  imports Prelude PyString
begin

text \<open>
  What the parts of the simulation visualizer share, \<^verbatim>\<open>visualizer/base.py\<close>: the traits of device types, the transforms between
  simulation and canvas, and the registry of plugins; and the scalable picture of \<^verbatim>\<open>visualizer/svgitem.py\<close>. Coordinates are exact rationals.
\<close>

section \<open>Traits of device types\<close>

record NetDeviceTraits =
  is_wireless :: "bool option"
  is_virtual :: bool

definition mk_NetDeviceTraits :: "bool option \<Rightarrow> bool \<Rightarrow> NetDeviceTraits result" where
  "mk_NetDeviceTraits w v = (if v \<or> w \<noteq> None then Inr \<lparr>is_wireless = w, is_virtual = v\<rparr> else Inl AssertionError)"

text \<open>The table of the module; a key is the name of a class.\<close>

definition netdevice_traits :: "(string, NetDeviceTraits) dict" where
  "netdevice_traits =
     [(''PointToPointNetDevice'', \<lparr>is_wireless = Some False, is_virtual = False\<rparr>),
      (''CsmaNetDevice'', \<lparr>is_wireless = Some False, is_virtual = False\<rparr>),
      (''WifiNetDevice'', \<lparr>is_wireless = Some True, is_virtual = False\<rparr>),
      (''BridgeNetDevice'', \<lparr>is_wireless = None, is_virtual = True\<rparr>),
      (''LoopbackNetDevice'', \<lparr>is_wireless = Some False, is_virtual = True\<rparr>),
      (''MeshPointDevice'', \<lparr>is_wireless = None, is_virtual = True\<rparr>),
      (''SubscriberStationNetDevice'', \<lparr>is_wireless = Some True, is_virtual = False\<rparr>),
      (''BaseStationNetDevice'', \<lparr>is_wireless = Some True, is_virtual = False\<rparr>),
      (''LteUeNetDevice'', \<lparr>is_wireless = Some True, is_virtual = False\<rparr>),
      (''LteEnbNetDevice'', \<lparr>is_wireless = Some True, is_virtual = False\<rparr>)]"

text \<open>A type that is not in the table is added to it as wireless, with a warning.\<close>

definition lookup_netdevice_traits :: "string \<Rightarrow> (string, NetDeviceTraits) dict \<Rightarrow> NetDeviceTraits \<times> (string, NetDeviceTraits) dict" where
  "lookup_netdevice_traits c d =
     (case map_of d c of
        Some t \<Rightarrow> (t, d)
      | None \<Rightarrow> (let t = \<lparr>is_wireless = Some True, is_virtual = False\<rparr> in (t, AList.update c t d)))"

text \<open>A device is drawn with its links when it is neither wireless nor virtual.\<close>

definition is_wired :: "NetDeviceTraits \<Rightarrow> bool" where
  "is_wired t \<longleftrightarrow> is_wireless t \<noteq> Some True \<and> \<not> is_virtual t"

lemma lookup_again:
  "lookup_netdevice_traits c (snd (lookup_netdevice_traits c d)) = lookup_netdevice_traits c d"
  by (auto simp: lookup_netdevice_traits_def Let_def split: option.splits)

lemma lookup_traits_stable:
  "fst (lookup_netdevice_traits c (snd (lookup_netdevice_traits c' d))) = fst (lookup_netdevice_traits c d)"
  by (auto simp: lookup_netdevice_traits_def Let_def split: option.splits)

section \<open>Coordinates\<close>

type_synonym point = "rat \<times> rat"

definition PIXELS_PER_METER :: rat where "PIXELS_PER_METER = 3"

definition transform_distance_simulation_to_canvas :: "rat \<Rightarrow> rat" where
  "transform_distance_simulation_to_canvas d = d * PIXELS_PER_METER"

definition transform_point_simulation_to_canvas :: "point \<Rightarrow> point" where
  "transform_point_simulation_to_canvas p = (fst p * PIXELS_PER_METER, snd p * PIXELS_PER_METER)"

definition transform_distance_canvas_to_simulation :: "rat \<Rightarrow> rat" where
  "transform_distance_canvas_to_simulation d = d / PIXELS_PER_METER"

definition transform_point_canvas_to_simulation :: "point \<Rightarrow> point" where
  "transform_point_canvas_to_simulation p = (fst p / PIXELS_PER_METER, snd p / PIXELS_PER_METER)"

lemmas transform_defs = transform_distance_simulation_to_canvas_def transform_point_simulation_to_canvas_def
  transform_distance_canvas_to_simulation_def transform_point_canvas_to_simulation_def PIXELS_PER_METER_def

lemma transform_roundtrip [simp]:
  "transform_distance_canvas_to_simulation (transform_distance_simulation_to_canvas d) = d"
  "transform_distance_simulation_to_canvas (transform_distance_canvas_to_simulation d) = d"
  "transform_point_canvas_to_simulation (transform_point_simulation_to_canvas p) = p"
  "transform_point_simulation_to_canvas (transform_point_canvas_to_simulation p) = p"
  by (simp_all add: transform_defs)

section \<open>Plugins\<close>

text \<open>What \<open>__import__\<close> finds under a name: a module with or without \<open>register\<close>, or an import error.\<close>

datatype 'f module = Registers 'f | No_register | Import_error

record 'f registry =
  plugins :: "'f list"
  plugin_modules :: "(string, 'f module) dict"
  plugins_loaded :: bool
  warnings :: nat

definition register_plugin :: "'f \<Rightarrow> string \<Rightarrow> 'f module option \<Rightarrow> 'f registry \<Rightarrow> 'f registry" where
  "register_plugin f name m r =
     (let r = r\<lparr>plugins := plugins r @ [f]\<rparr>
      in case m of None \<Rightarrow> r | Some md \<Rightarrow> r\<lparr>plugin_modules := AList.update name md (plugin_modules r)\<rparr>)"

text \<open>\<open>os.path.splitext\<close>: the extension starts at the last dot that has something other than dots before it.\<close>

definition splitext :: "string \<Rightarrow> string \<times> string" where
  "splitext f =
     (let e = rev (takeWhile (\<lambda>c. c \<noteq> CHR ''.'') (rev f)); b = butlast (rev (dropWhile (\<lambda>c. c \<noteq> CHR ''.'') (rev f)))
      in if (\<exists>c \<in> set b. c \<noteq> CHR ''.'') then (b, CHR ''.'' # e) else (f, []))"

definition load_plugin :: "(string \<Rightarrow> 'f module) \<Rightarrow> 'f registry \<Rightarrow> string \<Rightarrow> 'f registry" where
  "load_plugin import_m r filename =
     (let (name, ext) = splitext filename
      in if ext \<noteq> ''.py'' then r
         else case import_m name of
                Import_error \<Rightarrow> r\<lparr>warnings := warnings r + 1\<rparr>
              | No_register \<Rightarrow> r\<lparr>warnings := warnings r + 1\<rparr>
              | Registers f \<Rightarrow> register_plugin f name (Some (Registers f)) r)"

definition load_plugins :: "(string \<Rightarrow> 'f module) \<Rightarrow> string list \<Rightarrow> 'f registry \<Rightarrow> 'f registry" where
  "load_plugins import_m files r =
     (if plugins_loaded r then r else foldl (load_plugin import_m) (r\<lparr>plugins_loaded := True\<rparr>) files)"

lemma load_plugin_loaded [simp]: "plugins_loaded (load_plugin i r f) = plugins_loaded r"
  by (simp add: load_plugin_def register_plugin_def Let_def split: prod.split module.split)

lemma foldl_load_loaded [simp]: "plugins_loaded (foldl (load_plugin i) r fs) = plugins_loaded r"
  by (induction fs arbitrary: r) simp_all

lemma load_plugins_once: "load_plugins i fs' (load_plugins i fs r) = load_plugins i fs r"
  by (simp add: load_plugins_def)

text \<open>The functions that a directory listing registers, in its order.\<close>

definition registered :: "(string \<Rightarrow> 'f module) \<Rightarrow> string list \<Rightarrow> 'f list" where
  "registered i fs = concat (map (\<lambda>f. case splitext f of (name, ext) \<Rightarrow>
     if ext = ''.py'' then (case i name of Registers g \<Rightarrow> [g] | _ \<Rightarrow> []) else []) fs)"

lemma foldl_load_plugins: "plugins (foldl (load_plugin i) r fs) = plugins r @ registered i fs"
  by (induction fs arbitrary: r)
    (auto simp: registered_def load_plugin_def register_plugin_def Let_def split: prod.split module.split)

lemma load_plugins_registers: "\<not> plugins_loaded r \<Longrightarrow> plugins (load_plugins i fs r) = plugins r @ registered i fs"
  by (simp add: load_plugins_def foldl_load_plugins)

section \<open>Scalable pictures\<close>

record SvgItem =
  svg_x :: rat
  svg_y :: rat
  svg_sx :: rat
  svg_sy :: rat
  handle_width :: rat
  handle_height :: rat
  svg_width :: rat
  svg_height :: rat
  custom_width :: "rat option"
  custom_height :: "rat option"

definition new_SvgItem :: "rat \<Rightarrow> rat \<Rightarrow> rat \<Rightarrow> rat \<Rightarrow> SvgItem" where
  "new_SvgItem x y hw hh =
     \<lparr>svg_x = x, svg_y = y, svg_sx = 1, svg_sy = 1, handle_width = hw, handle_height = hh, svg_width = hw, svg_height = hh,
      custom_width = None, custom_height = None\<rparr>"

definition size_changed :: "SvgItem \<Rightarrow> SvgItem result" where
  "size_changed s =
     (case (custom_width s, custom_height s) of
        (None, None) \<Rightarrow> Inr (s\<lparr>svg_width := handle_width s, svg_height := handle_height s, svg_sx := 1, svg_sy := 1\<rparr>)
      | (Some w, None) \<Rightarrow>
          if handle_width s = 0 then Inl ZeroDivisionError
          else Inr (s\<lparr>svg_width := w, svg_sx := w / handle_width s, svg_sy := w / handle_width s, svg_height := handle_height s * (w / handle_width s)\<rparr>)
      | (None, Some h) \<Rightarrow>
          if handle_height s = 0 then Inl ZeroDivisionError
          else Inr (s\<lparr>svg_height := h, svg_sy := h / handle_height s, svg_sx := h / handle_height s, svg_width := handle_width s * (h / handle_height s)\<rparr>)
      | (Some w, Some h) \<Rightarrow>
          if handle_width s = 0 \<or> handle_height s = 0 then Inl ZeroDivisionError
          else Inr (s\<lparr>svg_width := w, svg_height := h, svg_sx := w / handle_width s, svg_sy := h / handle_height s\<rparr>))"

text \<open>Setting a property; any other name raises.\<close>

definition do_set_property :: "string \<Rightarrow> rat \<Rightarrow> SvgItem \<Rightarrow> SvgItem result" where
  "do_set_property name v s =
     (if name = ''x'' then Inr (s\<lparr>svg_x := v\<rparr>)
      else if name = ''y'' then Inr (s\<lparr>svg_y := v\<rparr>)
      else if name = ''width'' then size_changed (s\<lparr>custom_width := Some v\<rparr>)
      else if name = ''height'' then size_changed (s\<lparr>custom_height := Some v\<rparr>)
      else Inl AttributeError)"

text \<open>Reading the width sets both sizes back to those of the handle.\<close>

definition do_get_property :: "string \<Rightarrow> SvgItem \<Rightarrow> (rat \<times> SvgItem) result" where
  "do_get_property name s =
     (if name = ''x'' then Inr (svg_x s, s)
      else if name = ''y'' then Inr (svg_y s, s)
      else if name = ''width'' then Inr (handle_width s, s\<lparr>svg_width := handle_width s, svg_height := handle_height s\<rparr>)
      else if name = ''height'' then Inr (svg_height s, s)
      else Inl AttributeError)"

definition do_simple_update :: "SvgItem \<Rightarrow> rat \<times> rat \<times> rat \<times> rat" where
  "do_simple_update s = (svg_x s, svg_y s, svg_x s + svg_width s, svg_y s + svg_height s)"

definition do_simple_is_item_at :: "rat \<Rightarrow> rat \<Rightarrow> SvgItem \<Rightarrow> bool" where
  "do_simple_is_item_at x y s \<longleftrightarrow> \<not> ((x < svg_x s \<or> x > svg_x s + svg_width s) \<or> (y < svg_y s \<or> y > svg_y s + svg_height s))"

text \<open>What \<open>do_simple_paint\<close> draws: the handle moved to the position and scaled.\<close>

definition do_simple_paint :: "SvgItem \<Rightarrow> rat \<times> rat \<times> rat \<times> rat" where
  "do_simple_paint s = (svg_x s, svg_y s, svg_x s + svg_sx s * handle_width s, svg_y s + svg_sy s * handle_height s)"

text \<open>The handles of the pictures are kept by name; a picture is read once.\<close>

definition rsvg_handle_factory :: "(string \<Rightarrow> 'h) \<Rightarrow> string \<Rightarrow> (string, 'h) dict \<Rightarrow> 'h \<times> (string, 'h) dict" where
  "rsvg_handle_factory read_handle f cache =
     (case map_of cache f of Some h \<Rightarrow> (h, cache) | None \<Rightarrow> (read_handle f, AList.update f (read_handle f) cache))"

lemma rsvg_cached: "rsvg_handle_factory r f (snd (rsvg_handle_factory r' f c)) = rsvg_handle_factory r' f c"
  by (auto simp: rsvg_handle_factory_def split: option.splits)

lemma size_changed_paint:
  assumes "0 < handle_width s" and "0 < handle_height s"
  shows "\<exists>t. size_changed s = Inr t \<and> do_simple_paint t = do_simple_update t \<and> handle_width t = handle_width s \<and> handle_height t = handle_height s \<and>
    svg_x t = svg_x s \<and> svg_y t = svg_y s \<and> (custom_width s = None \<or> custom_height s = None \<longrightarrow> svg_sx t = svg_sy t) \<and>
    (\<forall>w. custom_width s = Some w \<longrightarrow> svg_width t = w) \<and> (\<forall>h. custom_height s = Some h \<longrightarrow> svg_height t = h)"
  using assms by (cases "custom_width s"; cases "custom_height s") (simp_all add: size_changed_def do_simple_paint_def do_simple_update_def)

text \<open>
  Giving a picture a width keeps its proportions and its place, and the box the canvas uses for it is exactly the box that is painted; but reading
  the property \<open>width\<close> afterwards sets the box back to the size of the file, while the picture is still painted at the size it was given.
\<close>

theorem svg_box:
  assumes "0 < handle_width s" and "0 < handle_height s" and "custom_height s = None"
  shows "\<exists>t. do_set_property ''width'' w s = Inr t \<and> svg_width t = w \<and> svg_height t * handle_width s = w * handle_height s \<and>
    do_simple_paint t = do_simple_update t \<and>
    (\<exists>v u. do_get_property ''width'' t = Inr (v, u) \<and> do_simple_paint u = do_simple_paint t \<and>
      (w \<noteq> handle_width s \<longrightarrow> v \<noteq> w \<and> do_simple_update u \<noteq> do_simple_paint u))"
proof -
  let ?t = "s\<lparr>custom_width := Some w, svg_width := w, svg_sx := w / handle_width s, svg_sy := w / handle_width s, svg_height := handle_height s * (w / handle_width s)\<rparr>"
  have "do_set_property ''width'' w s = Inr ?t" using assms by (simp add: do_set_property_def size_changed_def)
  moreover have "do_simple_paint ?t = do_simple_update ?t" using assms by (simp add: do_simple_paint_def do_simple_update_def)
  ultimately show ?thesis using assms
    by (intro exI [of _ ?t]) (simp add: do_get_property_def do_simple_paint_def do_simple_update_def)
qed

theorem svg_box_witness:
  "\<exists>t. do_set_property ''width'' 30 (new_SvgItem 5 5 10 20) = Inr t \<and> svg_width t = 30 \<and> svg_height t * 10 = 30 * 20"
  using svg_box [of "new_SvgItem 5 5 10 20" 30] by (auto simp: new_SvgItem_def)

end
