(* ===== verification/VizAxes.thy ===== *)
theory VizAxes
  imports VizBase
begin

text \<open>
  The axes of the visualizer, \<^verbatim>\<open>visualizer/hud.py\<close>: the choice of the divisions, the ticks and their labels, which are canvas items taken from a pool, and showing and
  hiding. Coordinates are exact rationals, so the decimal logarithm is read as the decade whose square bounds enclose the square of the number; the corners of the
  window in canvas coordinates are inputs, and a label carries the number that is printed.
\<close>

section \<open>Decades\<close>

text \<open>\<open>rint(log10(d))\<close> for \<open>y = d * d\<close>: above and below one.\<close>

function decade_up :: "rat \<Rightarrow> int" where
  "decade_up y = (if 10 \<le> y then decade_up (y / 100) + 1 else 0)"
  by pat_completeness auto

termination
proof (relation "measure (\<lambda>y. nat \<lfloor>y\<rfloor>)")
  fix y :: rat assume "10 \<le> y"
  then have "y / 100 \<le> y - 1" by simp
  then have "\<lfloor>y / 100\<rfloor> < \<lfloor>y\<rfloor>" by linarith
  moreover have "0 < \<lfloor>y\<rfloor>" using \<open>10 \<le> y\<close> by linarith
  ultimately show "(y / 100, y) \<in> measure (\<lambda>y. nat \<lfloor>y\<rfloor>)" by simp
qed simp

function decade_down :: "rat \<Rightarrow> int" where
  "decade_down y = (if 0 < y \<and> y < 1 / 10 then decade_down (y * 100) - 1 else 0)"
  by pat_completeness auto

termination
proof (relation "measure (\<lambda>y. nat \<lfloor>1 / y\<rfloor>)")
  fix y :: rat assume y: "0 < y \<and> y < 1 / 10"
  then have "10 < 1 / y" by (simp add: pos_less_divide_eq)
  moreover have "1 / (y * 100) = (1 / y) / 100" by simp
  ultimately have "1 / (y * 100) \<le> 1 / y - 1" by linarith
  then have "\<lfloor>1 / (y * 100)\<rfloor> < \<lfloor>1 / y\<rfloor>" by linarith
  moreover have "0 < \<lfloor>1 / y\<rfloor>" using \<open>10 < 1 / y\<close> by linarith
  ultimately show "(y * 100, y) \<in> measure (\<lambda>y. nat \<lfloor>1 / y\<rfloor>)" by simp
qed simp

declare decade_up.simps [simp del] decade_down.simps [simp del]

definition decade :: "rat \<Rightarrow> int" where
  "decade d = (let y = d * d in if 10 \<le> y then decade_up y else decade_down y)"

lemma decade_up_bounds: "1 / 10 \<le> y \<Longrightarrow> 100 powi decade_up y \<le> 10 * y \<and> y < 10 * 100 powi decade_up y"
proof (induction y rule: decade_up.induct)
  case (1 y)
  show ?case
  proof (cases "10 \<le> y")
    case True
    have s: "decade_up y = decade_up (y / 100) + 1" using True by (subst decade_up.simps) simp
    have "100 powi (decade_up (y / 100) + 1) = 100 powi decade_up (y / 100) * (100 :: rat)" by (simp add: power_int_add_1)
    then show ?thesis using 1(1) [OF True] True unfolding s by simp
  next
    case False
    then have "decade_up y = 0" by (subst decade_up.simps) simp
    then show ?thesis using 1(2) False by simp
  qed
qed

lemma decade_down_bounds: "0 < y \<Longrightarrow> y < 10 \<Longrightarrow> 100 powi decade_down y \<le> 10 * y \<and> y < 10 * 100 powi decade_down y"
proof (induction y rule: decade_down.induct)
  case (1 y)
  show ?case
  proof (cases "y < 1 / 10")
    case True
    have s: "decade_down y = decade_down (y * 100) - 1" using True 1(2) by (subst decade_down.simps) simp
    have "100 powi (decade_down (y * 100) - 1) = 100 powi decade_down (y * 100) / (100 :: rat)" by (simp add: power_int_diff)
    moreover have "100 powi decade_down (y * 100) \<le> 10 * (y * 100) \<and> y * 100 < 10 * 100 powi decade_down (y * 100)" using 1(1) 1(2) True by simp
    ultimately show ?thesis unfolding s by simp
  next
    case False
    then have "decade_down y = 0" by (subst decade_down.simps) simp
    then show ?thesis using 1(3) False by simp
  qed
qed

lemma powi_100: "(100 :: rat) powi e = (10 powi e) * (10 powi e)"
  by (simp flip: power_int_mult_distrib)

lemma decade_bounds: "0 < d \<Longrightarrow> (10 powi decade d) * (10 powi decade d) \<le> 10 * (d * d) \<and> d * d < 10 * ((10 powi decade d) * (10 powi decade d))"
  using decade_up_bounds [of "d * d"] decade_down_bounds [of "d * d"] by (auto simp: decade_def Let_def powi_100)

text \<open>It is the rounded decimal logarithm of the code.\<close>

lemma decade_log:
  assumes "0 < d"
  shows "decade d = \<lfloor>log 10 (of_rat d) + 1 / 2\<rfloor>"
proof -
  let ?e = "decade d" let ?x = "of_rat d :: real"
  have x: "0 < ?x" using assms by simp
  have p: "of_rat ((10 :: rat) powi ?e) = (10 :: real) powi ?e" by (simp add: power_int_def of_rat_power of_rat_divide)
  have "of_rat ((10 powi ?e) * (10 powi ?e)) \<le> (of_rat (10 * (d * d)) :: real)" "(of_rat (d * d) :: real) < of_rat (10 * ((10 powi ?e) * (10 powi ?e)))"
    using decade_bounds [OF assms] by (simp_all only: of_rat_less_eq of_rat_less)
  then have b: "(10 powi ?e) * (10 powi ?e) \<le> 10 * (?x * ?x)" "?x * ?x < 10 * ((10 powi ?e) * (10 powi ?e))" by (simp_all add: of_rat_mult p)
  have l: "log 10 ((10 :: real) powi ?e) = of_int ?e" by (simp add: powr_real_of_int' [symmetric])
  have "log 10 ((10 powi ?e) * (10 powi ?e)) \<le> log 10 (10 * (?x * ?x))" using b(1) x by (subst log_le_cancel_iff) simp_all
  moreover have "log 10 (?x * ?x) < log 10 (10 * ((10 powi ?e) * (10 powi ?e)))" using b(2) x by (subst log_less_cancel_iff) simp_all
  ultimately have "2 * of_int ?e \<le> 1 + 2 * log 10 ?x" "2 * log 10 ?x < 1 + 2 * (of_int ?e :: real)" using x by (simp_all add: log_mult l)
  then show ?thesis by linarith
qed

section \<open>Divisions\<close>

definition rint :: "rat \<Rightarrow> int" where
  "rint x = \<lfloor>x + 1 / 2\<rfloor>"

text \<open>One turn of the loop: the number of divisions, which no later turn reads, and the start and the length of a division.\<close>

definition division_turn :: "rat \<Rightarrow> rat \<Rightarrow> nat \<Rightarrow> int \<times> rat \<times> rat \<Rightarrow> int \<times> rat \<times> rat" where
  "division_turn xi xf n st =
     (let dx = xf - xi; sz = dx; text_width = dx / 5 / 2; dx_over_ndiv = dx / 5;
          dv = 10 powi (decade dx_over_ndiv);
          dv = (if \<bar>dv / 2 - dx_over_ndiv\<bar> < \<bar>dv - dx_over_ndiv\<bar> then dv / 2
                 else if \<bar>dv * 2 - dx_over_ndiv\<bar> < \<bar>dv - dx_over_ndiv\<bar> then dv * 2 else dv);
          x0 = dv * of_int \<lceil>xi / dv\<rceil> - dv
      in (if n > 1 then rint (sz / text_width) else fst st, x0, dv))"

definition compute_divisions :: "rat \<Rightarrow> rat \<Rightarrow> (rat \<times> rat) result" where
  "compute_divisions xi xf =
     (if xf > xi then Inr (snd (fold (division_turn xi xf) [0..<5] (5, 0, 0))) else Inl AssertionError)"

text \<open>The loop \<open>while x < sim_x2\<close>; a division is positive.\<close>

function ticks :: "rat \<Rightarrow> rat \<Rightarrow> rat \<Rightarrow> rat list" where
  "ticks x dv xf = (if 0 < dv \<and> x < xf then x # ticks (x + dv) dv xf else [])"
  by pat_completeness auto

termination
proof (relation "measure (\<lambda>(x, dv, xf). nat \<lceil>(xf - x) / dv\<rceil>)")
  fix x dv xf :: rat assume a: "0 < dv \<and> x < xf"
  then have e: "(xf - (x + dv)) / dv = (xf - x) / dv - 1" by (simp add: field_simps)
  have "0 < (xf - x) / dv" using a by simp
  then show "((x + dv, dv, xf), x, dv, xf) \<in> measure (\<lambda>(x, dv, xf). nat \<lceil>(xf - x) / dv\<rceil>)" using e by simp
qed simp

declare ticks.simps [simp del]

lemma ticks_eq: "0 < dv \<Longrightarrow> ticks x dv xf = map (\<lambda>j. x + of_nat j * dv) [0..<nat \<lceil>(xf - x) / dv\<rceil>]"
proof (induction x dv xf rule: ticks.induct)
  case (1 x dv xf)
  show ?case
  proof (cases "x < xf")
    case True
    let ?k = "nat \<lceil>(xf - (x + dv)) / dv\<rceil>"
    have "(xf - (x + dv)) / dv = (xf - x) / dv - 1" using 1(2) by (simp add: field_simps)
    moreover have "0 < (xf - x) / dv" using True 1(2) by simp
    ultimately have k: "nat \<lceil>(xf - x) / dv\<rceil> = Suc ?k" by simp linarith
    have "ticks x dv xf = x # ticks (x + dv) dv xf" using True 1(2) by (subst ticks.simps) simp
    also have "\<dots> = x # map (\<lambda>j. x + dv + of_nat j * dv) [0..<?k]" using 1 True by simp
    also have "\<dots> = map (\<lambda>j. x + of_nat j * dv) [0..<Suc ?k]"
      by (rule nth_equalityI) (auto simp: nth_Cons algebra_simps simp del: upt_Suc split: nat.split)
    finally show ?thesis using k by simp
  next
    case False
    then have "(xf - x) / dv \<le> 0" using 1(2) by (simp add: divide_le_0_iff)
    then show ?thesis using False by (subst ticks.simps) simp
  qed
qed

lemma division_turn_snd: "snd (division_turn xi xf n st) = snd (division_turn xi xf 0 (5, 0, 0))"
  by (simp add: division_turn_def Let_def)

text \<open>The five turns compute the same thing.\<close>

lemma division_turns: "js \<noteq> [] \<Longrightarrow> snd (fold (division_turn xi xf) js st) = snd (division_turn xi xf 0 (5, 0, 0))"
proof (cases js rule: rev_cases)
  case (snoc ks j)
  then show ?thesis using division_turn_snd [of xi xf j "fold (division_turn xi xf) ks st"] by simp
qed simp

lemma compute_divisions_once: "xi < xf \<Longrightarrow> compute_divisions xi xf = Inr (snd (division_turn xi xf 0 (5, 0, 0)))"
  using division_turns [of "[0..<5]" xi xf "(5, 0, 0)"] by (simp add: compute_divisions_def del: upt_Suc)

lemma square_mono: "0 \<le> (x :: rat) \<Longrightarrow> x < y \<Longrightarrow> x * x < y * y" "0 \<le> (x :: rat) \<Longrightarrow> x \<le> y \<Longrightarrow> x * x \<le> y * y"
  by (auto intro: mult_strict_mono' mult_mono)

lemma division_bounds:
  fixes d D :: rat
  assumes "0 < d" and "0 < D" and "D * D \<le> 10 * (d * d)" and "d * d < 10 * (D * D)"
  defines "v \<equiv> (if \<bar>D / 2 - d\<bar> < \<bar>D - d\<bar> then D / 2 else if \<bar>D * 2 - d\<bar> < \<bar>D - d\<bar> then D * 2 else D)"
  shows "2 * (v * v) \<le> 5 * (d * d) \<and> 2 * (d * d) < 5 * (v * v)"
proof -
  consider (half) "v = D / 2" "4 * d < 3 * D" | (double) "v = D * 2" "3 * D < 2 * d" | (same) "v = D" "3 * D \<le> 4 * d" "2 * d \<le> 3 * D"
    using assms(1,2) unfolding v_def by (cases "\<bar>D / 2 - d\<bar> < \<bar>D - d\<bar>"; cases "\<bar>D * 2 - d\<bar> < \<bar>D - d\<bar>") (auto simp: abs_if split: if_splits)
  then show ?thesis
  proof cases
    case half
    have "16 * (d * d) < 9 * (D * D)" using square_mono(1) [OF _ half(2)] assms(1) by simp
    moreover have "v * v = D * D / 4" by (simp add: half(1))
    ultimately show ?thesis using assms(3) by linarith
  next
    case double
    have "9 * (D * D) < 4 * (d * d)" using square_mono(1) [OF _ double(2)] assms(2) by simp
    moreover have "v * v = 4 * (D * D)" by (simp add: double(1))
    ultimately show ?thesis using assms(4) by linarith
  next
    case same
    have "9 * (D * D) \<le> 16 * (d * d)" "4 * (d * d) \<le> 9 * (D * D)" using square_mono(2) [OF _ same(2)] square_mono(2) [OF _ same(3)] assms(1,2) by simp_all
    moreover have "v * v = D * D" by (simp add: same(1))
    ultimately show ?thesis using mult_pos_pos [OF assms(2) assms(2)] by linarith
  qed
qed

text \<open>
  C18: For every window the axis has between four and nine ticks, the consecutive multiples of a division that is one, two or five times a power of ten: the first is at most one division
  before the window, the last is inside it, and one more would be at or past its end. Each of the five turns of the loop that looks for the division computes the same one, whatever the turns before it left.
\<close>

theorem axis_ticks:
  assumes "xi < xf"
  shows "\<exists>x0 dv. compute_divisions xi xf = Inr (x0, dv) \<and> (\<exists>c e. c \<in> {1, 2, 5} \<and> dv = c * 10 powi e) \<and>
    (\<exists>k. ticks x0 dv xf = map (\<lambda>j. of_int (k + int j) * dv) [0..<length (ticks x0 dv xf)]) \<and>
    hd (ticks x0 dv xf) = x0 \<and> x0 < xi \<and> xi \<le> x0 + dv \<and> 4 \<le> length (ticks x0 dv xf) \<and> length (ticks x0 dv xf) \<le> 9 \<and>
    last (ticks x0 dv xf) < xf \<and> xf \<le> last (ticks x0 dv xf) + dv \<and>
    (\<forall>n st. snd (division_turn xi xf n st) = (x0, dv))"
proof -
  define d where "d = (xf - xi) / 5"
  define D where "D = (10 :: rat) powi decade d"
  define v where "v = (if \<bar>D / 2 - d\<bar> < \<bar>D - d\<bar> then D / 2 else if \<bar>D * 2 - d\<bar> < \<bar>D - d\<bar> then D * 2 else D)"
  define x0 where "x0 = v * of_int \<lceil>xi / v\<rceil> - v"
  have d: "0 < d" and D: "0 < D" using assms by (simp_all add: d_def D_def)
  have c: "compute_divisions xi xf = Inr (x0, v)" unfolding compute_divisions_once [OF assms]
    by (simp add: division_turn_def Let_def x0_def v_def D_def d_def)
  have v: "0 < v" using D by (simp add: v_def)
  have b: "2 * (v * v) \<le> 5 * (d * d)" "2 * (d * d) < 5 * (v * v)"
    using division_bounds [OF d D] decade_bounds [OF d] unfolding v_def D_def by blast+
  have five: "D / 2 = 5 * 10 powi (decade d - 1)" by (simp add: D_def power_int_diff)
  have m: "\<exists>c e. c \<in> {1, 2, 5} \<and> v = c * 10 powi e"
  proof -
    consider "v = D / 2" | "v = D * 2" | "v = D" by (metis v_def)
    then show ?thesis
    proof cases
      case 1
      then show ?thesis using five by (intro exI [of _ 5] exI [of _ "decade d - 1"]) simp
    next
      case 2
      then show ?thesis by (intro exI [of _ 2] exI [of _ "decade d"]) (simp add: D_def)
    next
      case 3
      then show ?thesis by (intro exI [of _ 1] exI [of _ "decade d"]) (simp add: D_def)
    qed
  qed
  have k: "x0 = of_int (\<lceil>xi / v\<rceil> - 1) * v" by (simp add: x0_def algebra_simps)
  have "xi \<le> of_int \<lceil>xi / v\<rceil> * v" using le_of_int_ceiling [of "xi / v"] by (simp only: pos_divide_le_eq [OF v])
  moreover have "of_int \<lceil>xi / v\<rceil> < xi / v + 1" by linarith
  ultimately have x: "xi \<le> x0 + v" "x0 < xi" using v by (simp_all add: x0_def field_simps)
  have lo: "3 * v < 5 * d"
  proof (rule ccontr)
    assume "\<not> 3 * v < 5 * d"
    then have "25 * (d * d) \<le> 9 * (v * v)" using square_mono(2) [of "5 * d" "3 * v"] d by simp
    then show False using b(1) mult_pos_pos [OF v v] by linarith
  qed
  have hi: "5 * d < 8 * v"
  proof (rule ccontr)
    assume "\<not> 5 * d < 8 * v"
    then have "64 * (v * v) \<le> 25 * (d * d)" using square_mono(2) [of "8 * v" "5 * d"] v by simp
    then show False using b(2) mult_pos_pos [OF v v] by linarith
  qed
  have "3 < (xf - x0) / v" "(xf - x0) / v < 9" using lo hi x v by (simp_all add: d_def pos_less_divide_eq pos_divide_less_eq)
  then have n: "4 \<le> nat \<lceil>(xf - x0) / v\<rceil>" "nat \<lceil>(xf - x0) / v\<rceil> \<le> 9" by linarith+
  let ?n = "nat \<lceil>(xf - x0) / v\<rceil>"
  have e: "ticks x0 v xf = map (\<lambda>j. x0 + of_nat j * v) [0..<?n]" by (rule ticks_eq [OF v])
  then have len: "length (ticks x0 v xf) = ?n" by simp
  have "x0 + of_nat j * v = of_int (\<lceil>xi / v\<rceil> - 1 + int j) * v" for j by (simp add: k algebra_simps)
  then have mult: "ticks x0 v xf = map (\<lambda>j. of_int (\<lceil>xi / v\<rceil> - 1 + int j) * v) [0..<length (ticks x0 v xf)]"
    unfolding len unfolding e by simp
  have ends: "0 < k \<Longrightarrow> hd (map f [0..<k]) = f 0" "0 < k \<Longrightarrow> last (map f [0..<k]) = f (k - 1)" for k and f :: "nat \<Rightarrow> rat"
    by (simp_all add: hd_map last_map)
  have "0 < ?n" using n(1) by linarith
  have hd: "hd (ticks x0 v xf) = x0" unfolding e ends(1) [OF \<open>0 < ?n\<close>] by simp
  have l: "last (ticks x0 v xf) = x0 + of_nat (?n - 1) * v" unfolding e by (rule ends(2) [OF \<open>0 < ?n\<close>])
  have "of_nat (?n - 1) < (xf - x0) / v" "(xf - x0) / v \<le> of_nat (?n - 1) + 1" using n(1) by linarith+
  then have last: "last (ticks x0 v xf) < xf" "xf \<le> last (ticks x0 v xf) + v" unfolding l using v by (simp_all add: field_simps)
  have "snd (division_turn xi xf j st) = (x0, v)" for j st
    using c division_turn_snd [of xi xf j st] unfolding compute_divisions_once [OF assms] by simp
  moreover have "\<exists>k. ticks x0 v xf = map (\<lambda>j. of_int (k + int j) * v) [0..<length (ticks x0 v xf)]" using mult by blast
  ultimately show ?thesis using c m hd x n [folded len] last by blast
qed

theorem axis_ticks_witness: "\<exists>x0 dv. compute_divisions (-7) 93 = Inr (x0, dv) \<and> x0 < -7 \<and> 4 \<le> length (ticks x0 dv 93) \<and> length (ticks x0 dv 93) \<le> 9"
proof -
  have "(-7 :: rat) < 93" by simp
  then show ?thesis using axis_ticks [of "-7" 93] by blast
qed

section \<open>Drawing\<close>

record axis_label =
  label_id :: nat
  label_visible :: bool
  label_value :: rat
  label_x :: rat
  label_y :: rat
  label_font :: int

record Axes =
  axes_visible :: bool
  lines_visible :: bool
  hlines :: "(point \<times> point) list"
  vlines :: "(point \<times> point) list"
  axes_line_width :: rat
  labels :: "axis_label list"
  next_label :: nat

text \<open>A label from the front of the unused ones, or a new one.\<close>

definition get_label :: "axis_label list \<times> axis_label list \<times> nat \<Rightarrow> nat \<times> axis_label list \<times> axis_label list \<times> nat" where
  "get_label st = (case st of (used, unused, m) \<Rightarrow>
     (case unused of l # rest \<Rightarrow> (label_id l, used, rest, m) | [] \<Rightarrow> (m, used, [], m + 1)))"

definition put_label :: "(nat \<Rightarrow> axis_label) \<Rightarrow> axis_label list \<times> axis_label list \<times> nat \<Rightarrow> axis_label list \<times> axis_label list \<times> nat" where
  "put_label f st = (case get_label st of (i, used, unused, m) \<Rightarrow> (used @ [f i], unused, m))"

definition axes_update_view :: "rat option \<Rightarrow> point \<Rightarrow> point \<Rightarrow> Axes \<Rightarrow> Axes result" where
  "axes_update_view zoom_value p1 p2 a =
     (case zoom_value of
        None \<Rightarrow> Inr a
      | Some z \<Rightarrow>
          let unused = map (\<lambda>l. l\<lparr>label_visible := False\<rparr>) (labels a); offset = 10 / z; width = 5 / z; font = trunc (12 / z);
              x1 = fst p1; y1 = snd p1; x2 = fst p2; y2 = snd p2; yc = y2 - width / 2; xc = x1 + width / 2
          in bind_r (compute_divisions (x1 / PIXELS_PER_METER) (x2 / PIXELS_PER_METER)) (\<lambda>(x0, xdiv).
             let xs = ticks x0 xdiv (x2 / PIXELS_PER_METER);
                 st = fold (\<lambda>x. put_label (\<lambda>i. \<lparr>label_id = i, label_visible = True, label_value = x, label_x = PIXELS_PER_METER * x, label_y = yc - offset, label_font = font\<rparr>))
                        xs ([], unused, next_label a)
             in bind_r (compute_divisions (y1 / PIXELS_PER_METER) (y2 / PIXELS_PER_METER)) (\<lambda>(y0, ydiv).
                let ys = ticks y0 ydiv (y2 / PIXELS_PER_METER);
                    (used, unused, m) = fold (\<lambda>y. put_label (\<lambda>i. \<lparr>label_id = i, label_visible = True, label_value = y, label_x = xc + offset, label_y = PIXELS_PER_METER * y, label_font = font\<rparr>)) ys st
                in Inr (a\<lparr>axes_line_width := width,
                          hlines := ((x1, yc), (x2, yc)) # map (\<lambda>x. ((PIXELS_PER_METER * x, yc - offset), (PIXELS_PER_METER * x, yc))) xs,
                          vlines := ((xc, y1), (xc, y2)) # map (\<lambda>y. ((xc, PIXELS_PER_METER * y), (xc + offset, PIXELS_PER_METER * y))) ys,
                          labels := used @ unused, next_label := m\<rparr>))))"

text \<open>The handler of the scroll bars, and showing or hiding the axes.\<close>

definition axes_scrolled :: "rat option \<Rightarrow> point \<Rightarrow> point \<Rightarrow> Axes \<Rightarrow> Axes result" where
  "axes_scrolled z p1 p2 a = (if axes_visible a then axes_update_view z p1 p2 a else Inr a)"

definition axes_set_visible :: "bool \<Rightarrow> Axes \<Rightarrow> Axes" where
  "axes_set_visible b a =
     (let a = a\<lparr>axes_visible := b, lines_visible := b\<rparr>
      in if b then a else a\<lparr>labels := map (\<lambda>l. l\<lparr>label_visible := False\<rparr>) (labels a)\<rparr>)"

text \<open>Axes that are hidden and shown again have their lines but no labels, until the next scroll.\<close>

lemma hide_show_labels:
  "lines_visible (axes_set_visible True (axes_set_visible False a)) \<and>
   (\<forall>l \<in> set (labels (axes_set_visible True (axes_set_visible False a))). \<not> label_visible l)"
  by (simp add: axes_set_visible_def)

end
