(* ===== verification/VizScene.thy ===== *)
theory VizScene
  imports VizBase
begin

unbundle bit_operations_syntax

text \<open>
  The scene of the simulation visualizer, \<^verbatim>\<open>visualizer/core.py\<close>: the classes \<open>Node\<close>, \<open>Channel\<close> and \<open>WiredLink\<close>, the construction of the scene from the
  topology of the network, and the handlers of mouse events: selection, the choice of the nodes whose transmissions are shown, dragging of
  nodes, panning, zooming and following a node. Nodes and channels refer to each other by their keys, links by their place in the list of links.

  The simulator is seen through a record: the nodes with their positions and devices, and for each channel the nodes of its devices. The pointer is
  given in canvas coordinates where the code converts it at once, and the conversion to pixels and the layout of Graphviz are parameters.
\<close>

section \<open>The network\<close>

record ns_device =
  dev_type :: string
  dev_channel :: "nat option"

record ns_node =
  mobility :: "point option"
  ns_devices :: "ns_device list"

record world =
  ns_nodes :: "ns_node list"
  channel_nodes :: "nat \<Rightarrow> nat list"

definition mobility_of :: "world \<Rightarrow> nat \<Rightarrow> point option" where
  "mobility_of w n = (if n < length (ns_nodes w) then mobility (ns_nodes w ! n) else None)"

definition SetPosition :: "nat \<Rightarrow> point \<Rightarrow> world \<Rightarrow> world" where
  "SetPosition n p w = (if n < length (ns_nodes w) then w\<lparr>ns_nodes := (ns_nodes w)[n := (ns_nodes w ! n)\<lparr>mobility := Some p\<rparr>]\<rparr> else w)"

section \<open>State\<close>

definition DEFAULT_NODE_SIZE :: rat where "DEFAULT_NODE_SIZE = 1"

record Node =
  node_index :: nat
  center :: point
  node_links :: "nat list"
  known_mobility :: "bool option"
  selected :: bool
  highlighted :: bool
  color :: int
  node_size :: rat
  svg_item :: "SvgItem option"
  svg_align :: "rat \<times> rat"
  label :: "string option"
  label_at :: "point option"
  radius :: rat
  fill_color :: int
  line_width :: rat
  stroke_color :: string

record Channel =
  channel_center :: point
  channel_links :: "nat list"

datatype endpoint = Node_end nat | Channel_end nat

record WiredLink =
  node1 :: nat
  node2 :: endpoint
  points :: "(point \<times> point) option"

datatype ShowTransmissionsMode = SHOW_ALL | SHOW_NONE | SHOW_SELECTED

record NodeDragState =
  canvas0 :: point
  sim0 :: point
  motion_signal :: nat

record PanningState =
  initial_mouse_pos :: point
  initial_canvas_pos :: point

record adjustment =
  adj_value :: rat
  adj_lower :: rat
  adj_upper :: rat
  page_size :: rat

record Visualizer =
  net :: world
  nodes :: "(nat, Node) dict"
  channels :: "(nat, Channel) dict"
  wired_links :: "WiredLink list"
  bounds :: "(rat \<times> rat \<times> rat \<times> rat) option"
  selected_node :: "nat option"
  show_transmissions_mode :: ShowTransmissionsMode
  nodes_of_interest :: "nat list"
  follow_node :: "nat option"
  node_drag_state :: "NodeDragState option"
  drag_handlers :: "(nat \<times> nat) list"
  next_signal :: nat
  panning_state :: "PanningState option"
  pan_handlers :: nat
  hadj :: adjustment
  vadj :: adjustment
  zoom :: adjustment
  traits :: "(string, NetDeviceTraits) dict"

text \<open>\<open>Gtk.Adjustment.set_value\<close> keeps the value within the bounds.\<close>

definition set_value :: "rat \<Rightarrow> adjustment \<Rightarrow> adjustment" where
  "set_value x a = a\<lparr>adj_value := max (min x (adj_upper a - page_size a)) (adj_lower a)\<rparr>"

section \<open>Nodes, channels and links\<close>

text \<open>The part of \<open>_update_appearance\<close> that sets the ellipse.\<close>

definition appearance :: "Node \<Rightarrow> Node" where
  "appearance nd =
     (let size = transform_distance_simulation_to_canvas (node_size nd); alpha = (if svg_item nd = None then 255 else 128)
      in nd\<lparr>radius := size, fill_color := (color nd AND 4294967040) OR alpha, line_width := size * (if selected nd then 3 / 10 else 15 / 100),
            stroke_color := if highlighted nd then ''yellow'' else ''black''\<rparr>)"

definition new_Node :: "nat \<Rightarrow> Node" where
  "new_Node n = appearance
     \<lparr>node_index = n, center = (0, 0), node_links = [], known_mobility = None, selected = False, highlighted = False, color = 2155905279,
      node_size = DEFAULT_NODE_SIZE, svg_item = None, svg_align = (0, 0), label = None, label_at = None,
      radius = 0, fill_color = 0, line_width = 0, stroke_color = []\<rparr>"

definition upd_node :: "nat \<Rightarrow> (Node \<Rightarrow> Node) \<Rightarrow> Visualizer \<Rightarrow> Visualizer" where
  "upd_node n f v = v\<lparr>nodes := AList.map_entry n f (nodes v)\<rparr>"

definition upd_channel :: "nat \<Rightarrow> (Channel \<Rightarrow> Channel) \<Rightarrow> Visualizer \<Rightarrow> Visualizer" where
  "upd_channel c f v = v\<lparr>channels := AList.map_entry c f (channels v)\<rparr>"

fun get_position :: "Visualizer \<Rightarrow> endpoint \<Rightarrow> point" where
  "get_position v (Node_end n) = (case map_of (nodes v) n of None \<Rightarrow> (0, 0) | Some nd \<Rightarrow> center nd)"
| "get_position v (Channel_end c) = (case map_of (channels v) c of None \<Rightarrow> (0, 0) | Some ch \<Rightarrow> channel_center ch)"

definition update_points :: "nat \<Rightarrow> Visualizer \<Rightarrow> Visualizer" where
  "update_points i v =
     (if i < length (wired_links v)
      then let l = wired_links v ! i
           in v\<lparr>wired_links := (wired_links v)[i := l\<lparr>points := Some (get_position v (Node_end (node1 l)), get_position v (node2 l))\<rparr>]\<rparr>
      else v)"

definition update_svg_position :: "point \<Rightarrow> Node \<Rightarrow> Node" where
  "update_svg_position p nd =
     (case svg_item nd of
        None \<Rightarrow> nd
      | Some s \<Rightarrow> nd\<lparr>svg_item := Some (s\<lparr>svg_x := fst p - (1 - fst (svg_align nd)) * svg_width s, svg_y := snd p - (1 - snd (svg_align nd)) * svg_height s\<rparr>)\<rparr>)"

text \<open>The bounds of the canvas grow with a node that is moved outside; without known bounds nothing happens.\<close>

definition grow_bounds :: "point \<Rightarrow> (rat \<times> rat \<times> rat \<times> rat) option \<Rightarrow> (rat \<times> rat \<times> rat \<times> rat) option" where
  "grow_bounds p b =
     (case b of None \<Rightarrow> None | Some (x1, y1, x2, y2) \<Rightarrow> Some (min (fst p) x1, min (snd p) y1, max (fst p) x2, max (snd p) y2))"

definition links_of :: "Visualizer \<Rightarrow> endpoint \<Rightarrow> nat list" where
  "links_of v e =
     (case e of Node_end n \<Rightarrow> (case map_of (nodes v) n of None \<Rightarrow> [] | Some nd \<Rightarrow> node_links nd)
      | Channel_end c \<Rightarrow> (case map_of (channels v) c of None \<Rightarrow> [] | Some ch \<Rightarrow> channel_links ch))"

definition set_position :: "nat \<Rightarrow> point \<Rightarrow> Visualizer \<Rightarrow> Visualizer" where
  "set_position n p v =
     (let v = upd_node n (\<lambda>nd. update_svg_position p (nd\<lparr>center := p\<rparr>)) v;
          v = fold update_points (links_of v (Node_end n)) v;
          v = upd_node n (\<lambda>nd. nd\<lparr>label_at := map_option (\<lambda>_. (fst p, snd p + node_size nd * 3)) (label_at nd)\<rparr>) v
      in v\<lparr>bounds := grow_bounds p (bounds v)\<rparr>)"

definition channel_set_position :: "nat \<Rightarrow> point \<Rightarrow> Visualizer \<Rightarrow> Visualizer" where
  "channel_set_position c p v =
     (let v = upd_channel c (\<lambda>ch. ch\<lparr>channel_center := p\<rparr>) v in fold update_points (links_of v (Channel_end c)) v)"

text \<open>\<open>_update_appearance\<close>: the ellipse, then the label, which is created at its first use.\<close>

definition update_appearance :: "nat \<Rightarrow> Visualizer \<Rightarrow> Visualizer" where
  "update_appearance n v =
     (let v = upd_node n appearance v
      in case map_of (nodes v) n of
           None \<Rightarrow> v
         | Some nd \<Rightarrow>
             if label nd = None then v
             else set_position n (center nd) (upd_node n (\<lambda>nd. if label_at nd = None then nd\<lparr>label_at := Some (0, 0)\<rparr> else nd) v))"

definition set_selected :: "bool \<Rightarrow> nat \<Rightarrow> Visualizer \<Rightarrow> Visualizer" where
  "set_selected b n v = update_appearance n (upd_node n (\<lambda>nd. nd\<lparr>selected := b\<rparr>) v)"

definition set_highlighted :: "bool \<Rightarrow> nat \<Rightarrow> Visualizer \<Rightarrow> Visualizer" where
  "set_highlighted b n v = update_appearance n (upd_node n (\<lambda>nd. nd\<lparr>highlighted := b\<rparr>) v)"

definition set_size :: "rat \<Rightarrow> nat \<Rightarrow> Visualizer \<Rightarrow> Visualizer" where
  "set_size x n v = update_appearance n (upd_node n (\<lambda>nd. nd\<lparr>node_size := x\<rparr>) v)"

text \<open>A colour is a number or a name; \<open>Gdk.color_parse\<close> gives 16 bits for each component of a name.\<close>

datatype color_arg = Color_name string | Color_value int

definition rgba :: "int \<times> int \<times> int \<Rightarrow> int" where
  "rgba c = (case c of (r, g, b) \<Rightarrow> push_bit 24 (drop_bit 8 r) OR push_bit 16 (drop_bit 8 g) OR push_bit 8 (drop_bit 8 b) OR 255)"

definition set_color :: "(string \<Rightarrow> int \<times> int \<times> int) \<Rightarrow> color_arg \<Rightarrow> nat \<Rightarrow> Visualizer \<Rightarrow> Visualizer" where
  "set_color color_parse c n v =
     update_appearance n (upd_node n (\<lambda>nd. nd\<lparr>color := case c of Color_name s \<Rightarrow> rgba (color_parse s) | Color_value i \<Rightarrow> i\<rparr>) v)"

text \<open>The check of a label names \<open>basestring\<close>, which Python 3 does not have.\<close>

definition set_label :: "bool \<Rightarrow> string \<Rightarrow> nat \<Rightarrow> Visualizer \<Rightarrow> Visualizer result" where
  "set_label py3 s n v = (if py3 then Inl NameError else Inr (update_appearance n (upd_node n (\<lambda>nd. nd\<lparr>label := Some s\<rparr>) v)))"

text \<open>The size of the picture is that of its file, read by a module that may be missing.\<close>

definition set_svg_icon :: "(rat \<times> rat) option \<Rightarrow> rat option \<Rightarrow> rat option \<Rightarrow> rat \<times> rat \<Rightarrow> nat \<Rightarrow> Visualizer \<Rightarrow> Visualizer result" where
  "set_svg_icon handle width height align n v =
     (if width = None \<and> height = None then Inl ValueError
      else case handle of
        None \<Rightarrow> Inl AttributeError
      | Some (hw, hh) \<Rightarrow>
          let p = get_position v (Node_end n)
          in bind_r (case width of None \<Rightarrow> Inr (new_SvgItem (fst p) (snd p) hw hh)
                     | Some x \<Rightarrow> do_set_property ''width'' (transform_distance_simulation_to_canvas x) (new_SvgItem (fst p) (snd p) hw hh)) (\<lambda>s.
             bind_r (case height of None \<Rightarrow> Inr s | Some y \<Rightarrow> do_set_property ''height'' (transform_distance_simulation_to_canvas y) s) (\<lambda>s.
             Inr (update_appearance n (upd_node n (\<lambda>nd. update_svg_position p (nd\<lparr>svg_item := Some s, svg_align := align\<rparr>)) v)))))"

definition has_mobility :: "nat \<Rightarrow> Visualizer \<Rightarrow> bool \<times> Visualizer" where
  "has_mobility n v =
     (case map_of (nodes v) n of
        None \<Rightarrow> (False, v)
      | Some nd \<Rightarrow> (case known_mobility nd of
            Some b \<Rightarrow> (b, v)
          | None \<Rightarrow> (let b = (mobility_of (net v) n \<noteq> None) in (b, upd_node n (\<lambda>nd. nd\<lparr>known_mobility := Some b\<rparr>) v))))"

definition get_node :: "nat \<Rightarrow> Visualizer \<Rightarrow> Visualizer" where
  "get_node n v = (if n \<in> set (d_keys (nodes v)) then v else v\<lparr>nodes := AList.update n (new_Node n) (nodes v)\<rparr>)"

definition get_channel :: "nat \<Rightarrow> Visualizer \<Rightarrow> Visualizer" where
  "get_channel c v =
     (if c \<in> set (d_keys (channels v)) then v
      else v\<lparr>channels := AList.update c \<lparr>channel_center = (0, 0), channel_links = []\<rparr> (channels v)\<rparr>)"

definition append_link :: "nat \<Rightarrow> endpoint \<Rightarrow> Visualizer \<Rightarrow> Visualizer" where
  "append_link i e v =
     (case e of Node_end n \<Rightarrow> upd_node n (\<lambda>nd. nd\<lparr>node_links := node_links nd @ [i]\<rparr>) v
      | Channel_end c \<Rightarrow> upd_channel c (\<lambda>ch. ch\<lparr>channel_links := channel_links ch @ [i]\<rparr>) v)"

definition create_link :: "nat \<Rightarrow> endpoint \<Rightarrow> Visualizer \<Rightarrow> Visualizer" where
  "create_link n e v =
     (let i = length (wired_links v)
      in append_link i e (append_link i (Node_end n) (v\<lparr>wired_links := wired_links v @ [\<lparr>node1 = n, node2 = e, points = None\<rparr>]\<rparr>)))"

section \<open>Selection and transmissions\<close>

definition interest :: "ShowTransmissionsMode \<Rightarrow> nat option \<Rightarrow> world \<Rightarrow> nat list" where
  "interest m s w = (case m of SHOW_ALL \<Rightarrow> [0..<length (ns_nodes w)] | SHOW_NONE \<Rightarrow> [] | SHOW_SELECTED \<Rightarrow> (case s of None \<Rightarrow> [] | Some n \<Rightarrow> [n]))"

definition set_show_transmissions_mode :: "ShowTransmissionsMode \<Rightarrow> Visualizer \<Rightarrow> Visualizer" where
  "set_show_transmissions_mode m v = v\<lparr>show_transmissions_mode := m, nodes_of_interest := interest m (selected_node v) (net v)\<rparr>"

text \<open>What \<open>select_node\<close> and \<open>center_on_node\<close> accept: nothing, an index, a node of the simulator or of the view, or anything else.\<close>

datatype node_arg = Arg_none | Arg_index int | Arg_ns nat | Arg_view nat | Arg_other

definition node_of_index :: "int \<Rightarrow> Visualizer \<Rightarrow> nat result" where
  "node_of_index i v = (if 0 \<le> i \<and> nat i \<in> set (d_keys (nodes v)) then Inr (nat i) else Inl KeyError)"

fun resolve_node :: "node_arg \<Rightarrow> Visualizer \<Rightarrow> nat option result" where
  "resolve_node Arg_none v = Inr None"
| "resolve_node (Arg_index i) v = bind_r (node_of_index i v) (\<lambda>n. Inr (Some n))"
| "resolve_node (Arg_ns n) v = bind_r (node_of_index (int n) v) (\<lambda>n. Inr (Some n))"
| "resolve_node (Arg_view n) v = Inr (Some n)"
| "resolve_node Arg_other v = Inl TypeError"

definition select_resolved :: "nat option \<Rightarrow> Visualizer \<Rightarrow> Visualizer" where
  "select_resolved node v =
     (if node = selected_node v then v
      else let v = (case selected_node v of None \<Rightarrow> v | Some m \<Rightarrow> set_selected False m v);
               v = v\<lparr>selected_node := node\<rparr>;
               v = (case node of None \<Rightarrow> v | Some n \<Rightarrow> set_selected True n v)
           in if show_transmissions_mode v = SHOW_SELECTED then v\<lparr>nodes_of_interest := (case node of None \<Rightarrow> [] | Some n \<Rightarrow> [n])\<rparr> else v)"

definition select_node :: "node_arg \<Rightarrow> Visualizer \<Rightarrow> Visualizer result" where
  "select_node a v = bind_r (resolve_node a v) (\<lambda>node. Inr (select_resolved node v))"

section \<open>Positions\<close>

text \<open>Scrolling so that a point of the canvas is in the middle.\<close>

definition center_at :: "(Visualizer \<Rightarrow> point \<Rightarrow> point) \<Rightarrow> point \<Rightarrow> Visualizer \<Rightarrow> Visualizer" where
  "center_at to_px p v =
     (let q = to_px v p
      in v\<lparr>hadj := set_value (fst q - page_size (hadj v) / 2) (hadj v), vadj := set_value (snd q - page_size (vadj v) / 2) (vadj v)\<rparr>)"

definition update_node_position :: "(Visualizer \<Rightarrow> point \<Rightarrow> point) \<Rightarrow> nat \<Rightarrow> Visualizer \<Rightarrow> Visualizer" where
  "update_node_position to_px n v =
     (let (m, v) = has_mobility n v
      in if \<not> m then v
         else case mobility_of (net v) n of
           None \<Rightarrow> v
         | Some p \<Rightarrow>
             let q = transform_point_simulation_to_canvas p; v = set_position n q v
             in if follow_node v = Some n then center_at to_px q v else v)"

definition update_node_positions :: "(Visualizer \<Rightarrow> point \<Rightarrow> point) \<Rightarrow> Visualizer \<Rightarrow> Visualizer" where
  "update_node_positions to_px v = fold (update_node_position to_px) (d_keys (nodes v)) v"

definition center_on_node :: "(Visualizer \<Rightarrow> point \<Rightarrow> point) \<Rightarrow> node_arg \<Rightarrow> Visualizer \<Rightarrow> Visualizer result" where
  "center_on_node to_px a v =
     bind_r (resolve_node a v) (\<lambda>node. case node of None \<Rightarrow> Inl TypeError | Some n \<Rightarrow> Inr (center_at to_px (get_position v (Node_end n)) v))"

text \<open>What is neither a node nor nothing is stored as it is and equals no node.\<close>

fun set_follow_node :: "node_arg \<Rightarrow> Visualizer \<Rightarrow> Visualizer result" where
  "set_follow_node (Arg_ns n) v = bind_r (node_of_index (int n) v) (\<lambda>n. Inr (v\<lparr>follow_node := Some n\<rparr>))"
| "set_follow_node (Arg_view n) v = Inr (v\<lparr>follow_node := Some n\<rparr>)"
| "set_follow_node a v = Inr (v\<lparr>follow_node := None\<rparr>)"

section \<open>Mouse\<close>

definition begin_node_drag :: "nat \<Rightarrow> point \<Rightarrow> Visualizer \<Rightarrow> Visualizer" where
  "begin_node_drag n pointer v =
     (case mobility_of (net v) n of
        None \<Rightarrow> v
      | Some p \<Rightarrow>
          if node_drag_state v \<noteq> None then v
          else v\<lparr>node_drag_state := Some \<lparr>canvas0 = pointer, sim0 = p, motion_signal = next_signal v\<rparr>,
                 drag_handlers := drag_handlers v @ [(next_signal v, n)], next_signal := next_signal v + 1\<rparr>)"

definition node_drag_motion :: "nat \<Rightarrow> point \<Rightarrow> Visualizer \<Rightarrow> Visualizer" where
  "node_drag_motion n pointer v =
     (case (mobility_of (net v) n, node_drag_state v) of
        (Some _, Some st) \<Rightarrow>
          let dx = fst pointer - fst (canvas0 st); dy = snd pointer - snd (canvas0 st);
              p = (fst (sim0 st) + transform_distance_canvas_to_simulation dx, snd (sim0 st) + transform_distance_canvas_to_simulation dy)
          in set_position n (transform_point_simulation_to_canvas p) (v\<lparr>net := SetPosition n p (net v)\<rparr>)
      | _ \<Rightarrow> v)"

text \<open>A motion over a node runs every handler that is connected to it.\<close>

definition node_motion :: "nat \<Rightarrow> point \<Rightarrow> Visualizer \<Rightarrow> Visualizer" where
  "node_motion n pointer v = fold (\<lambda>h. node_drag_motion n pointer) (filter (\<lambda>h. snd h = n) (drag_handlers v)) v"

definition end_node_drag :: "nat \<Rightarrow> Visualizer \<Rightarrow> Visualizer" where
  "end_node_drag n v =
     (case node_drag_state v of
        None \<Rightarrow> v
      | Some st \<Rightarrow> v\<lparr>drag_handlers := filter (\<lambda>h. h \<noteq> (motion_signal st, n)) (drag_handlers v), node_drag_state := None\<rparr>)"

definition on_node_button_press_event :: "nat \<Rightarrow> nat \<Rightarrow> point \<Rightarrow> Visualizer \<Rightarrow> Visualizer result" where
  "on_node_button_press_event n button pointer v =
     (if button = 1 then select_node (Arg_view n) v else if button = 2 then Inr (begin_node_drag n pointer v) else Inr v)"

definition on_node_button_release_event :: "nat \<Rightarrow> nat \<Rightarrow> Visualizer \<Rightarrow> Visualizer" where
  "on_node_button_release_event n button v = (if button = 2 then end_node_drag n v else v)"

definition on_root_button_press_event :: "nat \<Rightarrow> Visualizer \<Rightarrow> Visualizer result" where
  "on_root_button_press_event button v = (if button = 1 then select_node Arg_none v else Inr v)"

definition begin_panning :: "point \<Rightarrow> Visualizer \<Rightarrow> Visualizer" where
  "begin_panning pos v =
     v\<lparr>panning_state := Some \<lparr>initial_mouse_pos = pos, initial_canvas_pos = (adj_value (hadj v), adj_value (vadj v))\<rparr>, pan_handlers := pan_handlers v + 1\<rparr>"

definition end_panning :: "Visualizer \<Rightarrow> Visualizer" where
  "end_panning v = (if panning_state v = None then v else v\<lparr>panning_state := None, pan_handlers := pan_handlers v - 1\<rparr>)"

text \<open>The position is that of the event, or that of the device when the event is only a hint.\<close>

definition panning_motion :: "point \<Rightarrow> Visualizer \<Rightarrow> Visualizer result" where
  "panning_motion pos v =
     (case panning_state v of
        None \<Rightarrow> Inl AssertionError
      | Some st \<Rightarrow>
          let dx = fst pos - fst (initial_mouse_pos st); dy = snd pos - snd (initial_mouse_pos st)
          in Inr (v\<lparr>hadj := set_value (fst (initial_canvas_pos st) - dx) (hadj v), vadj := set_value (snd (initial_canvas_pos st) - dy) (vadj v)\<rparr>))"

text \<open>A motion over the canvas runs the handlers that \<open>_begin_panning\<close> has connected.\<close>

definition canvas_motion :: "point \<Rightarrow> Visualizer \<Rightarrow> Visualizer result" where
  "canvas_motion pos v = foldM_r (\<lambda>v _. panning_motion pos v) v [0..<pan_handlers v]"

definition canvas_button_press :: "nat \<Rightarrow> point \<Rightarrow> Visualizer \<Rightarrow> Visualizer" where
  "canvas_button_press button pos v = (if button = 2 then begin_panning pos v else v)"

definition canvas_button_release :: "nat \<Rightarrow> Visualizer \<Rightarrow> Visualizer" where
  "canvas_button_release button v = (if button = 2 then end_panning v else v)"

datatype scroll_direction = UP | DOWN | Other_direction

definition canvas_scroll_event :: "scroll_direction \<Rightarrow> Visualizer \<Rightarrow> Visualizer" where
  "canvas_scroll_event d v =
     (case d of UP \<Rightarrow> v\<lparr>zoom := set_value (adj_value (zoom v) * (5 / 4)) (zoom v)\<rparr>
      | DOWN \<Rightarrow> v\<lparr>zoom := set_value (adj_value (zoom v) / (5 / 4)) (zoom v)\<rparr>
      | Other_direction \<Rightarrow> v)"

definition node_size_changed :: "rat \<Rightarrow> Visualizer \<Rightarrow> Visualizer" where
  "node_size_changed x v = fold (set_size x) (d_keys (nodes v)) v"

section \<open>Topology\<close>

text \<open>The calls that build the graph for the layout; a name is used by a node or by an edge.\<close>

datatype graph_call = Add_node string | Add_edge string string

fun call_names :: "graph_call \<Rightarrow> string list" where
  "call_names (Add_node a) = [a]"
| "call_names (Add_edge a b) = [a, b]"

definition node_name :: "nat \<Rightarrow> string" where
  "node_name n = ''Node '' @ str_of_int (int n)"

definition channel_name :: "nat \<Rightarrow> string" where
  "channel_name c = ''Channel '' @ str_of_int (int c)"

definition REPRESENT_CHANNELS_AS_NODES :: bool where "REPRESENT_CHANNELS_AS_NODES = True"

type_synonym scan_state = "Visualizer \<times> graph_call list"

text \<open>The link to the node of another device on the channel; \<open>has_mobility\<close> is asked only for a node without mobility.\<close>

definition link_other :: "nat \<Rightarrow> nat \<Rightarrow> scan_state \<Rightarrow> scan_state" where
  "link_other n k vg =
     (let (v, g) = vg; v = get_node k v
      in if k = n then (v, g)
         else let (v, g) = (if mobility_of (net v) n = None
                            then (let (m, v) = has_mobility k v in (v, if m then g else g @ [Add_edge (node_name n) (node_name k)]))
                            else (v, g))
              in (create_link n (Node_end k) (get_node n v), g))"

definition scan_device :: "nat \<Rightarrow> scan_state \<Rightarrow> ns_device \<Rightarrow> scan_state result" where
  "scan_device n vg dev =
     (let (v, g) = vg; (t, d) = lookup_netdevice_traits (dev_type dev) (traits v); v = v\<lparr>traits := d\<rparr>
      in if is_wireless t = Some True then Inr (v, g)
         else if is_virtual t then Inr (v, g)
         else case dev_channel dev of
           None \<Rightarrow> Inl AttributeError
         | Some c \<Rightarrow>
             if length (channel_nodes (net v) c) > 2 \<and> REPRESENT_CHANNELS_AS_NODES
             then Inr (create_link n (Channel_end c) (get_channel c (get_node n (get_channel c v))),
                       if mobility_of (net v) n = None then g @ [Add_edge (node_name n) (channel_name c)] else g)
             else Inr (fold (link_other n) (channel_nodes (net v) c) (v, g)))"

definition scan_node :: "(string \<Rightarrow> int \<times> int \<times> int) \<Rightarrow> scan_state \<Rightarrow> nat \<Rightarrow> scan_state result" where
  "scan_node color_parse vg n =
     (let (v, g) = vg; v = get_node n v;
          (v, g) = (case mobility_of (net v) n of
                      Some p \<Rightarrow> (set_position n (transform_point_simulation_to_canvas p) (set_color color_parse (Color_name ''red'') n v), g)
                    | None \<Rightarrow> (v, g @ [Add_node (node_name n)]))
      in foldM_r (scan_device n) (v, g) (ns_devices (ns_nodes (net v) ! n)))"

text \<open>
  Placing what the layout returns: the name is split at its blank, the attribute at its comma. A name of neither kind would keep
  the object of the turn before.
\<close>

definition read_place :: "string \<Rightarrow> string \<Rightarrow> (string \<times> string \<times> point) result" where
  "read_place name pos =
     (case split_char (CHR '' '') name of
        [node_type, node_id] \<Rightarrow>
          bind_r (mapM_r py_float (split_char (CHR '','') pos)) (\<lambda>fs. case fs of [x, y] \<Rightarrow> Inr (node_type, node_id, x, y) | _ \<Rightarrow> Inl ValueError)
      | _ \<Rightarrow> Inl ValueError)"

definition find_object :: "string \<Rightarrow> string \<Rightarrow> endpoint option \<Rightarrow> Visualizer \<Rightarrow> endpoint result" where
  "find_object node_type node_id obj v =
     (if node_type = ''Node''
      then bind_r (py_int node_id) (\<lambda>i. if 0 \<le> i \<and> nat i \<in> set (d_keys (nodes v)) then Inr (Node_end (nat i)) else Inl KeyError)
      else if node_type = ''Channel''
      then bind_r (py_int node_id) (\<lambda>i. if 0 \<le> i \<and> nat i \<in> set (d_keys (channels v)) then Inr (Channel_end (nat i)) else Inl KeyError)
      else case obj of None \<Rightarrow> Inl UnboundLocalError | Some e \<Rightarrow> Inr e)"

fun place_end :: "endpoint \<Rightarrow> point \<Rightarrow> Visualizer \<Rightarrow> Visualizer" where
  "place_end (Node_end n) p v = set_position n p v"
| "place_end (Channel_end c) p v = channel_set_position c p v"

definition place :: "Visualizer \<times> endpoint option \<Rightarrow> string \<times> string \<Rightarrow> (Visualizer \<times> endpoint option) result" where
  "place vo np =
     bind_r (read_place (fst np) (snd np)) (\<lambda>(node_type, node_id, p).
     bind_r (find_object node_type node_id (snd vo) (fst vo)) (\<lambda>e. Inr (place_end e p (fst vo), Some e)))"

definition scan_topology ::
    "(string \<Rightarrow> int \<times> int \<times> int) \<Rightarrow> (graph_call list \<Rightarrow> (string \<times> string) list) \<Rightarrow> Visualizer \<Rightarrow> Visualizer result" where
  "scan_topology color_parse layout v =
     bind_r (foldM_r (scan_node color_parse) (v, []) [0..<length (ns_nodes (net v))]) (\<lambda>(v, g).
     bind_r (foldM_r place (v, None) (layout g)) (\<lambda>vo. Inr (fst vo)))"

section \<open>Events\<close>

datatype scene_event =
    Node_press nat nat point | Node_motion nat point | Node_release nat nat | Root_press nat
  | Canvas_press nat point | Canvas_motion point | Canvas_release nat | Scroll scroll_direction
  | Enter nat | Leave nat | Mode ShowTransmissionsMode | Node_size rat
  | Select node_arg | Follow node_arg | Center node_arg | Moved "nat \<Rightarrow> point" | Refresh

text \<open>The simulator moves the nodes that have a mobility model.\<close>

definition moved :: "(nat \<Rightarrow> point) \<Rightarrow> world \<Rightarrow> world" where
  "moved f w = w\<lparr>ns_nodes := map (\<lambda>n. (ns_nodes w ! n)\<lparr>mobility := map_option (\<lambda>_. f n) (mobility (ns_nodes w ! n))\<rparr>) [0..<length (ns_nodes w)]\<rparr>"

text \<open>An event of a node comes from its canvas item, and an argument that is a node of the view is one that exists.\<close>

definition known :: "Visualizer \<Rightarrow> nat \<Rightarrow> bool" where
  "known v n \<longleftrightarrow> n \<in> set (d_keys (nodes v))"

definition arg_known :: "Visualizer \<Rightarrow> node_arg \<Rightarrow> bool" where
  "arg_known v a = (case a of Arg_view n \<Rightarrow> known v n | _ \<Rightarrow> True)"

fun scene_react :: "(Visualizer \<Rightarrow> point \<Rightarrow> point) \<Rightarrow> Visualizer \<Rightarrow> scene_event \<Rightarrow> Visualizer result" where
  "scene_react px v (Node_press n b p) = (if known v n then on_node_button_press_event n b p v else Inr v)"
| "scene_react px v (Node_motion n p) = (if known v n then Inr (node_motion n p v) else Inr v)"
| "scene_react px v (Node_release n b) = Inr (on_node_button_release_event n b v)"
| "scene_react px v (Root_press b) = on_root_button_press_event b v"
| "scene_react px v (Canvas_press b p) = Inr (canvas_button_press b p v)"
| "scene_react px v (Canvas_motion p) = canvas_motion p v"
| "scene_react px v (Canvas_release b) = Inr (canvas_button_release b v)"
| "scene_react px v (Scroll d) = Inr (canvas_scroll_event d v)"
| "scene_react px v (Enter n) = Inr (set_highlighted True n v)"
| "scene_react px v (Leave n) = Inr (set_highlighted False n v)"
| "scene_react px v (Mode m) = Inr (set_show_transmissions_mode m v)"
| "scene_react px v (Node_size x) = Inr (node_size_changed x v)"
| "scene_react px v (Select a) = (if arg_known v a then select_node a v else Inr v)"
| "scene_react px v (Follow a) = set_follow_node a v"
| "scene_react px v (Center a) = center_on_node px a v"
| "scene_react px v (Moved f) = Inr (v\<lparr>net := moved f (net v)\<rparr>)"
| "scene_react px v Refresh = Inr (update_node_positions px v)"

text \<open>The visualizer before the scan.\<close>

definition new_Visualizer :: "world \<Rightarrow> Visualizer" where
  "new_Visualizer w = set_show_transmissions_mode SHOW_ALL
     \<lparr>net = w, nodes = [], channels = [], wired_links = [], bounds = Some (-10000, -10000, 10000, 10000), selected_node = None,
      show_transmissions_mode = SHOW_ALL, nodes_of_interest = [], follow_node = None, node_drag_state = None, drag_handlers = [], next_signal = 0,
      panning_state = None, pan_handlers = 0,
      hadj = \<lparr>adj_value = 0, adj_lower = 0, adj_upper = 20000, page_size = 600\<rparr>,
      vadj = \<lparr>adj_value = 0, adj_lower = 0, adj_upper = 20000, page_size = 450\<rparr>,
      zoom = \<lparr>adj_value = 1, adj_lower = 1 / 100, adj_upper = 10, page_size = 1\<rparr>,
      traits = netdevice_traits\<rparr>"

end
