(* ===== verification/VizView.thy ===== *)
theory VizView
  imports VizScene
begin

text \<open>
  What the scene of the visualizer guarantees: a well-formedness invariant that every event keeps (selection, appearance, links and their
  end points, nodes of interest), the result of the scan of the topology, dragging, panning and zooming.
\<close>

section \<open>Frame lemmas\<close>

lemma map_of_map_entry_at [simp]:
  "map_of (AList.map_entry k f d) j = (if j = k then map_option f (map_of d j) else map_of d j)"
  by (simp add: AList.map_of_map_entry split: option.split)

lemma keys_map_entry [simp]: "map fst (AList.map_entry k f d) = map fst d"
  by (induction d) auto

lemma d_ok_map_entry [simp]: "d_ok (AList.map_entry k f d) = d_ok d"
  by (simp add: d_ok_def)

text \<open>The links after \<open>update_points\<close> of some of them.\<close>

definition refreshed :: "Visualizer \<Rightarrow> nat list \<Rightarrow> WiredLink list" where
  "refreshed v js = map (\<lambda>i. let l = wired_links v ! i
     in if i \<in> set js then l\<lparr>points := Some (get_position v (Node_end (node1 l)), get_position v (node2 l))\<rparr> else l) [0..<length (wired_links v)]"

lemma get_position_links [simp]: "get_position (v\<lparr>wired_links := ls\<rparr>) e = get_position v e"
  by (cases e) simp_all

lemma fold_update_points: "fold update_points js v = v\<lparr>wired_links := refreshed v js\<rparr>"
proof (induction js arbitrary: v)
  case Nil
  have "refreshed v [] = wired_links v" by (rule nth_equalityI) (simp_all add: refreshed_def)
  then show ?case by simp
next
  case (Cons j js)
  have "refreshed (update_points j v) js = refreshed v (j # js)"
  proof (cases "j < length (wired_links v)")
    case True
    then have u: "update_points j v = v\<lparr>wired_links := (wired_links v)[j := (wired_links v ! j)
        \<lparr>points := Some (get_position v (Node_end (node1 (wired_links v ! j))), get_position v (node2 (wired_links v ! j)))\<rparr>]\<rparr>"
      by (simp add: update_points_def Let_def)
    show ?thesis unfolding u
      by (rule nth_equalityI) (simp_all add: True refreshed_def Let_def nth_list_update del: get_position.simps)
  next
    case False
    then show ?thesis by (auto simp: refreshed_def update_points_def)
  qed
  moreover have "\<exists>ls. update_points j v = v\<lparr>wired_links := ls\<rparr>" unfolding update_points_def Let_def by (metis Visualizer.surjective Visualizer.update_convs(4))
  ultimately show ?case using Cons.IH [of "update_points j v"] by auto
qed

lemma refreshed_ends [simp]:
  "length (refreshed v js) = length (wired_links v)"
  "map (\<lambda>l. (node1 l, node2 l)) (refreshed v js) = map (\<lambda>l. (node1 l, node2 l)) (wired_links v)"
  by (rule nth_equalityI | simp add: refreshed_def Let_def)+

text \<open>Moving a node, in one record.\<close>

definition moved_node :: "point \<Rightarrow> Node \<Rightarrow> Node" where
  "moved_node p nd = (update_svg_position p (nd\<lparr>center := p\<rparr>))
     \<lparr>label_at := map_option (\<lambda>_. (fst p, snd p + node_size nd * 3)) (label_at nd)\<rparr>"

lemma update_svg_fields [simp]:
  "node_index (update_svg_position p nd) = node_index nd" "center (update_svg_position p nd) = center nd" "node_links (update_svg_position p nd) = node_links nd"
  "known_mobility (update_svg_position p nd) = known_mobility nd" "selected (update_svg_position p nd) = selected nd" "highlighted (update_svg_position p nd) = highlighted nd"
  "color (update_svg_position p nd) = color nd" "node_size (update_svg_position p nd) = node_size nd" "label (update_svg_position p nd) = label nd"
  "label_at (update_svg_position p nd) = label_at nd" "radius (update_svg_position p nd) = radius nd" "fill_color (update_svg_position p nd) = fill_color nd"
  "line_width (update_svg_position p nd) = line_width nd" "stroke_color (update_svg_position p nd) = stroke_color nd"
  "(svg_item (update_svg_position p nd) = None) = (svg_item nd = None)"
  by (simp_all add: update_svg_position_def split: option.split)

lemma moved_node_fields [simp]:
  "node_index (moved_node p nd) = node_index nd" "center (moved_node p nd) = p" "node_links (moved_node p nd) = node_links nd"
  "known_mobility (moved_node p nd) = known_mobility nd" "selected (moved_node p nd) = selected nd" "label (moved_node p nd) = label nd"
  by (simp_all add: moved_node_def)

text \<open>What is drawn for a node is what its fields say.\<close>

definition looks_right :: "Node \<Rightarrow> bool" where
  "looks_right nd \<longleftrightarrow> radius nd = transform_distance_simulation_to_canvas (node_size nd) \<and>
     fill_color nd = (color nd AND 4294967040) OR (if svg_item nd = None then 255 else 128) \<and>
     line_width nd = transform_distance_simulation_to_canvas (node_size nd) * (if selected nd then 3 / 10 else 15 / 100) \<and>
     stroke_color nd = (if highlighted nd then ''yellow'' else ''black'')"

lemma looks_appearance [simp]: "looks_right (appearance nd)"
  by (simp add: looks_right_def appearance_def Let_def)

lemma looks_moved [simp]: "looks_right (moved_node p nd) = looks_right nd"
  by (simp add: looks_right_def moved_node_def)

lemma appearance_fields [simp]:
  "node_index (appearance nd) = node_index nd" "center (appearance nd) = center nd" "node_links (appearance nd) = node_links nd"
  "known_mobility (appearance nd) = known_mobility nd" "selected (appearance nd) = selected nd" "label (appearance nd) = label nd"
  by (simp_all add: appearance_def Let_def)

lemma set_position_eq:
  "set_position n p v = v\<lparr>nodes := AList.map_entry n (moved_node p) (nodes v),
     wired_links := refreshed (v\<lparr>nodes := AList.map_entry n (moved_node p) (nodes v)\<rparr>) (links_of v (Node_end n)),
     bounds := grow_bounds p (bounds v)\<rparr>"
proof -
  have e: "AList.map_entry n (\<lambda>nd. nd\<lparr>label_at := map_option (\<lambda>_. (fst p, snd p + node_size nd * 3)) (label_at nd)\<rparr>)
      (AList.map_entry n (\<lambda>nd. update_svg_position p (nd\<lparr>center := p\<rparr>)) d) = AList.map_entry n (moved_node p) d" for d
    by (induction d) (auto simp: moved_node_def)
  have g: "get_position (upd_node n (\<lambda>nd. update_svg_position p (nd\<lparr>center := p\<rparr>)) v) q = get_position (v\<lparr>nodes := AList.map_entry n (moved_node p) (nodes v)\<rparr>) q" for q
    by (cases q) (auto simp: upd_node_def option.case_eq_if)
  have r: "refreshed (upd_node n (\<lambda>nd. update_svg_position p (nd\<lparr>center := p\<rparr>)) v) js = refreshed (v\<lparr>nodes := AList.map_entry n (moved_node p) (nodes v)\<rparr>) js" for js
    by (simp only: refreshed_def g) (simp add: upd_node_def)
  have l: "links_of (upd_node n (\<lambda>nd. update_svg_position p (nd\<lparr>center := p\<rparr>)) v) (Node_end n) = links_of v (Node_end n)"
    by (simp add: links_of_def upd_node_def split: option.split)
  show ?thesis
    unfolding set_position_def Let_def fold_update_points l r by (simp add: upd_node_def e)
qed

text \<open>Most operations change only how nodes, links and the bounds are drawn.\<close>

definition view_change :: "Visualizer \<Rightarrow> Visualizer \<Rightarrow> bool" where
  "view_change v u \<longleftrightarrow> (\<exists>nds ls b. u = v\<lparr>nodes := nds, wired_links := ls, bounds := b\<rparr> \<and> map fst nds = map fst (nodes v))"

lemma view_change_fields:
  assumes "view_change v u"
  shows "net u = net v" "channels u = channels v" "selected_node u = selected_node v" "show_transmissions_mode u = show_transmissions_mode v"
    "nodes_of_interest u = nodes_of_interest v" "traits u = traits v" "follow_node u = follow_node v" "node_drag_state u = node_drag_state v"
    "drag_handlers u = drag_handlers v" "panning_state u = panning_state v" "pan_handlers u = pan_handlers v" "map fst (nodes u) = map fst (nodes v)"
  using assms by (auto simp: view_change_def)

lemma view_change_refl [simp]: "view_change v v"
  unfolding view_change_def by (rule exI [of _ "nodes v"], rule exI [of _ "wired_links v"], rule exI [of _ "bounds v"]) simp

lemma view_change_trans: "view_change v u \<Longrightarrow> view_change u w \<Longrightarrow> view_change v w"
  unfolding view_change_def by fastforce

lemma view_change_upd_node [simp]: "view_change v (upd_node n f v)"
  unfolding view_change_def upd_node_def
  by (rule exI [of _ "AList.map_entry n f (nodes v)"], rule exI [of _ "wired_links v"], rule exI [of _ "bounds v"]) simp

lemma view_change_set_position [simp]: "view_change v (set_position n p v)"
  unfolding view_change_def set_position_eq by (intro exI) (rule conjI, rule refl, simp)

section \<open>Structure of the scene\<close>

definition keys_ok :: "Visualizer \<Rightarrow> bool" where
  "keys_ok v \<longleftrightarrow> d_ok (nodes v) \<and> d_ok (channels v) \<and>
     (\<forall>n nd. map_of (nodes v) n = Some nd \<longrightarrow> node_index nd = n \<and> n < length (ns_nodes (net v)))"

definition links_ok :: "Visualizer \<Rightarrow> bool" where
  "links_ok v \<longleftrightarrow> (\<forall>i < length (wired_links v). i \<in> set (links_of v (Node_end (node1 (wired_links v ! i)))) \<and>
     i \<in> set (links_of v (node2 (wired_links v ! i))))"

definition points_ok :: "Visualizer \<Rightarrow> bool" where
  "points_ok v \<longleftrightarrow> (\<forall>i < length (wired_links v). points (wired_links v ! i) = None \<or>
     points (wired_links v ! i) = Some (get_position v (Node_end (node1 (wired_links v ! i))), get_position v (node2 (wired_links v ! i))))"

definition struct_ok :: "Visualizer \<Rightarrow> bool" where
  "struct_ok v \<longleftrightarrow> keys_ok v \<and> links_ok v \<and> points_ok v"

text \<open>Functions that keep the place of a node.\<close>

definition stays :: "(Node \<Rightarrow> Node) \<Rightarrow> bool" where
  "stays f \<longleftrightarrow> (\<forall>nd. node_index (f nd) = node_index nd \<and> center (f nd) = center nd \<and> node_links (f nd) = node_links nd)"

lemma upd_node_places:
  assumes "stays f"
  shows "get_position (upd_node n f v) e = get_position v e" "links_of (upd_node n f v) e = links_of v e"
  using assms by (cases e; simp add: upd_node_def links_of_def stays_def split: option.split)+

lemma upd_node_struct:
  assumes "stays f" and "struct_ok v"
  shows "struct_ok (upd_node n f v)"
proof -
  have "keys_ok (upd_node n f v)" using assms by (auto simp: struct_ok_def keys_ok_def upd_node_def stays_def)
  moreover have "links_ok (upd_node n f v)" using assms by (simp add: struct_ok_def links_ok_def upd_node_places) (simp add: upd_node_def)
  moreover have "points_ok (upd_node n f v)" using assms
    by (simp add: struct_ok_def points_ok_def upd_node_places del: get_position.simps) (simp add: upd_node_def del: get_position.simps)
  ultimately show ?thesis by (simp add: struct_ok_def)
qed

lemma get_position_moved:
  "get_position (v\<lparr>nodes := AList.map_entry n (moved_node p) (nodes v)\<rparr>) e =
     (if e = Node_end n \<and> n \<in> set (d_keys (nodes v)) then p else get_position v e)"
proof (cases e)
  case (Node_end m)
  have k: "n \<in> set (d_keys (nodes v)) \<longleftrightarrow> map_of (nodes v) n \<noteq> None" by (simp add: map_of_eq_None_iff)
  show ?thesis unfolding k using Node_end by (cases "map_of (nodes v) m") auto
qed simp

lemma set_position_places:
  "get_position (set_position n p v) e = (if e = Node_end n \<and> n \<in> set (d_keys (nodes v)) then p else get_position v e)"
  "links_of (set_position n p v) e = links_of v e"
proof -
  have "get_position (set_position n p v) e = get_position (v\<lparr>nodes := AList.map_entry n (moved_node p) (nodes v)\<rparr>) e"
    by (cases e) (simp_all add: set_position_eq)
  then show "get_position (set_position n p v) e = (if e = Node_end n \<and> n \<in> set (d_keys (nodes v)) then p else get_position v e)"
    by (simp only: get_position_moved)
qed (cases e; simp add: set_position_eq links_of_def split: option.split)

lemma refreshed_points:
  assumes l: "links_ok v" and p: "points_ok v" and len: "wired_links u = wired_links v"
    and same: "\<And>e. e \<noteq> x \<Longrightarrow> get_position u e = get_position v e"
  shows "i < length (wired_links v) \<Longrightarrow> points (refreshed u (links_of v x) ! i) = None \<or>
     points (refreshed u (links_of v x) ! i) = Some (get_position u (Node_end (node1 (wired_links v ! i))), get_position u (node2 (wired_links v ! i)))"
proof -
  assume i: "i < length (wired_links v)"
  show ?thesis
  proof (cases "i \<in> set (links_of v x)")
    case True
    then show ?thesis using i by (simp add: refreshed_def len Let_def del: get_position.simps)
  next
    case False
    then have "Node_end (node1 (wired_links v ! i)) \<noteq> x" "node2 (wired_links v ! i) \<noteq> x" using l i unfolding links_ok_def by blast+
    then show ?thesis using False i p by (simp add: refreshed_def len Let_def points_ok_def same del: get_position.simps)
  qed
qed

lemma refreshed_nth [simp]: "i < length (wired_links v) \<Longrightarrow> node1 (refreshed v js ! i) = node1 (wired_links v ! i) \<and> node2 (refreshed v js ! i) = node2 (wired_links v ! i)"
  by (simp add: refreshed_def Let_def)

lemma set_position_struct:
  assumes "struct_ok v"
  shows "struct_ok (set_position n p v)"
proof -
  let ?u = "v\<lparr>nodes := AList.map_entry n (moved_node p) (nodes v)\<rparr>"
  have w: "wired_links (set_position n p v) = refreshed ?u (links_of v (Node_end n))" by (simp add: set_position_eq)
  have g: "get_position (set_position n p v) e = get_position ?u e" for e by (simp only: set_position_places get_position_moved)
  have "keys_ok (set_position n p v)" using assms by (auto simp: struct_ok_def keys_ok_def set_position_eq)
  moreover have "links_ok (set_position n p v)" using assms by (simp add: struct_ok_def links_ok_def set_position_places w)
  moreover have "points_ok (set_position n p v)"
    unfolding points_ok_def g w using assms refreshed_points [of v ?u "Node_end n"]
    by (simp add: struct_ok_def get_position_moved del: get_position.simps)
  ultimately show ?thesis by (simp add: struct_ok_def)
qed

text \<open>Changing fields of a node and drawing it again.\<close>

definition restyle :: "nat \<Rightarrow> (Node \<Rightarrow> Node) \<Rightarrow> Visualizer \<Rightarrow> Visualizer" where
  "restyle n f v = update_appearance n (upd_node n f v)"

lemma stays_label [simp]: "stays (\<lambda>nd. if label_at nd = None then nd\<lparr>label_at := Some (0, 0)\<rparr> else nd)"
  by (simp add: stays_def)

lemma stays_appearance [simp]: "stays appearance"
  by (simp add: stays_def)

lemma update_appearance_cases:
  obtains "update_appearance n v = upd_node n appearance v"
  | nd where "map_of (nodes (upd_node n appearance v)) n = Some nd"
      "update_appearance n v = set_position n (center nd) (upd_node n (\<lambda>nd. if label_at nd = None then nd\<lparr>label_at := Some (0, 0)\<rparr> else nd) (upd_node n appearance v))"
proof (cases "map_of (nodes (upd_node n appearance v)) n")
  case None
  then show ?thesis using that(1) by (simp add: update_appearance_def Let_def)
next
  case (Some nd)
  then show ?thesis using that by (cases "label nd") (auto simp: update_appearance_def Let_def)
qed

lemma update_appearance_change: "view_change v (update_appearance n v)"
  by (rule update_appearance_cases [of n v]) (auto intro: view_change_trans [OF view_change_upd_node] view_change_trans [OF view_change_upd_node view_change_set_position])

lemma update_appearance_struct:
  assumes "struct_ok v"
  shows "struct_ok (update_appearance n v)"
  by (rule update_appearance_cases [of n v]) (simp_all add: assms upd_node_struct set_position_struct)

lemma update_appearance_places:
  "get_position (update_appearance n v) e = get_position v e" "links_of (update_appearance n v) e = links_of v e"
  "map (\<lambda>l. (node1 l, node2 l)) (wired_links (update_appearance n v)) = map (\<lambda>l. (node1 l, node2 l)) (wired_links v)"
proof -
  let ?L = "\<lambda>nd. if label_at nd = None then nd\<lparr>label_at := Some (0, 0)\<rparr> else nd"
  have l: "get_position (upd_node n ?L (upd_node n appearance v)) e = get_position v e" for e by (simp add: upd_node_places del: get_position.simps)
  show "get_position (update_appearance n v) e = get_position v e"
    by (rule update_appearance_cases [of n v])
      (auto simp: upd_node_places set_position_places l simp del: get_position.simps, auto simp: upd_node_def)
  show "links_of (update_appearance n v) e = links_of v e"
    by (rule update_appearance_cases [of n v]) (simp_all add: upd_node_places set_position_places)
  show "map (\<lambda>l. (node1 l, node2 l)) (wired_links (update_appearance n v)) = map (\<lambda>l. (node1 l, node2 l)) (wired_links v)"
    by (rule update_appearance_cases [of n v]) (simp_all add: upd_node_def set_position_eq)
qed

text \<open>The nodes after a change: the others are as before, the node itself is drawn as its fields say.\<close>

lemma update_appearance_nodes:
  "m \<noteq> n \<Longrightarrow> map_of (nodes (update_appearance n v)) m = map_of (nodes v) m"
  "map_of (nodes v) n = Some nd \<Longrightarrow> \<exists>nd'. map_of (nodes (update_appearance n v)) n = Some nd' \<and> looks_right nd' \<and> selected nd' = selected nd \<and> known_mobility nd' = known_mobility nd"
  "map_of (nodes v) n = None \<Longrightarrow> map_of (nodes (update_appearance n v)) n = None"
proof -
  have L: "looks_right (nd\<lparr>label_at := x\<rparr>) = looks_right nd" for nd :: Node and x by (simp add: looks_right_def)
  show "m \<noteq> n \<Longrightarrow> map_of (nodes (update_appearance n v)) m = map_of (nodes v) m"
    by (rule update_appearance_cases [of n v]) (simp_all add: upd_node_def set_position_eq)
  show "map_of (nodes v) n = Some nd \<Longrightarrow> \<exists>nd'. map_of (nodes (update_appearance n v)) n = Some nd' \<and> looks_right nd' \<and> selected nd' = selected nd \<and> known_mobility nd' = known_mobility nd"
    by (rule update_appearance_cases [of n v]) (auto simp: upd_node_def set_position_eq L)
  show "map_of (nodes v) n = None \<Longrightarrow> map_of (nodes (update_appearance n v)) n = None"
    by (rule update_appearance_cases [of n v]) (simp_all add: upd_node_def set_position_eq)
qed

section \<open>The invariant\<close>

definition look_ok :: "Visualizer \<Rightarrow> bool" where
  "look_ok v \<longleftrightarrow> (\<forall>n nd. map_of (nodes v) n = Some nd \<longrightarrow> looks_right nd)"

text \<open>Which nodes are marked as selected.\<close>

definition marks :: "Visualizer \<Rightarrow> nat \<Rightarrow> bool option" where
  "marks v n = map_option selected (map_of (nodes v) n)"

definition select_ok :: "Visualizer \<Rightarrow> bool" where
  "select_ok v \<longleftrightarrow> (\<forall>n b. marks v n = Some b \<longrightarrow> b = (selected_node v = Some n)) \<and> (\<forall>n. selected_node v = Some n \<longrightarrow> known v n)"

definition mobility_ok :: "Visualizer \<Rightarrow> bool" where
  "mobility_ok v \<longleftrightarrow> (\<forall>n nd b. map_of (nodes v) n = Some nd \<longrightarrow> known_mobility nd = Some b \<longrightarrow> b = (mobility_of (net v) n \<noteq> None))"

definition interest_ok :: "Visualizer \<Rightarrow> bool" where
  "interest_ok v \<longleftrightarrow> nodes_of_interest v = interest (show_transmissions_mode v) (selected_node v) (net v)"

definition base_ok :: "Visualizer \<Rightarrow> bool" where
  "base_ok v \<longleftrightarrow> struct_ok v \<and> look_ok v \<and> mobility_ok v"

definition scene_ok :: "Visualizer \<Rightarrow> bool" where
  "scene_ok v \<longleftrightarrow> base_ok v \<and> select_ok v \<and> interest_ok v"

lemma known_iff: "known v n \<longleftrightarrow> map_of (nodes v) n \<noteq> None"
  by (simp add: known_def map_of_eq_None_iff)

lemma known_change: "view_change v u \<Longrightarrow> known u n = known v n"
  by (simp only: known_def view_change_fields)

lemma base_change:
  assumes c: "view_change v u" and ok: "base_ok v" and s: "struct_ok u"
    and n: "\<And>m nd. map_of (nodes u) m = Some nd \<Longrightarrow>
      \<exists>nd0. map_of (nodes v) m = Some nd0 \<and> known_mobility nd = known_mobility nd0 \<and> (looks_right nd0 \<longrightarrow> looks_right nd)"
  shows "base_ok u"
proof -
  have "look_ok u" using ok n unfolding look_ok_def base_ok_def by blast
  moreover have "mobility_ok u" using ok n unfolding mobility_ok_def base_ok_def view_change_fields [OF c] by metis
  ultimately show ?thesis using s by (simp add: base_ok_def)
qed

lemma scene_change:
  assumes c: "view_change v u" and ok: "scene_ok v" and b: "base_ok u" and m: "marks u = marks v"
  shows "scene_ok u"
proof -
  have "select_ok u" using ok known_change [OF c] unfolding select_ok_def scene_ok_def m view_change_fields [OF c] by blast
  moreover have "interest_ok u" using ok unfolding interest_ok_def scene_ok_def view_change_fields [OF c] by blast
  ultimately show ?thesis using b by (simp add: scene_ok_def)
qed

text \<open>A change of a node that does not move it, then a new drawing.\<close>

lemma restyle_change: "view_change v (restyle n f v)"
  unfolding restyle_def by (rule view_change_trans [OF view_change_upd_node update_appearance_change])

lemma restyle_other: "m \<noteq> n \<Longrightarrow> map_of (nodes (restyle n f v)) m = map_of (nodes v) m"
  using update_appearance_nodes(1) [of m n "upd_node n f v"] by (simp add: restyle_def upd_node_def)

lemma restyle_node:
  "case map_of (nodes v) n of None \<Rightarrow> map_of (nodes (restyle n f v)) n = None
   | Some nd \<Rightarrow> \<exists>nd'. map_of (nodes (restyle n f v)) n = Some nd' \<and> looks_right nd' \<and> selected nd' = selected (f nd) \<and> known_mobility nd' = known_mobility (f nd)"
  using update_appearance_nodes(2,3) [of "upd_node n f v" n] by (simp add: restyle_def upd_node_def split: option.split)

lemma restyle_base:
  assumes "base_ok v" and "stays f" and k: "\<And>nd. known_mobility (f nd) = known_mobility nd"
  shows "base_ok (restyle n f v)"
proof (rule base_change [OF restyle_change assms(1)])
  show "struct_ok (restyle n f v)" using assms by (simp add: restyle_def base_ok_def upd_node_struct update_appearance_struct)
  fix m nd assume m: "map_of (nodes (restyle n f v)) m = Some nd"
  show "\<exists>nd0. map_of (nodes v) m = Some nd0 \<and> known_mobility nd = known_mobility nd0 \<and> (looks_right nd0 \<longrightarrow> looks_right nd)"
    using m restyle_other [of m n f v] restyle_node [of n f v] k by (cases "m = n") (auto split: option.splits)
qed

lemma restyle_marks: "marks (restyle n f v) m = (if m = n then map_option (\<lambda>nd. selected (f nd)) (map_of (nodes v) n) else marks v m)"
  using restyle_other [of m n f v] restyle_node [of n f v] by (auto simp: marks_def split: option.splits)

lemma restyle_ok:
  assumes "scene_ok v" and "stays f" and k: "\<And>nd. known_mobility (f nd) = known_mobility nd" and s: "\<And>nd. selected (f nd) = selected nd"
  shows "scene_ok (restyle n f v)"
proof (rule scene_change [OF restyle_change assms(1)])
  show "base_ok (restyle n f v)" using assms by (simp add: restyle_base scene_ok_def)
  show "marks (restyle n f v) = marks v" by (rule ext) (simp add: restyle_marks s, simp add: marks_def)
qed

lemma stays_update [simp]:
  "stays (\<lambda>nd. nd\<lparr>selected := b\<rparr>)" "stays (\<lambda>nd. nd\<lparr>highlighted := b\<rparr>)" "stays (\<lambda>nd. nd\<lparr>node_size := x\<rparr>)" "stays (\<lambda>nd. nd\<lparr>color := c\<rparr>)"
  "stays (\<lambda>nd. nd\<lparr>label := l\<rparr>)" "stays (\<lambda>nd. nd\<lparr>known_mobility := b'\<rparr>)" "stays (\<lambda>nd. update_svg_position p (nd\<lparr>svg_item := i, svg_align := a\<rparr>))"
  by (simp_all add: stays_def)

lemma style_ok:
  assumes "scene_ok v"
  shows "scene_ok (set_highlighted b n v)" "scene_ok (set_size x n v)" "scene_ok (set_color cp c n v)"
    "set_label py3 s n v = Inr u \<Longrightarrow> scene_ok u" "set_svg_icon h w ht al n v = Inr u \<Longrightarrow> scene_ok u"
proof -
  note r = restyle_ok [OF assms, unfolded restyle_def]
  show "scene_ok (set_highlighted b n v)" "scene_ok (set_size x n v)" "scene_ok (set_color cp c n v)" "set_label py3 s n v = Inr u \<Longrightarrow> scene_ok u"
    by (auto simp: set_highlighted_def set_size_def set_color_def set_label_def intro!: r split: if_splits)
  show "set_svg_icon h w ht al n v = Inr u \<Longrightarrow> scene_ok u"
    by (auto simp: set_svg_icon_def Let_def bind_r_eq_Inr_iff intro!: r split: if_splits option.splits)
qed

lemma set_position_ok:
  assumes "scene_ok v"
  shows "scene_ok (set_position n p v)"
proof (rule scene_change [OF view_change_set_position assms])
  show "base_ok (set_position n p v)"
    by (rule base_change [OF view_change_set_position]) (use assms in \<open>auto simp: scene_ok_def base_ok_def set_position_struct\<close>, auto simp: set_position_eq split: if_splits)
  show "marks (set_position n p v) = marks v" by (rule ext) (simp add: marks_def set_position_eq option.map_comp comp_def)
qed

lemma set_selected_eq: "set_selected b n v = restyle n (\<lambda>nd. nd\<lparr>selected := b\<rparr>) v"
  by (simp add: set_selected_def restyle_def)

lemma set_selected_marks: "marks (set_selected b n v) m = (if m = n then map_option (\<lambda>_. b) (marks v n) else marks v m)"
  by (simp add: set_selected_eq restyle_marks) (simp add: marks_def option.map_comp comp_def)

lemma set_selected_base: "base_ok v \<Longrightarrow> base_ok (set_selected b n v)"
  by (simp add: set_selected_eq restyle_base)

text \<open>The rest of the state has no part in it.\<close>

lemma base_ok_cong:
  assumes "nodes u = nodes v" and "channels u = channels v" and "wired_links u = wired_links v" and "net u = net v"
  shows "base_ok u = base_ok v"
proof -
  have "get_position u e = get_position v e" for e by (cases e) (simp_all add: assms)
  moreover have "links_of u e = links_of v e" for e by (cases e) (simp_all add: links_of_def assms)
  ultimately show ?thesis using assms
    by (simp add: base_ok_def struct_ok_def keys_ok_def links_ok_def points_ok_def look_ok_def mobility_ok_def del: get_position.simps)
qed

lemma marks_cong: "nodes u = nodes v \<Longrightarrow> marks u = marks v"
  by (simp add: marks_def fun_eq_iff)

lemma scene_ok_cong:
  assumes "nodes u = nodes v" and "channels u = channels v" and "wired_links u = wired_links v" and "net u = net v"
    and "selected_node u = selected_node v" and "show_transmissions_mode u = show_transmissions_mode v" and "nodes_of_interest u = nodes_of_interest v"
  shows "scene_ok u = scene_ok v"
  using assms by (simp add: scene_ok_def base_ok_cong [of u v] select_ok_def interest_ok_def marks_cong [of u v] known_def)

lemma select_resolved_ok:
  assumes ok: "scene_ok v" and k: "\<And>n. node = Some n \<Longrightarrow> known v n"
  shows "scene_ok (select_resolved node v)"
proof (cases "node = selected_node v")
  case True
  then show ?thesis using ok by (simp add: select_resolved_def)
next
  case False
  define v1 where "v1 = (case selected_node v of None \<Rightarrow> v | Some m \<Rightarrow> set_selected False m v)"
  define v2 where "v2 = (case node of None \<Rightarrow> v1\<lparr>selected_node := node\<rparr> | Some n \<Rightarrow> set_selected True n (v1\<lparr>selected_node := node\<rparr>))"
  define v3 where "v3 = (if show_transmissions_mode v2 = SHOW_SELECTED then v2\<lparr>nodes_of_interest := (case node of None \<Rightarrow> [] | Some n \<Rightarrow> [n])\<rparr> else v2)"
  have e: "select_resolved node v = v3" unfolding v3_def v2_def v1_def select_resolved_def Let_def using False by (simp only: if_False)
  have s: "select_ok v" and i: "interest_ok v" using ok by (simp_all add: scene_ok_def)
  have c1: "view_change v v1" by (simp add: v1_def set_selected_eq restyle_change split: option.split)
  have c2: "view_change (v1\<lparr>selected_node := node\<rparr>) v2" by (simp add: v2_def set_selected_eq restyle_change split: option.split)
  have b1: "base_ok v1" using ok by (simp add: v1_def set_selected_base scene_ok_def split: option.split)
  have b2: "base_ok v2" using b1 base_ok_cong [of "v1\<lparr>selected_node := node\<rparr>" v1] by (cases node) (simp_all add: v2_def set_selected_base)
  have m1: "b = False" if "marks v1 m = Some b" for m b
    using that s by (cases "selected_node v") (auto simp: v1_def set_selected_marks select_ok_def split: if_splits)
  have m1': "marks (v1\<lparr>selected_node := x\<rparr>) = marks v1" for x by (rule marks_cong) simp
  have m2: "b = (node = Some m)" if "marks v2 m = Some b" for m b
    using that m1 by (cases node) (auto simp: v2_def set_selected_marks m1' split: if_splits)
  have k2: "known v2 n = known v n" for n using known_change [OF c1, of n] known_change [OF c2, of n] by (simp add: known_def)
  have f: "nodes v3 = nodes v2" "channels v3 = channels v2" "wired_links v3 = wired_links v2" "net v3 = net v2" "selected_node v3 = selected_node v2"
    "show_transmissions_mode v3 = show_transmissions_mode v2" by (simp_all add: v3_def)
  have sel: "selected_node v3 = node" using f(5) view_change_fields [OF c2] by simp
  have "base_ok v3" using b2 base_ok_cong [OF f(1-4)] by simp
  moreover have "select_ok v3" using m2 k k2 sel marks_cong [OF f(1)] f(1) by (auto simp: select_ok_def known_def)
  moreover have "interest_ok v3" using i view_change_fields [OF c1] view_change_fields [OF c2] sel f
    by (simp add: interest_ok_def v3_def interest_def split: ShowTransmissionsMode.splits option.splits)
  ultimately show ?thesis unfolding e scene_ok_def by blast
qed

lemma resolve_known: "resolve_node a v = Inr (Some n) \<Longrightarrow> arg_known v a \<Longrightarrow> known v n"
  by (cases a) (auto simp: bind_r_eq_Inr_iff node_of_index_def known_def arg_known_def split: if_splits)

lemma select_node_ok: "scene_ok v \<Longrightarrow> arg_known v a \<Longrightarrow> select_node a v = Inr u \<Longrightarrow> scene_ok u"
  using resolve_known [of a v] by (auto simp: select_node_def bind_r_eq_Inr_iff intro!: select_resolved_ok)

lemma mode_ok: "scene_ok v \<Longrightarrow> scene_ok (set_show_transmissions_mode m v)"
  using base_ok_cong [of "set_show_transmissions_mode m v" v] marks_cong [of "set_show_transmissions_mode m v" v]
  by (simp add: set_show_transmissions_mode_def scene_ok_def select_ok_def interest_ok_def known_def)

text \<open>Positions of the simulator may change; which nodes have one may not.\<close>

definition same_net :: "world \<Rightarrow> world \<Rightarrow> bool" where
  "same_net w w' \<longleftrightarrow> length (ns_nodes w') = length (ns_nodes w) \<and> (\<forall>n. (mobility_of w' n = None) = (mobility_of w n = None))"

lemma net_ok:
  assumes "same_net (net v) w" and "scene_ok v"
  shows "scene_ok (v\<lparr>net := w\<rparr>)"
proof -
  have g: "get_position (v\<lparr>net := w\<rparr>) e = get_position v e" "links_of (v\<lparr>net := w\<rparr>) e = links_of v e" for e by (cases e; simp add: links_of_def)+
  have l: "length (ns_nodes w) = length (ns_nodes (net v))" "\<And>n. (mobility_of w n \<noteq> None) = (mobility_of (net v) n \<noteq> None)" using assms(1) by (simp_all add: same_net_def)
  have "struct_ok (v\<lparr>net := w\<rparr>)" using assms(2) l(1)
    by (simp add: scene_ok_def base_ok_def struct_ok_def keys_ok_def links_ok_def points_ok_def g del: get_position.simps)
  moreover have "look_ok (v\<lparr>net := w\<rparr>)" using assms(2) by (simp add: scene_ok_def base_ok_def look_ok_def)
  moreover have "mobility_ok (v\<lparr>net := w\<rparr>)" unfolding mobility_ok_def
  proof (intro allI impI)
    fix n nd b assume "map_of (nodes (v\<lparr>net := w\<rparr>)) n = Some nd" "known_mobility nd = Some b"
    then have "b = (mobility_of (net v) n \<noteq> None)" using assms(2) by (simp add: scene_ok_def base_ok_def mobility_ok_def)
    then show "b = (mobility_of (net (v\<lparr>net := w\<rparr>)) n \<noteq> None)" using l(2) [of n] by simp
  qed
  moreover have "select_ok (v\<lparr>net := w\<rparr>)" using assms(2) by (simp add: scene_ok_def select_ok_def marks_def known_def)
  moreover have "interest_ok (v\<lparr>net := w\<rparr>)" using assms(2) l(1)
    by (simp add: scene_ok_def interest_ok_def interest_def split: ShowTransmissionsMode.split)
  ultimately show ?thesis by (simp add: scene_ok_def base_ok_def)
qed

lemma moved_same: "same_net w (moved f w)"
  by (simp add: same_net_def moved_def mobility_of_def)

lemma SetPosition_same: "mobility_of w n \<noteq> None \<Longrightarrow> same_net w (SetPosition n p w)"
  by (simp add: same_net_def SetPosition_def mobility_of_def nth_list_update split: if_splits)

lemma has_mobility_ok:
  assumes "scene_ok v" and "has_mobility n v = (b, u)"
  shows "scene_ok u \<and> view_change v u \<and> (known v n \<longrightarrow> b = (mobility_of (net v) n \<noteq> None)) \<and> (\<forall>e. get_position u e = get_position v e) \<and> wired_links u = wired_links v"
proof (cases "map_of (nodes v) n")
  case None
  then show ?thesis using assms by (auto simp: has_mobility_def known_iff)
next
  case (Some nd)
  show ?thesis
  proof (cases "known_mobility nd")
    case None
    let ?f = "\<lambda>nd. nd\<lparr>known_mobility := Some (mobility_of (net v) n \<noteq> None)\<rparr>"
    have u: "u = upd_node n ?f v" "b = (mobility_of (net v) n \<noteq> None)" using assms(2) Some None by (auto simp: has_mobility_def Let_def)
    have c: "view_change v u" by (simp add: u)
    have s: "struct_ok u" using assms(1) unfolding u(1) by (intro upd_node_struct) (simp_all add: scene_ok_def base_ok_def)
    have "looks_right (nd\<lparr>known_mobility := x\<rparr>) = looks_right nd" for nd :: Node and x by (simp add: looks_right_def)
    then have "look_ok u" using assms(1) unfolding look_ok_def u(1) by (auto simp: scene_ok_def base_ok_def look_ok_def upd_node_def split: if_splits)
    moreover have "mobility_ok u" using assms(1) unfolding mobility_ok_def u(1) by (auto simp: scene_ok_def base_ok_def mobility_ok_def upd_node_def split: if_splits)
    ultimately have "base_ok u" using s by (simp add: base_ok_def)
    moreover have "marks u = marks v" by (rule ext) (simp add: u(1) marks_def upd_node_def option.map_comp comp_def)
    moreover have "get_position u e = get_position v e" for e unfolding u(1) by (rule upd_node_places) simp
    ultimately show ?thesis using scene_change [OF c assms(1)] c u by (simp add: upd_node_def)
  next
    case (Some b')
    then show ?thesis using \<open>map_of (nodes v) n = Some nd\<close> assms by (auto simp: has_mobility_def scene_ok_def base_ok_def mobility_ok_def)
  qed
qed

lemma center_at_ok: "scene_ok (center_at px q v) = scene_ok v"
  by (rule scene_ok_cong) (simp_all add: center_at_def Let_def)

lemma update_node_position_ok: "scene_ok v \<Longrightarrow> scene_ok (update_node_position px n v)"
  using has_mobility_ok [of v n]
  by (auto simp: update_node_position_def Let_def center_at_ok intro: set_position_ok split: prod.split option.split)

lemma fold_ok: "(\<And>x u. scene_ok u \<Longrightarrow> scene_ok (f x u)) \<Longrightarrow> scene_ok v \<Longrightarrow> scene_ok (fold f xs v)"
  by (induction xs arbitrary: v) simp_all

lemma drag_motion_ok: "scene_ok v \<Longrightarrow> scene_ok (node_drag_motion n q v)"
  by (auto simp: node_drag_motion_def Let_def intro!: set_position_ok net_ok SetPosition_same split: option.split)

lemma panning_motion_ok: "scene_ok v \<Longrightarrow> panning_motion q v = Inr u \<Longrightarrow> scene_ok u"
  by (subst scene_ok_cong [of u v]) (auto simp: panning_motion_def Let_def split: option.splits)

lemma drag_ends_ok: "scene_ok (begin_node_drag n q v) = scene_ok v" "scene_ok (end_node_drag n v) = scene_ok v"
  by (rule scene_ok_cong; simp add: begin_node_drag_def end_node_drag_def split: option.split)+

lemma pan_ends_ok: "scene_ok (begin_panning q v) = scene_ok v" "scene_ok (end_panning v) = scene_ok v" "scene_ok (canvas_scroll_event d v) = scene_ok v"
  by (rule scene_ok_cong; simp add: begin_panning_def end_panning_def canvas_scroll_event_def split: scroll_direction.split)+

lemma follow_ok: "scene_ok v \<Longrightarrow> set_follow_node a v = Inr u \<Longrightarrow> scene_ok u"
  by (subst scene_ok_cong [of u v]; cases a) (auto simp: bind_r_eq_Inr_iff)

lemma scene_react_ok:
  assumes "scene_ok v" and "scene_react px v ev = Inr u"
  shows "scene_ok u"
proof (cases ev)
  case (Canvas_motion q)
  then show ?thesis using assms foldM_r_invariant [of "\<lambda>v _. panning_motion q v" v "[0..<pan_handlers v]" u scene_ok] panning_motion_ok
    by (auto simp: canvas_motion_def)
next
  case (Center a)
  then obtain n where "u = center_at px (get_position v (Node_end n)) v"
    using assms by (auto simp: center_on_node_def bind_r_eq_Inr_iff simp del: get_position.simps split: option.splits)
  then show ?thesis using assms by (simp add: center_at_ok)
next
  case (Node_press n b q)
  then show ?thesis using assms select_node_ok [of v "Arg_view n" u]
    by (auto simp: on_node_button_press_event_def drag_ends_ok arg_known_def split: if_splits)
next
  case (Root_press b)
  then show ?thesis using assms select_node_ok [of v Arg_none u] by (auto simp: on_root_button_press_event_def arg_known_def split: if_splits)
qed (use assms in \<open>auto simp: node_motion_def on_node_button_release_event_def canvas_button_press_def canvas_button_release_def
    drag_ends_ok pan_ends_ok node_size_changed_def update_node_positions_def arg_known_def
    intro: fold_ok drag_motion_ok style_ok mode_ok select_node_ok follow_ok net_ok moved_same update_node_position_ok split: if_splits\<close>)

interpretation scene: event_system "scene_react px" scene_ok
  by unfold_locales (rule scene_react_ok)

section \<open>The scan\<close>

text \<open>The end points of the links, in the order of their creation.\<close>

definition link_ends :: "Visualizer \<Rightarrow> (nat \<times> endpoint) list" where
  "link_ends v = map (\<lambda>l. (node1 l, node2 l)) (wired_links v)"

lemma new_Node_right [simp]:
  "node_index (new_Node n) = n" "center (new_Node n) = (0, 0)" "node_links (new_Node n) = []" "known_mobility (new_Node n) = None" "selected (new_Node n) = False"
  "looks_right (new_Node n)"
  by (simp_all add: new_Node_def)

lemma mem_keys: "k \<in> set (d_keys d) \<longleftrightarrow> map_of d k \<noteq> None"
  by (simp add: map_of_eq_None_iff)

lemma get_node_map: "map_of (nodes (get_node n v)) m = (if m = n \<and> map_of (nodes v) n = None then Some (new_Node n) else map_of (nodes v) m)"
  by (simp add: get_node_def mem_keys del: set_map)

lemma get_channel_map:
  "map_of (channels (get_channel c v)) d = (if d = c \<and> map_of (channels v) c = None then Some \<lparr>channel_center = (0, 0), channel_links = []\<rparr> else map_of (channels v) d)"
  by (simp add: get_channel_def mem_keys del: set_map)

lemma get_node_fields [simp]:
  "net (get_node n v) = net v" "channels (get_node n v) = channels v" "traits (get_node n v) = traits v" "selected_node (get_node n v) = selected_node v"
  "wired_links (get_node n v) = wired_links v"
  by (simp_all add: get_node_def)

lemma get_node_places:
  "get_position (get_node n v) e = get_position v e" "links_of (get_node n v) e = links_of v e"
  by (cases e; simp add: links_of_def get_node_map split: option.split)+

lemma get_node_ok:
  assumes ok: "scene_ok v" and n: "n < length (ns_nodes (net v))"
  shows "scene_ok (get_node n v)"
proof (cases "known v n")
  case True
  then show ?thesis using ok by (simp add: get_node_def known_def)
next
  case False
  then have e: "get_node n v = v\<lparr>nodes := AList.update n (new_Node n) (nodes v)\<rparr>" by (simp add: get_node_def known_def)
  have m: "map_of (nodes (get_node n v)) k = (if k = n then Some (new_Node n) else map_of (nodes v) k)" for k by (simp add: e)
  have s: "select_ok v" using ok by (simp add: scene_ok_def)
  have "keys_ok (get_node n v)" using ok n by (auto simp: scene_ok_def base_ok_def struct_ok_def keys_ok_def e split: if_splits)
  moreover have "links_ok (get_node n v)" "points_ok (get_node n v)" using ok
    by (simp_all add: scene_ok_def base_ok_def struct_ok_def links_ok_def points_ok_def get_node_places del: get_position.simps)
  moreover have "look_ok (get_node n v)" "mobility_ok (get_node n v)" using ok
    by (auto simp: scene_ok_def base_ok_def look_ok_def mobility_ok_def m split: if_splits)
  moreover have "select_ok (get_node n v)" using s False by (auto simp: select_ok_def marks_def m known_iff split: if_splits)
  moreover have "interest_ok (get_node n v)" using ok by (simp add: scene_ok_def interest_ok_def e)
  ultimately show ?thesis by (simp add: scene_ok_def base_ok_def struct_ok_def)
qed

lemma get_channel_fields [simp]:
  "net (get_channel c v) = net v" "nodes (get_channel c v) = nodes v" "traits (get_channel c v) = traits v" "wired_links (get_channel c v) = wired_links v"
  "selected_node (get_channel c v) = selected_node v" "show_transmissions_mode (get_channel c v) = show_transmissions_mode v"
  "nodes_of_interest (get_channel c v) = nodes_of_interest v"
  by (simp_all add: get_channel_def)

lemma get_channel_places: "get_position (get_channel c v) e = get_position v e" "links_of (get_channel c v) e = links_of v e"
  by (cases e; simp add: links_of_def get_channel_map split: option.split)+

lemma get_channel_ok:
  assumes "scene_ok v"
  shows "scene_ok (get_channel c v)"
proof -
  have "d_ok (channels (get_channel c v))" using assms by (simp add: scene_ok_def base_ok_def struct_ok_def keys_ok_def get_channel_def)
  then show ?thesis using assms marks_cong [of "get_channel c v" v]
    by (simp add: scene_ok_def base_ok_def struct_ok_def keys_ok_def links_ok_def points_ok_def look_ok_def mobility_ok_def select_ok_def interest_ok_def known_def
        get_channel_places del: get_position.simps)
qed

text \<open>An end of a link exists.\<close>

fun end_known :: "Visualizer \<Rightarrow> endpoint \<Rightarrow> bool" where
  "end_known v (Node_end n) = (map_of (nodes v) n \<noteq> None)"
| "end_known v (Channel_end c) = (map_of (channels v) c \<noteq> None)"

lemma append_link_fields [simp]:
  "net (append_link i e v) = net v" "traits (append_link i e v) = traits v" "wired_links (append_link i e v) = wired_links v"
  "selected_node (append_link i e v) = selected_node v" "map fst (nodes (append_link i e v)) = map fst (nodes v)" "map fst (channels (append_link i e v)) = map fst (channels v)"
  "show_transmissions_mode (append_link i e v) = show_transmissions_mode v" "nodes_of_interest (append_link i e v) = nodes_of_interest v"
  by (cases e; simp add: append_link_def upd_node_def upd_channel_def)+

lemma append_link_places:
  "get_position (append_link i e v) x = get_position v x"
  "links_of (append_link i e v) x = links_of v x @ (if x = e \<and> end_known v e then [i] else [])"
  by (cases x; cases e; simp add: append_link_def upd_node_def upd_channel_def links_of_def split: option.split)+

lemma append_link_node:
  "map_of (nodes (append_link i e v)) m = map_option (\<lambda>nd. if e = Node_end m then nd\<lparr>node_links := node_links nd @ [i]\<rparr> else nd) (map_of (nodes v) m)"
  by (cases e) (simp_all add: append_link_def upd_node_def upd_channel_def option.map_ident)

lemma append_link_known [simp]: "end_known (append_link i e v) x = end_known v x"
  by (cases x; cases e) (simp_all add: append_link_def upd_node_def upd_channel_def)

lemma create_link_fields [simp]:
  "net (create_link n e v) = net v" "traits (create_link n e v) = traits v" "selected_node (create_link n e v) = selected_node v"
  "map fst (nodes (create_link n e v)) = map fst (nodes v)" "map fst (channels (create_link n e v)) = map fst (channels v)"
  "link_ends (create_link n e v) = link_ends v @ [(n, e)]" "get_position (create_link n e v) x = get_position v x" "end_known (create_link n e v) x = end_known v x"
proof -
  have "get_position (v\<lparr>wired_links := ls\<rparr>) x = get_position v x" "end_known (v\<lparr>wired_links := ls\<rparr>) x = end_known v x" for ls by (cases x; simp)+
  then show "net (create_link n e v) = net v" "traits (create_link n e v) = traits v" "selected_node (create_link n e v) = selected_node v"
    "map fst (nodes (create_link n e v)) = map fst (nodes v)" "map fst (channels (create_link n e v)) = map fst (channels v)"
    "link_ends (create_link n e v) = link_ends v @ [(n, e)]" "get_position (create_link n e v) x = get_position v x" "end_known (create_link n e v) x = end_known v x"
    by (simp_all add: create_link_def Let_def link_ends_def append_link_places del: get_position.simps end_known.simps)
qed

lemma create_link_wired: "wired_links (create_link n e v) = wired_links v @ [\<lparr>node1 = n, node2 = e, points = None\<rparr>]"
  by (simp add: create_link_def Let_def)

lemma create_link_node:
  "\<exists>g. map_of (nodes (create_link n e v)) m = map_option g (map_of (nodes v) m) \<and>
     (\<forall>nd. node_index (g nd) = node_index nd \<and> selected (g nd) = selected nd \<and> known_mobility (g nd) = known_mobility nd \<and> looks_right (g nd) = looks_right nd)"
  by (simp add: create_link_def Let_def append_link_node option.map_comp) (rule exI, rule conjI, rule refl, simp add: looks_right_def)

lemma links_of_wired: "links_of (v\<lparr>wired_links := ls\<rparr>) x = links_of v x" "end_known (v\<lparr>wired_links := ls\<rparr>) x = end_known v x"
  by (cases x; simp add: links_of_def)+

lemma create_link_links:
  assumes "end_known v (Node_end n)" and "end_known v e"
  shows "set (links_of (create_link n e v) x) = set (links_of v x) \<union> (if x = Node_end n \<or> x = e then {length (wired_links v)} else {})"
  using assms by (auto simp: create_link_def Let_def append_link_places links_of_wired simp del: end_known.simps)

lemma create_link_ok:
  assumes ok: "scene_ok v" and k: "end_known v (Node_end n)" "end_known v e"
  shows "scene_ok (create_link n e v)"
proof -
  let ?u = "create_link n e v"
  have r: "\<exists>nd0. map_of (nodes v) m = Some nd0 \<and> node_index nd = node_index nd0 \<and> selected nd = selected nd0 \<and> known_mobility nd = known_mobility nd0 \<and>
      looks_right nd = looks_right nd0" if "map_of (nodes ?u) m = Some nd" for m nd
    using that create_link_node [of n e v m] by (cases "map_of (nodes v) m") auto
  have "keys_ok ?u" using ok r unfolding scene_ok_def base_ok_def struct_ok_def keys_ok_def d_ok_def create_link_fields by metis
  moreover have "links_ok ?u" using ok
    by (simp add: scene_ok_def base_ok_def struct_ok_def links_ok_def create_link_wired create_link_links [OF k] nth_append less_Suc_eq)
  moreover have "points_ok ?u" using ok
    by (simp add: scene_ok_def base_ok_def struct_ok_def points_ok_def create_link_wired nth_append less_Suc_eq del: get_position.simps)
  moreover have "look_ok ?u" using ok r unfolding scene_ok_def base_ok_def look_ok_def by metis
  moreover have "mobility_ok ?u" using ok r unfolding scene_ok_def base_ok_def mobility_ok_def create_link_fields by metis
  moreover have "marks ?u m = marks v m" for m using create_link_node [of n e v m] by (cases "map_of (nodes v) m") (auto simp: marks_def)
  then have "select_ok ?u" using ok by (simp add: scene_ok_def select_ok_def known_def del: set_map)
  moreover have "interest_ok ?u" using ok by (simp add: scene_ok_def interest_ok_def create_link_def Let_def)
  ultimately show ?thesis by (simp add: scene_ok_def base_ok_def struct_ok_def)
qed

text \<open>The links of a node that the network asks for: to the channel when it has more than two devices, to the other nodes otherwise.\<close>

definition device_links :: "world \<Rightarrow> nat \<Rightarrow> ns_device \<Rightarrow> (nat \<times> endpoint) list" where
  "device_links w n dev =
     (if is_wired (fst (lookup_netdevice_traits (dev_type dev) netdevice_traits))
      then case dev_channel dev of
             None \<Rightarrow> []
           | Some c \<Rightarrow> if length (channel_nodes w c) > 2 then [(n, Channel_end c)]
               else map (\<lambda>k. (n, Node_end k)) (filter (\<lambda>k. k \<noteq> n) (channel_nodes w c))
      else [])"

definition wanted_links :: "world \<Rightarrow> nat \<Rightarrow> (nat \<times> endpoint) list" where
  "wanted_links w n = concat (map (device_links w n) (ns_devices (ns_nodes w ! n)))"

text \<open>Every wired device is attached to a channel, whose devices belong to nodes of the network.\<close>

definition world_ok :: "world \<Rightarrow> bool" where
  "world_ok w \<longleftrightarrow> (\<forall>n < length (ns_nodes w). \<forall>dev \<in> set (ns_devices (ns_nodes w ! n)).
     is_wired (fst (lookup_netdevice_traits (dev_type dev) netdevice_traits)) \<longrightarrow>
     (\<exists>c. dev_channel dev = Some c \<and> (\<forall>k \<in> set (channel_nodes w c). k < length (ns_nodes w))))"

definition anchored :: "world \<Rightarrow> nat \<Rightarrow> bool" where
  "anchored w c \<longleftrightarrow> (\<exists>n < length (ns_nodes w). mobility_of w n = None \<and> (\<exists>dev \<in> set (ns_devices (ns_nodes w ! n)). dev_channel dev = Some c))"

definition graph_names :: "graph_call list \<Rightarrow> string set" where
  "graph_names g = set (concat (map call_names g))"

lemma graph_names_snoc [simp]: "graph_names (g @ [c]) = graph_names g \<union> set (call_names c)" "graph_names [] = {}"
  by (simp_all add: graph_names_def)

text \<open>The name of an end in the graph; what has a name there exists, and has no position of its own.\<close>

fun end_name :: "endpoint \<Rightarrow> string" where
  "end_name (Node_end n) = node_name n"
| "end_name (Channel_end c) = channel_name c"

fun end_free :: "world \<Rightarrow> endpoint \<Rightarrow> bool" where
  "end_free w (Node_end n) = (mobility_of w n = None)"
| "end_free w (Channel_end c) = anchored w c"

definition graph_ok :: "world \<Rightarrow> Visualizer \<Rightarrow> graph_call list \<Rightarrow> bool" where
  "graph_ok w v g \<longleftrightarrow> (\<forall>s \<in> graph_names g. \<exists>e. s = end_name e \<and> end_known v e \<and> end_free w e)"

text \<open>What one step of the scan keeps, whatever it adds.\<close>

definition scan_inv :: "world \<Rightarrow> scan_state \<Rightarrow> bool" where
  "scan_inv w vg \<longleftrightarrow> scene_ok (fst vg) \<and> net (fst vg) = w \<and> graph_ok w (fst vg) (snd vg) \<and>
     (\<forall>c. fst (lookup_netdevice_traits c (traits (fst vg))) = fst (lookup_netdevice_traits c netdevice_traits))"

definition grows :: "(nat \<times> endpoint) list \<Rightarrow> scan_state \<Rightarrow> scan_state \<Rightarrow> bool" where
  "grows ls s s' \<longleftrightarrow> link_ends (fst s') = link_ends (fst s) @ ls \<and> (\<forall>e. get_position (fst s') e = get_position (fst s) e) \<and>
     (\<forall>e. end_known (fst s) e \<longrightarrow> end_known (fst s') e) \<and> graph_names (snd s) \<subseteq> graph_names (snd s')"

lemma grows_refl [simp]: "grows [] s s"
  by (simp add: grows_def)

lemma grows_trans: "grows ls s s' \<Longrightarrow> grows ks s' s'' \<Longrightarrow> grows (ls @ ks) s s''"
  by (auto simp: grows_def simp del: get_position.simps end_known.simps)

lemma graph_ok_mono: "graph_ok w v g \<Longrightarrow> (\<And>e. end_known v e \<Longrightarrow> end_known u e) \<Longrightarrow> graph_ok w u g"
  unfolding graph_ok_def by blast

lemma graph_ok_add:
  assumes "graph_ok w v g" and "\<And>s. s \<in> set (call_names c) \<Longrightarrow> \<exists>e. s = end_name e \<and> end_known v e \<and> end_free w e"
  shows "graph_ok w v (g @ [c])"
  using assms unfolding graph_ok_def by (simp add: ball_Un)

lemma get_node_known: "end_known (get_node n v) e \<longleftrightarrow> end_known v e \<or> e = Node_end n"
  by (cases e) (auto simp: get_node_map)

lemma get_channel_known: "end_known (get_channel c v) e \<longleftrightarrow> end_known v e \<or> e = Channel_end c"
  by (cases e) (auto simp: get_channel_map)

lemma link_ends_cong: "wired_links u = wired_links v \<Longrightarrow> link_ends u = link_ends v"
  by (simp add: link_ends_def)

lemma known_end: "known v n = end_known v (Node_end n)"
  by (simp add: known_iff)

lemma change_known: "view_change v u \<Longrightarrow> end_known u e = end_known v e"
  by (cases e) (simp_all only: end_known.simps mem_keys [symmetric] view_change_fields)

lemma link_other_step:
  assumes "scan_inv w s" and "k < length (ns_nodes w)" and "n < length (ns_nodes w)" and n: "end_known (fst s) (Node_end n)"
  shows "scan_inv w (link_other n k s) \<and> grows (if k = n then [] else [(n, Node_end k)]) s (link_other n k s)"
proof -
  obtain v g where s: "s = (v, g)" by (cases s)
  define v1 where "v1 = get_node k v"
  have v: "scene_ok v" "net v = w" "graph_ok w v g" "\<forall>c. fst (lookup_netdevice_traits c (traits v)) = fst (lookup_netdevice_traits c netdevice_traits)"
    using assms(1) by (simp_all add: s scan_inv_def)
  have ok1: "scene_ok v1" using v assms(2) by (simp add: v1_def get_node_ok)
  have k1: "end_known v1 e \<longleftrightarrow> end_known v e \<or> e = Node_end k" for e by (simp only: v1_def get_node_known)
  have p1: "get_position v1 e = get_position v e" for e by (simp only: v1_def get_node_places)
  have f1: "net v1 = w" "traits v1 = traits v" "wired_links v1 = wired_links v" using v by (simp_all add: v1_def)
  have g1: "graph_ok w v1 g" using v(3) k1 graph_ok_mono by blast
  obtain m v2 where h: "has_mobility k v1 = (m, v2)" by (cases "has_mobility k v1")
  define v3 where "v3 = (if mobility_of w n = None then v2 else v1)"
  define g3 where "g3 = (if mobility_of w n = None \<and> \<not> m then g @ [Add_edge (node_name n) (node_name k)] else g)"
  note hm = has_mobility_ok [OF ok1 h]
  have "known v1 k" using k1 by (simp only: known_end simp_thms)
  then have m: "m = (mobility_of w k \<noteq> None)" using hm by (simp only: f1 simp_thms)
  have c3: "view_change v1 v3" "scene_ok v3" "wired_links v3 = wired_links v" "\<And>e. get_position v3 e = get_position v e"
    using hm ok1 by (auto simp: v3_def f1 p1 simp del: get_position.simps)
  have k3: "end_known v3 e \<longleftrightarrow> end_known v e \<or> e = Node_end k" for e using change_known [OF c3(1), of e] k1 by blast
  have f3: "net v3 = w" "traits v3 = traits v" using view_change_fields [OF c3(1)] f1 by auto
  have g3: "graph_ok w v3 g3"
  proof -
    have b: "graph_ok w v3 g" using v(3) k3 graph_ok_mono by blast
    have "\<exists>e. s = end_name e \<and> end_known v3 e \<and> end_free w e" if "mobility_of w n = None" "\<not> m" "s \<in> {node_name n, node_name k}" for s
    proof -
      have "mobility_of w k = None" using m that(2) by blast
      then show ?thesis using that(1,3) n k3 by (auto simp: s simp del: end_known.simps intro: exI [of _ "Node_end n"] exI [of _ "Node_end k"])
    qed
    then show ?thesis using b by (auto simp: g3_def intro!: graph_ok_add)
  qed
  show ?thesis
  proof (cases "k = n")
    case True
    then have "link_other n k s = (v1, g)" by (simp add: link_other_def s v1_def)
    then show ?thesis using True ok1 f1 g1 v k1 p1 link_ends_cong [OF f1(3)] by (auto simp: scan_inv_def grows_def s simp del: get_position.simps end_known.simps)
  next
    case False
    let ?u = "create_link n (Node_end k) (get_node n v3)"
    have "end_known v3 (Node_end n)" using n k3 by (simp add: s del: end_known.simps)
    then have "get_node n v3 = v3" by (simp add: get_node_def mem_keys del: set_map)
    then have e: "link_other n k s = (?u, g3)" using False f1(1) v(2) h by (auto simp: link_other_def s v1_def [symmetric] v3_def g3_def Let_def)
    have "scene_ok ?u" using c3(2) n k3 \<open>get_node n v3 = v3\<close> by (simp add: create_link_ok s del: end_known.simps)
    moreover have "graph_ok w ?u g3" using g3 by (rule graph_ok_mono) (simp add: get_node_known del: end_known.simps)
    moreover have "graph_names g \<subseteq> graph_names g3" by (auto simp: g3_def)
    ultimately show ?thesis unfolding e using False f3 v k3 c3(4) link_ends_cong [OF c3(3)] \<open>get_node n v3 = v3\<close>
      by (simp add: scan_inv_def grows_def s del: get_position.simps end_known.simps)
  qed
qed

lemma link_others:
  assumes "scan_inv w s" and "\<forall>k \<in> set ks. k < length (ns_nodes w)" and "n < length (ns_nodes w)" and "end_known (fst s) (Node_end n)"
  shows "scan_inv w (fold (link_other n) ks s) \<and> grows (map (\<lambda>k. (n, Node_end k)) (filter (\<lambda>k. k \<noteq> n) ks)) s (fold (link_other n) ks s)"
  using assms
proof (induction ks arbitrary: s)
  case (Cons k ks)
  let ?s = "link_other n k s"
  have a: "scan_inv w ?s" "grows (if k = n then [] else [(n, Node_end k)]) s ?s" using link_other_step [of w s k n] Cons.prems by simp_all
  moreover have "end_known (fst ?s) (Node_end n)" using a(2) Cons.prems(4) unfolding grows_def by blast
  ultimately have b: "scan_inv w (fold (link_other n) ks ?s)" "grows (map (\<lambda>k. (n, Node_end k)) (filter (\<lambda>k. k \<noteq> n) ks)) ?s (fold (link_other n) ks ?s)"
    using Cons.IH [of ?s] Cons.prems by simp_all
  then show ?case using grows_trans [OF a(2) b(2)] by (cases "k = n") simp_all
qed simp

lemma scene_ok_traits [simp]: "scene_ok (v\<lparr>traits := d\<rparr>) = scene_ok v"
  by (rule scene_ok_cong) simp_all

lemma traits_places [simp]: "get_position (v\<lparr>traits := d\<rparr>) e = get_position v e" "end_known (v\<lparr>traits := d\<rparr>) e = end_known v e" "link_ends (v\<lparr>traits := d\<rparr>) = link_ends v"
  by (cases e; simp add: link_ends_def)+

lemma scan_device_step:
  assumes inv: "scan_inv w s" and n: "n < length (ns_nodes w)" and k: "end_known (fst s) (Node_end n)" and dev: "dev \<in> set (ns_devices (ns_nodes w ! n))" and w: "world_ok w"
  shows "\<exists>s'. scan_device n s dev = Inr s' \<and> scan_inv w s' \<and> grows (device_links w n dev) s s'"
proof -
  obtain v g where s: "s = (v, g)" by (cases s)
  obtain t d where l: "lookup_netdevice_traits (dev_type dev) (traits v) = (t, d)" by (cases "lookup_netdevice_traits (dev_type dev) (traits v)")
  let ?v = "v\<lparr>traits := d\<rparr>"
  have t: "t = fst (lookup_netdevice_traits (dev_type dev) netdevice_traits)" using inv l by (simp add: scan_inv_def s) (metis fst_conv)
  have d: "fst (lookup_netdevice_traits c d) = fst (lookup_netdevice_traits c netdevice_traits)" for c
    using inv lookup_traits_stable [of c "dev_type dev" "traits v"] l by (simp add: scan_inv_def s)
  have i1: "scan_inv w (?v, g)" using inv d graph_ok_mono [of w v g ?v] by (simp add: scan_inv_def s del: end_known.simps)
  have g1: "grows [] s (?v, g)" by (simp add: grows_def s del: get_position.simps end_known.simps)
  show ?thesis
  proof (cases "is_wired t")
    case False
    then have "scan_device n s dev = Inr (?v, g)" by (auto simp: scan_device_def s l is_wired_def Let_def)
    moreover have "device_links w n dev = []" using False t by (simp add: device_links_def)
    ultimately show ?thesis using i1 g1 by simp
  next
    case True
    then obtain c where c: "dev_channel dev = Some c" "\<forall>k \<in> set (channel_nodes w c). k < length (ns_nodes w)" using w n dev t unfolding world_ok_def by blast
    have kv: "end_known ?v (Node_end n)" using k by (simp add: s del: end_known.simps)
    have nv: "net v = w" using inv by (simp add: scan_inv_def s)
    show ?thesis
    proof (cases "length (channel_nodes w c) > 2")
      case False
      then have e: "scan_device n s dev = Inr (fold (link_other n) (channel_nodes w c) (?v, g))"
        using True c nv by (auto simp: scan_device_def s l is_wired_def Let_def)
      have "device_links w n dev = map (\<lambda>k. (n, Node_end k)) (filter (\<lambda>k. k \<noteq> n) (channel_nodes w c))" using True t c False by (simp add: device_links_def)
      then show ?thesis using e link_others [OF i1 c(2) n] kv grows_trans [OF g1] by auto
    next
      case big: True
      let ?u = "create_link n (Channel_end c) (get_channel c (get_node n (get_channel c ?v)))"
      let ?g = "if mobility_of w n = None then g @ [Add_edge (node_name n) (channel_name c)] else g"
      have e: "scan_device n s dev = Inr (?u, ?g)"
        using True c nv big by (auto simp: scan_device_def s l is_wired_def Let_def REPRESENT_CHANNELS_AS_NODES_def)
      have ku: "end_known ?u x \<longleftrightarrow> end_known v x \<or> x = Node_end n \<or> x = Channel_end c" for x
        by (auto simp: get_channel_known get_node_known simp del: end_known.simps)
      have "scene_ok ?u" using i1 n nv
        by (intro create_link_ok get_channel_ok get_node_ok) (auto simp: scan_inv_def get_channel_known get_node_known simp del: end_known.simps)
      moreover have "graph_ok w ?u ?g"
      proof -
        have b: "graph_ok w ?u g" using inv ku graph_ok_mono [of w v g ?u] by (auto simp: scan_inv_def s simp del: end_known.simps)
        have "anchored w c" if "mobility_of w n = None" using that n dev c(1) unfolding anchored_def by blast
        then have "\<exists>e. x = end_name e \<and> end_known ?u e \<and> end_free w e" if "mobility_of w n = None" "x \<in> {node_name n, channel_name c}" for x
          using that ku by (auto simp del: end_known.simps intro: exI [of _ "Node_end n"] exI [of _ "Channel_end c"])
        then show ?thesis using b by (auto intro!: graph_ok_add)
      qed
      moreover have "grows (device_links w n dev) s (?u, ?g)" using True t c big ku
        by (auto simp: grows_def s device_links_def get_channel_places get_node_places link_ends_def [of "get_channel _ _"] link_ends_def [of v] simp del: get_position.simps end_known.simps)
      ultimately show ?thesis using e d nv by (auto simp: scan_inv_def)
    qed
  qed
qed

lemma scan_devices:
  assumes "scan_inv w s" and "n < length (ns_nodes w)" and "end_known (fst s) (Node_end n)" and "set devs \<subseteq> set (ns_devices (ns_nodes w ! n))" and "world_ok w"
  shows "\<exists>s'. foldM_r (scan_device n) s devs = Inr s' \<and> scan_inv w s' \<and> grows (concat (map (device_links w n) devs)) s s'"
  using assms
proof (induction devs arbitrary: s)
  case (Cons dev devs)
  then obtain s1 where s1: "scan_device n s dev = Inr s1" "scan_inv w s1" "grows (device_links w n dev) s s1" using scan_device_step [of w s n dev] by auto
  have "end_known (fst s1) (Node_end n)" using s1(3) Cons.prems(3) unfolding grows_def by blast
  moreover have "set devs \<subseteq> set (ns_devices (ns_nodes w ! n))" using Cons.prems(4) by simp
  ultimately obtain s2 where "foldM_r (scan_device n) s1 devs = Inr s2" "scan_inv w s2" "grows (concat (map (device_links w n) devs)) s1 s2"
    using Cons.IH [OF s1(2) Cons.prems(2) _ _ Cons.prems(5)] by blast
  then show ?case using s1 grows_trans [OF s1(3)] by (intro exI [of _ s2]) simp
qed simp

lemma set_color_eq: "set_color cp c n v = restyle n (\<lambda>nd. nd\<lparr>color := case c of Color_name s \<Rightarrow> rgba (cp s) | Color_value i \<Rightarrow> i\<rparr>) v"
  by (simp add: set_color_def restyle_def)

lemma restyle_places:
  assumes "stays f"
  shows "get_position (restyle n f v) e = get_position v e" "link_ends (restyle n f v) = link_ends v"
  using assms by (simp_all add: restyle_def update_appearance_places upd_node_places link_ends_def del: get_position.simps) (simp add: upd_node_def)

lemma set_position_links: "link_ends (set_position n p v) = link_ends v"
  by (simp add: link_ends_def set_position_eq)

text \<open>A node is shown where it is in the simulation, before the layout at the origin when it is nowhere.\<close>

definition first_place :: "world \<Rightarrow> nat \<Rightarrow> point" where
  "first_place w n = (case mobility_of w n of Some p \<Rightarrow> transform_point_simulation_to_canvas p | None \<Rightarrow> (0, 0))"

lemma scan_node_step:
  assumes inv: "scan_inv w s" and n: "n < length (ns_nodes w)" and w: "world_ok w"
    and here: "get_position (fst s) (Node_end n) = (0, 0)"
  shows "\<exists>s'. scan_node cp s n = Inr s' \<and> scan_inv w s' \<and> link_ends (fst s') = link_ends (fst s) @ wanted_links w n \<and>
    (\<forall>e. get_position (fst s') e = (if e = Node_end n then first_place w n else get_position (fst s) e)) \<and>
    (\<forall>e. end_known (fst s) e \<or> e = Node_end n \<longrightarrow> end_known (fst s') e) \<and>
    graph_names (snd s) \<union> (if mobility_of w n = None then {node_name n} else {}) \<subseteq> graph_names (snd s')"
proof -
  obtain v g where s: "s = (v, g)" by (cases s)
  define v1 where "v1 = get_node n v"
  define s2 where "s2 = (case mobility_of w n of
      Some p \<Rightarrow> (set_position n (transform_point_simulation_to_canvas p) (set_color cp (Color_name ''red'') n v1), g) | None \<Rightarrow> (v1, g @ [Add_node (node_name n)]))"
  have v: "scene_ok v" "net v = w" "graph_ok w v g" "\<forall>c. fst (lookup_netdevice_traits c (traits v)) = fst (lookup_netdevice_traits c netdevice_traits)"
    using inv by (simp_all add: s scan_inv_def)
  have ok1: "scene_ok v1" using v n by (simp add: v1_def get_node_ok)
  have k1: "end_known v1 e \<longleftrightarrow> end_known v e \<or> e = Node_end n" for e by (simp only: v1_def get_node_known)
  have c: "view_change v1 (fst s2)"
    unfolding s2_def by (cases "mobility_of w n") (auto simp: set_color_eq intro: view_change_trans [OF restyle_change view_change_set_position])
  have k2: "end_known (fst s2) e \<longleftrightarrow> end_known v e \<or> e = Node_end n" for e using change_known [OF c] k1 by blast
  have ok2: "scene_ok (fst s2)" using ok1 unfolding s2_def by (cases "mobility_of w n") (simp_all add: set_position_ok style_ok(3))
  have p2: "get_position (fst s2) e = (if e = Node_end n then first_place w n else get_position v e)" for e
  proof (cases "mobility_of w n")
    case None
    then show ?thesis using here by (auto simp: s2_def first_place_def v1_def get_node_places s simp del: get_position.simps)
  next
    case (Some p)
    have "n \<in> set (d_keys (nodes (set_color cp (Color_name ''red'') n v1)))"
      using view_change_fields(12) [OF restyle_change, of n _ v1] k1 [of "Node_end n"] by (simp add: set_color_eq mem_keys del: set_map)
    moreover have "get_position (set_color cp (Color_name ''red'') n v1) e = get_position v e"
      by (simp only: set_color_eq restyle_places [OF stays_update(4)] v1_def get_node_places)
    ultimately show ?thesis by (simp add: s2_def Some first_place_def set_position_places del: get_position.simps set_map)
  qed
  have l2: "link_ends (fst s2) = link_ends v"
    by (cases "mobility_of w n") (simp_all add: s2_def set_color_eq restyle_places(2) [OF stays_update(4)] v1_def set_position_links link_ends_cong [OF get_node_fields(5)])
  have i2: "scan_inv w s2"
  proof -
    have b: "graph_ok w (fst s2) g" using v(3) k2 graph_ok_mono by blast
    have "\<exists>e. node_name n = end_name e \<and> end_known (fst s2) e \<and> end_free w e" if "mobility_of w n = None"
      using that k2 by (intro exI [of _ "Node_end n"]) (simp del: end_known.simps)
    then have "graph_ok w (fst s2) (snd s2)" using b by (cases "mobility_of w n") (auto simp: s2_def intro!: graph_ok_add)
    then show ?thesis using ok2 v view_change_fields(1,6) [OF c] by (simp add: scan_inv_def v1_def)
  qed
  obtain s3 where s3: "foldM_r (scan_device n) s2 (ns_devices (ns_nodes w ! n)) = Inr s3" "scan_inv w s3" "grows (wanted_links w n) s2 s3"
    using scan_devices [OF i2 n _ subset_refl w] k2 unfolding wanted_links_def by blast
  have "net (fst s2) = w" using i2 by (simp add: scan_inv_def)
  then have "scan_node cp s n = Inr s3" using s3(1) v(2)
    by (cases "mobility_of w n") (simp_all add: scan_node_def s s2_def v1_def [symmetric] Let_def)
  moreover have "graph_names g \<union> (if mobility_of w n = None then {node_name n} else {}) \<subseteq> graph_names (snd s2)" by (cases "mobility_of w n") (auto simp: s2_def)
  ultimately show ?thesis using s3 p2 k2 l2 unfolding grows_def s by (intro exI [of _ s3]) (auto simp del: get_position.simps end_known.simps)
qed

lemma scan_nodes:
  assumes w: "world_ok w" and "j \<le> length (ns_nodes w)" and "scan_inv w s" and "\<forall>e. get_position (fst s) e = (0, 0)"
  shows "\<exists>s'. foldM_r (scan_node cp) s [0..<j] = Inr s' \<and> scan_inv w s' \<and> link_ends (fst s') = link_ends (fst s) @ concat (map (wanted_links w) [0..<j]) \<and>
    (\<forall>e. get_position (fst s') e = (case e of Node_end n \<Rightarrow> if n < j then first_place w n else (0, 0) | Channel_end c \<Rightarrow> (0, 0))) \<and>
    (\<forall>n < j. end_known (fst s') (Node_end n) \<and> (mobility_of w n = None \<longrightarrow> node_name n \<in> graph_names (snd s')))"
  using assms(2)
proof (induction j)
  case 0
  then show ?case using assms by (auto simp del: get_position.simps split: endpoint.split)
next
  case (Suc j)
  then obtain s1 where s1: "foldM_r (scan_node cp) s [0..<j] = Inr s1" "scan_inv w s1" "link_ends (fst s1) = link_ends (fst s) @ concat (map (wanted_links w) [0..<j])"
      "\<And>e. get_position (fst s1) e = (case e of Node_end n \<Rightarrow> if n < j then first_place w n else (0, 0) | Channel_end c \<Rightarrow> (0, 0))"
      "\<And>n. n < j \<Longrightarrow> end_known (fst s1) (Node_end n) \<and> (mobility_of w n = None \<longrightarrow> node_name n \<in> graph_names (snd s1))"
    using Suc_leD by blast
  have j: "j < length (ns_nodes w)" "get_position (fst s1) (Node_end j) = (0, 0)" using Suc.prems by (simp_all add: s1(4) del: get_position.simps)
  then obtain s2 where s2: "scan_node cp s1 j = Inr s2" "scan_inv w s2" "link_ends (fst s2) = link_ends (fst s1) @ wanted_links w j"
      "\<And>e. get_position (fst s2) e = (if e = Node_end j then first_place w j else get_position (fst s1) e)"
      "\<And>e. end_known (fst s1) e \<or> e = Node_end j \<Longrightarrow> end_known (fst s2) e"
      "graph_names (snd s1) \<union> (if mobility_of w j = None then {node_name j} else {}) \<subseteq> graph_names (snd s2)"
    using scan_node_step [OF s1(2) j(1) w j(2), of cp] by blast
  have "foldM_r (scan_node cp) s [0..<Suc j] = Inr s2" using s1(1) s2(1) by (simp add: foldM_r_append)
  moreover have "link_ends (fst s2) = link_ends (fst s) @ concat (map (wanted_links w) [0..<Suc j])" using s1(3) s2(3) by simp
  moreover have "get_position (fst s2) e = (case e of Node_end n \<Rightarrow> if n < Suc j then first_place w n else (0, 0) | Channel_end c \<Rightarrow> (0, 0))" for e
    unfolding s2(4) s1(4) by (auto split: endpoint.split)
  moreover have "end_known (fst s2) (Node_end n) \<and> (mobility_of w n = None \<longrightarrow> node_name n \<in> graph_names (snd s2))" if "n < Suc j" for n
    using that s1(5) s2(5) [of "Node_end n"] s2(6) by (cases "n = j") (auto simp: less_Suc_eq simp del: end_known.simps)
  ultimately show ?case using s2(2) by blast
qed

text \<open>Placing: every name of the layout is read back to the end it was made of.\<close>

lemma str_of_int_nat: "str_of_int (int n) = str_of_nat n"
  by (simp add: str_of_int_def)

lemma split_end_name:
  "split_char (CHR '' '') (node_name n) = [''Node'', str_of_int (int n)]" "split_char (CHR '' '') (channel_name n) = [''Channel'', str_of_int (int n)]"
proof -
  have b: "CHR '' '' \<notin> set (str_of_int (int n))" using str_of_nat_not_space [of "CHR '' ''" n] by (auto simp: str_of_int_nat is_space_def)
  then show "split_char (CHR '' '') (node_name n) = [''Node'', str_of_int (int n)]"
    using split_char_append [of "CHR '' ''" "''Node''" "str_of_int (int n)"] split_char_word [OF b] by (simp add: node_name_def)
  show "split_char (CHR '' '') (channel_name n) = [''Channel'', str_of_int (int n)]"
    using split_char_append [of "CHR '' ''" "''Channel''" "str_of_int (int n)"] split_char_word [OF b] by (simp add: channel_name_def)
qed

lemma end_name_inj: "end_name e = end_name e' \<longleftrightarrow> e = e'"
proof
  assume a: "end_name e = end_name e'"
  have "i = j" if "str_of_int (int i) = str_of_int (int j)" for i j using arg_cong [OF that, of py_int] by simp
  then show "e = e'" using a by (cases e; cases e') (auto simp: node_name_def channel_name_def)
qed simp

definition read_pos :: "string \<Rightarrow> point" where
  "read_pos pos = (case mapM_r py_float (split_char (CHR '','') pos) of Inr [x, y] \<Rightarrow> (x, y) | _ \<Rightarrow> (0, 0))"

definition pos_ok :: "string \<Rightarrow> bool" where
  "pos_ok pos \<longleftrightarrow> (case mapM_r py_float (split_char (CHR '','') pos) of Inr [x, y] \<Rightarrow> True | _ \<Rightarrow> False)"

lemma place_step:
  assumes "end_known v e" and "pos_ok pos"
  shows "place (v, obj) (end_name e, pos) = Inr (place_end e (read_pos pos) v, Some e)"
proof -
  obtain x y where p: "mapM_r py_float (split_char (CHR '','') pos) = Inr [x, y]" using assms(2) by (auto simp: pos_ok_def split: sum.splits list.splits)
  then show ?thesis using assms(1)
    by (cases e) (simp_all add: place_def read_place_def find_object_def split_end_name read_pos_def mem_keys del: set_map)
qed

lemma channel_position_eq:
  "\<exists>ls. channel_set_position c p v = v\<lparr>channels := AList.map_entry c (\<lambda>ch. ch\<lparr>channel_center := p\<rparr>) (channels v), wired_links := ls\<rparr> \<and>
     map (\<lambda>l. (node1 l, node2 l)) ls = map (\<lambda>l. (node1 l, node2 l)) (wired_links v)"
  unfolding channel_set_position_def Let_def fold_update_points upd_channel_def by (intro exI conjI, rule refl) simp

lemma channel_position_places:
  "get_position (channel_set_position c p v) e = (if e = Channel_end c \<and> end_known v (Channel_end c) then p else get_position v e)"
  "links_of (channel_set_position c p v) e = links_of v e" "link_ends (channel_set_position c p v) = link_ends v"
  "net (channel_set_position c p v) = net v" "nodes (channel_set_position c p v) = nodes v"
  "end_known (channel_set_position c p v) e = end_known v e" "selected_node (channel_set_position c p v) = selected_node v"
  "show_transmissions_mode (channel_set_position c p v) = show_transmissions_mode v" "nodes_of_interest (channel_set_position c p v) = nodes_of_interest v"
proof -
  obtain ls where u: "channel_set_position c p v = v\<lparr>channels := AList.map_entry c (\<lambda>ch. ch\<lparr>channel_center := p\<rparr>) (channels v), wired_links := ls\<rparr>"
    "map (\<lambda>l. (node1 l, node2 l)) ls = map (\<lambda>l. (node1 l, node2 l)) (wired_links v)" using channel_position_eq by blast
  show "get_position (channel_set_position c p v) e = (if e = Channel_end c \<and> end_known v (Channel_end c) then p else get_position v e)"
    "links_of (channel_set_position c p v) e = links_of v e" "end_known (channel_set_position c p v) e = end_known v e"
    by (cases e; simp add: u(1) links_of_def split: option.split)+
  show "link_ends (channel_set_position c p v) = link_ends v" "net (channel_set_position c p v) = net v" "nodes (channel_set_position c p v) = nodes v"
    "selected_node (channel_set_position c p v) = selected_node v" "show_transmissions_mode (channel_set_position c p v) = show_transmissions_mode v"
    "nodes_of_interest (channel_set_position c p v) = nodes_of_interest v"
    by (simp_all add: u link_ends_def)
qed

lemma channel_position_ok:
  assumes "scene_ok v"
  shows "scene_ok (channel_set_position c p v)"
proof -
  let ?u = "upd_channel c (\<lambda>ch. ch\<lparr>channel_center := p\<rparr>) v" let ?w = "channel_set_position c p v"
  have l: "links_of ?u e = links_of v e" for e by (cases e) (simp_all add: links_of_def upd_channel_def split: option.split)
  have w: "wired_links ?w = refreshed ?u (links_of v (Channel_end c))" by (simp add: channel_set_position_def fold_update_points Let_def l)
  have wu: "wired_links ?u = wired_links v" by (simp add: upd_channel_def)
  have g: "get_position ?w e = get_position ?u e" for e by (simp add: channel_set_position_def fold_update_points Let_def del: get_position.simps)
  have s: "get_position ?u e = get_position v e" if "e \<noteq> Channel_end c" for e using that by (cases e) (simp_all add: upd_channel_def)
  have "keys_ok ?w" using assms
    by (auto simp: scene_ok_def base_ok_def struct_ok_def keys_ok_def channel_position_places)
      (simp add: channel_set_position_def fold_update_points Let_def upd_channel_def)
  moreover have "links_ok ?w" using assms by (simp add: scene_ok_def base_ok_def struct_ok_def links_ok_def w wu channel_position_places)
  moreover have "points_ok ?w" unfolding points_ok_def g w
    using assms refreshed_points [of v ?u "Channel_end c", OF _ _ wu s] by (simp add: scene_ok_def base_ok_def struct_ok_def wu del: get_position.simps)
  ultimately show ?thesis using assms marks_cong [of ?w v]
    by (simp add: scene_ok_def base_ok_def struct_ok_def look_ok_def mobility_ok_def select_ok_def interest_ok_def known_def channel_position_places del: set_map get_position.simps)
qed

lemma place_end_effect:
  assumes "scene_ok v" and "end_known v e"
  shows "scene_ok (place_end e p v) \<and> net (place_end e p v) = net v \<and> link_ends (place_end e p v) = link_ends v \<and>
    (\<forall>x. get_position (place_end e p v) x = (if x = e then p else get_position v x)) \<and> (\<forall>x. end_known (place_end e p v) x = end_known v x)"
proof (cases e)
  case (Node_end n)
  have "n \<in> set (d_keys (nodes v))" using assms(2) Node_end by (simp add: mem_keys del: set_map)
  then show ?thesis using assms Node_end change_known [OF view_change_set_position] view_change_fields(1) [OF view_change_set_position]
    by (simp add: set_position_ok set_position_places set_position_links del: get_position.simps end_known.simps set_map)
next
  case (Channel_end c)
  then show ?thesis using assms by (simp add: channel_position_ok channel_position_places del: get_position.simps end_known.simps)
qed

lemma place_all:
  assumes "scene_ok v" and "distinct (map fst L)" and "\<And>s pos. (s, pos) \<in> set L \<Longrightarrow> pos_ok pos \<and> (\<exists>e. s = end_name e \<and> end_known v e)"
  shows "\<exists>u o'. foldM_r place (v, obj) L = Inr (u, o') \<and> scene_ok u \<and> net u = net v \<and> link_ends u = link_ends v \<and> (\<forall>e. end_known u e = end_known v e) \<and>
    (\<forall>e. get_position u e = (case map_of L (end_name e) of Some pos \<Rightarrow> read_pos pos | None \<Rightarrow> get_position v e))"
  using assms
proof (induction L arbitrary: v obj)
  case (Cons a L)
  obtain s pos where a: "a = (s, pos)" by (cases a)
  obtain e where e: "s = end_name e" "end_known v e" "pos_ok pos" using Cons.prems(3) [of s pos] a by auto
  let ?v = "place_end e (read_pos pos) v"
  note E = place_end_effect [OF Cons.prems(1) e(2), of "read_pos pos"]
  have "\<exists>u o'. foldM_r place (?v, Some e) L = Inr (u, o') \<and> scene_ok u \<and> net u = net ?v \<and> link_ends u = link_ends ?v \<and> (\<forall>x. end_known u x = end_known ?v x) \<and>
    (\<forall>x. get_position u x = (case map_of L (end_name x) of Some pos \<Rightarrow> read_pos pos | None \<Rightarrow> get_position ?v x))"
  proof (rule Cons.IH)
    show "scene_ok ?v" "distinct (map fst L)" using E Cons.prems(2) by simp_all
    show "pos_ok q \<and> (\<exists>e. t = end_name e \<and> end_known ?v e)" if "(t, q) \<in> set L" for t q using E Cons.prems(3) [of t q] that by auto
  qed
  then obtain u o' where r: "foldM_r place (?v, Some e) L = Inr (u, o') \<and> scene_ok u \<and> net u = net ?v \<and> link_ends u = link_ends ?v \<and> (\<forall>x. end_known u x = end_known ?v x) \<and>
    (\<forall>x. get_position u x = (case map_of L (end_name x) of Some pos \<Rightarrow> read_pos pos | None \<Rightarrow> get_position ?v x))" by (elim exE)
  have u: "foldM_r place (?v, Some e) L = Inr (u, o')" "scene_ok u" "net u = net v" "link_ends u = link_ends v" "\<forall>x. end_known u x = end_known v x"
    "\<And>x. get_position u x = (case map_of L (end_name x) of Some pos \<Rightarrow> read_pos pos | None \<Rightarrow> get_position ?v x)" using r E by (simp_all del: get_position.simps end_known.simps)
  have "foldM_r place (v, obj) (a # L) = Inr (u, o')" using u(1) place_step [OF e(2,3), of obj] by (simp add: a e(1))
  moreover have "get_position u x = (case map_of (a # L) (end_name x) of Some pos \<Rightarrow> read_pos pos | None \<Rightarrow> get_position v x)" for x
  proof (cases "x = e")
    case True
    then have "map_of L (end_name x) = None" using Cons.prems(2) by (simp add: a e(1) map_of_eq_None_iff)
    then show ?thesis using u(6) [of x] E True by (simp add: a e(1) del: get_position.simps)
  next
    case False
    then have "end_name x \<noteq> s" by (simp add: e(1) end_name_inj)
    moreover have "get_position ?v x = get_position v x" using E False by (simp del: get_position.simps)
    ultimately show ?thesis using u(6) [of x] by (cases "map_of L (end_name x)") (simp_all add: a del: get_position.simps)
  qed
  ultimately show ?case using u(2-5) by blast
qed (simp del: get_position.simps end_known.simps)

text \<open>What the scan relies on of the layout: each name of the graph once, with a position of two numbers.\<close>

definition layout_ok :: "(graph_call list \<Rightarrow> (string \<times> string) list) \<Rightarrow> bool" where
  "layout_ok layout \<longleftrightarrow> (\<forall>g. distinct (map fst (layout g)) \<and> fst ` set (layout g) = graph_names g \<and> (\<forall>s pos. (s, pos) \<in> set (layout g) \<longrightarrow> pos_ok pos))"

lemma new_Visualizer_scan: "scan_inv w (new_Visualizer w, [])" "get_position (new_Visualizer w) e = (0, 0)" "link_ends (new_Visualizer w) = []"
proof -
  show "get_position (new_Visualizer w) e = (0, 0)" by (cases e) (simp_all add: new_Visualizer_def set_show_transmissions_mode_def)
  show "scan_inv w (new_Visualizer w, [])" "link_ends (new_Visualizer w) = []"
    by (simp_all add: scan_inv_def new_Visualizer_def set_show_transmissions_mode_def graph_ok_def scene_ok_def base_ok_def struct_ok_def keys_ok_def
        links_ok_def points_ok_def look_ok_def mobility_ok_def select_ok_def interest_ok_def marks_def link_ends_def)
qed

lemma scan_topology_result:
  assumes w: "world_ok w" and l: "layout_ok layout"
  obtains u g where "scan_topology cp layout (new_Visualizer w) = Inr u" "scene_ok u" "net u = w"
    "link_ends u = concat (map (wanted_links w) [0..<length (ns_nodes w)])" "\<And>n. end_known u (Node_end n) = (n < length (ns_nodes w))"
    "\<And>e. get_position u e = (case map_of (layout g) (end_name e) of Some pos \<Rightarrow> read_pos pos
       | None \<Rightarrow> (case e of Node_end n \<Rightarrow> if n < length (ns_nodes w) then first_place w n else (0, 0) | Channel_end c \<Rightarrow> (0, 0)))"
    "\<And>n. n < length (ns_nodes w) \<Longrightarrow> mobility_of w n = None \<Longrightarrow> node_name n \<in> graph_names g"
    "\<And>e. end_name e \<in> graph_names g \<Longrightarrow> end_free w e"
proof -
  let ?N = "length (ns_nodes w)"
  have start: "\<forall>e. get_position (fst (new_Visualizer w, [])) e = (0, 0)" by (simp add: new_Visualizer_scan del: get_position.simps)
  obtain s where s: "foldM_r (scan_node cp) (new_Visualizer w, []) [0..<?N] = Inr s" "scan_inv w s" "link_ends (fst s) = concat (map (wanted_links w) [0..<?N])"
      "\<forall>e. get_position (fst s) e = (case e of Node_end n \<Rightarrow> if n < ?N then first_place w n else (0, 0) | Channel_end c \<Rightarrow> (0, 0))"
      "\<forall>n < ?N. end_known (fst s) (Node_end n) \<and> (mobility_of w n = None \<longrightarrow> node_name n \<in> graph_names (snd s))"
    using scan_nodes [OF w order.refl new_Visualizer_scan(1) start, of cp] by (auto simp: new_Visualizer_scan(3) simp del: get_position.simps end_known.simps)
  obtain v g where vg: "s = (v, g)" by (cases s)
  have v: "scene_ok v" "net v = w" "graph_ok w v g" using s(2) by (simp_all add: scan_inv_def vg)
  have L: "distinct (map fst (layout g))" "fst ` set (layout g) = graph_names g" "\<And>s pos. (s, pos) \<in> set (layout g) \<Longrightarrow> pos_ok pos" using l by (simp_all add: layout_ok_def)
  have "pos_ok pos \<and> (\<exists>e. t = end_name e \<and> end_known v e)" if "(t, pos) \<in> set (layout g)" for t pos
    using that L(2,3) v(3) unfolding graph_ok_def by (metis fst_conv image_eqI)
  then obtain u o' where u: "foldM_r place (v, None) (layout g) = Inr (u, o')" "scene_ok u" "net u = net v" "link_ends u = link_ends v" "\<forall>e. end_known u e = end_known v e"
      "\<forall>e. get_position u e = (case map_of (layout g) (end_name e) of Some pos \<Rightarrow> read_pos pos | None \<Rightarrow> get_position v e)"
    using place_all [OF v(1) L(1), of None] by blast
  have "net (new_Visualizer w) = w" by (simp add: new_Visualizer_def set_show_transmissions_mode_def)
  then have r: "scan_topology cp layout (new_Visualizer w) = Inr u" using s(1) u(1) by (simp add: scan_topology_def vg)
  have "end_known v (Node_end n) = (n < ?N)" for n using s(5) v(1,2) by (auto simp: vg scene_ok_def base_ok_def struct_ok_def keys_ok_def)
  then have k: "end_known u (Node_end n) = (n < ?N)" for n using u(5) by blast
  have f: "end_free w e" if h: "end_name e \<in> graph_names g" for e
  proof -
    obtain e' where "end_name e = end_name e' \<and> end_known v e' \<and> end_free w e'" using bspec [OF v(3) [unfolded graph_ok_def] h] ..
    then show ?thesis by (simp only: end_name_inj)
  qed
  show thesis
  proof (rule that [of u g])
    show "get_position u e = (case map_of (layout g) (end_name e) of Some pos \<Rightarrow> read_pos pos
       | None \<Rightarrow> (case e of Node_end n \<Rightarrow> if n < ?N then first_place w n else (0, 0) | Channel_end c \<Rightarrow> (0, 0)))" for e
      using u(6) s(4) by (cases "map_of (layout g) (end_name e)") (simp_all add: vg del: get_position.simps)
  qed (use r u v s(3,5) k f in \<open>auto simp: vg simp del: get_position.simps end_known.simps\<close>)
qed

text \<open>
  C12: The scan of the topology, for every network whose wired devices are attached, every layout that places the names of its graph and any colours,
  returns a well-formed scene with one view for each node. The links are, node by node and device by device, one to the channel when it has more than two devices and
  one to every other node of the channel otherwise, so a channel between two nodes is drawn by two links. A node that has a position in the simulation is shown there, any other where the layout
  puts it; and a channel all of whose nodes have positions is left at the origin.
\<close>

theorem scan_topology_scene:
  assumes "world_ok w" and "layout_ok layout"
  shows "\<exists>v g. scan_topology color_parse layout (new_Visualizer w) = Inr v \<and> scene_ok v \<and> (\<forall>n. known v n = (n < length (ns_nodes w))) \<and>
    map (\<lambda>l. (node1 l, node2 l)) (wired_links v) = concat (map (wanted_links w) [0..<length (ns_nodes w)]) \<and>
    (\<forall>n p. mobility_of w n = Some p \<longrightarrow> get_position v (Node_end n) = transform_point_simulation_to_canvas p) \<and>
    (\<forall>n < length (ns_nodes w). mobility_of w n = None \<longrightarrow> (\<exists>pos. map_of (layout g) (node_name n) = Some pos \<and> get_position v (Node_end n) = read_pos pos)) \<and>
    (\<forall>c. \<not> anchored w c \<longrightarrow> get_position v (Channel_end c) = (0, 0))"
proof -
  obtain v g where v: "scan_topology color_parse layout (new_Visualizer w) = Inr v" "scene_ok v" "net v = w"
      "link_ends v = concat (map (wanted_links w) [0..<length (ns_nodes w)])" "\<And>n. end_known v (Node_end n) = (n < length (ns_nodes w))"
      "\<And>e. get_position v e = (case map_of (layout g) (end_name e) of Some pos \<Rightarrow> read_pos pos
         | None \<Rightarrow> (case e of Node_end n \<Rightarrow> if n < length (ns_nodes w) then first_place w n else (0, 0) | Channel_end c \<Rightarrow> (0, 0)))"
      "\<And>n. n < length (ns_nodes w) \<Longrightarrow> mobility_of w n = None \<Longrightarrow> node_name n \<in> graph_names g"
      "\<And>e. end_name e \<in> graph_names g \<Longrightarrow> end_free w e"
    by (rule scan_topology_result [OF assms, of color_parse]) (rule that)
  have g: "fst ` set (layout g) = graph_names g" using assms(2) by (simp add: layout_ok_def)
  have no: "map_of (layout g) (end_name e) = None" if "\<not> end_free w e" for e using that v(8) [of e] g by (auto simp: map_of_eq_None_iff)
  have "get_position v (Node_end n) = transform_point_simulation_to_canvas p" if "mobility_of w n = Some p" for n p
  proof -
    have "n < length (ns_nodes w)" using that by (simp add: mobility_of_def split: if_splits)
    then show ?thesis using no [of "Node_end n"] that by (simp add: v(6) first_place_def del: get_position.simps)
  qed
  moreover have "\<exists>pos. map_of (layout g) (node_name n) = Some pos \<and> get_position v (Node_end n) = read_pos pos" if "n < length (ns_nodes w)" "mobility_of w n = None" for n
  proof -
    have "map_of (layout g) (node_name n) \<noteq> None" using v(7) [OF that] g by (simp add: map_of_eq_None_iff)
    then show ?thesis by (auto simp: v(6) simp del: get_position.simps)
  qed
  moreover have "get_position v (Channel_end c) = (0, 0)" if "\<not> anchored w c" for c using no [of "Channel_end c"] that by (simp add: v(6) del: get_position.simps)
  ultimately show ?thesis using v(1,2,4,5) by (auto simp: known_end link_ends_def simp del: get_position.simps end_known.simps)
qed

text \<open>A network of three nodes: two joined by a point-to-point channel, the second with a position, and all three on a bus.\<close>

definition small_net :: world where
  "small_net = \<lparr>ns_nodes =
     [\<lparr>mobility = None, ns_devices = [\<lparr>dev_type = ''PointToPointNetDevice'', dev_channel = Some 7\<rparr>, \<lparr>dev_type = ''CsmaNetDevice'', dev_channel = Some 8\<rparr>]\<rparr>,
      \<lparr>mobility = Some (2, 5), ns_devices = [\<lparr>dev_type = ''PointToPointNetDevice'', dev_channel = Some 7\<rparr>, \<lparr>dev_type = ''CsmaNetDevice'', dev_channel = Some 8\<rparr>]\<rparr>,
      \<lparr>mobility = None, ns_devices = [\<lparr>dev_type = ''LoopbackNetDevice'', dev_channel = None\<rparr>, \<lparr>dev_type = ''CsmaNetDevice'', dev_channel = Some 8\<rparr>]\<rparr>],
     channel_nodes = (\<lambda>c. if c = 7 then [0, 1] else if c = 8 then [0, 1, 2] else [])\<rparr>"

definition flat_layout :: "graph_call list \<Rightarrow> (string \<times> string) list" where
  "flat_layout g = map (\<lambda>s. (s, ''1,2'')) (remdups (concat (map call_names g)))"

lemma flat_layout_ok: "layout_ok flat_layout"
proof -
  have "pos_ok ''1,2''" by (simp add: pos_ok_def) code_simp
  then show ?thesis by (auto simp: layout_ok_def flat_layout_def graph_names_def comp_def image_iff)
qed

lemma small_net_ok: "world_ok small_net"
  by (simp add: world_ok_def small_net_def lookup_netdevice_traits_def netdevice_traits_def is_wired_def less_Suc_eq)

theorem scan_topology_scene_witness:
  "\<exists>v. scan_topology (\<lambda>_. (65535, 0, 0)) flat_layout (new_Visualizer small_net) = Inr v \<and> scene_ok v \<and>
     map (\<lambda>l. (node1 l, node2 l)) (wired_links v) =
       [(0, Node_end 1), (0, Channel_end 8), (1, Node_end 0), (1, Channel_end 8), (2, Channel_end 8)] \<and> get_position v (Node_end 1) = (6, 15)"
proof -
  have l: "concat (map (wanted_links small_net) [0..<length (ns_nodes small_net)]) =
      [(0, Node_end 1), (0, Channel_end 8), (1, Node_end 0), (1, Channel_end 8), (2, Channel_end 8)]" by code_simp
  have m: "mobility_of small_net 1 = Some (2, 5)" by (simp add: mobility_of_def small_net_def)
  obtain v where v: "scan_topology (\<lambda>_. (65535, 0, 0)) flat_layout (new_Visualizer small_net) = Inr v" "scene_ok v"
      "map (\<lambda>l. (node1 l, node2 l)) (wired_links v) = concat (map (wanted_links small_net) [0..<length (ns_nodes small_net)])"
      "\<forall>n p. mobility_of small_net n = Some p \<longrightarrow> get_position v (Node_end n) = transform_point_simulation_to_canvas p"
    using scan_topology_scene [OF small_net_ok flat_layout_ok, of "\<lambda>_. (65535, 0, 0)"] by blast
  then have "get_position v (Node_end 1) = (6, 15)" using m by (simp add: transform_point_simulation_to_canvas_def PIXELS_PER_METER_def del: get_position.simps)
  then show ?thesis using v(1-3) l by (intro exI [of _ v]) (simp del: get_position.simps)
qed

text \<open>
  C13: The scene stays well formed: from any network that the scan accepts, after any sequence of mouse events, selections, changes of mode and size, moves of the
  simulation and updates of the view that raises nothing, every view has the index it is stored under, exactly the selected node is marked and every node is drawn as its
  fields say, every link is known to both of its ends and, once drawn, runs between their positions, and the nodes of interest are those of the mode.
\<close>

theorem scene_well_formed:
  assumes "world_ok w" and "layout_ok layout" and "scan_topology color_parse layout (new_Visualizer w) = Inr v"
    and "foldM_r (scene_react px) v evs = Inr u"
  shows "scene_ok u"
proof -
  obtain v' where "scan_topology color_parse layout (new_Visualizer w) = Inr v'" "scene_ok v'" by (rule scan_topology_result [OF assms(1,2), of color_parse]) (rule that)
  then show ?thesis using assms(3,4) scene.run_inv [of v px evs u] by simp
qed

definition small_events :: "scene_event list" where
  "small_events = [Node_press 1 1 (0, 0), Enter 0, Mode SHOW_SELECTED, Node_press 1 2 (6, 15), Node_motion 1 (9, 18), Node_release 1 2, Refresh, Root_press 1]"

theorem scene_well_formed_witness:
  "\<exists>v u. scan_topology (\<lambda>_. (65535, 0, 0)) flat_layout (new_Visualizer small_net) = Inr v \<and> foldM_r (scene_react (\<lambda>_ p. p)) v small_events = Inr u \<and> scene_ok u"
proof -
  obtain v where v: "scan_topology (\<lambda>_. (65535, 0, 0)) flat_layout (new_Visualizer small_net) = Inr v" by (rule scan_topology_result [OF small_net_ok flat_layout_ok]) (rule that)
  have "scene_react (\<lambda>_ p. p) u ev \<noteq> Inl e" if "ev \<in> set small_events" for u ev e
    using that by (auto simp: small_events_def on_node_button_press_event_def on_root_button_press_event_def select_node_def split: if_splits)
  then have "\<exists>x. scene_react (\<lambda>_ p. p) u ev = Inr x" if "ev \<in> set small_events" for u ev using that by (cases "scene_react (\<lambda>_ p. p) u ev") auto
  then have "scene_react (\<lambda>_ p. p) u ev = Inr (projr (scene_react (\<lambda>_ p. p) u ev))" if "ev \<in> set small_events" for u ev using that by (metis sum.sel(2))
  then have "foldM_r (scene_react (\<lambda>_ p. p)) v small_events = Inr (foldl (\<lambda>u ev. projr (scene_react (\<lambda>_ p. p) u ev)) v small_events)"
    by (rule foldM_r_total)
  then show ?thesis using v scene_well_formed [OF small_net_ok flat_layout_ok v] by blast
qed

section \<open>Dragging, panning, zooming\<close>

lemma drag_motion_position:
  assumes "node_drag_state v = Some st" and "mobility_of (net v) n = Some p" and "known v n"
  shows "get_position (node_drag_motion n q v) (Node_end n) =
      (fst (transform_point_simulation_to_canvas (sim0 st)) + (fst q - fst (canvas0 st)), snd (transform_point_simulation_to_canvas (sim0 st)) + (snd q - snd (canvas0 st))) \<and>
    mobility_of (net (node_drag_motion n q v)) n = Some (transform_point_canvas_to_simulation (get_position (node_drag_motion n q v) (Node_end n)))"
proof -
  let ?p = "(fst (sim0 st) + transform_distance_canvas_to_simulation (fst q - fst (canvas0 st)), snd (sim0 st) + transform_distance_canvas_to_simulation (snd q - snd (canvas0 st)))"
  let ?v = "v\<lparr>net := SetPosition n ?p (net v)\<rparr>"
  have e: "node_drag_motion n q v = set_position n (transform_point_simulation_to_canvas ?p) ?v" using assms by (simp add: node_drag_motion_def Let_def)
  have "n < length (ns_nodes (net v))" using assms(2) by (simp add: mobility_of_def split: if_splits)
  then have m: "mobility_of (net ?v) n = Some ?p" by (simp add: mobility_of_def SetPosition_def)
  have g: "get_position (node_drag_motion n q v) (Node_end n) = transform_point_simulation_to_canvas ?p"
    using assms(3) by (simp add: e set_position_places known_def del: get_position.simps)
  show ?thesis unfolding g using m view_change_fields(1) [OF view_change_set_position, of n "transform_point_simulation_to_canvas ?p" ?v]
    by (simp add: e, simp add: transform_defs)
qed

lemma drag_motion_state: "node_drag_state (node_drag_motion n q v) = node_drag_state v" "drag_handlers (node_drag_motion n q v) = drag_handlers v"
    "known (node_drag_motion n q v) m = known v m" "mobility_of (net (node_drag_motion n q v)) n = None \<longleftrightarrow> mobility_of (net v) n = None"
  using view_change_fields [OF view_change_set_position]
  by (auto simp: node_drag_motion_def Let_def known_def SetPosition_def mobility_of_def simp del: set_map split: option.split if_splits)

text \<open>While a node is dragged, with its one handler connected.\<close>

definition dragging :: "nat \<Rightarrow> NodeDragState \<Rightarrow> (nat \<times> nat) list \<Rightarrow> Visualizer \<Rightarrow> bool" where
  "dragging n st hs v \<longleftrightarrow> node_drag_state v = Some st \<and> drag_handlers v = hs @ [(motion_signal st, n)] \<and> known v n \<and> mobility_of (net v) n \<noteq> None"

definition dragged_to :: "NodeDragState \<Rightarrow> point \<Rightarrow> point" where
  "dragged_to st q = (fst (transform_point_simulation_to_canvas (sim0 st)) + (fst q - fst (canvas0 st)), snd (transform_point_simulation_to_canvas (sim0 st)) + (snd q - snd (canvas0 st)))"

lemma foldM_r_framed: "foldM_r f s (a # xs @ [b]) = bind_r (f s a) (\<lambda>t. bind_r (foldM_r f t xs) (\<lambda>u. bind_r (f u b) Inr))"
  by (simp add: foldM_r_append)

lemma drag_motions:
  assumes "dragging n st hs v" and "\<forall>h \<in> set hs. snd h \<noteq> n" and "qs \<noteq> []"
  shows "\<exists>u. foldM_r (scene_react px) v (map (Node_motion n) qs) = Inr u \<and> dragging n st hs u \<and> get_position u (Node_end n) = dragged_to st (last qs) \<and>
    mobility_of (net u) n = Some (transform_point_canvas_to_simulation (dragged_to st (last qs)))"
  using assms(3,1)
proof (induction qs arbitrary: v rule: list_nonempty_induct)
  have step: "\<exists>u. scene_react px v (Node_motion n q) = Inr u \<and> dragging n st hs u \<and> get_position u (Node_end n) = dragged_to st q \<and>
      mobility_of (net u) n = Some (transform_point_canvas_to_simulation (dragged_to st q))" if d: "dragging n st hs v" for v q
  proof -
    have "filter (\<lambda>h. snd h = n) (drag_handlers v) = [(motion_signal st, n)]" using that assms(2) by (auto simp: dragging_def filter_empty_conv)
    then have "scene_react px v (Node_motion n q) = Inr (node_drag_motion n q v)" using that by (simp add: dragging_def node_motion_def)
    moreover obtain p where p: "mobility_of (net v) n = Some p" using d unfolding dragging_def by blast
    moreover have "dragging n st hs (node_drag_motion n q v)" using that drag_motion_state(1,2,3) [of n q v] drag_motion_state(4) [of n q v] unfolding dragging_def by metis
    ultimately show ?thesis using that drag_motion_position [of v st n p q] by (auto simp: dragging_def dragged_to_def simp del: get_position.simps)
  qed
  {
    case (single q)
    then show ?case using step [of v q] by (auto simp del: get_position.simps scene_react.simps)
  next
    case (cons q qs)
    obtain u where u: "scene_react px v (Node_motion n q) = Inr u" "dragging n st hs u" using step [OF cons.prems] by blast
    then show ?case using cons.IH [OF u(2)] cons.hyps by (simp del: get_position.simps scene_react.simps)
  }
qed

text \<open>
  C14: A node that is dragged with the middle button follows the pointer: whatever way the pointer takes, at the end the node is shown at the place of its position in the simulation at the
  press, moved by the displacement of the pointer from the press to the last motion; so a node that was shown at its position in the simulation has moved on the canvas by that displacement. At the end
  its position in the simulation is the one that is shown, and no drag and no handler is left.
\<close>

theorem drag_follows_pointer:
  assumes "known v n" and "mobility_of (net v) n = Some p" and "node_drag_state v = None" and "\<forall>h \<in> set (drag_handlers v). snd h \<noteq> n"
  shows "\<exists>u. foldM_r (scene_react px) v (Node_press n 2 q0 # map (Node_motion n) (qs @ [q]) @ [Node_release n 2]) = Inr u \<and>
    get_position u (Node_end n) = (fst (transform_point_simulation_to_canvas p) + (fst q - fst q0), snd (transform_point_simulation_to_canvas p) + (snd q - snd q0)) \<and>
    (get_position v (Node_end n) = transform_point_simulation_to_canvas p \<longrightarrow>
       get_position u (Node_end n) = (fst (get_position v (Node_end n)) + (fst q - fst q0), snd (get_position v (Node_end n)) + (snd q - snd q0))) \<and>
    mobility_of (net u) n = Some (transform_point_canvas_to_simulation (get_position u (Node_end n))) \<and>
    node_drag_state u = None \<and> drag_handlers u = drag_handlers v"
proof -
  define st where "st = \<lparr>canvas0 = q0, sim0 = p, motion_signal = next_signal v\<rparr>"
  define v1 where "v1 = begin_node_drag n q0 v"
  have press: "scene_react px v (Node_press n 2 q0) = Inr v1" using assms(1) by (simp add: on_node_button_press_event_def v1_def)
  have "dragging n st (drag_handlers v) v1" using assms by (simp add: dragging_def v1_def begin_node_drag_def st_def known_def del: set_map)
  then obtain u1 where u1: "foldM_r (scene_react px) v1 (map (Node_motion n) (qs @ [q])) = Inr u1" "dragging n st (drag_handlers v) u1"
      "get_position u1 (Node_end n) = dragged_to st q" "mobility_of (net u1) n = Some (transform_point_canvas_to_simulation (dragged_to st q))"
    using drag_motions [of n st "drag_handlers v" v1 "qs @ [q]" px] assms(4) by auto
  define u where "u = end_node_drag n u1"
  have f: "filter (\<lambda>h. h \<noteq> (motion_signal st, n)) (drag_handlers v) = drag_handlers v" using assms(4) by (auto simp: filter_id_conv)
  have e: "node_drag_state u = None" "drag_handlers u = drag_handlers v" "net u = net u1" "nodes u = nodes u1" "channels u = channels u1"
    using u1(2) f by (simp_all add: u_def end_node_drag_def dragging_def)
  have "get_position u (Node_end n) = get_position u1 (Node_end n)" using e by simp
  moreover have "foldM_r (scene_react px) v (Node_press n 2 q0 # map (Node_motion n) (qs @ [q]) @ [Node_release n 2]) = Inr u"
    unfolding foldM_r_framed using press u1(1) by (simp only: bind_r_Inr) (simp add: on_node_button_release_event_def u_def)
  ultimately show ?thesis using e u1 by (simp add: dragged_to_def st_def del: get_position.simps scene_react.simps)
qed

text \<open>A node that is shown at its position in the simulation, three pixels to the metre.\<close>

definition shown_node :: Visualizer where
  "shown_node = set_position 1 (6, 15) (get_node 1 (new_Visualizer small_net))"

theorem drag_follows_pointer_witness:
  "\<exists>u. get_position shown_node (Node_end 1) = (6, 15) \<and>
    foldM_r (scene_react (\<lambda>_ p. p)) shown_node (Node_press 1 2 (7, 16) # map (Node_motion 1) ([(0, 0)] @ [(10, 19)]) @ [Node_release 1 2]) = Inr u \<and>
    get_position u (Node_end 1) = (9, 18) \<and> mobility_of (net u) 1 = Some (3, 6)"
proof -
  have "known shown_node 1" "mobility_of (net shown_node) 1 = Some (2, 5)" "node_drag_state shown_node = None" "drag_handlers shown_node = []"
      "get_position shown_node (Node_end 1) = (6, 15)"
    by (simp_all add: shown_node_def set_position_eq known_def get_node_def new_Visualizer_def set_show_transmissions_mode_def mobility_of_def small_net_def)
  then show ?thesis using drag_follows_pointer [of shown_node 1 "(2, 5)" "\<lambda>_ p. p" "(7, 16)" "[(0, 0)]" "(10, 19)"]
    by (force simp: transform_defs simp del: get_position.simps foldM_r.simps list.map append.simps)
qed

lemma set_value_again [simp]: "set_value x (set_value y a) = set_value x a"
  by (simp add: set_value_def)

lemma pan_motions:
  assumes "pan_handlers v = 1" and "panning_state v = Some st"
  shows "foldM_r (scene_react px) v (map Canvas_motion (qs @ [q])) =
    Inr (v\<lparr>hadj := set_value (fst (initial_canvas_pos st) - (fst q - fst (initial_mouse_pos st))) (hadj v),
           vadj := set_value (snd (initial_canvas_pos st) - (snd q - snd (initial_mouse_pos st))) (vadj v)\<rparr>)"
  using assms by (induction qs arbitrary: v) (simp_all add: canvas_motion_def panning_motion_def Let_def)

text \<open>
  C15: Panning with the middle button moves the view against the pointer by the displacement from the press to the last motion, as far as the scroll bars allow, whatever way the
  pointer takes. But a double click sends a second press before its release: one of the two handlers that were connected is then left, and the next
  motion of the pointer, with no panning under way, fails the assertion of the handler.
\<close>

theorem panning_outcome:
  assumes "pan_handlers v = 0"
  shows "(\<exists>u. foldM_r (scene_react px) v (Canvas_press 2 q0 # map Canvas_motion (qs @ [q]) @ [Canvas_release 2]) = Inr u \<and>
      hadj u = set_value (adj_value (hadj v) - (fst q - fst q0)) (hadj v) \<and> vadj u = set_value (adj_value (vadj v) - (snd q - snd q0)) (vadj v) \<and>
      pan_handlers u = 0 \<and> panning_state u = None) \<and>
    foldM_r (scene_react px) v [Canvas_press 2 q0, Canvas_release 2, Canvas_press 2 q0, Canvas_press 2 q0, Canvas_release 2, Canvas_motion q] = Inl AssertionError"
proof -
  let ?v = "begin_panning q0 v"
  let ?st = "\<lparr>initial_mouse_pos = q0, initial_canvas_pos = (adj_value (hadj v), adj_value (vadj v))\<rparr>"
  have "pan_handlers ?v = 1" "panning_state ?v = Some ?st" using assms by (simp_all add: begin_panning_def)
  note m = pan_motions [OF this, of px qs q]
  have "\<exists>u. foldM_r (scene_react px) v (Canvas_press 2 q0 # map Canvas_motion (qs @ [q]) @ [Canvas_release 2]) = Inr u \<and>
      hadj u = set_value (adj_value (hadj v) - (fst q - fst q0)) (hadj v) \<and> vadj u = set_value (adj_value (vadj v) - (snd q - snd q0)) (vadj v) \<and>
      pan_handlers u = 0 \<and> panning_state u = None"
  proof -
    have p: "scene_react px v (Canvas_press 2 q0) = Inr ?v" by (simp add: canvas_button_press_def)
    show ?thesis unfolding foldM_r_framed p bind_r_Inr m using assms by (simp add: canvas_button_release_def end_panning_def begin_panning_def)
  qed
  moreover have "foldM_r (scene_react px) v [Canvas_press 2 q0, Canvas_release 2, Canvas_press 2 q0, Canvas_press 2 q0, Canvas_release 2, Canvas_motion q] = Inl AssertionError"
    using assms by (simp add: canvas_button_press_def canvas_button_release_def begin_panning_def end_panning_def canvas_motion_def panning_motion_def)
  ultimately show ?thesis by blast
qed

theorem panning_outcome_witness:
  "\<exists>u. foldM_r (scene_react (\<lambda>_ p. p)) (new_Visualizer small_net) (Canvas_press 2 (50, 50) # map Canvas_motion ([] @ [(40, 60)]) @ [Canvas_release 2]) = Inr u \<and>
    adj_value (hadj u) = 10 \<and> adj_value (vadj u) = 0"
proof -
  let ?v = "new_Visualizer small_net"
  have "pan_handlers ?v = 0" "hadj ?v = \<lparr>adj_value = 0, adj_lower = 0, adj_upper = 20000, page_size = 600\<rparr>"
      "vadj ?v = \<lparr>adj_value = 0, adj_lower = 0, adj_upper = 20000, page_size = 450\<rparr>"
    by (simp_all add: new_Visualizer_def set_show_transmissions_mode_def)
  then show ?thesis using panning_outcome [of ?v "\<lambda>_ p. p" "(50, 50)" "[]" "(40, 60)"]
    by (force simp: set_value_def simp del: foldM_r.simps list.map append.simps)
qed

text \<open>Zooming in and out again gives the same scale, as long as neither step is cut off.\<close>

lemma scroll_back:
  assumes "adj_value (zoom v) * (5 / 4) \<le> adj_upper (zoom v) - page_size (zoom v)" and "adj_lower (zoom v) \<le> adj_value (zoom v)" and "0 \<le> adj_lower (zoom v)"
  shows "zoom (canvas_scroll_event DOWN (canvas_scroll_event UP v)) = zoom v"
  using assms by (simp add: canvas_scroll_event_def set_value_def max_def min_def)

end
