(* ===== verification/VizTraffic.thy ===== *)
theory VizTraffic
  imports VizView
begin

text \<open>
  The traffic that the visualizer shows, \<^verbatim>\<open>visualizer/core.py\<close>: the memory of transmission and drop samples with its smoothing, the averages, and the arrows and
  labels, which are taken from a pool of canvas items; and \<open>autoscale_view\<close>. The logarithm, the conversion of pixels and the clipping of a line are parameters.
\<close>

section \<open>Samples\<close>

record transmission =
  transmitter :: nat
  receiver :: nat
  tx_bytes :: int

record drop_sample =
  drop_transmitter :: nat
  drop_bytes :: int

text \<open>An arrow with its label; \<open>rightward\<close> says on which side of the rate the label has its arrow.\<close>

record arrow =
  arrow_id :: nat
  visible :: bool
  arrow_width :: rat
  arrow_points :: "point \<times> point"
  rate_text :: string
  rightward :: bool
  font_size :: int
  label_place :: point

record traffic =
  last_transmissions :: "transmission list list"
  last_drops :: "drop_sample list list"
  transmission_arrows :: "arrow list"
  drop_arrows :: "arrow list"
  next_arrow :: nat

text \<open>The oldest sets are removed while there are more than the smoothing allows.\<close>

function pop_old :: "nat \<Rightarrow> 'a list \<Rightarrow> 'a list" where
  "pop_old k xs = (if length xs > k then pop_old k (tl xs) else xs)"
  by pat_completeness auto

termination
  by (relation "measure (\<lambda>(k, xs). length xs)") auto

declare pop_old.simps [simp del]

definition do_simulation_periodic_update :: "rat \<Rightarrow> transmission list \<Rightarrow> drop_sample list \<Rightarrow> traffic \<Rightarrow> traffic" where
  "do_simulation_periodic_update smoothing txs drs t =
     (let smooth_factor = nat (trunc (smoothing * 10))
      in t\<lparr>last_transmissions := pop_old smooth_factor (last_transmissions t @ [txs]), last_drops := pop_old smooth_factor (last_drops t @ [drs])\<rparr>)"

text \<open>The sums of bytes and the counts, by key.\<close>

definition add_sample :: "('s \<Rightarrow> 'k) \<Rightarrow> ('s \<Rightarrow> int) \<Rightarrow> ('k, int \<times> nat) dict \<Rightarrow> 's \<Rightarrow> ('k, int \<times> nat) dict" where
  "add_sample key bytes d s =
     (let (b, n) = (case map_of d (key s) of None \<Rightarrow> (0, 0) | Some bn \<Rightarrow> bn) in AList.update (key s) (b + bytes s, n + 1) d)"

definition averages :: "('s \<Rightarrow> 'k) \<Rightarrow> ('s \<Rightarrow> int) \<Rightarrow> 's list list \<Rightarrow> ('k, int \<times> nat) dict" where
  "averages key bytes sets = foldl (foldl (add_sample key bytes)) [] sets"

section \<open>Arrows\<close>

text \<open>\<open>math.log_e\<close> raises for what is not positive.\<close>

definition arrow_line_width :: "(rat \<Rightarrow> rat) \<Rightarrow> rat \<Rightarrow> rat \<Rightarrow> int \<times> nat \<Rightarrow> rat result" where
  "arrow_line_width log_e k sample_period bn =
     (let x = of_int (fst bn) / of_nat (snd bn) / sample_period
      in if x \<le> 0 then Inl ValueError else Inr (max (1 / 10) (log_e x * k)))"

definition kbps :: "rat \<Rightarrow> int \<times> nat \<Rightarrow> rat" where
  "kbps sample_period bn = of_int (fst bn * 8) / 1000 / of_nat (snd bn) / sample_period"

definition get_label_over_line_position :: "(point \<times> point \<Rightarrow> point \<times> point) \<Rightarrow> point \<Rightarrow> point \<Rightarrow> point" where
  "get_label_over_line_position clip p q = (let (p', q') = clip (p, q) in ((fst p' + fst q') / 2, (snd p' + snd q') / 2))"

text \<open>An arrow from the end of the pool, or a new one; the items in use come first, the others stay in the pool.\<close>

definition take_arrow :: "arrow list \<Rightarrow> nat \<Rightarrow> nat \<times> arrow list \<times> nat" where
  "take_arrow old next_id = (if old = [] then (next_id, [], next_id + 1) else (arrow_id (last old), butlast old, next_id))"

fun draw_arrows :: "('v \<Rightarrow> 'i \<Rightarrow> nat \<Rightarrow> ('v \<times> arrow) result) \<Rightarrow> 'i list \<Rightarrow> 'v \<Rightarrow> arrow list \<Rightarrow> arrow list \<Rightarrow> nat \<Rightarrow> ('v \<times> arrow list \<times> nat) result" where
  "draw_arrows draw [] v new old next_id = Inr (v, new @ old, next_id)"
| "draw_arrows draw (i # items) v new old next_id =
     (let (a, old', next_id') = take_arrow old next_id
      in bind_r (draw v i a) (\<lambda>(v', arr). draw_arrows draw items v' (new @ [arr]) old' next_id'))"

definition hide :: "arrow \<Rightarrow> arrow" where
  "hide a = a\<lparr>visible := False\<rparr>"

text \<open>One arrow of a transmission: from node to node, with the rate over the visible part of the line.\<close>

definition draw_transmission ::
    "(rat \<Rightarrow> rat) \<Rightarrow> (point \<times> point \<Rightarrow> point \<times> point) \<Rightarrow> rat \<Rightarrow> rat \<Rightarrow> Visualizer \<Rightarrow> (nat \<times> nat) \<times> int \<times> nat \<Rightarrow> nat \<Rightarrow> (Visualizer \<times> arrow) result" where
  "draw_transmission log_e clip k sample_period v item a =
     (let ((t, r), bn) = item; v = get_node r (get_node t v)
      in bind_r (arrow_line_width log_e k sample_period bn) (\<lambda>w.
         let p = get_position v (Node_end t); q = get_position v (Node_end r)
         in Inr (v, \<lparr>arrow_id = a, visible = True, arrow_width = w, arrow_points = (p, q), rate_text = format_fixed 2 (kbps sample_period bn),
                     rightward = (fst q - fst p \<ge> 0), font_size = trunc (1 + 10 * k), label_place = get_label_over_line_position clip p q\<rparr>)))"

definition draw_drop :: "(rat \<Rightarrow> rat) \<Rightarrow> rat \<Rightarrow> rat \<Rightarrow> rat \<Rightarrow> Visualizer \<Rightarrow> nat \<times> int \<times> nat \<Rightarrow> nat \<Rightarrow> (Visualizer \<times> arrow) result" where
  "draw_drop log_e edge_y k sample_period v item a =
     (let (t, bn) = item; v = get_node t v
      in bind_r (arrow_line_width log_e k sample_period bn) (\<lambda>w.
         let p = get_position v (Node_end t); q = (fst p, edge_y)
         in Inr (v, \<lparr>arrow_id = a, visible = True, arrow_width = w, arrow_points = (p, q), rate_text = format_fixed 2 (kbps sample_period bn),
                     rightward = True, font_size = trunc (1 + 10 * k), label_place = ((fst p + fst q) / 2, (snd p + snd q) / 2)\<rparr>)))"

definition update_transmissions_view ::
    "(rat \<Rightarrow> rat) \<Rightarrow> (point \<times> point \<Rightarrow> point \<times> point) \<Rightarrow> rat \<Rightarrow> rat \<Rightarrow> Visualizer \<times> traffic \<Rightarrow> (Visualizer \<times> traffic) result" where
  "update_transmissions_view log_e clip node_size_value sample_period vt =
     (let (v, t) = vt; items = averages (\<lambda>s. (transmitter s, receiver s)) tx_bytes (last_transmissions t); k = node_size_value / 5
      in bind_r (draw_arrows (draw_transmission log_e clip k sample_period) items v [] (map hide (transmission_arrows t)) (next_arrow t)) (\<lambda>(v, arrows, m).
         Inr (v, t\<lparr>transmission_arrows := arrows, next_arrow := m\<rparr>)))"

definition update_drops_view :: "(rat \<Rightarrow> rat) \<Rightarrow> (point \<Rightarrow> point) \<Rightarrow> rat \<Rightarrow> rat \<Rightarrow> Visualizer \<times> traffic \<Rightarrow> (Visualizer \<times> traffic) result" where
  "update_drops_view log_e from_px node_size_value sample_period vt =
     (let (v, t) = vt; items = averages drop_transmitter drop_bytes (last_drops t); bottom_y = adj_value (vadj v) + page_size (vadj v);
          edge_y = snd (from_px (0, bottom_y)); k = node_size_value / 5
      in bind_r (draw_arrows (draw_drop log_e edge_y k sample_period) items v [] (map hide (drop_arrows t)) (next_arrow t)) (\<lambda>(v, arrows, m).
         Inr (v, t\<lparr>drop_arrows := arrows, next_arrow := m\<rparr>)))"

text \<open>The part of \<open>update_view\<close> that draws: positions, then transmissions, then drops.\<close>

definition update_view ::
    "(rat \<Rightarrow> rat) \<Rightarrow> (Visualizer \<Rightarrow> point \<Rightarrow> point) \<Rightarrow> (point \<Rightarrow> point) \<Rightarrow> (point \<times> point \<Rightarrow> point \<times> point) \<Rightarrow> rat \<Rightarrow> rat \<Rightarrow>
      Visualizer \<times> traffic \<Rightarrow> (Visualizer \<times> traffic) result" where
  "update_view log_e to_px from_px clip node_size_value sample_period vt =
     bind_r (update_transmissions_view log_e clip node_size_value sample_period (update_node_positions to_px (fst vt), snd vt))
       (update_drops_view log_e from_px node_size_value sample_period)"

section \<open>Averages\<close>

lemma pop_old_eq: "pop_old k xs = drop (length xs - k) xs"
  by (induction k xs rule: pop_old.induct) (subst pop_old.simps, auto simp: drop_Suc [symmetric] Suc_diff_Suc)

lemma foldl_foldl_concat: "foldl (foldl f) a xss = foldl f a (concat xss)"
  by (induction xss arbitrary: a) simp_all

lemma add_sample_map:
  "map_of (add_sample key bytes d s) k = (if k = key s then (case map_of d k of None \<Rightarrow> Some (bytes s, 1) | Some (b, n) \<Rightarrow> Some (b + bytes s, n + 1)) else map_of d k)"
  by (auto simp: add_sample_def Let_def split: option.split)

lemma add_samples_map:
  "map_of (foldl (add_sample key bytes) d ss) k =
     (let mine = filter (\<lambda>s. key s = k) ss
      in case map_of d k of None \<Rightarrow> if mine = [] then None else Some (sum_list (map bytes mine), length mine)
         | Some (b, n) \<Rightarrow> Some (b + sum_list (map bytes mine), n + length mine))"
  by (induction ss arbitrary: d) (auto simp: add_sample_map Let_def split: option.split)

lemma add_sample_d_ok: "d_ok d \<Longrightarrow> d_ok (foldl (add_sample key bytes) d ss)"
  by (induction ss arbitrary: d) (simp_all add: add_sample_def Let_def split: prod.split)

lemma averages_map:
  "map_of (averages key bytes sets) k =
     (let mine = filter (\<lambda>s. key s = k) (concat sets) in if mine = [] then None else Some (sum_list (map bytes mine), length mine))"
  by (simp add: averages_def foldl_foldl_concat add_samples_map)

lemma averages_ok: "d_ok (averages key bytes sets)"
  by (simp add: averages_def foldl_foldl_concat add_sample_d_ok)

lemma averages_item:
  assumes "(k, b, n) \<in> set (averages key bytes sets)"
  shows "n > 0 \<and> b = sum_list (map bytes (filter (\<lambda>s. key s = k) (concat sets))) \<and> n = length (filter (\<lambda>s. key s = k) (concat sets))"
proof -
  have "map_of (averages key bytes sets) k = Some (b, n)" using assms averages_ok unfolding d_ok_def by (metis map_of_eq_Some_iff)
  then show ?thesis by (cases "filter (\<lambda>s. key s = k) (concat sets) = []") (simp_all only: averages_map Let_def, auto)
qed

section \<open>The pool of arrows\<close>

text \<open>The identifiers that a number of arrows gets: those of the pool from its end, then new ones.\<close>

definition taken_ids :: "nat \<Rightarrow> arrow list \<Rightarrow> nat \<Rightarrow> nat list" where
  "taken_ids n old m = map arrow_id (take n (rev old)) @ [m..<m + (n - length old)]"

lemma taken_ids_length [simp]: "length (taken_ids n old m) = n"
  by (simp add: taken_ids_def)

lemma taken_ids_Suc:
  "taken_ids (Suc n) [] m = m # taken_ids n [] (Suc m)" "taken_ids (Suc n) (old @ [a]) m = arrow_id a # taken_ids n old m"
  by (simp_all add: taken_ids_def upt_conv_Cons)

lemma draw_arrows_eq:
  assumes "P v" and "\<And>i v a. i \<in> set items \<Longrightarrow> P v \<Longrightarrow> \<exists>v'. draw v i a = Inr (v', g i a) \<and> P v'"
  shows "\<exists>v'. draw_arrows draw items v new old m = Inr (v', new @ map2 g items (taken_ids (length items) old m) @ take (length old - length items) old,
    m + (length items - length old)) \<and> P v'"
  using assms
proof (induction items arbitrary: v new old m)
  case (Cons i items)
  have IH: "\<exists>v'. draw_arrows draw items u new' old' m' = Inr (v', new' @ map2 g items (taken_ids (length items) old' m') @ take (length old' - length items) old',
      m' + (length items - length old')) \<and> P v'" if "P u" for u new' old' m' using Cons.IH [OF that] Cons.prems(2) by simp
  show ?case
  proof (cases old rule: rev_cases)
    case Nil
    obtain v1 where v1: "draw v i m = Inr (v1, g i m)" "P v1" using Cons.prems(2) [of i v m] Cons.prems(1) by auto
    then show ?thesis using IH [OF v1(2), of "new @ [g i m]" "[]" "Suc m"] by (simp add: Nil take_arrow_def taken_ids_Suc)
  next
    case (snoc old' a)
    obtain v1 where v1: "draw v i (arrow_id a) = Inr (v1, g i (arrow_id a))" "P v1" using Cons.prems(2) [of i v "arrow_id a"] Cons.prems(1) by auto
    then show ?thesis using IH [OF v1(2), of "new @ [g i (arrow_id a)]" old' m] by (simp add: snoc take_arrow_def taken_ids_Suc)
  qed
qed (simp add: taken_ids_def)

definition pool_ok :: "arrow list \<Rightarrow> nat \<Rightarrow> bool" where
  "pool_ok as m \<longleftrightarrow> distinct (map arrow_id as) \<and> (\<forall>a \<in> set as. arrow_id a < m)"

lemma pool_ok_ids: "pool_ok as m \<longleftrightarrow> distinct (map arrow_id as) \<and> (\<forall>i \<in> set (map arrow_id as). i < m)"
  by (simp add: pool_ok_def)

lemma taken_ids_set:
  assumes "\<And>i a. arrow_id (g i a) = a"
  shows "arrow_id ` set (map2 g items (taken_ids (length items) old m) @ take (length old - length items) old) =
    arrow_id ` set old \<union> {m..<m + (length items - length old)}"
proof -
  let ?n = "length items"
  have ids: "map arrow_id (map2 g items (taken_ids ?n old m)) = taken_ids ?n old m"
    by (rule nth_equalityI) (simp_all add: assms)
  have "set (take (length old - ?n) old) \<union> set (take ?n (rev old)) = set (take (length old - ?n) old @ rev (take ?n (rev old)))" by simp
  also have "take (length old - ?n) old @ rev (take ?n (rev old)) = old" by (cases "?n \<le> length old") (simp_all add: rev_take)
  finally have old: "arrow_id ` set (take ?n (rev old)) \<union> arrow_id ` set (take (length old - ?n) old) = arrow_id ` set old" by blast
  have "arrow_id ` set (map2 g items (taken_ids ?n old m) @ take (length old - ?n) old) = set (taken_ids ?n old m) \<union> arrow_id ` set (take (length old - ?n) old)"
    unfolding set_append image_Un by (simp only: ids flip: set_map)
  also have "\<dots> = arrow_id ` set old \<union> {m..<m + (?n - length old)}" using old by (auto simp: taken_ids_def)
  finally show ?thesis .
qed

lemma taken_ids_pool:
  assumes "pool_ok old m" and "\<And>i a. arrow_id (g i a) = a"
  shows "pool_ok (map2 g items (taken_ids (length items) old m) @ take (length old - length items) old) (m + (length items - length old))"
proof -
  let ?n = "length items"
  have ids: "map arrow_id (map2 g items (taken_ids ?n old m)) = taken_ids ?n old m"
    by (rule nth_equalityI) (simp_all add: assms(2))
  have split: "take (length old - ?n) old @ rev (take ?n (rev old)) = old"
    by (cases "?n \<le> length old") (simp_all add: rev_take)
  have "distinct (map arrow_id (take (length old - ?n) old @ rev (take ?n (rev old))))" unfolding split using assms(1) by (simp add: pool_ok_def)
  then have d: "distinct (map arrow_id (take (length old - ?n) old))" "distinct (map arrow_id (take ?n (rev old)))"
      "arrow_id ` set (take (length old - ?n) old) \<inter> arrow_id ` set (take ?n (rev old)) = {}" by (auto simp: distinct_map rev_map [symmetric])
  have b: "arrow_id x < m" if "x \<in> set old" for x using assms(1) that by (simp add: pool_ok_def)
  have sub: "set (take (length old - ?n) old) \<subseteq> set old" "set (take ?n (rev old)) \<subseteq> set old" using set_take_subset [of _ old] set_take_subset [of ?n "rev old"] by auto
  have "distinct (taken_ids ?n old m @ map arrow_id (take (length old - ?n) old))"
    using d b sub by (auto simp: taken_ids_def distinct_map) (meson b leD subsetD)+
  moreover have "i < m + (?n - length old)" if "i \<in> set (taken_ids ?n old m @ map arrow_id (take (length old - ?n) old))" for i
    using that b sub by (fastforce simp: taken_ids_def)
  ultimately show ?thesis unfolding pool_ok_ids map_append ids by blast
qed

lemma line_width_ok:
  "0 < b \<Longrightarrow> 0 < n \<Longrightarrow> 0 < sp \<Longrightarrow> arrow_line_width log_e k sp (b, n) = Inr (max (1 / 10) (log_e (of_int b / of_nat n / sp) * k))"
proof -
  assume "0 < b" "0 < n" "0 < sp"
  then have "0 < of_int b / of_nat n / sp" by (intro divide_pos_pos) simp_all
  then show ?thesis by (simp add: arrow_line_width_def Let_def)
qed

text \<open>The arrow that belongs to a pair of nodes, for the positions of a scene.\<close>

definition tx_arrow :: "(rat \<Rightarrow> rat) \<Rightarrow> (point \<times> point \<Rightarrow> point \<times> point) \<Rightarrow> rat \<Rightarrow> rat \<Rightarrow> (endpoint \<Rightarrow> point) \<Rightarrow> (nat \<times> nat) \<times> int \<times> nat \<Rightarrow> nat \<Rightarrow> arrow" where
  "tx_arrow log_e clip k sp pos item a =
     (let ((t, r), b, n) = item; p = pos (Node_end t); q = pos (Node_end r)
      in \<lparr>arrow_id = a, visible = True, arrow_width = max (1 / 10) (log_e (of_int b / of_nat n / sp) * k), arrow_points = (p, q),
          rate_text = format_fixed 2 (kbps sp (b, n)), rightward = (fst q - fst p \<ge> 0), font_size = trunc (1 + 10 * k),
          label_place = get_label_over_line_position clip p q\<rparr>)"

lemma tx_arrow_id [simp]: "arrow_id (tx_arrow log_e clip k sp pos item a) = a" "visible (tx_arrow log_e clip k sp pos item a)"
  by (simp_all add: tx_arrow_def Let_def split: prod.split)

lemma get_node_positions: "get_position (get_node n v) = get_position v"
  by (rule ext) (rule get_node_places)

lemma update_transmissions_eq:
  assumes "0 < sp" and "\<And>s. s \<in> set (concat (last_transmissions t)) \<Longrightarrow> 0 < tx_bytes s"
  defines "items \<equiv> averages (\<lambda>s. (transmitter s, receiver s)) tx_bytes (last_transmissions t)"
  shows "\<exists>v' m. update_transmissions_view log_e clip size_value sp (v, t) = Inr (v', t\<lparr>transmission_arrows :=
      map2 (tx_arrow log_e clip (size_value / 5) sp (get_position v)) items (taken_ids (length items) (transmission_arrows t) (next_arrow t)) @
      map hide (take (length (transmission_arrows t) - length items) (transmission_arrows t)), next_arrow := m\<rparr>) \<and>
    m = next_arrow t + (length items - length (transmission_arrows t)) \<and> get_position v' = get_position v"
proof -
  let ?g = "tx_arrow log_e clip (size_value / 5) sp (get_position v)"
  have d: "\<exists>v'. draw_transmission log_e clip (size_value / 5) sp u i a = Inr (v', ?g i a) \<and> get_position v' = get_position v"
    if "i \<in> set items" "get_position u = get_position v" for i u a
  proof -
    obtain x r b n where i: "i = ((x, r), b, n)" by (cases i) auto
    let ?ss = "filter (\<lambda>s. (transmitter s, receiver s) = (x, r)) (concat (last_transmissions t))"
    note A = averages_item [OF that(1) [unfolded i items_def]]
    have pos: "0 < sum_list (map tx_bytes ss)" if "ss \<noteq> []" "\<And>s. s \<in> set ss \<Longrightarrow> 0 < tx_bytes s" for ss
      using that by (induction ss rule: list_nonempty_induct) (auto intro: add_pos_pos)
    have "length ?ss > 0" using A by metis
    then have "?ss \<noteq> []" by (rule length_greater_0_conv [THEN iffD1])
    then have "0 < sum_list (map tx_bytes ?ss)" by (rule pos) (use assms(2) in simp)
    then have "0 < b" "n > 0" using A by metis+
    then show ?thesis using assms(1) that(2)
      by (simp add: i draw_transmission_def line_width_ok tx_arrow_def Let_def get_node_positions del: get_position.simps)
  qed
  have h: "taken_ids n (map hide as) m = taken_ids n as m" for n as m by (simp add: taken_ids_def rev_map take_map hide_def)
  obtain v' where "draw_arrows (draw_transmission log_e clip (size_value / 5) sp) items v [] (map hide (transmission_arrows t)) (next_arrow t) =
      Inr (v', map2 ?g items (taken_ids (length items) (transmission_arrows t) (next_arrow t)) @ take (length (transmission_arrows t) - length items) (map hide (transmission_arrows t)),
        next_arrow t + (length items - length (transmission_arrows t)))" "get_position v' = get_position v"
    using draw_arrows_eq [of "\<lambda>u. get_position u = get_position v" v items "draw_transmission log_e clip (size_value / 5) sp" ?g "[]" "map hide (transmission_arrows t)" "next_arrow t"] d
    by (auto simp: h)
  then show ?thesis by (simp add: update_transmissions_view_def items_def [symmetric] Let_def take_map)
qed

text \<open>
  C16: For samples of at least one byte the view of the transmissions is exact: each pair of nodes with a sample in the memory has one visible arrow, between the positions of the two nodes, whose
  label is the mean rate over the samples of the pair and whose width is at least a tenth; every other arrow of the pool is hidden. Arrows are reused: the arrows afterwards are those
  there were before, none lost or used twice, and as many new ones as there are pairs that the arrows of before are not enough for.
\<close>

theorem transmissions_shown:
  assumes "0 < sp" and "\<forall>ss \<in> set (last_transmissions t). \<forall>s \<in> set ss. 0 < tx_bytes s" and "pool_ok (transmission_arrows t) (next_arrow t)"
  defines "items \<equiv> averages (\<lambda>s. (transmitter s, receiver s)) tx_bytes (last_transmissions t)"
  shows "\<exists>v' t'. update_transmissions_view log_e clip size_value sp (v, t) = Inr (v', t') \<and>
    length (transmission_arrows t') = max (length (transmission_arrows t)) (length items) \<and> pool_ok (transmission_arrows t') (next_arrow t') \<and>
    next_arrow t' = next_arrow t + (length items - length (transmission_arrows t)) \<and>
    arrow_id ` set (transmission_arrows t') = arrow_id ` set (transmission_arrows t) \<union> {next_arrow t..<next_arrow t'} \<and>
    (\<forall>j < length items. visible (transmission_arrows t' ! j) \<and> 1 / 10 \<le> arrow_width (transmission_arrows t' ! j) \<and>
      arrow_points (transmission_arrows t' ! j) = (get_position v (Node_end (fst (fst (items ! j)))), get_position v (Node_end (snd (fst (items ! j))))) \<and>
      rate_text (transmission_arrows t' ! j) = format_fixed 2 (kbps sp (snd (items ! j)))) \<and>
    (\<forall>j \<in> {length items..<length (transmission_arrows t')}. \<not> visible (transmission_arrows t' ! j)) \<and>
    (\<forall>k. map_of items k = (let mine = filter (\<lambda>s. (transmitter s, receiver s) = k) (concat (last_transmissions t))
       in if mine = [] then None else Some (sum_list (map tx_bytes mine), length mine))) \<and> distinct (map fst items)"
proof -
  let ?old = "transmission_arrows t"
  let ?g = "tx_arrow log_e clip (size_value / 5) sp (get_position v)"
  let ?new = "map2 ?g items (taken_ids (length items) ?old (next_arrow t))"
  let ?rest = "map hide (take (length ?old - length items) ?old)"
  obtain v' where u: "update_transmissions_view log_e clip size_value sp (v, t) =
      Inr (v', t\<lparr>transmission_arrows := ?new @ ?rest, next_arrow := next_arrow t + (length items - length ?old)\<rparr>)"
    using update_transmissions_eq [OF assms(1), of t log_e clip size_value v] assms(2) unfolding items_def by auto
  have i: "map arrow_id (map hide as) = map arrow_id as" for as by (simp add: hide_def)
  have "pool_ok (?new @ take (length ?old - length items) ?old) (next_arrow t + (length items - length ?old))" by (rule taken_ids_pool [OF assms(3)]) simp
  then have p: "pool_ok (?new @ ?rest) (next_arrow t + (length items - length ?old))" unfolding pool_ok_ids map_append i by blast
  have "arrow_id ` set (?new @ ?rest) = arrow_id ` set (?new @ take (length ?old - length items) ?old)"
    by (simp add: image_Un image_image hide_def)
  also have "\<dots> = arrow_id ` set ?old \<union> {next_arrow t..<next_arrow t + (length items - length ?old)}"
    by (rule taken_ids_set) simp
  finally have ids: "arrow_id ` set (?new @ ?rest) = arrow_id ` set ?old \<union> {next_arrow t..<next_arrow t + (length items - length ?old)}" .
  have n: "(?new @ ?rest) ! j = ?g (items ! j) (taken_ids (length items) ?old (next_arrow t) ! j)" if "j < length items" for j using that by (simp add: nth_append)
  have "\<not> visible ((?new @ ?rest) ! j)" if "j \<in> {length items..<length (?new @ ?rest)}" for j
  proof -
    have "j - length items < length (take (length ?old - length items) ?old)" using that by auto
    then show ?thesis using that by (simp add: nth_append hide_def)
  qed
  moreover have "visible ((?new @ ?rest) ! j) \<and> 1 / 10 \<le> arrow_width ((?new @ ?rest) ! j) \<and>
      arrow_points ((?new @ ?rest) ! j) = (get_position v (Node_end (fst (fst (items ! j)))), get_position v (Node_end (snd (fst (items ! j))))) \<and>
      rate_text ((?new @ ?rest) ! j) = format_fixed 2 (kbps sp (snd (items ! j)))" if "j < length items" for j
  proof -
    have "1 / 10 \<le> arrow_width (?g x a)" for x a by (cases x) (auto simp: tx_arrow_def Let_def split: prod.split)
    then show ?thesis unfolding n [OF that] by (cases "items ! j") (simp add: tx_arrow_def Let_def split: prod.split del: get_position.simps)
  qed
  moreover have "map_of items k = (let mine = filter (\<lambda>s. (transmitter s, receiver s) = k) (concat (last_transmissions t))
       in if mine = [] then None else Some (sum_list (map tx_bytes mine), length mine))" for k unfolding items_def by (rule averages_map)
  moreover have "distinct (map fst items)" using averages_ok unfolding items_def d_ok_def by blast
  moreover have "length (?new @ ?rest) = max (length ?old) (length items)" by simp
  moreover let ?t = "t\<lparr>transmission_arrows := ?new @ ?rest, next_arrow := next_arrow t + (length items - length ?old)\<rparr>"
  have f: "transmission_arrows ?t = ?new @ ?rest" "next_arrow ?t = next_arrow t + (length items - length ?old)" by simp_all
  ultimately show ?thesis using p u ids by (intro exI [of _ v'] exI [of _ ?t]) (simp only: f simp_thms, blast)
qed

definition small_traffic :: traffic where
  "small_traffic = \<lparr>last_transmissions = [[\<lparr>transmitter = 0, receiver = 1, tx_bytes = 100\<rparr>], [\<lparr>transmitter = 0, receiver = 1, tx_bytes = 50\<rparr>]], last_drops = [],
     transmission_arrows = [], drop_arrows = [], next_arrow = 0\<rparr>"

theorem transmissions_shown_witness:
  "\<exists>v' t'. update_transmissions_view (\<lambda>x. x) (\<lambda>pq. pq) 1 (1 / 10) (new_Visualizer small_net, small_traffic) = Inr (v', t') \<and>
     length (transmission_arrows t') = 1 \<and> rate_text (transmission_arrows t' ! 0) = ''6.00''"
proof -
  have i: "averages (\<lambda>s. (transmitter s, receiver s)) tx_bytes (last_transmissions small_traffic) = [((0, 1), 150, 2)]"
    by (simp add: averages_def add_sample_def small_traffic_def)
  have r: "format_fixed 2 (kbps (1 / 10) (150, 2)) = ''6.00''" by (simp add: kbps_def) code_simp
  have "0 < (1 / 10 :: rat)" "\<forall>ss \<in> set (last_transmissions small_traffic). \<forall>s \<in> set ss. 0 < tx_bytes s"
    "pool_ok (transmission_arrows small_traffic) (next_arrow small_traffic)" "transmission_arrows small_traffic = []"
    by (simp_all add: small_traffic_def pool_ok_def)
  then show ?thesis using transmissions_shown [of "1 / 10" small_traffic "\<lambda>x. x" "\<lambda>pq. pq" 1 "new_Visualizer small_net"] unfolding i
    by (auto simp: r simp del: get_position.simps)
qed

lemma draw_arrows_error:
  assumes "i \<in> set items" and "\<And>v a. draw v i a = Inl ValueError" and "\<And>j v a e. j \<in> set items \<Longrightarrow> draw v j a = Inl e \<Longrightarrow> e = ValueError"
  shows "draw_arrows draw items v new old m = Inl ValueError"
  using assms
proof (induction items arbitrary: v new old m)
  case (Cons j items)
  obtain a old' m' where t: "take_arrow old m = (a, old', m')" by (cases "take_arrow old m") auto
  show ?case
  proof (cases "draw v j a")
    case (Inl e)
    then show ?thesis using Cons.prems(3) [of j v a] by (simp add: t)
  next
    case (Inr x)
    then have "i \<in> set items" using Cons.prems(1,2) by auto
    moreover have "e = ValueError" if "k \<in> set items" "draw u k b = Inl e" for k u b e using Cons.prems(3) [of k u b e] that by simp
    ultimately have "draw_arrows draw items (fst x) (new @ [snd x]) old' m' = Inl ValueError" using Cons.IH Cons.prems(2) by blast
    then show ?thesis using Inr by (cases x) (simp add: t)
  qed
qed simp

text \<open>A pair whose samples have no bytes at all raises \<open>ValueError\<close> from the logarithm, and the update of the view ends there.\<close>

lemma zero_bytes_raise:
  assumes "(k, 0, n) \<in> set (averages (\<lambda>s. (transmitter s, receiver s)) tx_bytes (last_transmissions t))"
  shows "update_transmissions_view log_e clip size_value sp (v, t) = Inl ValueError"
proof -
  have "e = ValueError" if "draw_transmission log_e clip (size_value / 5) sp u j a = Inl e" for u j a e
    using that by (auto simp: draw_transmission_def arrow_line_width_def Let_def split: prod.splits if_splits)
  moreover have "draw_transmission log_e clip (size_value / 5) sp u (k, 0, n) a = Inl ValueError" for u a
    by (simp add: draw_transmission_def arrow_line_width_def Let_def split: prod.split)
  ultimately have "draw_arrows (draw_transmission log_e clip (size_value / 5) sp)
      (averages (\<lambda>s. (transmitter s, receiver s)) tx_bytes (last_transmissions t)) v [] (map hide (transmission_arrows t)) (next_arrow t) = Inl ValueError"
    using assms by (intro draw_arrows_error) auto
  then show ?thesis by (simp add: update_transmissions_view_def Let_def)
qed

section \<open>Smoothing\<close>

lemma pop_old_length: "length (pop_old k xs) = min k (length xs)"
  by (simp add: pop_old_eq)

text \<open>The memory holds the last samples, as many as the smoothing in tenths of a second; it shrinks as soon as the control is set back.\<close>

lemma periodic_update_memory:
  "last_transmissions (do_simulation_periodic_update s txs drs t) =
     drop (length (last_transmissions t) + 1 - nat (trunc (s * 10))) (last_transmissions t @ [txs]) \<and>
   length (last_drops (do_simulation_periodic_update s txs drs t)) = min (nat (trunc (s * 10))) (length (last_drops t) + 1)"
  by (simp add: do_simulation_periodic_update_def pop_old_eq pop_old_length Let_def)

section \<open>Initial scale\<close>

text \<open>
  \<open>autoscale_view\<close>: the scale at which the nodes fill two thirds of the window, then the middle of the nodes in its middle. Scrolling the canvas to a point is a
  parameter, as are the conversions, which depend on the scale.
\<close>

definition autoscale_view ::
    "(Visualizer \<Rightarrow> point \<Rightarrow> point) \<Rightarrow> (Visualizer \<Rightarrow> point \<Rightarrow> point) \<Rightarrow> (point \<Rightarrow> Visualizer \<Rightarrow> Visualizer) \<Rightarrow> Visualizer \<Rightarrow> Visualizer" where
  "autoscale_view to_px from_px scroll_to v =
     (if nodes v = [] then v
      else let v = update_node_positions to_px v;
               xs = map (\<lambda>(n, nd). fst (center nd)) (nodes v); ys = map (\<lambda>(n, nd). snd (center nd)) (nodes v);
               min_x = Min (set xs); min_y = Min (set ys); max_x = Max (set xs); max_y = Max (set ys);
               dx_px = fst (to_px v (max_x, max_y)) - fst (to_px v (min_x, min_y)); dy_px = snd (to_px v (max_x, max_y)) - snd (to_px v (min_x, min_y));
               new_dx = 3 / 2 * dx_px; new_dy = 3 / 2 * dy_px
           in if new_dx = 0 \<or> new_dy = 0 then v
              else let v = v\<lparr>zoom := set_value (min (page_size (hadj v) / new_dx) (page_size (vadj v) / new_dy)) (zoom v)\<rparr>;
                       p1 = from_px v (adj_value (hadj v), adj_value (vadj v));
                       p2 = from_px v (adj_value (hadj v) + page_size (hadj v), adj_value (vadj v) + page_size (vadj v));
                       width = fst p2 - fst p1; height = snd p2 - snd p1
                   in scroll_to ((min_x + max_x) / 2 - width / 2, (min_y + max_y) / 2 - height / 2) v)"

text \<open>
  At the scale one of the start, when a pixel is a unit of the canvas, every two nodes then are at most two thirds of the window apart, unless the scale would have to be smaller than the
  control allows.
\<close>

lemma autoscale_fits:
  assumes ne: "nodes v \<noteq> []" and unit: "\<And>u p q. fst (to_px u p) - fst (to_px u q) = fst p - fst q \<and> snd (to_px u p) - snd (to_px u q) = snd p - snd q"
    and scroll: "\<And>q u. nodes (scroll_to q u) = nodes u \<and> zoom (scroll_to q u) = zoom u \<and> page_size (hadj (scroll_to q u)) = page_size (hadj u)"
    and u: "u = autoscale_view to_px from_px scroll_to v" and ab: "(n, a) \<in> set (nodes u)" "(m, b) \<in> set (nodes u)"
    and apart: "\<exists>x y. x \<in> snd ` set (nodes u) \<and> y \<in> snd ` set (nodes u) \<and> fst (center x) < fst (center y)"
    and apart_y: "\<exists>x y. x \<in> snd ` set (nodes u) \<and> y \<in> snd ` set (nodes u) \<and> snd (center x) < snd (center y)"
    and low: "adj_lower (zoom u) < adj_value (zoom u)" and "0 \<le> adj_lower (zoom u)"
  shows "3 / 2 * (fst (center a) - fst (center b)) * adj_value (zoom u) \<le> page_size (hadj u)"
proof -
  define w where "w = update_node_positions to_px v"
  let ?X = "set (map (\<lambda>(n, nd). fst (center nd)) (nodes w))" let ?Y = "set (map (\<lambda>(n, nd). snd (center nd)) (nodes w))"
  let ?dx = "3 / 2 * (Max ?X - Min ?X)" let ?dy = "3 / 2 * (Max ?Y - Min ?Y)"
  have au: "u = (if ?dx = 0 \<or> ?dy = 0 then w else
      (let x = w\<lparr>zoom := set_value (min (page_size (hadj w) / ?dx) (page_size (vadj w) / ?dy)) (zoom w)\<rparr>; p1 = from_px x (adj_value (hadj x), adj_value (vadj x));
           p2 = from_px x (adj_value (hadj x) + page_size (hadj x), adj_value (vadj x) + page_size (vadj x))
       in scroll_to ((Min ?X + Max ?X) / 2 - (fst p2 - fst p1) / 2, (Min ?Y + Max ?Y) / 2 - (snd p2 - snd p1) / 2) x))"
    unfolding u autoscale_view_def using ne by (simp add: unit w_def [symmetric] Let_def)
  have nu: "nodes u = nodes w" "page_size (hadj u) = page_size (hadj w)" unfolding au by (auto simp: Let_def scroll)
  have X: "fst (center nd) \<in> ?X" if "nd \<in> snd ` set (nodes w)" for nd using that by force
  have Y: "snd (center nd) \<in> ?Y" if "nd \<in> snd ` set (nodes w)" for nd using that by force
  have in_x: "Min ?X \<le> fst (center nd) \<and> fst (center nd) \<le> Max ?X" if "nd \<in> snd ` set (nodes w)" for nd using X [OF that] by (simp add: Min_le Max_ge del: set_map)
  have in_y: "Min ?Y \<le> snd (center nd) \<and> snd (center nd) \<le> Max ?Y" if "nd \<in> snd ` set (nodes w)" for nd using Y [OF that] by (simp add: Min_le Max_ge del: set_map)
  have dx: "0 < ?dx"
  proof -
    obtain x y where "x \<in> snd ` set (nodes w)" "y \<in> snd ` set (nodes w)" "fst (center x) < fst (center y)" using apart unfolding nu by blast
    with in_x [of x] in_x [of y] have "Min ?X < Max ?X" by linarith
    then show ?thesis by (simp del: set_map)
  qed
  have dy: "0 < ?dy"
  proof -
    obtain x y where "x \<in> snd ` set (nodes w)" "y \<in> snd ` set (nodes w)" "snd (center x) < snd (center y)" using apart_y unfolding nu by blast
    with in_y [of x] in_y [of y] have "Min ?Y < Max ?Y" by linarith
    then show ?thesis by (simp del: set_map)
  qed
  have zu: "zoom u = set_value (min (page_size (hadj w) / ?dx) (page_size (vadj w) / ?dy)) (zoom w)" unfolding au using dx dy by (simp add: Let_def scroll)
  then have "adj_value (zoom u) \<le> page_size (hadj w) / ?dx" using low by (auto simp: set_value_def max_def min_def split: if_splits)
  then have "?dx * adj_value (zoom u) \<le> page_size (hadj w)" using dx by (simp add: pos_le_divide_eq mult.commute)
  moreover have "fst (center a) - fst (center b) \<le> Max ?X - Min ?X" using in_x [of a] in_x [of b] ab unfolding nu by force
  then have "3 / 2 * (fst (center a) - fst (center b)) * adj_value (zoom u) \<le> ?dx * adj_value (zoom u)"
    using low \<open>0 \<le> adj_lower (zoom u)\<close> by (intro mult_right_mono) auto
  ultimately show ?thesis unfolding nu by linarith
qed

end
