(* ===== verification/VizPlugins.thy ===== *)
theory VizPlugins
  imports VizTraffic
begin

text \<open>
  The plugins of the visualizer: \<^verbatim>\<open>interface_statistics.py\<close> (the collector of counters and its rates), \<^verbatim>\<open>wifi_intrastructure_link.py\<close> (the links between stations and access
  points), \<^verbatim>\<open>ipv4_routing_table.py\<close> and \<^verbatim>\<open>olsr.py\<close> (the rows of the routing tables) and \<^verbatim>\<open>show_last_packets.py\<close> (the choice of packet headers and the rows of packets).
  What the simulator returns is an input; tables are lists of rows, and the text of a float is a parameter.
\<close>

section \<open>Interface statistics\<close>

record netdev_counters =
  transmittedPackets :: int
  transmittedBytes :: int
  receivedPackets :: int
  receivedBytes :: int

record NetDevStats =
  txPackets :: int
  txBytes :: int
  rxPackets :: int
  rxBytes :: int
  txPacketRate :: rat
  rxPacketRate :: rat
  txBitRate :: rat
  rxBitRate :: rat

definition NODE_STATISTICS_MEMORY :: nat where "NODE_STATISTICS_MEMORY = 10"

type_synonym node_statistics = "(nat, netdev_counters list list) dict"

definition collect_node :: "node_statistics \<Rightarrow> nat \<times> netdev_counters list \<Rightarrow> node_statistics" where
  "collect_node d s =
     (let raw = (case map_of d (fst s) of None \<Rightarrow> [] | Some l \<Rightarrow> l) in AList.update (fst s) (pop_old NODE_STATISTICS_MEMORY (raw @ [snd s])) d)"

definition statistics_periodic_update :: "(nat \<times> netdev_counters list) list \<Rightarrow> node_statistics \<Rightarrow> node_statistics" where
  "statistics_periodic_update stats d = foldl collect_node d stats"

text \<open>The rates of an interface between two samples that are \<open>k\<close> seconds apart.\<close>

definition interface_rates :: "rat \<Rightarrow> netdev_counters \<Rightarrow> netdev_counters \<Rightarrow> NetDevStats" where
  "interface_rates k a b =
     \<lparr>txPackets = transmittedPackets b, txBytes = transmittedBytes b, rxPackets = receivedPackets b, rxBytes = receivedBytes b,
      txPacketRate = of_int (transmittedPackets b - transmittedPackets a) / k, rxPacketRate = of_int (receivedPackets b - receivedPackets a) / k,
      txBitRate = of_int ((transmittedBytes b - transmittedBytes a) * 8) / k, rxBitRate = of_int ((receivedBytes b - receivedBytes a) * 8) / k\<rparr>"

definition get_interface_statistics :: "rat \<Rightarrow> nat \<Rightarrow> node_statistics \<Rightarrow> NetDevStats list result" where
  "get_interface_statistics sample_period n d =
     (case map_of d n of
        None \<Rightarrow> Inr []
      | Some raw \<Rightarrow>
          if length raw < NODE_STATISTICS_MEMORY then Inr []
          else if length raw \<noteq> NODE_STATISTICS_MEMORY then Inl AssertionError
          else let k = sample_period * of_nat (NODE_STATISTICS_MEMORY - 1)
               in mapM_r (\<lambda>(iface, b). bind_r (py_index (hd raw) (int iface)) (\<lambda>a. if k = 0 then Inl ZeroDivisionError else Inr (interface_rates k a b))) (enumerate 0 (last raw)))"

text \<open>The rows of the window: the name of the device or its number, and the figures.\<close>

definition statistics_rows :: "(rat \<Rightarrow> string) \<Rightarrow> (nat \<Rightarrow> string) \<Rightarrow> NetDevStats list \<Rightarrow> (string \<times> string list) list" where
  "statistics_rows str_float find_name stats =
     map (\<lambda>(iface, s).
       (if find_name iface = [] then ''(interface '' @ str_of_int (int iface) @ '')'' else find_name iface,
        [str_of_int (txPackets s), str_of_int (txBytes s), str_float (txPacketRate s), str_float (txBitRate s),
         str_of_int (rxPackets s), str_of_int (rxBytes s), str_float (rxPacketRate s), str_float (rxBitRate s)])) (enumerate 0 stats)"

section \<open>Wireless links\<close>

text \<open>A link of a station: its node, its access point, whether it is shown, and its line.\<close>

record WifiLink =
  sta :: "nat option"
  ap :: "nat option"
  link_shown :: bool
  link_line :: "(point \<times> point) option"

text \<open>The station device is seen through its state: whether the link is up, and the address of the access point.\<close>

record station_state =
  link_up :: bool
  bssid :: string

record WifiLinkMonitor =
  access_points :: "(string, nat) dict"
  stations :: "(nat \<times> nat) list"
  wifi_links :: "WifiLink list"
  ap_links :: "nat \<Rightarrow> nat list"

definition wifi_update_points :: "(nat \<Rightarrow> point) \<Rightarrow> WifiLink \<Rightarrow> WifiLink" where
  "wifi_update_points pos l =
     (case (sta l, ap l) of (Some a, Some b) \<Rightarrow> l\<lparr>link_line := Some (pos a, pos b)\<rparr> | _ \<Rightarrow> l)"

text \<open>\<open>list.remove\<close> raises when the value is not in the list.\<close>

definition remove_link :: "nat \<Rightarrow> nat \<Rightarrow> WifiLinkMonitor \<Rightarrow> WifiLinkMonitor result" where
  "remove_link i n m = (if i \<in> set (ap_links m n) then Inr (m\<lparr>ap_links := (ap_links m)(n := remove1 i (ap_links m n))\<rparr>) else Inl ValueError)"

definition add_link :: "nat \<Rightarrow> nat \<Rightarrow> WifiLinkMonitor \<Rightarrow> WifiLinkMonitor" where
  "add_link i n m = m\<lparr>ap_links := (ap_links m)(n := ap_links m n @ [i])\<rparr>"

definition set_ap :: "(nat \<Rightarrow> point) \<Rightarrow> nat option \<Rightarrow> nat \<Rightarrow> WifiLinkMonitor \<Rightarrow> WifiLinkMonitor result" where
  "set_ap pos a i m =
     (let l = wifi_links m ! i
      in if a = ap l then Inr m
         else bind_r (case ap l of None \<Rightarrow> Inr m | Some n \<Rightarrow> remove_link i n m) (\<lambda>m.
              let m = (case a of None \<Rightarrow> m | Some n \<Rightarrow> add_link i n m)
              in Inr (m\<lparr>wifi_links := (wifi_links m)[i := wifi_update_points pos (l\<lparr>ap := a, link_shown := (a \<noteq> None)\<rparr>)]\<rparr>)))"

text \<open>A device is a station, an access point with its address, or neither.\<close>

datatype wifi_device = Sta nat | Ap string | Not_wifi

definition scan_wifi :: "nat \<Rightarrow> WifiLinkMonitor \<Rightarrow> wifi_device \<Rightarrow> WifiLinkMonitor" where
  "scan_wifi n m dev =
     (case dev of
        Not_wifi \<Rightarrow> m
      | Sta d \<Rightarrow> m\<lparr>stations := stations m @ [(d, length (wifi_links m))],
                    wifi_links := wifi_links m @ [\<lparr>sta = Some n, ap = None, link_shown = True, link_line = None\<rparr>]\<rparr>
      | Ap b \<Rightarrow> m\<lparr>access_points := AList.update b n (access_points m)\<rparr>)"

definition scan_nodes :: "(nat \<times> wifi_device list) list \<Rightarrow> WifiLinkMonitor \<Rightarrow> WifiLinkMonitor" where
  "scan_nodes nds m =
     (let m = m\<lparr>wifi_links := foldl (\<lambda>ls (d, i). ls[i := (ls ! i)\<lparr>sta := None, ap := None\<rparr>]) (wifi_links m) (stations m), access_points := [], stations := []\<rparr>
      in foldl (\<lambda>m (n, devs). foldl (scan_wifi n) m devs) m nds)"

definition wifi_station_update :: "(nat \<Rightarrow> point) \<Rightarrow> (nat \<Rightarrow> station_state) \<Rightarrow> WifiLinkMonitor \<Rightarrow> nat \<times> nat \<Rightarrow> WifiLinkMonitor result" where
  "wifi_station_update pos st m s =
     (let (d, i) = s
      in if \<not> link_up (st d) then set_ap pos None i m
         else if bssid (st d) = ''00:00:00:00:00:00'' then set_ap pos None i m
         else bind_r (d_getitem (access_points m) (bssid (st d))) (\<lambda>n. set_ap pos (Some n) i m))"

text \<open>
  The loop over the stations. A station that raises ends it; the stations before it keep what they were given, and
  it raises before it changes anything itself: the access point is looked up first, and \<open>set_ap\<close> starts by
  removing the link.
\<close>

fun wifi_update_run :: "(nat \<Rightarrow> point) \<Rightarrow> (nat \<Rightarrow> station_state) \<Rightarrow> WifiLinkMonitor \<Rightarrow> (nat \<times> nat) list \<Rightarrow> py_error option \<times> WifiLinkMonitor" where
  "wifi_update_run pos st m [] = (None, m)"
| "wifi_update_run pos st m (s # ss) =
     (case wifi_station_update pos st m s of Inl e \<Rightarrow> (Some e, m) | Inr m \<Rightarrow> wifi_update_run pos st m ss)"

definition wifi_periodic_update :: "(nat \<Rightarrow> point) \<Rightarrow> (nat \<Rightarrow> station_state) \<Rightarrow> WifiLinkMonitor \<Rightarrow> py_error option \<times> WifiLinkMonitor" where
  "wifi_periodic_update pos st m = wifi_update_run pos st m (stations m)"

definition wifi_update_view :: "(nat \<Rightarrow> point) \<Rightarrow> WifiLinkMonitor \<Rightarrow> WifiLinkMonitor" where
  "wifi_update_view pos m = m\<lparr>wifi_links := foldl (\<lambda>ls (d, i). ls[i := wifi_update_points pos (ls ! i)]) (wifi_links m) (stations m)\<rparr>"

text \<open>When a node is moved, only the links that are in its list are drawn again: those of an access point.\<close>

definition wifi_node_moved :: "(nat \<Rightarrow> point) \<Rightarrow> nat \<Rightarrow> WifiLinkMonitor \<Rightarrow> WifiLinkMonitor" where
  "wifi_node_moved pos n m = m\<lparr>wifi_links := foldl (\<lambda>ls i. ls[i := wifi_update_points pos (ls ! i)]) (wifi_links m) (ap_links m n)\<rparr>"

section \<open>Routing tables\<close>

record ipv4_route =
  dest :: string
  gateway :: string
  route_interface :: nat

datatype routing_protocol = Static "ipv4_route list" | Global "ipv4_route list" | Other_protocol

datatype routing = Single routing_protocol | List_routing "(routing_protocol \<times> int) list"

record route_row =
  row_dest :: string
  row_hop :: string
  row_interface :: string
  row_type :: string
  row_prio :: int

text \<open>The protocols whose routes are shown; a single protocol is shown only when it is static.\<close>

fun listed :: "routing_protocol \<times> int \<Rightarrow> (ipv4_route list \<times> string \<times> int) list" where
  "listed (Static rs, p) = [(rs, ''static'', p)]"
| "listed (Global rs, p) = [(rs, ''global'', p)]"
| "listed (Other_protocol, p) = []"

fun routing_protocols :: "routing \<Rightarrow> (ipv4_route list \<times> string \<times> int) list" where
  "routing_protocols (Single (Static rs)) = [(rs, ''static'', 0)]"
| "routing_protocols (Single p) = []"
| "routing_protocols (List_routing ps) = concat (map listed ps)"

text \<open>The name of an interface: that of its device, \<open>lo\<close> without one, or its number.\<close>

definition interface_name :: "(nat \<Rightarrow> string option) \<Rightarrow> nat \<Rightarrow> string" where
  "interface_name device_name i =
     (case device_name i of None \<Rightarrow> ''lo'' | Some s \<Rightarrow> if s = [] then ''(interface '' @ str_of_int (int i) @ '')'' else s)"

text \<open>The table of a node; without the IPv4 object of the node the update raises.\<close>

definition routing_table_update :: "(nat \<Rightarrow> string option) \<Rightarrow> routing option option \<Rightarrow> route_row list \<Rightarrow> route_row list result" where
  "routing_table_update device_name ipv4 table =
     (case ipv4 of
        None \<Rightarrow> Inl AttributeError
      | Some None \<Rightarrow> Inr table
      | Some (Some r) \<Rightarrow>
          if routing_protocols r = [] then Inr table
          else Inr (concat (map (\<lambda>(rs, ty, p). map (\<lambda>x. \<lparr>row_dest = dest x, row_hop = gateway x, row_interface = interface_name device_name (route_interface x),
                                                         row_type = ty, row_prio = p\<rparr>) rs) (routing_protocols r))))"

record olsr_entry =
  destAddr :: string
  nextAddr :: string
  olsr_interface :: nat
  distance :: nat

text \<open>The rows of OLSR; the device names need the IPv4 object as soon as there is a route.\<close>

definition olsr_table_update :: "(nat \<Rightarrow> string option) option \<Rightarrow> olsr_entry list option \<Rightarrow> (string \<times> string \<times> string \<times> nat) list \<Rightarrow> (string \<times> string \<times> string \<times> nat) list result" where
  "olsr_table_update ipv4 olsr table =
     (case olsr of
        None \<Rightarrow> Inr table
      | Some rs \<Rightarrow> mapM_r (\<lambda>r. case ipv4 of None \<Rightarrow> Inl AttributeError
                            | Some dn \<Rightarrow> Inr (destAddr r, nextAddr r, interface_name dn (olsr_interface r), distance r)) rs)"

section \<open>Packets\<close>

record packet_sample =
  sample_time :: rat
  sample_device :: "(string \<times> nat) option"
  packet_size :: nat
  packet_text :: string

definition packet_rows :: "(rat \<Rightarrow> string) \<Rightarrow> packet_sample list \<Rightarrow> (string \<times> string \<times> string \<times> string) list" where
  "packet_rows str_float ps =
     map (\<lambda>s. (str_float (sample_time s),
               case sample_device s of None \<Rightarrow> ''(unknown)'' | Some (name, i) \<Rightarrow> if name = [] then ''(interface '' @ str_of_int (int i) @ '')'' else name,
               str_of_int (int (packet_size s)), packet_text s)) ps"

text \<open>
  The search for a header or trailer among the parents of a type; a type without a parent ends it. The parents are those of the type system of the simulator, so the loop
  need not end for any table of parents.
\<close>

partial_function (option) type_is_good :: "(nat \<Rightarrow> nat option) \<Rightarrow> nat \<Rightarrow> nat \<Rightarrow> nat \<Rightarrow> bool option" where
  "type_is_good parent header trailer t =
     (if t = header \<or> t = trailer then Some True
      else case parent t of Some p \<Rightarrow> type_is_good parent header trailer p | None \<Rightarrow> Some False)"

record TypeIdConfig =
  config_typeid :: nat
  config_selected :: bool

datatype capture_mode = HEADERS_AND | HEADERS_OR

definition packet_filter_list :: "(nat \<Rightarrow> nat option) \<Rightarrow> nat \<Rightarrow> nat \<Rightarrow> nat \<Rightarrow> TypeIdConfig list option" where
  "packet_filter_list parent header trailer n =
     foldr (\<lambda>t rest. case (type_is_good parent header trailer t, rest) of
              (Some b, Some cs) \<Rightarrow> Some (if b \<and> t \<noteq> header \<and> t \<noteq> trailer then \<lparr>config_typeid = t, config_selected = True\<rparr> # cs else cs)
            | _ \<Rightarrow> None) [0..<n] (Some [])"

definition update_capture_options :: "bool \<Rightarrow> TypeIdConfig list \<Rightarrow> capture_mode \<times> nat \<times> nat list" where
  "update_capture_options op_and cs = (if op_and then HEADERS_AND else HEADERS_OR, 100, map config_typeid (filter config_selected cs))"

definition sel_cb :: "bool \<Rightarrow> TypeIdConfig list \<Rightarrow> TypeIdConfig list" where
  "sel_cb b cs = map (\<lambda>c. c\<lparr>config_selected := b\<rparr>) cs"

section \<open>Rates\<close>

lemma collect_node_map:
  "map_of (collect_node d s) n =
     (if n = fst s then Some (pop_old NODE_STATISTICS_MEMORY ((case map_of d n of None \<Rightarrow> [] | Some l \<Rightarrow> l) @ [snd s])) else map_of d n)"
  by (simp add: collect_node_def Let_def)

lemma pop_old_snoc: "pop_old k (drop (length h - k) h @ [x]) = drop (length (h @ [x]) - k) (h @ [x])"
  by (cases "length h \<le> k") (auto simp: pop_old_eq Suc_diff_le)

text \<open>After any updates the collector holds the last ten samples of each node.\<close>

lemma collect_map:
  "map_of (foldl collect_node d ss) n =
     (let h = map snd (filter (\<lambda>s. fst s = n) ss)
      in if h = [] then map_of d n else Some (drop (length h - NODE_STATISTICS_MEMORY) h))" if "map_of d n = None"
proof (induction ss rule: rev_induct)
  case (snoc s ss)
  let ?h = "map snd (filter (\<lambda>s. fst s = n) ss)"
  have e: "(case map_of (foldl collect_node d ss) n of None \<Rightarrow> [] | Some l \<Rightarrow> l) = drop (length ?h - NODE_STATISTICS_MEMORY) ?h"
    using snoc that by (simp add: Let_def split: if_splits)
  show ?case
  proof (cases "fst s = n")
    case True
    then show ?thesis using pop_old_snoc [of NODE_STATISTICS_MEMORY ?h "snd s"] unfolding foldl_append foldl.simps collect_node_map e by (simp add: True Let_def)
  next
    case False
    then show ?thesis using snoc by (simp add: collect_node_map Let_def)
  qed
qed (simp add: that)

lemma mapM_r_enumerate:
  "mapM_r (\<lambda>(i, b). bind_r (py_index as (int i)) (\<lambda>a. if z then Inl ZeroDivisionError else Inr (f a b))) (enumerate k bs) =
     (if bs = [] then Inr [] else if z \<and> k < length as then Inl ZeroDivisionError
      else if k + length bs \<le> length as then Inr (map2 f (drop k as) bs) else Inl IndexError)"
proof (induction bs arbitrary: k)
  case (Cons b bs)
  show ?case
  proof (cases "k < length as")
    case True
    then have "drop k as = as ! k # drop (Suc k) as" by (simp add: Cons_nth_drop_Suc)
    then show ?thesis using True Cons.IH [of "Suc k"] by (cases bs) (auto simp: enumerate_simps bind_r_def)
  next
    case False
    then show ?thesis by (simp add: py_index_out enumerate_simps)
  qed
qed simp

text \<open>
  The statistics of a node are exact: with fewer than ten samples of it there is no row; from ten on there is one row for each interface of the last sample, whose rates are the
  differences to the sample nine periods earlier, over nine times the sample period; and when an interface has been added within these nine periods the update raises \<open>IndexError\<close>.
  Only a sample period of zero makes it divide by zero, at the first interface.
\<close>

theorem statistics_rates:
  "get_interface_statistics sp n (foldl (\<lambda>d u. statistics_periodic_update u d) [] us) =
     (let h = map snd (filter (\<lambda>s. fst s = n) (concat us)); a = h ! (length h - 10); b = last h
      in if length h < 10 then Inr []
         else if b = [] then Inr []
         else if sp = 0 \<and> a \<noteq> [] then Inl ZeroDivisionError
         else if length b \<le> length a then Inr (map2 (interface_rates (9 * sp)) a b)
         else Inl IndexError)"
proof -
  let ?h = "map snd (filter (\<lambda>s. fst s = n) (concat us))"
  have f: "foldl (\<lambda>d u. statistics_periodic_update u d) d us = foldl collect_node d (concat us)" for d
    by (induction us arbitrary: d) (simp_all add: statistics_periodic_update_def)
  have m: "map_of (foldl collect_node [] (concat us)) n = (if ?h = [] then None else Some (drop (length ?h - 10) ?h))"
    using collect_map [of "[]" n "concat us"] by (simp add: Let_def NODE_STATISTICS_MEMORY_def)
  show ?thesis
  proof (cases "length ?h < 10")
    case True
    then show ?thesis unfolding f get_interface_statistics_def m by (auto simp: NODE_STATISTICS_MEMORY_def Let_def)
  next
    case False
    then have h: "?h \<noteq> []" "hd (drop (length ?h - 10) ?h) = ?h ! (length ?h - 10)" "last (drop (length ?h - 10) ?h) = last ?h" "length (drop (length ?h - 10) ?h) = 10"
      by (auto simp: hd_drop_conv_nth last_drop simp del: length_map)
    show ?thesis unfolding f get_interface_statistics_def m Let_def using False h
      by (simp add: NODE_STATISTICS_MEMORY_def mapM_r_enumerate mult.commute del: length_map length_drop)
  qed
qed

section \<open>Stations and access points\<close>

text \<open>A link is in the list of a node exactly when the node is its access point, once, and is then shown; stations have links of their own.\<close>

definition wifi_ok :: "WifiLinkMonitor \<Rightarrow> bool" where
  "wifi_ok m \<longleftrightarrow> (\<forall>n i. i \<in> set (ap_links m n) \<longleftrightarrow> i < length (wifi_links m) \<and> ap (wifi_links m ! i) = Some n) \<and> (\<forall>n. distinct (ap_links m n)) \<and>
     (\<forall>i < length (wifi_links m). ap (wifi_links m ! i) \<noteq> None \<longrightarrow> link_shown (wifi_links m ! i)) \<and>
     distinct (map snd (stations m)) \<and> (\<forall>s \<in> set (stations m). snd s < length (wifi_links m))"

lemma wifi_points_fields [simp]: "ap (wifi_update_points pos l) = ap l" "sta (wifi_update_points pos l) = sta l" "link_shown (wifi_update_points pos l) = link_shown l"
  by (simp_all add: wifi_update_points_def split: option.split)

lemma set_ap_outcome:
  assumes ok: "wifi_ok m" and i: "i < length (wifi_links m)"
  shows "\<exists>m'. set_ap pos a i m = Inr m' \<and> wifi_ok m' \<and> stations m' = stations m \<and> access_points m' = access_points m \<and>
    length (wifi_links m') = length (wifi_links m) \<and> (\<forall>j. ap (wifi_links m' ! j) = (if j = i then a else ap (wifi_links m ! j)))"
proof (cases "a = ap (wifi_links m ! i)")
  case True
  then show ?thesis using ok by (auto simp: set_ap_def)
next
  case False
  let ?l = "wifi_links m ! i"
  let ?L = "(wifi_links m)[i := wifi_update_points pos (?l\<lparr>ap := a, link_shown := (a \<noteq> None)\<rparr>)]"
  let ?A = "\<lambda>n. (if ap ?l = Some n then remove1 i (ap_links m n) else ap_links m n) @ (if a = Some n then [i] else [])"
  let ?m = "m\<lparr>ap_links := ?A, wifi_links := ?L\<rparr>"
  have mem: "j \<in> set (ap_links m n) \<longleftrightarrow> j < length (wifi_links m) \<and> ap (wifi_links m ! j) = Some n" for n j using ok by (simp add: wifi_ok_def)
  have d: "distinct (ap_links m n)" for n using ok by (simp add: wifi_ok_def)
  have e: "set_ap pos a i m = Inr ?m"
  proof (cases "ap ?l")
    case None
    then show ?thesis using False by (cases a) (auto simp: set_ap_def Let_def add_link_def fun_eq_iff)
  next
    case (Some n)
    then have "i \<in> set (ap_links m n)" using mem i by simp
    then show ?thesis using Some False by (cases a) (auto simp: set_ap_def Let_def add_link_def remove_link_def fun_eq_iff)
  qed
  have nth: "ap (?L ! j) = (if j = i then a else ap (wifi_links m ! j))" for j using i by (cases "j = i") simp_all
  have "j \<in> set (?A n) \<longleftrightarrow> j < length ?L \<and> ap (?L ! j) = Some n" for n j using mem [of j n] d [of n] i False nth [of j] by auto
  moreover have "distinct (?A n)" for n using d [of n] mem [of i n] i False by auto
  moreover have "link_shown (?L ! j)" if "j < length ?L" "ap (?L ! j) \<noteq> None" for j using that ok i by (cases "j = i") (auto simp: wifi_ok_def)
  ultimately have "wifi_ok ?m" using ok unfolding wifi_ok_def by simp
  then show ?thesis using e nth by simp
qed

text \<open>The access point a station should be linked to.\<close>

definition wanted_ap :: "(nat \<Rightarrow> station_state) \<Rightarrow> (string, nat) dict \<Rightarrow> nat \<Rightarrow> nat option" where
  "wanted_ap st aps d = (if \<not> link_up (st d) \<or> bssid (st d) = ''00:00:00:00:00:00'' then None else map_of aps (bssid (st d)))"

definition lost_station :: "(nat \<Rightarrow> station_state) \<Rightarrow> (string, nat) dict \<Rightarrow> nat \<Rightarrow> bool" where
  "lost_station st aps d \<longleftrightarrow> link_up (st d) \<and> bssid (st d) \<noteq> ''00:00:00:00:00:00'' \<and> map_of aps (bssid (st d)) = None"

lemma station_update:
  assumes "wifi_ok m" and "i < length (wifi_links m)"
  shows "if lost_station st (access_points m) d then wifi_station_update pos st m (d, i) = Inl KeyError
    else \<exists>m'. wifi_station_update pos st m (d, i) = Inr m' \<and> wifi_ok m' \<and> stations m' = stations m \<and> access_points m' = access_points m \<and>
      length (wifi_links m') = length (wifi_links m) \<and> (\<forall>j. ap (wifi_links m' ! j) = (if j = i then wanted_ap st (access_points m) d else ap (wifi_links m ! j)))"
proof -
  have "wifi_station_update pos st m (d, i) = (if lost_station st (access_points m) d then Inl KeyError else set_ap pos (wanted_ap st (access_points m) d) i m)"
    by (simp add: wifi_station_update_def lost_station_def wanted_ap_def d_getitem_def split: option.split)
  then show ?thesis using set_ap_outcome [OF assms, of pos "wanted_ap st (access_points m) d"] by auto
qed

lemma stations_update:
  assumes "wifi_ok m" and "\<forall>s \<in> set ss. snd s < length (wifi_links m)" and "distinct (map snd ss)"
  shows "\<exists>m'. wifi_update_run pos st m ss = (if takeWhile (\<lambda>s. \<not> lost_station st (access_points m) (fst s)) ss = ss then None else Some KeyError, m') \<and> wifi_ok m' \<and>
    stations m' = stations m \<and> access_points m' = access_points m \<and>
    (\<forall>s \<in> set (takeWhile (\<lambda>s. \<not> lost_station st (access_points m) (fst s)) ss). ap (wifi_links m' ! snd s) = wanted_ap st (access_points m) (fst s)) \<and>
    (\<forall>j. j \<notin> snd ` set (takeWhile (\<lambda>s. \<not> lost_station st (access_points m) (fst s)) ss) \<longrightarrow> ap (wifi_links m' ! j) = ap (wifi_links m ! j))"
  using assms
proof (induction ss arbitrary: m)
  case (Cons s ss)
  obtain d i where s: "s = (d, i)" by (cases s)
  note u = station_update [of m i st d pos]
  show ?case
  proof (cases "lost_station st (access_points m) d")
    case True
    then show ?thesis using u Cons.prems by (auto simp: s)
  next
    case False
    then obtain m1 where m1: "wifi_station_update pos st m (d, i) = Inr m1" "wifi_ok m1" "stations m1 = stations m" "access_points m1 = access_points m"
        "length (wifi_links m1) = length (wifi_links m)" "\<And>j. ap (wifi_links m1 ! j) = (if j = i then wanted_ap st (access_points m) d else ap (wifi_links m ! j))"
      using u Cons.prems by (auto simp: s)
    let ?f = "takeWhile (\<lambda>s. \<not> lost_station st (access_points m) (fst s)) ss"
    have i: "i \<notin> snd ` set ?f" using Cons.prems(3) by (auto simp: s dest: set_takeWhileD)
    have "\<forall>s \<in> set ss. snd s < length (wifi_links m1)" "distinct (map snd ss)" using Cons.prems m1(5) by simp_all
    from Cons.IH [OF m1(2) this, unfolded m1(3,4)]
    obtain m' where m': "wifi_update_run pos st m1 ss = (if ?f = ss then None else Some KeyError, m')" "wifi_ok m'" "stations m' = stations m" "access_points m' = access_points m"
        "\<forall>s \<in> set ?f. ap (wifi_links m' ! snd s) = wanted_ap st (access_points m) (fst s)" "\<forall>j. j \<notin> snd ` set ?f \<longrightarrow> ap (wifi_links m' ! j) = ap (wifi_links m1 ! j)"
      by blast
    have "ap (wifi_links m' ! i) = wanted_ap st (access_points m) d" using m'(6) i m1(6) [of i] by simp
    then show ?thesis using m' m1(1,6) False by (intro exI [of _ m']) (auto simp: s)
  qed
qed simp

text \<open>The monitor before the scan, and what reaches it afterwards: periodic updates, updates of the view and moves of nodes.\<close>

definition new_WifiLinkMonitor :: WifiLinkMonitor where
  "new_WifiLinkMonitor = \<lparr>access_points = [], stations = [], wifi_links = [], ap_links = (\<lambda>_. [])\<rparr>"

datatype wifi_event = Wifi_update "nat \<Rightarrow> point" "nat \<Rightarrow> station_state" | Wifi_view "nat \<Rightarrow> point" | Wifi_moved "nat \<Rightarrow> point" nat

fun wifi_react :: "WifiLinkMonitor \<Rightarrow> wifi_event \<Rightarrow> WifiLinkMonitor" where
  "wifi_react m (Wifi_update pos st) = snd (wifi_periodic_update pos st m)"
| "wifi_react m (Wifi_view pos) = wifi_update_view pos m"
| "wifi_react m (Wifi_moved pos n) = wifi_node_moved pos n m"

lemma fresh_links_ok:
  assumes "wifi_ok m" and "\<forall>i < length (wifi_links m). ap (wifi_links m ! i) = None"
  shows "wifi_ok (scan_wifi n m dev) \<and> (\<forall>i < length (wifi_links (scan_wifi n m dev)). ap (wifi_links (scan_wifi n m dev) ! i) = None)"
  using assms by (cases dev) (auto simp: scan_wifi_def wifi_ok_def nth_append less_Suc_eq)

lemma scan_nodes_ok: "wifi_ok (scan_nodes nds new_WifiLinkMonitor)"
proof -
  let ?P = "\<lambda>m. wifi_ok m \<and> (\<forall>i < length (wifi_links m). ap (wifi_links m ! i) = None)"
  have d: "?P (foldl (scan_wifi n) m devs)" if "?P m" for n m devs using that fresh_links_ok by (induction devs arbitrary: m) simp_all
  have "?P (foldl (\<lambda>m (n, devs). foldl (scan_wifi n) m devs) m nds)" if "?P m" for m using that
  proof (induction nds arbitrary: m)
    case (Cons a nds)
    then show ?case using d [OF Cons.prems] by (cases a) simp
  qed simp
  moreover have "?P (new_WifiLinkMonitor\<lparr>access_points := [], stations := []\<rparr>)" by (simp add: new_WifiLinkMonitor_def wifi_ok_def)
  ultimately show ?thesis by (simp add: scan_nodes_def new_WifiLinkMonitor_def)
qed

text \<open>Drawing lines again changes nothing else.\<close>

lemma redraw_ok:
  assumes "length ls = length (wifi_links m)" and "\<And>i. ap (ls ! i) = ap (wifi_links m ! i) \<and> link_shown (ls ! i) = link_shown (wifi_links m ! i)" and "wifi_ok m"
  shows "wifi_ok (m\<lparr>wifi_links := ls\<rparr>)"
  using assms by (simp add: wifi_ok_def)

lemma redraw_links:
  "length (foldl (\<lambda>ls i. ls[f i := wifi_update_points pos (ls ! f i)]) ls js) = length ls \<and>
   ap (foldl (\<lambda>ls i. ls[f i := wifi_update_points pos (ls ! f i)]) ls js ! k) = ap (ls ! k) \<and>
   link_shown (foldl (\<lambda>ls i. ls[f i := wifi_update_points pos (ls ! f i)]) ls js ! k) = link_shown (ls ! k)"
proof (induction js arbitrary: ls)
  case (Cons j js)
  have "ap (ls[f j := wifi_update_points pos (ls ! f j)] ! k) = ap (ls ! k) \<and> link_shown (ls[f j := wifi_update_points pos (ls ! f j)] ! k) = link_shown (ls ! k)"
    by (cases "f j < length ls"; cases "f j = k") (simp_all add: list_update_beyond)
  then show ?case using Cons.IH [of "ls[f j := wifi_update_points pos (ls ! f j)]"] by simp
qed simp

lemma wifi_react_ok:
  assumes "wifi_ok m" and "wifi_react m ev = m'"
  shows "wifi_ok m'"
proof (cases ev)
  case (Wifi_update pos st)
  have "\<forall>s \<in> set (stations m). snd s < length (wifi_links m)" "distinct (map snd (stations m))" using assms(1) by (simp_all add: wifi_ok_def)
  then show ?thesis using stations_update [OF assms(1), where ss = "stations m" and st = st and pos = pos] assms(2) Wifi_update by (auto simp: wifi_periodic_update_def)
next
  case (Wifi_view pos)
  then have e: "m' = m\<lparr>wifi_links := foldl (\<lambda>ls s. ls[snd s := wifi_update_points pos (ls ! snd s)]) (wifi_links m) (stations m)\<rparr>"
    using assms(2) by (simp add: wifi_update_view_def case_prod_beta')
  show ?thesis unfolding e by (rule redraw_ok [OF _ _ assms(1)]) (use redraw_links [of snd pos "wifi_links m" "stations m"] in blast)+
next
  case (Wifi_moved pos n)
  then have e: "m' = m\<lparr>wifi_links := foldl (\<lambda>ls i. ls[i := wifi_update_points pos (ls ! i)]) (wifi_links m) (ap_links m n)\<rparr>"
    using assms(2) by (simp add: wifi_node_moved_def)
  show ?thesis unfolding e by (rule redraw_ok [OF _ _ assms(1)]) (use redraw_links [of "\<lambda>i. i" pos "wifi_links m" "ap_links m n"] in blast)+
qed

interpretation wifi: event_system "\<lambda>m ev. Inr (wifi_react m ev) :: WifiLinkMonitor result" wifi_ok
  by unfold_locales (auto intro: wifi_react_ok)

lemma wifi_run_ok: "wifi_ok (foldl wifi_react (scan_nodes nds new_WifiLinkMonitor) evs)"
  by (rule wifi.run_inv [OF scan_nodes_ok [of nds], of evs]) (simp add: foldM_r_total)

text \<open>
  C17: After a scan, whatever updates came before, those that raised included, an update of the wireless links goes through the stations in order up to the first that is up and names an
  access point the scan has not found, where it raises \<open>KeyError\<close>; without such a station it returns. Every station before that one is linked to the access point it names, and to none when it is down or
  names none, and the others keep their links. Either way each link is once in the list of its access point and in no other, so that removing a link never fails, and
  a link with an access point is shown.
\<close>

theorem wifi_update_outcome:
  assumes "m = foldl wifi_react (scan_nodes nds new_WifiLinkMonitor) evs" and "wifi_periodic_update pos st m = (er, m')"
  shows "wifi_ok m' \<and> stations m' = stations m \<and> access_points m' = access_points m \<and>
    er = (if \<exists>s \<in> set (stations m). lost_station st (access_points m) (fst s) then Some KeyError else None) \<and>
    (\<forall>s \<in> set (takeWhile (\<lambda>s. \<not> lost_station st (access_points m) (fst s)) (stations m)).
       ap (wifi_links m' ! snd s) = wanted_ap st (access_points m) (fst s)) \<and>
    (\<forall>s \<in> set (dropWhile (\<lambda>s. \<not> lost_station st (access_points m) (fst s)) (stations m)).
       ap (wifi_links m' ! snd s) = ap (wifi_links m ! snd s))"
proof -
  let ?P = "\<lambda>s. \<not> lost_station st (access_points m) (fst s)"
  let ?ss = "stations m"
  have ok: "wifi_ok m" unfolding assms(1) by (rule wifi_run_ok)
  then have ss: "\<forall>s \<in> set ?ss. snd s < length (wifi_links m)" "distinct (map snd ?ss)" by (simp_all add: wifi_ok_def)
  note u = stations_update [OF ok ss, where st = st and pos = pos, unfolded wifi_periodic_update_def [symmetric] assms(2)]
  have all: "takeWhile ?P ?ss = ?ss \<longleftrightarrow> \<not> (\<exists>s \<in> set ?ss. lost_station st (access_points m) (fst s))"
    by (simp add: takeWhile_eq_all_conv)
  have "distinct (map snd (takeWhile ?P ?ss @ dropWhile ?P ?ss))" using ss(2) by simp
  then have "snd s \<notin> snd ` set (takeWhile ?P ?ss)" if "s \<in> set (dropWhile ?P ?ss)" for s
    using that unfolding map_append distinct_append set_map by blast
  then show ?thesis using u unfolding all by auto
qed

text \<open>An access point on node 0 and a station on node 1.\<close>

definition small_wifi :: "(nat \<times> wifi_device list) list" where
  "small_wifi = [(0, [Ap ''a'', Not_wifi]), (1, [Sta 5])]"

definition near :: "nat \<Rightarrow> point" where
  "near n = (of_nat n, 0)"

definition joined :: "nat \<Rightarrow> station_state" where
  "joined d = \<lparr>link_up = True, bssid = ''a''\<rparr>"

theorem wifi_update_outcome_witness:
  "\<exists>m m'. m = foldl wifi_react (scan_nodes small_wifi new_WifiLinkMonitor) [Wifi_view near, Wifi_update near (\<lambda>d. \<lparr>link_up = True, bssid = ''b''\<rparr>)] \<and>
     wifi_periodic_update near joined m = (None, m') \<and> ap (wifi_links m' ! 0) = Some 0"
proof -
  define m where "m = foldl wifi_react (scan_nodes small_wifi new_WifiLinkMonitor) [Wifi_view near, Wifi_update near (\<lambda>d. \<lparr>link_up = True, bssid = ''b''\<rparr>)]"
  then have m: "stations m = [(5, 0)]" "access_points m = [(''a'', 0)]"
    by (simp_all add: scan_nodes_def small_wifi_def new_WifiLinkMonitor_def scan_wifi_def wifi_update_view_def wifi_periodic_update_def wifi_station_update_def d_getitem_def)
  obtain er m' where u: "wifi_periodic_update near joined m = (er, m')" by fastforce
  have "\<not> lost_station joined (access_points m) 5" "wanted_ap joined (access_points m) 5 = Some 0"
    by (simp_all add: m lost_station_def wanted_ap_def joined_def)
  then show ?thesis using wifi_update_outcome [OF m_def u] m u m_def by auto
qed

text \<open>A station that is moved between two updates leaves the end of its link behind: the link is in the list of its access point only.\<close>

lemma station_link_stale:
  assumes "wifi_ok m" and "i < length (wifi_links m)" and "ap (wifi_links m ! i) \<noteq> Some n" and "wifi_links m ! i = l"
  shows "link_line (wifi_links (wifi_node_moved pos n m) ! i) = link_line l"
proof -
  have "i \<notin> set (ap_links m n)" using assms(1-3) by (auto simp: wifi_ok_def)
  moreover have "foldl (\<lambda>ls i. ls[i := wifi_update_points pos (ls ! i)]) ls js ! i = ls ! i" if "i \<notin> set js" for ls js
    using that by (induction js arbitrary: ls) simp_all
  ultimately show ?thesis using assms(4) by (simp add: wifi_node_moved_def)
qed

section \<open>Header types\<close>

text \<open>When the parents of types form no cycle the search ends, and finds exactly the descendants of header and trailer.\<close>

lemma type_is_good_ends:
  assumes "\<And>t p. parent t = Some p \<Longrightarrow> rank p < (rank t :: nat)"
  shows "type_is_good parent h tr t = Some ((t, h) \<in> {(x, y). parent x = Some y}\<^sup>* \<or> (t, tr) \<in> {(x, y). parent x = Some y}\<^sup>*)"
proof (induction "rank t" arbitrary: t rule: less_induct)
  case less
  let ?R = "{(x, y). parent x = Some y}"
  have step: "(t, y) \<in> ?R\<^sup>* \<longleftrightarrow> t = y \<or> (\<exists>p. parent t = Some p \<and> (p, y) \<in> ?R\<^sup>*)" for y by (auto elim: converse_rtranclE intro: converse_rtrancl_into_rtrancl)
  show ?case
  proof (cases "t = h \<or> t = tr")
    case True
    then show ?thesis by (subst type_is_good.simps) auto
  next
    case False
    show ?thesis
    proof (cases "parent t")
      case None
      then show ?thesis using False by (subst type_is_good.simps) (auto simp: step)
    next
      case (Some p)
      then show ?thesis using False less [OF assms [OF Some]] by (subst type_is_good.simps) (auto simp: step)
    qed
  qed
qed

lemma sel_cb_headers: "update_capture_options a (sel_cb True cs) = (if a then HEADERS_AND else HEADERS_OR, 100, map config_typeid cs)"
  "update_capture_options a (sel_cb False cs) = (if a then HEADERS_AND else HEADERS_OR, 100, [])"
  by (simp_all add: update_capture_options_def sel_cb_def comp_def)

end
