(* ===== verification/FogGraphs.thy ===== *)
theory FogGraphs
  imports PyString
begin

text \<open>
  The figures behind the plots of the fog simulations (\<^verbatim>\<open>src/Fog4VR/graficos.py\<close> and \<^verbatim>\<open>graficos2.py\<close>): start times, stalls, cost, load and fairness of the servers, the quality
  levels of the clients per tier, throughput of the servers, stalls per tier, and the comparison of costs. Reading a table with pandas is left to the caller, who gives its columns or
  rows; log files are lists of lines. A float that is not a finite number is \<open>None\<close>, and a standard deviation is represented by its square. The drawing itself is not modelled.
\<close>

section \<open>Averages\<close>

text \<open>\<open>np.mean\<close>, \<open>np.nanmean\<close> and the square of \<open>np.std\<close>; the average of nothing is not a number.\<close>

definition np_mean :: "rat option list \<Rightarrow> rat option" where
  "np_mean xs = (if xs = [] \<or> None \<in> set xs then None else Some (sum_list (map the xs) / of_nat (length xs)))"

definition np_nanmean :: "rat option list \<Rightarrow> rat option" where
  "np_nanmean xs = np_mean (filter (\<lambda>x. x \<noteq> None) xs)"

definition np_var :: "rat option list \<Rightarrow> rat option" where
  "np_var xs = (case np_mean xs of None \<Rightarrow> None | Some m \<Rightarrow> np_mean (map (map_option (\<lambda>x. (x - m)\<^sup>2)) xs))"

definition np_divide :: "rat option \<Rightarrow> rat \<Rightarrow> rat option" where
  "np_divide x y = (case x of None \<Rightarrow> None | Some x \<Rightarrow> if y = 0 then None else Some (x / y))"

definition float_field :: "string list \<Rightarrow> int \<Rightarrow> rat result" where
  "float_field fields i = bind_r (py_index fields i) py_float"

section \<open>Start of the playback\<close>

text \<open>
  The first row of a download log, after its header: the time from the request to the start of the download, and from there to its end. A row of two or three fields raises.
\<close>

definition playback_file :: "string list \<Rightarrow> (rat \<times> rat) list result" where
  "playback_file file =
     (case file of
        [] \<Rightarrow> Inl StopIteration
      | header # rest \<Rightarrow>
          (let fields = split_char (CHR '';'') (case rest of [] \<Rightarrow> [] | l # _ \<Rightarrow> l)
           in if length fields \<ge> 2
              then bind_r (float_field fields 3) (\<lambda>end. bind_r (float_field fields 2) (\<lambda>mid. bind_r (float_field fields 1) (\<lambda>begin.
                     Inr [(mid - begin, end - mid)])))
              else Inr []))"

definition playbackStart :: "string list list list \<Rightarrow> (rat option list \<times> rat option list) result" where
  "playbackStart run_files =
     bind_r (mapM_r (\<lambda>files. bind_r (mapM_r playback_file files) (\<lambda>ts.
               Inr (np_mean (map (Some \<circ> fst) (concat ts)), np_mean (map (Some \<circ> snd) (concat ts))))) run_files) (\<lambda>ms.
       Inr ([np_mean (map fst ms), np_mean (map snd ms)], [np_var (map fst ms), np_var (map snd ms)]))"

section \<open>Stalls\<close>

text \<open>The column of durations of a table; a missing cell is not a number. A table without the column raises.\<close>

definition stalls_file :: "rat option list option \<Rightarrow> (rat option \<times> rat option) result" where
  "stalls_file column =
     (case column of
        None \<Rightarrow> Inl KeyError
      | Some duration \<Rightarrow> Inr (Some (of_nat (length duration)), if None \<in> set duration then None else Some (sum_list (map the duration))))"

definition StallsRebuffers :: "string \<Rightarrow> rat option list option list list \<Rightarrow> (rat option list \<times> rat option list) result" where
  "StallsRebuffers num run_files =
     bind_r (mapM_r (\<lambda>files. bind_r (mapM_r stalls_file files) (\<lambda>sr. bind_r (py_int num) (\<lambda>n.
               Inr (np_divide (np_mean (map fst sr)) (of_int n), np_divide (np_nanmean (map snd sr)) (of_int n))))) run_files) (\<lambda>ms.
       Inr ([np_mean (map fst ms), np_mean (map snd ms)], [np_var (map fst ms), np_var (map snd ms)]))"

section \<open>State of the servers\<close>

record server_row =
  OnOff :: rat
  Cost :: rat
  AllocatedContent :: string
  FreeMemory :: rat
  TotalMemory :: rat

record fog_run =
  run_price :: rat
  run_usage :: "rat option list"
  run_number :: nat

text \<open>\<open>1 - totalMemory / freeMemory\<close>, averaged over the rows; a division by zero gives no finite number.\<close>

definition server_usage :: "server_row list \<Rightarrow> rat option" where
  "server_usage rows = np_mean (map (\<lambda>r. map_option (\<lambda>x. 1 - x) (np_divide (Some (TotalMemory r)) (FreeMemory r))) rows)"

text \<open>The index of fairness of Jain.\<close>

definition jain :: "rat option list \<Rightarrow> rat option" where
  "jain us =
     (if None \<in> set us then None
      else np_divide (Some ((sum_list (map the us))\<^sup>2)) (of_nat (length us) * sum_list (map (\<lambda>u. (the u)\<^sup>2) us)))"

definition cloud_log :: "nat \<Rightarrow> string" where
  "cloud_log i = ''throughputServer_sim'' @ str_of_nat i @ ''_2.0.14.1_Log.csv''"

definition fog_file :: "nat \<Rightarrow> fog_run \<Rightarrow> string \<times> server_row list \<Rightarrow> fog_run result" where
  "fog_file i st f =
     (let (name, rows) = f
      in bind_r (if name = cloud_log i then Inr 0
                 else bind_r (py_index (map AllocatedContent rows) 60) (\<lambda>c. Inr (length (filter (\<lambda>x. x \<noteq> ''nan'') (split_char (CHR ''/'') c))))) (\<lambda>k.
         Inr \<lparr>run_price = run_price st + sum_list (map (\<lambda>r. OnOff r * Cost r) rows), run_usage = run_usage st @ [server_usage rows], run_number = run_number st + k\<rparr>))"

definition fog_files :: "nat \<Rightarrow> (string \<times> server_row list) list \<Rightarrow> fog_run result" where
  "fog_files i files = foldM_r (fog_file i) \<lparr>run_price = 0, run_usage = [], run_number = 0\<rparr> files"

record fog_status =
  fs_vec :: "rat option list"
  fs_conf :: "rat option list"
  fs_num :: "rat option list"
  fs_numConf :: "rat option list"

definition fogStatus :: "(string \<times> server_row list) list list \<Rightarrow> fog_status result" where
  "fogStatus run_files =
     bind_r (mapM_r (\<lambda>(i, files). fog_files i files) (enumerate 0 run_files)) (\<lambda>rs.
       (let price = map (\<lambda>r. Some (30 * run_price r)) rs; number = map (\<lambda>r. Some (of_nat (run_number r))) rs
        in Inr \<lparr>fs_vec = [np_mean price, np_mean (map (jain \<circ> run_usage) rs)], fs_conf = [np_var price],
                fs_num = [np_nanmean number], fs_numConf = [np_var number]\<rparr>))"

section \<open>The folders of the policies\<close>

text \<open>\<open>folders.sort(key=operator.itemgetter(0))\<close> sorts by the first character only; then the names that are not numbers are dropped.\<close>

definition policy_folders :: "string list \<Rightarrow> string list" where
  "policy_folders names = filter (\<lambda>n. n \<noteq> [] \<and> list_all is_digit n) (py_sort (\<lambda>a b. of_char (hd a) < (of_char (hd b) :: nat)) names)"

text \<open>What \<open>main\<close> collects for each number of clients and each policy.\<close>

record policy_logs =
  download_logs :: "string list list list"
  underrun_logs :: "rat option list option list list"
  server_logs :: "(string \<times> server_row list) list list"

record totals =
  playback :: "rat option list list list"
  migrationConf :: "rat option list list"
  bufferingConf :: "rat option list list"
  migration :: "rat option list list"
  buffering :: "rat option list list"
  StallsConf :: "rat option list list"
  RebufferConf :: "rat option list list"
  Stalls :: "rat option list list"
  Rebuffer :: "rat option list list"
  total_cost :: "rat option list list"
  costConf :: "rat option list list list"
  fair :: "rat option list list"
  numberTotal :: "rat option list list list"
  numberTotalConf :: "rat option list list list"

record policy_result =
  start_time :: "rat option list"
  start_conf :: "rat option list"
  stall_mean :: "rat option list"
  stall_conf :: "rat option list"
  status :: fog_status

definition policy_figures :: "string \<Rightarrow> policy_logs \<Rightarrow> policy_result result" where
  "policy_figures k p =
     bind_r (playbackStart (download_logs p)) (\<lambda>(vec, conf). bind_r (StallsRebuffers k (underrun_logs p)) (\<lambda>(srd, srdConf). bind_r (fogStatus (server_logs p)) (\<lambda>resp.
       Inr \<lparr>start_time = vec, start_conf = conf, stall_mean = srd, stall_conf = srdConf, status = resp\<rparr>)))"

definition add_totals :: "totals \<Rightarrow> policy_result list \<Rightarrow> totals" where
  "add_totals t ps =
     \<lparr>playback = playback t @ [map start_time ps],
      migrationConf = migrationConf t @ [map (\<lambda>p. start_conf p ! 0) ps], bufferingConf = bufferingConf t @ [map (\<lambda>p. start_conf p ! 1) ps],
      migration = migration t @ [map (\<lambda>p. start_time p ! 0) ps], buffering = buffering t @ [map (\<lambda>p. start_time p ! 1) ps],
      StallsConf = StallsConf t @ [map (\<lambda>p. stall_conf p ! 0) ps], RebufferConf = RebufferConf t @ [map (\<lambda>p. stall_conf p ! 1) ps],
      Stalls = Stalls t @ [map (\<lambda>p. stall_mean p ! 0) ps], Rebuffer = Rebuffer t @ [map (\<lambda>p. stall_mean p ! 1) ps],
      total_cost = total_cost t @ [map (\<lambda>p. fs_vec (status p) ! 0) ps], costConf = costConf t @ [map (\<lambda>p. fs_conf (status p)) ps],
      fair = fair t @ [map (\<lambda>p. fs_vec (status p) ! 1) ps],
      numberTotal = numberTotal t @ [map (\<lambda>p. fs_num (status p)) ps], numberTotalConf = numberTotalConf t @ [map (\<lambda>p. fs_numConf (status p)) ps]\<rparr>"

definition no_totals :: totals where
  "no_totals = \<lparr>playback = [], migrationConf = [], bufferingConf = [], migration = [], buffering = [], StallsConf = [], RebufferConf = [], Stalls = [], Rebuffer = [],
     total_cost = [], costConf = [], fair = [], numberTotal = [], numberTotalConf = []\<rparr>"

definition grafico_main :: "(string \<times> (string \<times> policy_logs) list) list \<Rightarrow> totals result" where
  "grafico_main clients =
     foldM_r (\<lambda>t (k, dirs).
       bind_r (mapM_r (\<lambda>i. bind_r (d_getitem dirs i) (policy_figures k)) (policy_folders (map fst dirs))) (\<lambda>ps. Inr (add_totals t ps))) no_totals clients"

section \<open>Quality of the playback\<close>

datatype tier = S1 | S2 | S3 | S4

definition server_tier :: "string \<Rightarrow> tier" where
  "server_tier s = (if s = ''1.0.0.1'' then S1 else if s = ''2.0.0.1'' then S2 else if s = ''3.0.0.1'' then S3 else S4)"

definition server_tier2 :: "string \<Rightarrow> tier" where
  "server_tier2 s =
     (if s = ''1.0.0.1'' then S1 else if s = ''2.0.0.1'' \<or> s = ''1.0.0.3'' then S2 else if s = ''3.0.0.1'' \<or> s = ''1.0.0.5'' then S3 else S4)"

text \<open>A row of a playback log: the quality level and the server; the number of the segment is only read.\<close>

definition playback_row :: "string \<Rightarrow> (rat \<times> string) result" where
  "playback_row line =
     (let fields = split_char (CHR '';'') line
      in bind_r (float_field fields 0) (\<lambda>segment. bind_r (float_field fields 2) (\<lambda>level. bind_r (py_index fields 3) (\<lambda>server. Inr (level, server)))))"

definition playback_log :: "string list \<Rightarrow> (rat \<times> string) list result" where
  "playback_log file = (case file of [] \<Rightarrow> Inl StopIteration | header # rest \<Rightarrow> mapM_r playback_row rest)"

record quality_run =
  quality :: "tier \<Rightarrow> rat list"
  clients :: "tier \<Rightarrow> rat list"
  bitSwitch :: nat
  bitSwitchUp :: nat
  bitSwitchDown :: nat

record extremes =
  bestScore :: rat
  bestClient :: "(rat \<times> string) list"
  worstScore :: rat
  worstClient :: "(rat \<times> string) list"

definition no_client :: extremes where
  "no_client = \<lparr>bestScore = - 1, bestClient = [], worstScore = 10000000, worstClient = []\<rparr>"

definition rank_client :: "extremes \<Rightarrow> (rat \<times> string) list \<Rightarrow> extremes" where
  "rank_client e rows =
     (let ClientScore = sum_list (map fst rows)
      in if ClientScore > bestScore e then e\<lparr>bestScore := ClientScore, bestClient := rows\<rparr>
         else if ClientScore < worstScore e then e\<lparr>worstScore := ClientScore, worstClient := rows\<rparr>
         else e)"

definition add_level :: "(string \<Rightarrow> tier) \<Rightarrow> nat \<Rightarrow> rat \<times> string \<Rightarrow> quality_run \<Rightarrow> quality_run result" where
  "add_level tier_of i x q =
     (let t = tier_of (snd x)
      in if i < length (quality q t)
         then Inr (q\<lparr>quality := (quality q)(t := (quality q t)[i := quality q t ! i + fst x]), clients := (clients q)(t := (clients q t)[i := clients q t ! i + 1])\<rparr>)
         else Inl IndexError)"

text \<open>The loop over the pairs of neighbouring segments: the last segment of a client has no pair and is not counted.\<close>

fun add_levels :: "(string \<Rightarrow> tier) \<Rightarrow> nat \<Rightarrow> (rat \<times> string) list \<Rightarrow> quality_run \<Rightarrow> quality_run result" where
  "add_levels tier_of i (x # y # rest) q = bind_r (add_level tier_of i x q) (add_levels tier_of (Suc i) (y # rest))"
| "add_levels tier_of i rows q = Inr q"

definition add_switch :: "quality_run \<Rightarrow> rat \<times> rat \<Rightarrow> quality_run" where
  "add_switch q p =
     (let (before, now) = p
      in if now = before then q
         else if now > before then q\<lparr>bitSwitch := bitSwitch q + 1, bitSwitchUp := bitSwitchUp q + 1\<rparr>
         else q\<lparr>bitSwitch := bitSwitch q + 1, bitSwitchDown := bitSwitchDown q + 1\<rparr>)"

definition quality_file :: "(string \<Rightarrow> tier) \<Rightarrow> quality_run \<times> extremes \<Rightarrow> string list \<Rightarrow> (quality_run \<times> extremes) result" where
  "quality_file tier_of st file =
     bind_r (playback_log file) (\<lambda>rows.
       bind_r (add_levels tier_of 0 rows (fst st)) (\<lambda>q.
         Inr (foldl add_switch q (zip (map fst rows) (tl (map fst rows))), rank_client (snd st) rows)))"

definition no_quality :: "nat \<Rightarrow> quality_run" where
  "no_quality numSegments = \<lparr>quality = (\<lambda>_. replicate numSegments 0), clients = (\<lambda>_. replicate numSegments 0), bitSwitch = 0, bitSwitchUp = 0, bitSwitchDown = 0\<rparr>"

definition quality_files :: "(string \<Rightarrow> tier) \<Rightarrow> nat \<Rightarrow> extremes \<Rightarrow> string list list \<Rightarrow> (quality_run \<times> extremes) result" where
  "quality_files tier_of numSegments e files = foldM_r (quality_file tier_of) (no_quality numSegments, e) files"

definition divisor :: "rat list \<Rightarrow> rat list \<Rightarrow> rat list" where
  "divisor vet1 vet2 = map2 (\<lambda>x y. if y = 0 then - 1 else x / y) vet1 vet2"

definition level_bitrate :: "rat \<Rightarrow> rat" where
  "level_bitrate v =
     (if v = - 1 then 0
      else if v \<le> 1 then 250 * v + 400
      else if v \<le> 2 then 350 * (v - 1) + 650
      else if v \<le> 3 then 500 * (v - 2) + 1000
      else if v \<le> 4 then 750 * (v - 3) + 1500
      else if v \<le> 5 then 1150 * (v - 4) + 2250
      else 1300 * (v - 5) + 3400)"

definition toBitrate :: "rat list \<Rightarrow> rat list" where
  "toBitrate vet = map level_bitrate vet"

text \<open>\<open>np.mean(xss, axis=0)\<close> of arrays of length \<open>n\<close>, and \<open>int(np.mean(xs))\<close>, which raises when there is nothing to average.\<close>

definition mean_columns :: "nat \<Rightarrow> rat list list \<Rightarrow> rat list" where
  "mean_columns n xss = map (\<lambda>i. sum_list (map (\<lambda>xs. xs ! i) xss) / of_nat (length xss)) [0..<n]"

definition int_mean :: "rat list \<Rightarrow> int result" where
  "int_mean xs = (case np_mean (map Some xs) of None \<Rightarrow> Inl ValueError | Some m \<Rightarrow> Inr (trunc m))"

text \<open>The square of \<open>1.96 * np.std(xs) / np.sqrt(runs)\<close>; there is one value for each run.\<close>

definition conf_int :: "rat option list \<Rightarrow> rat option" where
  "conf_int xs = np_divide (map_option (\<lambda>v. (196 / 100)\<^sup>2 * v) (np_var xs)) (of_nat (length xs))"

record quality_figures =
  QualityMeanTotal :: "rat list"
  qualityLevelTotals :: "tier \<Rightarrow> rat list"
  ClientsTotals :: "tier \<Rightarrow> rat list"
  bitSwitchtotals :: "rat option"
  bitSwitchUptotals :: "rat option"
  bitSwitchDowntotals :: "rat option"
  bitSwitchtotalsConfInt :: "rat option"
  bitSwitchUptotalsConfInt :: "rat option"
  bitSwitchDowntotalsConfInt :: "rat option"
  MeansSV :: "int list"
  MeansBW :: "int list"
  fairness :: "rat option"

fun quality_rounds :: "(string \<Rightarrow> tier) \<Rightarrow> nat \<Rightarrow> extremes \<Rightarrow> string list list list \<Rightarrow> (quality_run list \<times> extremes) result" where
  "quality_rounds tier_of n e [] = Inr ([], e)"
| "quality_rounds tier_of n e (files # rest) =
     bind_r (quality_files tier_of n e files) (\<lambda>(q, e). bind_r (quality_rounds tier_of n e rest) (\<lambda>(qs, e). Inr (q # qs, e)))"

text \<open>The number of clients is written into the two scripts: 40 and 18.\<close>

definition qualityGraphs :: "(string \<Rightarrow> tier) \<Rightarrow> rat \<Rightarrow> nat \<Rightarrow> string list list list \<Rightarrow> quality_figures result" where
  "qualityGraphs tier_of share n run_files =
     bind_r (quality_rounds tier_of n no_client run_files) (\<lambda>(qs, e).
       (let all = map (\<lambda>q. map (\<lambda>i. (quality q S1 ! i + quality q S2 ! i + quality q S3 ! i + quality q S4 ! i) / share) [0..<n]) qs;
            level = (\<lambda>t. mean_columns n (map (\<lambda>q. toBitrate (divisor (quality q t) (clients q t))) qs));
            cl = (\<lambda>t. mean_columns n (map (\<lambda>q. clients q t) qs))
        in bind_r (mapM_r (\<lambda>t. int_mean (level t)) [S1, S2, S3, S4]) (\<lambda>sv.
           bind_r (int_mean (toBitrate (map fst (bestClient e)))) (\<lambda>best.
           bind_r (int_mean (toBitrate (map fst (worstClient e)))) (\<lambda>worst.
             Inr \<lparr>QualityMeanTotal = toBitrate (mean_columns n all), qualityLevelTotals = level, ClientsTotals = cl,
                  bitSwitchtotals = np_mean (map (\<lambda>q. Some (of_nat (bitSwitch q) / share)) qs),
                  bitSwitchUptotals = np_mean (map (\<lambda>q. Some (of_nat (bitSwitchUp q) / share)) qs),
                  bitSwitchDowntotals = np_mean (map (\<lambda>q. Some (of_nat (bitSwitchDown q) / share)) qs),
                  bitSwitchtotalsConfInt = conf_int (map (\<lambda>q. Some (of_nat (bitSwitch q) / share)) qs),
                  bitSwitchUptotalsConfInt = conf_int (map (\<lambda>q. Some (of_nat (bitSwitchUp q) / share)) qs),
                  bitSwitchDowntotalsConfInt = conf_int (map (\<lambda>q. Some (of_nat (bitSwitchDown q) / share)) qs),
                  MeansSV = sv, MeansBW = [best, worst],
                  fairness = jain (map (\<lambda>t. np_divide (np_mean (map Some (cl t))) 10) [S1, S2, S3, S4])\<rparr>)))))"

section \<open>Throughput of the servers\<close>

definition throughput_row :: "string \<Rightarrow> (rat \<times> rat \<times> rat) result" where
  "throughput_row line =
     (let fields = split_char (CHR '';'') line
      in bind_r (float_field fields 0) (\<lambda>t. bind_r (float_field fields 1) (\<lambda>mbps. bind_r (float_field fields 2) (\<lambda>mme. Inr (t, mbps, mme)))))"

definition throughput_file :: "string list \<Rightarrow> (rat \<times> rat \<times> rat) list result" where
  "throughput_file file = (case file of [] \<Rightarrow> Inl StopIteration | header # rest \<Rightarrow> mapM_r throughput_row rest)"

text \<open>\<open>xs[k::4]\<close>, and \<open>min(xss, key=len)\<close>: the first of the shortest, an error when there is none.\<close>

definition every4 :: "nat \<Rightarrow> 'a list \<Rightarrow> 'a list" where
  "every4 k xs = map (\<lambda>i. xs ! i) (filter (\<lambda>i. i mod 4 = k) [0..<length xs])"

fun shortest :: "'a list list \<Rightarrow> 'a list result" where
  "shortest [] = Inl ValueError"
| "shortest (xs # xss) = Inr (foldl (\<lambda>m ys. if length ys < length m then ys else m) xs xss)"

text \<open>The average of the cut columns; without a file for the server there is nothing to plot against the times.\<close>

definition server_mean :: "nat \<Rightarrow> nat \<Rightarrow> rat list list \<Rightarrow> rat list result" where
  "server_mean runs n aux =
     (if aux = [] then (if n = 1 then Inr [0] else Inl ValueError)
      else Inr (map (\<lambda>i. sum_list (map (\<lambda>xs. take n xs ! i) aux) / of_nat runs) [0..<n]))"

definition throughtputServer :: "string list list list \<Rightarrow> (rat list \<times> rat list \<times> rat list) list result" where
  "throughtputServer run_files =
     bind_r (mapM_r throughput_file (concat run_files)) (\<lambda>tables.
       mapM_r (\<lambda>k. bind_r (shortest (map (map fst) tables)) (\<lambda>times.
                 bind_r (server_mean (length run_files) (length times) (every4 k (map (map (fst \<circ> snd)) tables))) (\<lambda>mbps.
                 bind_r (server_mean (length run_files) (length times) (every4 k (map (map (snd \<circ> snd)) tables))) (\<lambda>mme.
                   Inr (times, mbps, mme))))) [0..<4])"

section \<open>Stalls per tier and costs\<close>

text \<open>The last line of each log alternates the value of a tier and its moving average, from the second field to the last but one.\<close>

definition bar_cell :: "rat list list \<times> rat list list \<Rightarrow> nat \<times> string \<Rightarrow> (rat list list \<times> rat list list) result" where
  "bar_cell dm c =
     (let (l, s) = c; i = (if odd l then (l - 1) div 2 else l div 2 - 1)
      in if odd l
         then bind_r (py_index (fst dm) (int i)) (\<lambda>xs. bind_r (py_float s) (\<lambda>x. Inr ((fst dm)[i := xs @ [x]], snd dm)))
         else bind_r (py_index (snd dm) (int i)) (\<lambda>xs. bind_r (py_float s) (\<lambda>x. Inr (fst dm, (snd dm)[i := xs @ [x]]))))"

definition bar_run :: "rat list list \<times> rat list list \<Rightarrow> string list \<Rightarrow> (rat list list \<times> rat list list) result" where
  "bar_run dm collum = foldM_r bar_cell dm (map (\<lambda>l. (l, collum ! l)) [1..<length collum - 1])"

record bar_figures =
  defaultMean :: "rat option list"
  defaultMSE :: "rat option list"
  MMEMean :: "rat option list"
  MMEMSE :: "rat option list"

definition barGraphs :: "nat \<Rightarrow> string list list \<Rightarrow> bar_figures result" where
  "barGraphs runs collums =
     bind_r (foldM_r (\<lambda>dm k. bind_r (py_index collums (int k)) (bar_run dm)) (replicate 4 [], replicate 4 []) [0..<runs]) (\<lambda>(d, m).
       Inr \<lparr>defaultMean = map (np_mean \<circ> map Some) d, defaultMSE = map (np_var \<circ> map Some) d, MMEMean = map (np_mean \<circ> map Some) m, MMEMSE = map (np_var \<circ> map Some) m\<rparr>)"

definition last_fields :: "string list \<Rightarrow> string list result" where
  "last_fields data = bind_r (py_index data (- 1)) (\<lambda>l. Inr (split_char (CHR '';'') l))"

text \<open>\<open>StallsGraphs\<close> and \<open>RebufferGraphs\<close> differ in the files they read.\<close>

definition StallsGraphs :: "string list list list \<Rightarrow> bar_figures result" where
  "StallsGraphs run_files = bind_r (mapM_r last_fields (concat run_files)) (barGraphs (length run_files))"

definition tier_price :: "tier \<Rightarrow> rat" where
  "tier_price t = (case t of S1 \<Rightarrow> 42408 / 100000 | S4 \<Rightarrow> 7272 / 100000 | _ \<Rightarrow> 22896 / 100000)"

text \<open>The cost of a policy per segment; the last value is replaced by the one before it, and the first is dropped.\<close>

definition cost_series :: "nat \<Rightarrow> (tier \<Rightarrow> rat list) \<Rightarrow> rat list result" where
  "cost_series n cl =
     (let cost = map (\<lambda>i. \<Sum>t\<leftarrow>[S1, S2, S3, S4]. cl t ! i * tier_price t) [0..<n]
      in if n < 2 then Inl IndexError else Inr (tl (cost[n - 1 := cost ! (n - 2)])))"

definition hourly_cost :: "nat \<Rightarrow> (tier \<Rightarrow> rat list) \<Rightarrow> rat option result" where
  "hourly_cost n cl = bind_r (cost_series n cl) (\<lambda>c. Inr (np_divide (np_mean (map Some c)) 6))"

section \<open>Quality levels and switches\<close>

definition at_tier :: "(string \<Rightarrow> tier) \<Rightarrow> tier \<Rightarrow> nat \<Rightarrow> (rat \<times> string) list \<Rightarrow> bool" where
  "at_tier tier_of t i l \<longleftrightarrow> Suc i < length l \<and> tier_of (snd (l ! i)) = t"

definition sized :: "nat \<Rightarrow> quality_run \<Rightarrow> bool" where
  "sized n q \<longleftrightarrow> (\<forall>t. length (quality q t) = n \<and> length (clients q t) = n)"

definition level_at :: "(string \<Rightarrow> tier) \<Rightarrow> tier \<Rightarrow> nat \<Rightarrow> (rat \<times> string) list \<Rightarrow> rat" where
  "level_at tier_of t i l = (if at_tier tier_of t i l then fst (l ! i) else 0)"

lemma at_tier_step:
  "at_tier f t i (x # y # rest) \<longleftrightarrow> (if i = 0 then f (snd x) = t else at_tier f t (i - 1) (y # rest))"
  "level_at f t i (x # y # rest) = (if i = 0 then (if f (snd x) = t then fst x else 0) else level_at f t (i - 1) (y # rest))"
  by (cases i; simp add: at_tier_def level_at_def)+

lemma add_levels_outcome:
  assumes "sized n q" and "k \<le> n"
  shows "if k + length l \<le> n + 1
    then \<exists>q'. add_levels tier_of k l q = Inr q' \<and> sized n q' \<and> bitSwitch q' = bitSwitch q \<and> bitSwitchUp q' = bitSwitchUp q \<and> bitSwitchDown q' = bitSwitchDown q \<and>
      (\<forall>t i. i < n \<longrightarrow> quality q' t ! i = quality q t ! i + (if k \<le> i then level_at tier_of t (i - k) l else 0) \<and>
        clients q' t ! i = clients q t ! i + (if k \<le> i \<and> at_tier tier_of t (i - k) l then 1 else 0))
    else add_levels tier_of k l q = Inl IndexError \<or> length l < 2"
  using assms
proof (induction tier_of k l q rule: add_levels.induct)
  case (1 tier_of k x y rest q)
  show ?case
  proof (cases "k < n")
    case False
    then show ?thesis using 1(2,3) by (simp add: add_level_def sized_def Let_def)
  next
    case True
    let ?t = "tier_of (snd x)"
    let ?q = "q\<lparr>quality := (quality q)(?t := (quality q ?t)[k := quality q ?t ! k + fst x]), clients := (clients q)(?t := (clients q ?t)[k := clients q ?t ! k + 1])\<rparr>"
    have e: "add_level tier_of k x q = Inr ?q" using True 1(2) by (simp add: add_level_def sized_def Let_def)
    have s: "sized n ?q" using 1(2) by (simp add: sized_def)
    have u: "quality ?q t ! i = quality q t ! i + (if i = k \<and> t = ?t then fst x else 0) \<and> clients ?q t ! i = clients q t ! i + (if i = k \<and> t = ?t then 1 else 0)"
      if "i < n" for t i using that 1(2) by (simp add: sized_def)
    note IH = 1(1) [OF e s Suc_leI [OF True]]
    show ?thesis
    proof (cases "k + length (x # y # rest) \<le> n + 1")
      case f: True
      then obtain q' where q': "add_levels tier_of (Suc k) (y # rest) ?q = Inr q'" "sized n q'" "bitSwitch q' = bitSwitch q" "bitSwitchUp q' = bitSwitchUp q" "bitSwitchDown q' = bitSwitchDown q"
          "\<And>t i. i < n \<Longrightarrow> quality q' t ! i = quality ?q t ! i + (if Suc k \<le> i then level_at tier_of t (i - Suc k) (y # rest) else 0) \<and>
            clients q' t ! i = clients ?q t ! i + (if Suc k \<le> i \<and> at_tier tier_of t (i - Suc k) (y # rest) then 1 else 0)"
        using IH by auto
      have "quality q' t ! i = quality q t ! i + (if k \<le> i then level_at tier_of t (i - k) (x # y # rest) else 0) \<and>
        clients q' t ! i = clients q t ! i + (if k \<le> i \<and> at_tier tier_of t (i - k) (x # y # rest) then 1 else 0)" if i: "i < n" for t i
        unfolding at_tier_step using q'(6) [OF i, of t] u [OF i, of t] by (cases "i = k"; cases "k < i") auto
      then show ?thesis using f e q' by auto
    next
      case f: False
      then show ?thesis using IH e True by auto
    qed
  qed
qed (auto simp: at_tier_def level_at_def)

text \<open>The neighbours in a log between which the level rises or falls.\<close>

definition switches :: "(rat \<Rightarrow> rat \<Rightarrow> bool) \<Rightarrow> (rat \<times> string) list \<Rightarrow> nat" where
  "switches lt l = length (filter (\<lambda>i. lt (fst (l ! i)) (fst (l ! Suc i))) [0..<length l - 1])"

lemma pair_count: "length (filter (\<lambda>(a, b). P a b) (zip xs (tl xs))) = length (filter (\<lambda>i. P (xs ! i) (xs ! Suc i)) [0..<length xs - 1])"
proof -
  have "zip xs (tl xs) = map (\<lambda>i. (xs ! i, xs ! Suc i)) [0..<length xs - 1]" by (rule nth_equalityI) (auto simp: nth_tl)
  then show ?thesis by (simp add: filter_map comp_def)
qed

lemma switches_pairs: "length (filter (\<lambda>(a, b). P a b) (zip (map fst l) (tl (map fst l)))) = switches P l"
proof -
  have "filter (\<lambda>i. P (map fst l ! i) (map fst l ! Suc i)) [0..<length l - 1] = filter (\<lambda>i. P (fst (l ! i)) (fst (l ! Suc i))) [0..<length l - 1]"
    by (rule filter_cong) auto
  then show ?thesis unfolding pair_count switches_def by simp
qed

lemma add_switches_all:
  "quality (foldl add_switch q ps) = quality q \<and> clients (foldl add_switch q ps) = clients q \<and>
   bitSwitchUp (foldl add_switch q ps) = bitSwitchUp q + length (filter (\<lambda>(a, b). a < b) ps) \<and>
   bitSwitchDown (foldl add_switch q ps) = bitSwitchDown q + length (filter (\<lambda>(a, b). b < a) ps) \<and>
   bitSwitch (foldl add_switch q ps) + bitSwitchUp q + bitSwitchDown q = bitSwitch q + bitSwitchUp (foldl add_switch q ps) + bitSwitchDown (foldl add_switch q ps)"
proof (induction ps arbitrary: q)
  case (Cons p ps)
  obtain a b where p: "p = (a, b)" by (cases p)
  show ?case using Cons.IH [of "add_switch q p"] unfolding p by (cases a b rule: linorder_cases) (simp_all add: add_switch_def)
qed simp

lemmas add_switches = add_switches_all [THEN conjunct1] add_switches_all [THEN conjunct2, THEN conjunct1] add_switches_all [THEN conjunct2, THEN conjunct2, THEN conjunct1]
  add_switches_all [THEN conjunct2, THEN conjunct2, THEN conjunct2, THEN conjunct1] add_switches_all [THEN conjunct2, THEN conjunct2, THEN conjunct2, THEN conjunct2]

text \<open>What the logs of a run add up to.\<close>

definition tallies :: "(string \<Rightarrow> tier) \<Rightarrow> nat \<Rightarrow> (rat \<times> string) list list \<Rightarrow> quality_run \<Rightarrow> bool" where
  "tallies tier_of n logs q \<longleftrightarrow> sized n q \<and>
     (\<forall>t i. i < n \<longrightarrow> quality q t ! i = (\<Sum>l\<leftarrow>logs. level_at tier_of t i l) \<and> clients q t ! i = of_nat (length (filter (at_tier tier_of t i) logs))) \<and>
     bitSwitchUp q = (\<Sum>l\<leftarrow>logs. switches (<) l) \<and> bitSwitchDown q = (\<Sum>l\<leftarrow>logs. switches (>) l) \<and> bitSwitch q = bitSwitchUp q + bitSwitchDown q"

lemma tallies_start: "tallies tier_of n [] (no_quality n)"
  by (simp add: tallies_def no_quality_def sized_def)

lemma quality_file_outcome:
  assumes "tallies tier_of n logs q" and "playback_log file = Inr l"
  shows "if length l \<le> n + 1 then \<exists>q'. quality_file tier_of (q, e) file = Inr (q', rank_client e l) \<and> tallies tier_of n (logs @ [l]) q'
    else quality_file tier_of (q, e) file = Inl IndexError"
proof -
  have s: "sized n q" using assms(1) by (simp add: tallies_def)
  note o = add_levels_outcome [OF s, of 0 l tier_of]
  show ?thesis
  proof (cases "length l \<le> n + 1")
    case True
    then obtain q1 where q1: "add_levels tier_of 0 l q = Inr q1" "sized n q1" "bitSwitch q1 = bitSwitch q" "bitSwitchUp q1 = bitSwitchUp q" "bitSwitchDown q1 = bitSwitchDown q"
        "\<And>t i. i < n \<Longrightarrow> quality q1 t ! i = quality q t ! i + level_at tier_of t i l \<and> clients q1 t ! i = clients q t ! i + (if at_tier tier_of t i l then 1 else 0)"
      using o by auto
    let ?ps = "zip (map fst l) (tl (map fst l))"
    note w = add_switches [of q1 ?ps]
    have "sized n (foldl add_switch q1 ?ps)" using q1(2) by (simp add: sized_def w(1,2))
    moreover have "bitSwitchUp (foldl add_switch q1 ?ps) = bitSwitchUp q + switches (<) l" using w(3) q1(4) switches_pairs [of "(<)" l] by simp
    moreover have "bitSwitchDown (foldl add_switch q1 ?ps) = bitSwitchDown q + switches (>) l" using w(4) q1(5) switches_pairs [of "(>)" l] by simp
    ultimately have "tallies tier_of n (logs @ [l]) (foldl add_switch q1 ?ps)" using assms(1) q1(3-6) w(5) unfolding tallies_def w(1,2) by simp
    then show ?thesis using True q1(1) assms(2) by (simp add: quality_file_def)
  next
    case False
    then have "add_levels tier_of 0 l q = Inl IndexError" using o by auto
    then show ?thesis using False assms(2) by (simp add: quality_file_def)
  qed
qed

lemma quality_files_outcome:
  assumes "mapM_r playback_log files = Inr logs" and "tallies tier_of n done q"
  shows "if \<forall>l \<in> set logs. length l \<le> n + 1
    then \<exists>q'. foldM_r (quality_file tier_of) (q, e) files = Inr (q', foldl rank_client e logs) \<and> tallies tier_of n (done @ logs) q'
    else foldM_r (quality_file tier_of) (q, e) files = Inl IndexError"
  using assms
proof (induction files arbitrary: logs "done" q e)
  case (Cons f files)
  then obtain l ls where l: "playback_log f = Inr l" "mapM_r playback_log files = Inr ls" "logs = l # ls" by (auto simp: mapM_r_Cons_iff simp del: mapM_r.simps)
  note o = quality_file_outcome [OF Cons.prems(2) l(1), of e]
  show ?case
  proof (cases "length l \<le> n + 1")
    case True
    then obtain q1 where q1: "quality_file tier_of (q, e) f = Inr (q1, rank_client e l)" "tallies tier_of n (done @ [l]) q1" using o by auto
    show ?thesis using Cons.IH [OF l(2) q1(2), of "rank_client e l"] q1(1) True by (auto simp: l(3))
  next
    case False
    then show ?thesis using o by (auto simp: l(3))
  qed
qed simp

text \<open>
  C23: The figures of a run are those of the logs, whatever their order: when no client has more than one segment beyond the number of segments, the quality of a tier at a segment is
  the sum of the levels of the clients which play that segment from the tier and have a next one, the number of clients counts these, and the upward and downward switches are the
  neighbouring segments whose level rises or falls, together all switches. A longer log raises \<open>IndexError\<close>.
\<close>

theorem quality_totals:
  assumes "mapM_r playback_log files = Inr logs"
  shows "if \<forall>l \<in> set logs. length l \<le> n + 1
    then \<exists>q. quality_files tier_of n e files = Inr (q, foldl rank_client e logs) \<and>
      (\<forall>t i. i < n \<longrightarrow> quality q t ! i = (\<Sum>l\<leftarrow>logs. if Suc i < length l \<and> tier_of (snd (l ! i)) = t then fst (l ! i) else 0) \<and>
        clients q t ! i = of_nat (length (filter (\<lambda>l. Suc i < length l \<and> tier_of (snd (l ! i)) = t) logs))) \<and>
      bitSwitchUp q = (\<Sum>l\<leftarrow>logs. switches (<) l) \<and> bitSwitchDown q = (\<Sum>l\<leftarrow>logs. switches (>) l) \<and> bitSwitch q = bitSwitchUp q + bitSwitchDown q
    else quality_files tier_of n e files = Inl IndexError"
proof -
  note o = quality_files_outcome [OF assms tallies_start, of n tier_of e]
  have a: "at_tier tier_of t i = (\<lambda>l. Suc i < length l \<and> tier_of (snd (l ! i)) = t)" for t i by (simp add: fun_eq_iff at_tier_def)
  show ?thesis
  proof (cases "\<forall>l \<in> set logs. length l \<le> n + 1")
    case True
    then obtain q where "quality_files tier_of n e files = Inr (q, foldl rank_client e logs)" "tallies tier_of n logs q" using o by (auto simp: quality_files_def)
    then show ?thesis using True unfolding tallies_def level_at_def a by auto
  next
    case False
    then show ?thesis using o by (auto simp: quality_files_def)
  qed
qed

text \<open>A client that starts on the second tier and goes on at a higher level on the first.\<close>

definition small_log :: "string list" where
  "small_log = [''Segment_Index;Playback_Start;Quality_Level;Server_Address'', ''0;0.5;1;2.0.0.1;'', ''1;2.5;3;1.0.0.1;'', ''2;4.5;2;1.0.0.1;'']"

lemma small_log_rows: "mapM_r playback_log [small_log] = Inr [[(1, ''2.0.0.1''), (3, ''1.0.0.1''), (2, ''1.0.0.1'')]]"
  by code_simp

theorem quality_totals_witness:
  "\<exists>q. quality_files server_tier 2 no_client [small_log] = Inr (q, foldl rank_client no_client [[(1, ''2.0.0.1''), (3, ''1.0.0.1''), (2, ''1.0.0.1'')]]) \<and>
     quality q S2 ! 0 = 1 \<and> quality q S1 ! 1 = 3 \<and> bitSwitchUp q = 1 \<and> bitSwitchDown q = 1"
  using quality_totals [OF small_log_rows, of 2 server_tier no_client] by (auto simp: server_tier_def switches_def)

section \<open>Bitrates\<close>

text \<open>The levels of the streams and the bitrates between them.\<close>

lemma level_bitrate_levels: "map level_bitrate [0, 1, 2, 3, 4, 5, 6, 7] = [400, 650, 1000, 1500, 2250, 3400, 4700, 6000]"
  by (simp add: level_bitrate_def)

lemma level_bitrate_mono: "0 \<le> x \<Longrightarrow> x \<le> y \<Longrightarrow> level_bitrate x \<le> level_bitrate y"
  by (auto simp: level_bitrate_def)

lemma level_bitrate_bounds: "0 \<le> x \<Longrightarrow> x \<le> 7 \<Longrightarrow> 400 \<le> level_bitrate x \<and> level_bitrate x \<le> 6000"
  using level_bitrate_mono [of 0 x] level_bitrate_mono [of x 7] by (simp add: level_bitrate_def)

lemma mean_between:
  fixes f :: "'a \<Rightarrow> rat"
  assumes "xs \<noteq> []"
  shows "\<exists>a \<in> set xs. \<exists>b \<in> set xs. f a \<le> sum_list (map f xs) / of_nat (length xs) \<and> sum_list (map f xs) / of_nat (length xs) \<le> f b"
proof -
  let ?A = "Min (f ` set xs)" and ?B = "Max (f ` set xs)"
  have "?A \<in> f ` set xs" "?B \<in> f ` set xs" using assms by (simp_all add: Min_in Max_in)
  then obtain a b where ab: "a \<in> set xs" "f a = ?A" "b \<in> set xs" "f b = ?B" by (metis imageE)
  have m: "f a \<le> f y" "f y \<le> f b" if "y \<in> set xs" for y using ab that by simp_all
  have "f a * of_nat (length ys) \<le> sum_list (map f ys) \<and> sum_list (map f ys) \<le> f b * of_nat (length ys)" if "set ys \<subseteq> set xs" for ys using that
  proof (induction ys)
    case (Cons y ys)
    then show ?case using m [of y] by (simp add: algebra_simps)
  qed simp
  from this [of xs] show ?thesis using ab assms by (intro bexI [of _ a] bexI [of _ b]) (simp_all add: field_simps)
qed

lemma level_sum: "(\<Sum>l\<leftarrow>logs. level_at tier_of t i l) = (\<Sum>l\<leftarrow>filter (at_tier tier_of t i) logs. fst (l ! i))"
  by (induction logs) (simp_all add: level_at_def)

text \<open>
  When all levels lie between 0 and 7, the bitrate that is plotted for a tier at a segment is zero exactly when no client plays the segment from the tier, and otherwise lies
  between the bitrates of two such clients, so between 400 and 6000.
\<close>

theorem tier_bitrates:
  assumes "mapM_r playback_log files = Inr logs" and "quality_files tier_of n e files = Inr (q, e')" and "i < n"
    and "\<forall>l \<in> set logs. \<forall>x \<in> set l. 0 \<le> fst x \<and> fst x \<le> 7"
  shows "let b = toBitrate (divisor (quality q t) (clients q t)) ! i; playing = filter (\<lambda>l. Suc i < length l \<and> tier_of (snd (l ! i)) = t) logs
    in if playing = [] then b = 0
       else 400 \<le> b \<and> b \<le> 6000 \<and> (\<exists>l \<in> set playing. level_bitrate (fst (l ! i)) \<le> b) \<and> (\<exists>l \<in> set playing. b \<le> level_bitrate (fst (l ! i)))"
proof -
  have "\<forall>l \<in> set logs. length l \<le> n + 1" using quality_files_outcome [OF assms(1) tallies_start, of n tier_of e] assms(2) by (auto simp: quality_files_def split: if_splits)
  then have q: "tallies tier_of n logs q" using quality_files_outcome [OF assms(1) tallies_start, of n tier_of e] assms(2) by (auto simp: quality_files_def)
  let ?P = "filter (at_tier tier_of t i) logs"
  have p: "filter (\<lambda>l. Suc i < length l \<and> tier_of (snd (l ! i)) = t) logs = ?P" by (rule filter_cong) (simp_all add: at_tier_def)
  have len: "length (quality q t) = n" "length (clients q t) = n" using q by (simp_all add: tallies_def sized_def)
  have qc: "quality q t ! i = (\<Sum>l\<leftarrow>?P. fst (l ! i))" "clients q t ! i = of_nat (length ?P)" using q assms(3) by (simp_all add: tallies_def level_sum)
  have b: "toBitrate (divisor (quality q t) (clients q t)) ! i = level_bitrate (if ?P = [] then - 1 else (\<Sum>l\<leftarrow>?P. fst (l ! i)) / of_nat (length ?P))"
    using assms(3) by (simp add: toBitrate_def divisor_def len qc)
  show ?thesis
  proof (cases "?P = []")
    case True
    then show ?thesis unfolding Let_def p b by (simp add: level_bitrate_def)
  next
    case False
    let ?m = "(\<Sum>l\<leftarrow>?P. fst (l ! i)) / of_nat (length ?P)"
    obtain x y where xy: "x \<in> set ?P" "y \<in> set ?P" "fst (x ! i) \<le> ?m" "?m \<le> fst (y ! i)" using mean_between [OF False, of "\<lambda>l. fst (l ! i)"] by blast
    have "0 \<le> fst (l ! i) \<and> fst (l ! i) \<le> 7" if "l \<in> set ?P" for l using that assms(4) by (auto simp: at_tier_def)
    from this [OF xy(1)] this [OF xy(2)] xy have "level_bitrate (fst (x ! i)) \<le> level_bitrate ?m" "level_bitrate ?m \<le> level_bitrate (fst (y ! i))" "400 \<le> level_bitrate ?m \<and> level_bitrate ?m \<le> 6000"
      by (auto intro!: level_bitrate_mono level_bitrate_bounds)
    then show ?thesis unfolding Let_def p b using False xy(1,2) by auto
  qed
qed

theorem tier_bitrates_witness:
  "\<exists>q e'. quality_files server_tier 2 no_client [small_log] = Inr (q, e') \<and> 400 \<le> toBitrate (divisor (quality q S1) (clients q S1)) ! 1"
proof -
  obtain q e' where q: "quality_files server_tier 2 no_client [small_log] = Inr (q, e')"
    using quality_files_outcome [OF small_log_rows tallies_start, of 2 server_tier no_client] by (auto simp: quality_files_def)
  show ?thesis using tier_bitrates [OF small_log_rows q, of 1 S1] q by (simp add: server_tier_def Let_def)
qed

section \<open>The best and the worst client\<close>

definition client_score :: "(rat \<times> string) list \<Rightarrow> rat" where
  "client_score l = sum_list (map fst l)"

text \<open>A client that beats all before it, when it is read, is a record, and is not considered for the worst.\<close>

definition non_records :: "(rat \<times> string) list list \<Rightarrow> (rat \<times> string) list set" where
  "non_records logs = {logs ! j | j. j < length logs \<and> (\<exists>k < j. client_score (logs ! j) \<le> client_score (logs ! k))}"

lemma non_records_snoc: "non_records (logs @ [l]) = non_records logs \<union> (if \<exists>k \<in> set logs. client_score l \<le> client_score k then {l} else {})"
proof -
  have "x \<in> non_records (logs @ [l]) \<longleftrightarrow> x \<in> non_records logs \<or> x = l \<and> (\<exists>k < length logs. client_score l \<le> client_score (logs ! k))" (is "?L \<longleftrightarrow> ?R") for x
  proof
    assume ?L
    then obtain j k where j: "x = (logs @ [l]) ! j" "j < Suc (length logs)" "k < j" "client_score ((logs @ [l]) ! j) \<le> client_score ((logs @ [l]) ! k)" by (auto simp: non_records_def)
    then have "k < length logs" by simp
    then show ?R using j by (cases "j = length logs") (auto simp: non_records_def nth_append)
  next
    assume ?R
    then show ?L
    proof
      assume "x \<in> non_records logs"
      then obtain j k where "x = logs ! j" "j < length logs" "k < j" "client_score (logs ! j) \<le> client_score (logs ! k)" by (auto simp: non_records_def)
      then show ?L unfolding non_records_def by (intro CollectI exI [of _ j] conjI exI [of _ k]) (simp_all add: nth_append)
    next
      assume r: "x = l \<and> (\<exists>k < length logs. client_score l \<le> client_score (logs ! k))"
      then obtain k where "k < length logs" "client_score l \<le> client_score (logs ! k)" by auto
      then show ?L using r unfolding non_records_def by (intro CollectI exI [of _ "length logs"] conjI exI [of _ k]) (simp_all add: nth_append)
    qed
  qed
  moreover have "(\<exists>k < length logs. client_score l \<le> client_score (logs ! k)) \<longleftrightarrow> (\<exists>k \<in> set logs. client_score l \<le> client_score k)" by (metis in_set_conv_nth)
  ultimately show ?thesis by auto
qed

definition extremes_of :: "(rat \<times> string) list list \<Rightarrow> extremes \<Rightarrow> bool" where
  "extremes_of logs e \<longleftrightarrow>
     (if logs = [] then bestScore e = - 1 else bestClient e \<in> set logs \<and> bestScore e = client_score (bestClient e)) \<and> (\<forall>l \<in> set logs. client_score l \<le> bestScore e) \<and>
     (if non_records logs = {} then worstClient e = [] \<and> worstScore e = 10000000 else worstClient e \<in> non_records logs \<and> worstScore e = client_score (worstClient e)) \<and>
     (\<forall>l \<in> non_records logs. worstScore e \<le> client_score l)"

lemma rank_client_extremes:
  assumes "extremes_of logs e" and "0 \<le> client_score l" and "client_score l < 10000000"
  shows "extremes_of (logs @ [l]) (rank_client e l)"
proof (cases "client_score l > bestScore e")
  case True
  then have n: "\<not> (\<exists>k \<in> set logs. client_score l \<le> client_score k)" and m: "\<forall>x \<in> set logs. client_score x \<le> client_score l" using assms(1) by (force simp: extremes_of_def)+
  have "rank_client e l = e\<lparr>bestScore := client_score l, bestClient := l\<rparr>" using True by (simp add: rank_client_def client_score_def)
  then show ?thesis using assms(1) n m unfolding extremes_of_def non_records_snoc by simp
next
  case False
  then have k': "logs \<noteq> []" using assms(1,2) by (auto simp: extremes_of_def)
  then have "bestClient e \<in> set logs \<and> client_score l \<le> client_score (bestClient e)" using False assms(1) by (simp add: extremes_of_def)
  with k' have k: "\<exists>k \<in> set logs. client_score l \<le> client_score k" "logs \<noteq> []" by blast+
  then have n: "non_records (logs @ [l]) = insert l (non_records logs)" by (simp add: non_records_snoc)
  have r: "rank_client e l = (if client_score l < worstScore e then e\<lparr>worstScore := client_score l, worstClient := l\<rparr> else e)" using False by (simp add: rank_client_def client_score_def Let_def)
  show ?thesis
  proof (cases "client_score l < worstScore e")
    case True
    then have "\<forall>x \<in> non_records logs. client_score l \<le> client_score x" using assms(1) by (auto simp: extremes_of_def)
    then show ?thesis using True assms(1) k False unfolding extremes_of_def n r by simp (elim conjE, simp)
  next
    case w: False
    then have "non_records logs \<noteq> {}" using assms(1,3) by (auto simp: extremes_of_def)
    then show ?thesis using w assms(1) k False unfolding extremes_of_def n r by simp (elim conjE, simp)
  qed
qed

lemma extremes_fold:
  assumes "\<forall>l \<in> set logs. 0 \<le> client_score l \<and> client_score l < 10000000"
  shows "extremes_of logs (foldl rank_client no_client logs)"
  using assms
proof (induction logs rule: rev_induct)
  case Nil
  show ?case by (simp add: extremes_of_def non_records_def no_client_def)
next
  case (snoc l logs)
  then show ?case using rank_client_extremes [of logs "foldl rank_client no_client logs" l] by simp
qed

text \<open>
  C25: The best client is one with the greatest score. The worst client is one with the least score among those that did not set a new best score when they were read; when each client
  beats the one before it, in particular with one client, there is none, and the script raises \<open>ValueError\<close> on the average of nothing.
\<close>

theorem best_and_worst:
  assumes "mapM_r playback_log files = Inr logs" and "\<forall>l \<in> set logs. length l \<le> n + 1 \<and> 0 \<le> client_score l \<and> client_score l < 10000000" and "logs \<noteq> []"
  shows "\<exists>q e. quality_files tier_of n no_client files = Inr (q, e) \<and> bestClient e \<in> set logs \<and> (\<forall>l \<in> set logs. client_score l \<le> client_score (bestClient e)) \<and>
    (if non_records logs = {} then qualityGraphs tier_of share n [files] = Inl ValueError
     else worstClient e \<in> non_records logs \<and> (\<forall>l \<in> non_records logs. client_score (worstClient e) \<le> client_score l))"
proof -
  let ?e = "foldl rank_client no_client logs"
  have x: "extremes_of logs ?e" by (rule extremes_fold) (use assms(2) in auto)
  obtain q where q: "quality_files tier_of n no_client files = Inr (q, ?e)" using quality_files_outcome [OF assms(1) tallies_start, of n tier_of no_client] assms(2) by (auto simp: quality_files_def)
  have v: "qualityGraphs tier_of share n [files] = Inl ValueError" if "worstClient ?e = []"
  proof -
    have i: "int_mean [] = Inl ValueError" and j: "int_mean xs = Inl ValueError \<or> (\<exists>k. int_mean xs = Inr k)" for xs
      by (auto simp: int_mean_def np_mean_def split: option.split)
    have k: "mapM_r (\<lambda>t. int_mean (f t)) ts = Inl ValueError \<or> (\<exists>ks. mapM_r (\<lambda>t. int_mean (f t)) ts = Inr ks)" for f and ts :: "tier list"
    proof (induction ts)
      case (Cons t ts)
      then show ?case using j [of "f t"] by auto
    qed simp
    have b: "bind_r a g = Inl ValueError" if "a = Inl ValueError \<or> (\<exists>k. a = Inr k)" "\<And>k. g k = Inl ValueError" for a :: "'x result" and g :: "'x \<Rightarrow> 'y result" using that by auto
    show ?thesis unfolding qualityGraphs_def quality_rounds.simps q bind_r_Inr case_prod_conv Let_def that list.map toBitrate_def i bind_r_Inl
      by (intro b k j) simp
  qed
  show ?thesis using x q v assms(3) by (auto simp: extremes_of_def split: if_splits)
qed

theorem best_and_worst_witness: "qualityGraphs server_tier 40 2 [[small_log]] = Inl ValueError"
proof -
  have "non_records [[(1, ''2.0.0.1''), (3, ''1.0.0.1''), (2, ''1.0.0.1'')]] = {}" by (simp add: non_records_def)
  then show ?thesis using best_and_worst [OF small_log_rows, of 2 server_tier 40] by (auto simp: client_score_def)
qed

section \<open>Fairness\<close>

text \<open>The square of a sum against the sum of squares.\<close>

lemma sum_squares_shift:
  fixes xs :: "rat list"
  shows "(\<Sum>x\<leftarrow>xs. (x - m)\<^sup>2) = (\<Sum>x\<leftarrow>xs. x\<^sup>2) - 2 * m * sum_list xs + of_nat (length xs) * m\<^sup>2"
  by (induction xs) (simp_all add: power2_eq_square algebra_simps)

lemma sum_squares_zero:
  fixes xs :: "rat list"
  shows "0 \<le> (\<Sum>x\<leftarrow>xs. (x - m)\<^sup>2)" and "(\<Sum>x\<leftarrow>xs. (x - m)\<^sup>2) = 0 \<longleftrightarrow> (\<forall>x \<in> set xs. x = m)"
proof -
  show n: "0 \<le> (\<Sum>x\<leftarrow>xs. (x - m)\<^sup>2)" for xs by (induction xs) simp_all
  show "(\<Sum>x\<leftarrow>xs. (x - m)\<^sup>2) = 0 \<longleftrightarrow> (\<forall>x \<in> set xs. x = m)"
  proof (induction xs)
    case (Cons x xs)
    then show ?case using n [of xs] by (simp add: add_nonneg_eq_0_iff)
  qed simp
qed

lemma mean_squares:
  fixes xs :: "rat list"
  assumes "xs \<noteq> []"
  shows "(sum_list xs)\<^sup>2 \<le> of_nat (length xs) * (\<Sum>x\<leftarrow>xs. x\<^sup>2)"
    and "(sum_list xs)\<^sup>2 = of_nat (length xs) * (\<Sum>x\<leftarrow>xs. x\<^sup>2) \<longleftrightarrow> (\<forall>x \<in> set xs. x = hd xs)"
proof -
  let ?n = "of_nat (length xs) :: rat"
  let ?m = "sum_list xs / ?n"
  have n: "0 < ?n" using assms by simp
  have e: "?n * (\<Sum>x\<leftarrow>xs. (x - ?m)\<^sup>2) = ?n * (\<Sum>x\<leftarrow>xs. x\<^sup>2) - (sum_list xs)\<^sup>2"
    unfolding sum_squares_shift using n by (simp add: field_simps power2_eq_square)
  then show "(sum_list xs)\<^sup>2 \<le> ?n * (\<Sum>x\<leftarrow>xs. x\<^sup>2)" using n sum_squares_zero(1) [of ?m xs] by (metis diff_ge_0_iff_ge less_imp_le mult_nonneg_nonneg)
  have "(sum_list xs)\<^sup>2 = ?n * (\<Sum>x\<leftarrow>xs. x\<^sup>2) \<longleftrightarrow> (\<forall>x \<in> set xs. x = ?m)" using e n sum_squares_zero(2) [of ?m xs] by auto
  moreover have "(\<forall>x \<in> set xs. x = ?m) \<longleftrightarrow> (\<forall>x \<in> set xs. x = hd xs)"
  proof
    assume h: "\<forall>x \<in> set xs. x = hd xs"
    then have "xs = replicate (length xs) (hd xs)" by (simp add: replicate_eqI)
    then have "sum_list xs = ?n * hd xs" by (metis sum_list_replicate)
    then show "\<forall>x \<in> set xs. x = ?m" using h n by simp
  next
    assume "\<forall>x \<in> set xs. x = ?m"
    then show "\<forall>x \<in> set xs. x = hd xs" using assms by (metis hd_in_set)
  qed
  ultimately show "(sum_list xs)\<^sup>2 = ?n * (\<Sum>x\<leftarrow>xs. x\<^sup>2) \<longleftrightarrow> (\<forall>x \<in> set xs. x = hd xs)" by simp
qed

lemma squares_le_square:
  fixes xs :: "rat list"
  assumes "\<forall>x \<in> set xs. x \<le> 0"
  shows "(\<Sum>x\<leftarrow>xs. x\<^sup>2) \<le> (sum_list xs)\<^sup>2"
  using assms
proof (induction xs)
  case (Cons x xs)
  have "sum_list xs \<le> 0" using Cons.prems by (simp add: sum_list_nonpos)
  then have "0 \<le> 2 * x * sum_list xs" using Cons.prems by (simp add: mult_nonpos_nonpos)
  then show ?case using Cons by (simp add: power2_sum)
qed simp

lemma jain_eq: "jain (map Some xs) = (if (\<Sum>x\<leftarrow>xs. x\<^sup>2) = 0 then None else Some ((sum_list xs)\<^sup>2 / (of_nat (length xs) * (\<Sum>x\<leftarrow>xs. x\<^sup>2))))"
  by (auto simp: jain_def np_divide_def comp_def)

lemma jain_bounds:
  assumes "jain (map Some xs) = Some f" and "\<forall>x \<in> set xs. x \<le> 0"
  shows "1 / of_nat (length xs) \<le> f" and "f \<le> 1" and "f = 1 \<longleftrightarrow> (\<forall>x \<in> set xs. x = hd xs)"
proof -
  have p: "(\<Sum>x\<leftarrow>xs. x\<^sup>2) \<noteq> 0" "f = (sum_list xs)\<^sup>2 / (of_nat (length xs) * (\<Sum>x\<leftarrow>xs. x\<^sup>2))" using assms(1) by (simp_all add: jain_eq split: if_splits)
  then have ne: "xs \<noteq> []" by auto
  have q: "0 < (\<Sum>x\<leftarrow>xs. x\<^sup>2)" "0 < (of_nat (length xs) :: rat)" using p(1) ne sum_squares_zero(1) [of 0 xs] by simp_all
  show "1 / of_nat (length xs) \<le> f" "f \<le> 1" "f = 1 \<longleftrightarrow> (\<forall>x \<in> set xs. x = hd xs)"
    using mean_squares [OF ne] squares_le_square [OF assms(2)] q unfolding p(2) by (simp_all add: divide_le_eq le_divide_eq divide_eq_eq)
qed

text \<open>The usage of a server whose memory is never all in use and never exceeds the total: \<open>1\<close> minus a ratio that is at least one.\<close>

definition usage_of :: "server_row list \<Rightarrow> rat" where
  "usage_of rows = (\<Sum>r\<leftarrow>rows. 1 - TotalMemory r / FreeMemory r) / of_nat (length rows)"

lemma server_usage_eq:
  assumes "rows \<noteq> []" and "\<forall>r \<in> set rows. 0 < FreeMemory r \<and> FreeMemory r \<le> TotalMemory r"
  shows "server_usage rows = Some (usage_of rows)" and "usage_of rows \<le> 0" and "usage_of rows = 0 \<longleftrightarrow> (\<forall>r \<in> set rows. FreeMemory r = TotalMemory r)"
proof -
  let ?f = "\<lambda>r. 1 - TotalMemory r / FreeMemory r"
  have e: "map (\<lambda>r. map_option (\<lambda>x. 1 - x) (np_divide (Some (TotalMemory r)) (FreeMemory r))) rows = map (Some \<circ> ?f) rows"
    using assms(2) by (auto simp: np_divide_def)
  show "server_usage rows = Some (usage_of rows)" unfolding server_usage_def e using assms(1) by (auto simp: np_mean_def usage_of_def comp_def)
  have f: "sum_list (map ?f rs) \<le> 0 \<and> (sum_list (map ?f rs) = 0 \<longleftrightarrow> (\<forall>r \<in> set rs. FreeMemory r = TotalMemory r))" if "set rs \<subseteq> set rows" for rs using that
  proof (induction rs)
    case (Cons r rs)
    then have "0 < FreeMemory r" "FreeMemory r \<le> TotalMemory r" using assms(2) by auto
    then have "?f r \<le> 0" "?f r = 0 \<longleftrightarrow> FreeMemory r = TotalMemory r" by (auto simp: field_simps)
    then show ?case using Cons by (simp add: add_nonpos_eq_0_iff)
  qed simp
  from f [of rows] show "usage_of rows \<le> 0" "usage_of rows = 0 \<longleftrightarrow> (\<forall>r \<in> set rows. FreeMemory r = TotalMemory r)"
    using assms(1) by (simp_all add: usage_of_def divide_nonpos_nonneg)
qed

lemma fog_files_usage:
  assumes "foldM_r (fog_file i) st files = Inr r"
  shows "run_usage r = run_usage st @ map (server_usage \<circ> snd) files"
  using assms
proof (induction files arbitrary: st)
  case (Cons f files)
  then obtain st' where "fog_file i st f = Inr st'" "foldM_r (fog_file i) st' files = Inr r" by (auto simp: bind_r_eq_Inr_iff)
  moreover from this(1) have "run_usage st' = run_usage st @ [server_usage (snd f)]" by (auto simp: fog_file_def bind_r_eq_Inr_iff split: prod.splits)
  ultimately show ?case using Cons.IH by simp
qed simp

lemma server_usage_full: "row \<in> set rows \<Longrightarrow> FreeMemory row = 0 \<Longrightarrow> server_usage rows = None"
  by (force simp: server_usage_def np_mean_def np_divide_def)

lemma fairness_free:
  assumes "fog_files i files = Inr r" and "\<forall>f \<in> set files. snd f \<noteq> [] \<and> (\<forall>row \<in> set (snd f). 0 < FreeMemory row \<and> FreeMemory row \<le> TotalMemory row)"
  shows "run_usage r = map (Some \<circ> usage_of \<circ> snd) files \<and> (\<forall>f \<in> set files. usage_of (snd f) \<le> 0) \<and>
    (case jain (run_usage r) of
       None \<Rightarrow> \<forall>f \<in> set files. \<forall>row \<in> set (snd f). FreeMemory row = TotalMemory row
     | Some x \<Rightarrow> 1 / of_nat (length files) \<le> x \<and> x \<le> 1 \<and> (x = 1 \<longleftrightarrow> (\<forall>f \<in> set files. usage_of (snd f) = usage_of (snd (hd files)))))"
proof -
  let ?us = "map (usage_of \<circ> snd) files"
  have s: "server_usage (snd f) = Some (usage_of (snd f))" "usage_of (snd f) \<le> 0" "usage_of (snd f) = 0 \<longleftrightarrow> (\<forall>row \<in> set (snd f). FreeMemory row = TotalMemory row)"
    if "f \<in> set files" for f using server_usage_eq [of "snd f"] assms(2) that by auto
  have u: "run_usage r = map Some ?us" using fog_files_usage [of i _ files r] assms(1) s(1) by (auto simp: fog_files_def)
  have n: "\<forall>x \<in> set ?us. x \<le> 0" using s(2) by auto
  show ?thesis
  proof (cases "jain (map Some ?us)")
    case None
    then have "(\<Sum>x\<leftarrow>?us. (x - 0)\<^sup>2) = 0" unfolding jain_eq by (simp split: if_splits)
    then have "\<forall>x \<in> set ?us. x = 0" using sum_squares_zero(2) [of 0 ?us] by blast
    then show ?thesis using s None unfolding u by auto
  next
    case (Some x)
    then have ne: "files \<noteq> []" by (auto simp: jain_def np_divide_def)
    show ?thesis using jain_bounds [OF Some n] s Some ne unfolding u by (auto simp: hd_map)
  qed
qed

text \<open>
  C24: The index of fairness of a run whose servers report free memory between none and all of it. When a server is full in some row, the usage divides by zero and the index is not
  a number. Otherwise it exists unless no server ever used memory, lies between one over the number of
  servers and one, and is one exactly when all servers have the same usage. The usage itself is then never positive: it is one minus the quotient of the total and the free memory.
\<close>

theorem fog_fairness:
  assumes "fog_files i files = Inr r" and "\<forall>f \<in> set files. snd f \<noteq> [] \<and> (\<forall>row \<in> set (snd f). 0 \<le> FreeMemory row \<and> FreeMemory row \<le> TotalMemory row)"
  shows "if \<exists>f \<in> set files. \<exists>row \<in> set (snd f). FreeMemory row = 0 then jain (run_usage r) = None
    else run_usage r = map (Some \<circ> usage_of \<circ> snd) files \<and> (\<forall>f \<in> set files. usage_of (snd f) \<le> 0) \<and>
    (case jain (run_usage r) of
       None \<Rightarrow> \<forall>f \<in> set files. \<forall>row \<in> set (snd f). FreeMemory row = TotalMemory row
     | Some x \<Rightarrow> 1 / of_nat (length files) \<le> x \<and> x \<le> 1 \<and> (x = 1 \<longleftrightarrow> (\<forall>f \<in> set files. usage_of (snd f) = usage_of (snd (hd files)))))"
proof (cases "\<exists>f \<in> set files. \<exists>row \<in> set (snd f). FreeMemory row = 0")
  case True
  then obtain f where f: "f \<in> set files" "server_usage (snd f) = None" using server_usage_full by blast
  have "run_usage r = map (server_usage \<circ> snd) files" using fog_files_usage [of i _ files r] assms(1) by (auto simp: fog_files_def)
  then have "None \<in> set (run_usage r)" using f by force
  then show ?thesis using True by (simp add: jain_def)
next
  case False
  then have pos: "\<forall>f \<in> set files. snd f \<noteq> [] \<and> (\<forall>row \<in> set (snd f). 0 < FreeMemory row \<and> FreeMemory row \<le> TotalMemory row)"
    using assms(2) by force
  have "?thesis = (run_usage r = map (Some \<circ> usage_of \<circ> snd) files \<and> (\<forall>f \<in> set files. usage_of (snd f) \<le> 0) \<and>
    (case jain (run_usage r) of
       None \<Rightarrow> \<forall>f \<in> set files. \<forall>row \<in> set (snd f). FreeMemory row = TotalMemory row
     | Some x \<Rightarrow> 1 / of_nat (length files) \<le> x \<and> x \<le> 1 \<and> (x = 1 \<longleftrightarrow> (\<forall>f \<in> set files. usage_of (snd f) = usage_of (snd (hd files))))))"
    using False by (simp only: if_False)
  then show ?thesis using fairness_free [OF assms(1) pos] by blast
qed

theorem fog_fairness_witness:
  "fog_files 0 [(cloud_log 0, [\<lparr>OnOff = 1, Cost = 2, AllocatedContent = ''1/2'', FreeMemory = 1, TotalMemory = 2\<rparr>])] =
     Inr \<lparr>run_price = 2, run_usage = [Some (- 1)], run_number = 0\<rparr> \<and> jain [Some (- 1)] \<noteq> None"
proof -
  let ?f = "(cloud_log 0, [\<lparr>OnOff = 1, Cost = 2, AllocatedContent = ''1/2'', FreeMemory = 1, TotalMemory = 2\<rparr>])"
  let ?r = "\<lparr>run_price = 2, run_usage = [Some (- 1)], run_number = 0\<rparr> :: fog_run"
  have r: "fog_files 0 [?f] = Inr ?r" by (simp add: fog_files_def fog_file_def server_usage_def np_divide_def np_mean_def)
  from fog_fairness [OF r] have "jain [Some (- 1)] \<noteq> None" by (auto split: option.splits)
  with r show ?thesis by simp
qed

section \<open>Throughput of each server\<close>

lemma every4_rows:
  assumes "length xs = 4 * R" and "k < 4"
  shows "every4 k xs = map (\<lambda>r. xs ! (4 * r + k)) [0..<R]"
proof -
  have "filter (\<lambda>i. i mod 4 = k) [0..<4 * R] = map (\<lambda>r. 4 * r + k) [0..<R]"
  proof (induction R)
    case (Suc R)
    have "[0..<4 * Suc R] = [0..<4 * R] @ map (\<lambda>j. 4 * R + j) [0, 1, 2, 3]" using upt_add_eq_append [of 0 "4 * R" 4] by (simp add: numeral_eq_Suc)
    moreover have "filter (\<lambda>i. i mod 4 = k) (map (\<lambda>j. 4 * R + j) [0, 1, 2, 3]) = [4 * R + k]"
    proof -
      have "filter (\<lambda>i. i mod 4 = k) (map (\<lambda>j. 4 * R + j) [0, 1, 2, 3]) = map (\<lambda>j. 4 * R + j) (filter (\<lambda>j. j = k) [0, 1, 2, 3])"
        unfolding filter_map by (rule arg_cong [where f = "map _"], rule filter_cong) (auto simp del: add_2_eq_Suc' add_2_eq_Suc)
      moreover have "k = 0 \<or> k = 1 \<or> k = 2 \<or> k = 3" using assms(2) by linarith
      ultimately show ?thesis by auto
    qed
    ultimately show ?case using Suc by (simp only: filter_append) simp
  qed simp
  then show ?thesis by (simp add: every4_def assms(1))
qed

lemma shortest_min:
  assumes "xss \<noteq> []"
  shows "\<exists>xs \<in> set xss. shortest xss = Inr xs \<and> (\<forall>ys \<in> set xss. length xs \<le> length ys)"
proof -
  obtain xs rest where x: "xss = xs # rest" using assms by (cases xss) auto
  have "let m = foldl (\<lambda>m ys. if length ys < length m then ys else m) xs rest in m \<in> set (xs # rest) \<and> (\<forall>ys \<in> set (xs # rest). length m \<le> length ys)"
    by (induction rest rule: rev_induct) (auto simp: Let_def)
  then show ?thesis by (auto simp: x Let_def)
qed

lemma length_concat_4: "\<forall>r \<in> set rss. length r = 4 \<Longrightarrow> length (concat rss) = 4 * length rss"
  by (induction rss) auto

text \<open>
  With four server logs in every run, the throughput that is plotted for a server is, at each row that all logs have, the average over the runs of the logs of this server, and so is
  its moving average; the times are those of a shortest log.
\<close>

theorem throughput_means:
  assumes "mapM_r throughput_file (concat run_files) = Inr tables" and "\<forall>r \<in> set run_files. length r = 4" and "run_files \<noteq> []"
  shows "\<exists>t \<in> set tables. (\<forall>u \<in> set tables. length t \<le> length u) \<and>
    throughtputServer run_files = Inr (map (\<lambda>k. (map fst t,
      map (\<lambda>j. (\<Sum>r\<leftarrow>[0..<length run_files]. fst (snd (tables ! (4 * r + k) ! j))) / of_nat (length run_files)) [0..<length t],
      map (\<lambda>j. (\<Sum>r\<leftarrow>[0..<length run_files]. snd (snd (tables ! (4 * r + k) ! j))) / of_nat (length run_files)) [0..<length t])) [0..<4])"
proof -
  let ?R = "length run_files"
  have len: "length tables = 4 * ?R" using mapM_r_length [OF assms(1)] length_concat_4 [OF assms(2)] by simp
  then have "map (map fst) tables \<noteq> []" using assms(3) by auto
  from shortest_min [OF this] obtain t where t: "t \<in> set tables" "shortest (map (map fst) tables) = Inr (map fst t)" "\<forall>u \<in> set tables. length t \<le> length u" by auto
  have m: "server_mean ?R (length t) (every4 k (map (map f) tables)) =
      Inr (map (\<lambda>j. (\<Sum>r\<leftarrow>[0..<?R]. f (tables ! (4 * r + k) ! j)) / of_nat ?R) [0..<length t])" if k: "k < 4" for k and f :: "rat \<times> rat \<times> rat \<Rightarrow> rat"
  proof -
    have e: "every4 k (map (map f) tables) = map (\<lambda>r. map (map f) tables ! (4 * r + k)) [0..<?R]" by (rule every4_rows) (simp_all add: len k)
    have "take (length t) (map (map f) tables ! (4 * r + k)) ! j = f (tables ! (4 * r + k) ! j)" if "r < ?R" "j < length t" for r j
    proof -
      have i: "4 * r + k < length tables" using that(1) k len by simp
      then have "j < length (tables ! (4 * r + k))" using t(3) that(2) by (meson less_le_trans nth_mem)
      then show ?thesis using i that(2) by simp
    qed
    then show ?thesis using assms(3) unfolding e server_mean_def by (auto simp: comp_def intro!: arg_cong [where f = "\<lambda>x. x / of_nat ?R"] arg_cong [where f = sum_list])
  qed
  have "mapM_r (\<lambda>k. bind_r (shortest (map (map fst) tables)) (\<lambda>times.
          bind_r (server_mean ?R (length times) (every4 k (map (map (fst \<circ> snd)) tables))) (\<lambda>mbps.
          bind_r (server_mean ?R (length times) (every4 k (map (map (snd \<circ> snd)) tables))) (\<lambda>mme. Inr (times, mbps, mme))))) [0..<4] =
     Inr (map (\<lambda>k. (map fst t, map (\<lambda>j. (\<Sum>r\<leftarrow>[0..<?R]. (fst \<circ> snd) (tables ! (4 * r + k) ! j)) / of_nat ?R) [0..<length t],
       map (\<lambda>j. (\<Sum>r\<leftarrow>[0..<?R]. (snd \<circ> snd) (tables ! (4 * r + k) ! j)) / of_nat ?R) [0..<length t])) [0..<4])"
    by (rule mapM_r_total) (simp add: t(2) m)
  then show ?thesis using t(1,3) assms(1) by (auto simp: throughtputServer_def)
qed

definition server_log :: "string \<Rightarrow> string list" where
  "server_log x = [''Time;Mbps;EMA'', ''1;'' @ x @ '';0;'']"

theorem throughput_means_witness:
  "\<exists>t. throughtputServer [map server_log [''1'', ''2'', ''3'', ''4''], map server_log [''3'', ''2'', ''3'', ''4'']] = Inr t \<and> fst (snd (t ! 0)) = [2]"
proof -
  let ?t = "\<lambda>x. [(1, x, 0)] :: (rat \<times> rat \<times> rat) list"
  have m: "mapM_r throughput_file (concat [map server_log [''1'', ''2'', ''3'', ''4''], map server_log [''3'', ''2'', ''3'', ''4'']]) = Inr (map ?t [1, 2, 3, 4, 3, 2, 3, 4])"
    by code_simp
  show ?thesis using throughput_means [OF m] by auto
qed

end
