(* ===== verification/ModuleTemplates.thy ===== *)
theory ModuleTemplates
  imports PyString
begin

text \<open>
  The templates of \<^verbatim>\<open>utils/create-module.py\<close> and their instantiation by \<open>str.format\<close>. Each template is the list of its lines. The fields of the templates are plain names
  of keyword arguments.
\<close>

section \<open>str.format\<close>

text \<open>A doubled brace stands for a brace; a field is looked up among the arguments; a brace that is not closed, or closes nothing, raises.\<close>

function py_format :: "(string \<times> string) list \<Rightarrow> string \<Rightarrow> string result" where
  "py_format args [] = Inr []"
| "py_format args (c # cs) =
     (if c = CHR ''{''
      then (if cs = [] then Inl ValueError
            else if hd cs = CHR ''{'' then bind_r (py_format args (tl cs)) (\<lambda>t. Inr (CHR ''{'' # t))
            else let f = takeWhile (\<lambda>x. x \<noteq> CHR ''}'') cs; r = dropWhile (\<lambda>x. x \<noteq> CHR ''}'') cs
                 in if r = [] then Inl ValueError
                    else case map_of args f of
                           None \<Rightarrow> Inl KeyError
                         | Some v \<Rightarrow> bind_r (py_format args (tl r)) (\<lambda>t. Inr (v @ t)))
      else if c = CHR ''}''
      then (if cs = [] \<or> hd cs \<noteq> CHR ''}'' then Inl ValueError else bind_r (py_format args (tl cs)) (\<lambda>t. Inr (CHR ''}'' # t)))
      else bind_r (py_format args cs) (\<lambda>t. Inr (c # t)))"
  by pat_completeness auto
termination
proof (relation "measure (\<lambda>(args, s). length s)")
  fix args :: "(string \<times> string) list" and c :: char and cs x xa v
  assume "xa = dropWhile (\<lambda>x. x \<noteq> CHR ''}'') cs"
  then have "length xa \<le> length cs" by (simp add: length_dropWhile_le)
  then show "((args, tl xa), args, c # cs) \<in> measure (\<lambda>(args, s). length s)" by (cases xa) auto
qed auto

declare py_format.simps(2) [simp del]

section \<open>Templates\<close>

definition unlines :: "string list \<Rightarrow> string" where
  "unlines ls = concat (map (\<lambda>l. l @ [CHR 0x0A]) ls)"

definition CMAKELISTS_TEMPLATE :: string where
  \<open>CMAKELISTS_TEMPLATE = unlines
     [''check_include_file_cxx(stdint.h HAVE_STDINT_H)'',
      ''if(HAVE_STDINT_H)'',
      ''    add_definitions(-DHAVE_STDINT_H)'',
      ''endif()'',
      '''',
      ''set(examples_as_tests_sources)'',
      ''if(${{ENABLE_EXAMPLES}})'',
      ''    set(examples_as_tests_sources    '',
      ''        #test/{MODULE}-examples-test-suite.cc'',
      ''        )'',
      ''endif()    '',
      '''',
      ''build_lib('',
      ''    LIBNAME {MODULE}'',
      ''    SOURCE_FILES model/{MODULE}.cc'',
      ''                 helper/{MODULE}-helper.cc '',
      ''    HEADER_FILES model/{MODULE}.h'',
      ''                 helper/{MODULE}-helper.h'',
      ''    LIBRARIES_TO_LINK ${{libcore}}'',
      ''    TEST_SOURCES test/{MODULE}-test-suite.cc'',
      ''                 ${{examples_as_tests_sources}}'',
      '')'',
      ''    '']\<close>

definition MODEL_CC_TEMPLATE :: string where
  \<open>MODEL_CC_TEMPLATE = unlines
     [''/* -*- Mode:C++; c-file-style:"gnu"; indent-tabs-mode:nil; -*- */'',
      '''',
      ''#include "{MODULE}.h"'',
      '''',
      ''namespace ns3 {{'',
      '''',
      ''/* ... */'',
      '''',
      '''',
      ''}}'',
      '''']\<close>

definition MODEL_H_TEMPLATE :: string where
  \<open>MODEL_H_TEMPLATE = unlines
     [''/* -*- Mode:C++; c-file-style:"gnu"; indent-tabs-mode:nil; -*- */'',
      ''#ifndef {INCLUDE_GUARD}'',
      ''#define {INCLUDE_GUARD}'',
      '''',
      ''namespace ns3 {{'',
      '''',
      ''/* ... */'',
      '''',
      ''}}'',
      '''',
      ''#endif /* {INCLUDE_GUARD} */'',
      '''']\<close>

definition HELPER_CC_TEMPLATE :: string where
  \<open>HELPER_CC_TEMPLATE = unlines
     [''/* -*- Mode:C++; c-file-style:"gnu"; indent-tabs-mode:nil; -*- */'',
      '''',
      ''#include "{MODULE}-helper.h"'',
      '''',
      ''namespace ns3 {{'',
      '''',
      ''/* ... */'',
      '''',
      '''',
      ''}}'',
      '''']\<close>

definition HELPER_H_TEMPLATE :: string where
  \<open>HELPER_H_TEMPLATE = unlines
     [''/* -*- Mode:C++; c-file-style:"gnu"; indent-tabs-mode:nil; -*- */'',
      ''#ifndef {INCLUDE_GUARD}'',
      ''#define {INCLUDE_GUARD}'',
      '''',
      ''#include "ns3/{MODULE}.h"'',
      '''',
      ''namespace ns3 {{'',
      '''',
      ''/* ... */'',
      '''',
      ''}}'',
      '''',
      ''#endif /* {INCLUDE_GUARD} */'',
      '''']\<close>

definition EXAMPLES_CMAKELISTS_TEMPLATE :: string where
  \<open>EXAMPLES_CMAKELISTS_TEMPLATE = unlines
     [''build_lib_example('',
      ''    NAME {MODULE}-example'',
      ''    SOURCE_FILES {MODULE}-example.cc'',
      ''    LIBRARIES_TO_LINK ${{lib{MODULE}}}'',
      '')'',
      '''']\<close>

definition EXAMPLE_CC_TEMPLATE :: string where
  \<open>EXAMPLE_CC_TEMPLATE = unlines
     [''/* -*- Mode:C++; c-file-style:"gnu"; indent-tabs-mode:nil; -*- */'',
      '''',
      ''#include "ns3/core-module.h"'',
      ''#include "ns3/{MODULE}-helper.h"'',
      '''',
      ''using namespace ns3;'',
      '''',
      '''',
      ''int '',
      ''main (int argc, char *argv[])'',
      ''{{'',
      ''  bool verbose = true;'',
      '''',
      ''  CommandLine cmd (__FILE__);'',
      ''  cmd.AddValue ("verbose", "Tell application to log if true", verbose);'',
      '''',
      ''  cmd.Parse (argc,argv);'',
      '''',
      ''  /* ... */'',
      '''',
      ''  Simulator::Run ();'',
      ''  Simulator::Destroy ();'',
      ''  return 0;'',
      ''}}'',
      '''',
      '''']\<close>

definition TEST_CC_TEMPLATE :: string where
  \<open>TEST_CC_TEMPLATE = unlines
     [''/* -*- Mode:C++; c-file-style:"gnu"; indent-tabs-mode:nil; -*- */'',
      '''',
      ''// Include a header file from your module to test.'',
      ''#include "ns3/{MODULE}.h"'',
      '''',
      ''// An essential include is test.h'',
      ''#include "ns3/test.h"'',
      '''',
      ''// Do not put your test classes in namespace ns3.  You may find it useful'',
      ''// to use the using directive to access the ns3 namespace directly'',
      ''using namespace ns3;'',
      '''',
      ''// This is an example TestCase.'',
      ''class {CAPITALIZED}TestCase1 : public TestCase'',
      ''{{'',
      ''public:'',
      ''  {CAPITALIZED}TestCase1 ();'',
      ''  virtual ~{CAPITALIZED}TestCase1 ();'',
      '''',
      ''private:'',
      ''  virtual void DoRun (void);'',
      ''}};'',
      '''',
      ''// Add some help text to this case to describe what it is intended to test'',
      ''{CAPITALIZED}TestCase1::{CAPITALIZED}TestCase1 ()'',
      ''  : TestCase ("{CAPITALIZED} test case (does nothing)")'',
      ''{{'',
      ''}}'',
      '''',
      ''// This destructor does nothing but we include it as a reminder that'',
      ''// the test case should clean up after itself'',
      ''{CAPITALIZED}TestCase1::~{CAPITALIZED}TestCase1 ()'',
      ''{{'',
      ''}}'',
      '''',
      ''//'',
      ''// This method is the pure virtual method from class TestCase that every'',
      ''// TestCase must implement'',
      ''//'',
      ''void'',
      ''{CAPITALIZED}TestCase1::DoRun (void)'',
      ''{{'',
      ''  // A wide variety of test macros are available in src/core/test.h'',
      ''  NS_TEST_ASSERT_MSG_EQ (true, true, "true doesn't equal true for some reason");'',
      ''  // Use this one for floating point comparisons'',
      ''  NS_TEST_ASSERT_MSG_EQ_TOL (0.01, 0.01, 0.001, "Numbers are not equal within tolerance");'',
      ''}}'',
      '''',
      ''// The TestSuite class names the TestSuite, identifies what type of TestSuite,'',
      ''// and enables the TestCases to be run.  Typically, only the constructor for'',
      ''// this class must be defined'',
      ''//'',
      ''class {CAPITALIZED}TestSuite : public TestSuite'',
      ''{{'',
      ''public:'',
      ''  {CAPITALIZED}TestSuite ();'',
      ''}};'',
      '''',
      ''{CAPITALIZED}TestSuite::{CAPITALIZED}TestSuite ()'',
      ''  : TestSuite ("{MODULE}", UNIT)'',
      ''{{'',
      ''  // TestDuration for TestCase can be QUICK, EXTENSIVE or TAKES_FOREVER'',
      ''  AddTestCase (new {CAPITALIZED}TestCase1, TestCase::QUICK);'',
      ''}}'',
      '''',
      ''// Do not forget to allocate an instance of this TestSuite'',
      ''static {CAPITALIZED}TestSuite s{COMPOUND}TestSuite;'',
      '''']\<close>

definition DOC_RST_TEMPLATE :: string where
  \<open>DOC_RST_TEMPLATE = unlines
     [''Example Module Documentation'',
      ''----------------------------'',
      '''',
      ''.. include:: replace.txt'',
      ''.. highlight:: cpp'',
      '''',
      ''.. heading hierarchy:'',
      ''   ------------- Chapter'',
      ''   ************* Section (#.#)'',
      ''   ============= Subsection (#.#.#)'',
      ''   ############# Paragraph (no number)'',
      '''',
      ''This is a suggested outline for adding new module documentation to |ns3|.'',
      ''See ``src/click/doc/click.rst`` for an example.'',
      '''',
      ''The introductory paragraph is for describing what this code is trying to'',
      ''model.'',
      '''',
      ''For consistency (italicized formatting), please use |ns3| to refer to'',
      ''ns-3 in the documentation (and likewise, |ns2| for ns-2).  These macros'',
      ''are defined in the file ``replace.txt``.'',
      '''',
      ''Model Description'',
      ''*****************'',
      '''',
      ''The source code for the new module lives in the directory ``{MODULE_DIR}``.'',
      '''',
      ''Add here a basic description of what is being modeled.'',
      '''',
      ''Design'',
      ''======'',
      '''',
      ''Briefly describe the software design of the model and how it fits into '',
      ''the existing ns-3 architecture. '',
      '''',
      ''Scope and Limitations'',
      ''====================='',
      '''',
      ''What can the model do?  What can it not do?  Please use this section to'',
      ''describe the scope and limitations of the model.'',
      '''',
      ''References'',
      ''=========='',
      '''',
      ''Add academic citations here, such as if you published a paper on this'',
      ''model, or if readers should read a particular specification or other work.'',
      '''',
      ''Usage'',
      ''*****'',
      '''',
      ''This section is principally concerned with the usage of your model, using'',
      ''the public API.  Focus first on most common usage patterns, then go'',
      ''into more advanced topics.'',
      '''',
      ''Building New Module'',
      ''==================='',
      '''',
      ''Include this subsection only if there are special build instructions or'',
      ''platform limitations.'',
      '''',
      ''Helpers'',
      ''======='',
      '''',
      ''What helper API will users typically use?  Describe it here.'',
      '''',
      ''Attributes'',
      ''=========='',
      '''',
      ''What classes hold attributes, and what are the key ones worth mentioning?'',
      '''',
      ''Output'',
      ''======'',
      '''',
      ''What kind of data does the model generate?  What are the key trace'',
      ''sources?   What kind of logging output can be enabled?'',
      '''',
      ''Advanced Usage'',
      ''=============='',
      '''',
      ''Go into further details (such as using the API outside of the helpers)'',
      ''in additional sections, as needed.'',
      '''',
      ''Examples'',
      ''========'',
      '''',
      ''What examples using this new code are available?  Describe them here.'',
      '''',
      ''Troubleshooting'',
      ''==============='',
      '''',
      ''Add any tips for avoiding pitfalls, etc.'',
      '''',
      ''Validation'',
      ''**********'',
      '''',
      ''Describe how the model has been tested/validated.  What tests run in the'',
      ''test suite?  How much API and code is covered by the tests?  Again, '',
      ''references to outside published work may help here.'']\<close>

section \<open>Fields\<close>

text \<open>The fields of a template, \<open>None\<close> when its braces do not match.\<close>

function template_fields :: "string \<Rightarrow> string list option" where
  "template_fields [] = Some []"
| "template_fields (c # cs) =
     (if c = CHR ''{''
      then (if cs = [] then None
            else if hd cs = CHR ''{'' then template_fields (tl cs)
            else let r = dropWhile (\<lambda>x. x \<noteq> CHR ''}'') cs
                 in if r = [] then None else map_option ((#) (takeWhile (\<lambda>x. x \<noteq> CHR ''}'') cs)) (template_fields (tl r)))
      else if c = CHR ''}'' then (if cs = [] \<or> hd cs \<noteq> CHR ''}'' then None else template_fields (tl cs))
      else template_fields cs)"
  by pat_completeness auto
termination
proof (relation "measure length")
  fix c :: char and cs xa
  assume "xa = dropWhile (\<lambda>x. x \<noteq> CHR ''}'') cs"
  then have "length xa \<le> length cs" by (simp add: length_dropWhile_le)
  then show "(tl xa, c # cs) \<in> measure length" by (cases xa) auto
qed auto

declare template_fields.simps(2) [simp del]

text \<open>A template whose braces match is formatted without an error as soon as all its fields are given.\<close>

lemma format_defined: "template_fields s = Some fs \<Longrightarrow> set fs \<subseteq> fst ` set args \<Longrightarrow> \<exists>t. py_format args s = Inr t"
proof (induction args s arbitrary: fs rule: py_format.induct)
  case (2 args c cs)
  show ?case
  proof (cases "c = CHR ''{''")
    case open_brace: True
    show ?thesis
    proof (cases "cs = [] \<or> hd cs = CHR ''{''")
      case True
      then show ?thesis using 2 open_brace by (auto simp: template_fields.simps(2) py_format.simps(2))
    next
      case False
      let ?f = "takeWhile (\<lambda>x. x \<noteq> CHR ''}'') cs" and ?r = "dropWhile (\<lambda>x. x \<noteq> CHR ''}'') cs"
      obtain gs where gs: "?r \<noteq> []" "template_fields (tl ?r) = Some gs" "fs = ?f # gs"
        using 2(5) open_brace False by (auto simp: template_fields.simps(2) Let_def split: if_splits)
      then obtain v where v: "map_of args ?f = Some v" using 2(6) by (metis insert_subset list.set(2) map_of_eq_None_iff not_None_eq)
      have "\<exists>t. py_format args (tl ?r) = Inr t" using 2(2) [OF open_brace _ _ refl refl gs(1) v gs(2)] 2(6) gs(3) False by simp
      then show ?thesis using open_brace False gs(1) v by (auto simp: py_format.simps(2) Let_def)
    qed
  next
    case False
    then show ?thesis using 2 by (auto simp: template_fields.simps(2) py_format.simps(2) split: if_splits)
  qed
qed simp

text \<open>Fields do not cross the end of a line, so a template can be read line by line.\<close>

lemma template_fields_append: "template_fields xs = Some fs \<Longrightarrow> template_fields (xs @ ys) = map_option ((@) fs) (template_fields ys)"
proof (induction xs arbitrary: fs rule: template_fields.induct)
  case 1
  then show ?case by (cases "template_fields ys") simp_all
next
  case (2 c cs)
  show ?case
  proof (cases "c = CHR ''{'' \<and> cs \<noteq> [] \<and> hd cs \<noteq> CHR ''{''")
    case True
    let ?f = "takeWhile (\<lambda>x. x \<noteq> CHR ''}'') cs" and ?r = "dropWhile (\<lambda>x. x \<noteq> CHR ''}'') cs"
    obtain gs where gs: "?r \<noteq> []" "template_fields (tl ?r) = Some gs" "fs = ?f # gs" using 2(5) True by (auto simp: template_fields.simps(2) Let_def split: if_splits)
    obtain x where x: "x \<in> set cs" "x = CHR ''}''" using gs(1) by (auto simp: dropWhile_eq_Nil_conv)
    have e: "takeWhile (\<lambda>x. x \<noteq> CHR ''}'') (cs @ ys) = ?f" "dropWhile (\<lambda>x. x \<noteq> CHR ''}'') (cs @ ys) = ?r @ ys" using x by (simp_all add: takeWhile_append1 dropWhile_append1)
    have "template_fields (tl ?r @ ys) = map_option ((@) gs) (template_fields ys)" using 2(2) [OF _ _ _ refl gs(1,2)] True by blast
    then show ?thesis using True gs e by (cases "template_fields ys") (simp_all add: template_fields.simps(2) Let_def)
  next
    case False
    then consider (opened) "c = CHR ''{''" "cs = [] \<or> hd cs = CHR ''{''" | (closed) "c = CHR ''}''" | (other) "c \<noteq> CHR ''{''" "c \<noteq> CHR ''}''" by blast
    then show ?thesis
    proof cases
      case opened
      then have h: "cs \<noteq> []" "hd cs = CHR ''{''" "template_fields (tl cs) = Some fs" using 2(5) by (cases "cs = []"; simp add: template_fields.simps(2))+
      show ?thesis using 2(1) [OF opened(1) h] opened(1) h(1,2) by (simp add: template_fields.simps(2))
    next
      case closed
      then have h: "\<not> (cs = [] \<or> hd cs \<noteq> CHR ''}'')" "template_fields (tl cs) = Some fs" using 2(5) by (cases "cs = [] \<or> hd cs \<noteq> CHR ''}''"; simp add: template_fields.simps(2))+
      have "c \<noteq> CHR ''{''" using closed by simp
      from 2(3) [OF this closed h] show ?thesis using closed h(1) by (simp add: template_fields.simps(2))
    next
      case other
      then show ?thesis using 2(4) [OF other] 2(5) by (simp add: template_fields.simps(2))
    qed
  qed
qed

definition line_fields :: "string list \<Rightarrow> string list option" where
  "line_fields ls = (if list_all (\<lambda>l. template_fields l \<noteq> None) ls then Some (rev (remdups (rev (concat (map (the \<circ> template_fields) ls))))) else None)"

lemma line_fields_unlines:
  assumes "line_fields ls = Some fs"
  shows "\<exists>gs. template_fields (unlines ls) = Some gs \<and> set gs = set fs"
proof -
  have "template_fields (unlines ls) = Some (concat (map (the \<circ> template_fields) ls))" if "list_all (\<lambda>l. template_fields l \<noteq> None) ls" using that
  proof (induction ls)
    case (Cons l ls)
    then obtain f where "template_fields l = Some f" by auto
    moreover have "template_fields [CHR 0x0A] = Some []" by (simp add: template_fields.simps(2))
    ultimately have "template_fields (l @ [CHR 0x0A]) = Some f" using template_fields_append by fastforce
    then show ?case using Cons \<open>template_fields l = Some f\<close> template_fields_append [of "l @ [CHR 0x0A]" f "unlines ls"] by (simp add: unlines_def)
  qed (simp add: unlines_def)
  then show ?thesis using assms by (auto simp: line_fields_def split: if_splits)
qed

lemma format_lines:
  assumes "line_fields ls = Some fs" and "set fs \<subseteq> fst ` set args"
  shows "\<exists>t. py_format args (unlines ls) = Inr t"
  using line_fields_unlines [OF assms(1)] assms(2) format_defined by metis

text \<open>The fields of each template, all of which the script gives.\<close>

definition has_fields :: "string \<Rightarrow> string list \<Rightarrow> bool" where
  "has_fields s fs \<longleftrightarrow> (\<exists>ls. s = unlines ls \<and> line_fields ls = Some fs)"

lemma format_fields: "has_fields s fs \<Longrightarrow> set fs \<subseteq> fst ` set args \<Longrightarrow> \<exists>t. py_format args s = Inr t"
  by (auto simp: has_fields_def intro: format_lines)

lemma has_fieldsI: "s = unlines ls \<Longrightarrow> line_fields ls = Some fs \<Longrightarrow> has_fields s fs"
  by (auto simp: has_fields_def)

lemma CMAKELISTS_TEMPLATE_fields: "has_fields CMAKELISTS_TEMPLATE [''MODULE'']"
  by (rule has_fieldsI [OF CMAKELISTS_TEMPLATE_def]) code_simp

lemma MODEL_CC_TEMPLATE_fields: "has_fields MODEL_CC_TEMPLATE [''MODULE'']"
  by (rule has_fieldsI [OF MODEL_CC_TEMPLATE_def]) code_simp

lemma MODEL_H_TEMPLATE_fields: "has_fields MODEL_H_TEMPLATE [''INCLUDE_GUARD'']"
  by (rule has_fieldsI [OF MODEL_H_TEMPLATE_def]) code_simp

lemma HELPER_CC_TEMPLATE_fields: "has_fields HELPER_CC_TEMPLATE [''MODULE'']"
  by (rule has_fieldsI [OF HELPER_CC_TEMPLATE_def]) code_simp

lemma HELPER_H_TEMPLATE_fields: "has_fields HELPER_H_TEMPLATE [''INCLUDE_GUARD'', ''MODULE'']"
  by (rule has_fieldsI [OF HELPER_H_TEMPLATE_def]) code_simp

lemma EXAMPLES_CMAKELISTS_TEMPLATE_fields: "has_fields EXAMPLES_CMAKELISTS_TEMPLATE [''MODULE'']"
  by (rule has_fieldsI [OF EXAMPLES_CMAKELISTS_TEMPLATE_def]) code_simp

lemma EXAMPLE_CC_TEMPLATE_fields: "has_fields EXAMPLE_CC_TEMPLATE [''MODULE'']"
  by (rule has_fieldsI [OF EXAMPLE_CC_TEMPLATE_def]) code_simp

lemma TEST_CC_TEMPLATE_fields: "has_fields TEST_CC_TEMPLATE [''MODULE'', ''CAPITALIZED'', ''COMPOUND'']"
  by (rule has_fieldsI [OF TEST_CC_TEMPLATE_def]) code_simp

lemma DOC_RST_TEMPLATE_fields: "has_fields DOC_RST_TEMPLATE [''MODULE_DIR'']"
  by (rule has_fieldsI [OF DOC_RST_TEMPLATE_def]) code_simp

end
