(* ===== verification/CreateModule.thy ===== *)
theory CreateModule
  imports ModuleTemplates "HOL-Library.Sublist"
begin

text \<open>
  The generator of module skeletons, \<^verbatim>\<open>utils/create-module.py\<close>: reading the names, the files of a module, and the removal of a module that could not be completed. A path is the list of
  its components, the file system maps a path to a directory or to the text of a file. The answers of the operating system are a parameter: each operation that writes may be refused or
  stop half way. Names are ASCII texts.
\<close>

section \<open>File system\<close>

datatype node = Dir | File string

type_synonym path = "string list"

datatype message = Creating path | Exists string | Failed string py_error | Skip_path string | Skip_chars string | Success

record os =
  fs :: "path \<Rightarrow> node option"
  tick :: nat
  messages :: "message list"

text \<open>The answer to the \<open>n\<close>-th operation: carried out, or an error after so many steps.\<close>

type_synonym answers = "nat \<Rightarrow> nat option"

text \<open>An action ends normally or with an exception, and leaves a state in both cases.\<close>

type_synonym os_action = "os \<Rightarrow> py_error option \<times> os"

fun in_order :: "os_action list \<Rightarrow> os_action" where
  "in_order [] s = (None, s)"
| "in_order (a # as) s = (case a s of (None, s') \<Rightarrow> in_order as s' | (Some e, s') \<Rightarrow> (Some e, s'))"

definition set_nodes :: "path list \<Rightarrow> node \<Rightarrow> (path \<Rightarrow> node option) \<Rightarrow> path \<Rightarrow> node option" where
  "set_nodes ps x f q = (if q \<in> set ps then Some x else f q)"

text \<open>\<open>Path.mkdir(parents=True)\<close>: the missing directories from the top; it fails when the path exists or a parent is a file.\<close>

definition mkdir :: "answers \<Rightarrow> path \<Rightarrow> os_action" where
  "mkdir ans p s =
     (let missing = filter (\<lambda>q. fs s q = None) (prefixes p); s = s\<lparr>tick := tick s + 1\<rparr>
      in if fs s p \<noteq> None \<or> list_ex (\<lambda>q. fs s q \<noteq> None \<and> fs s q \<noteq> Some Dir) (prefixes p) then (Some OSError, s)
         else case ans (tick s) of
                None \<Rightarrow> (None, s\<lparr>fs := set_nodes missing Dir (fs s)\<rparr>)
              | Some k \<Rightarrow> (Some OSError, s\<lparr>fs := set_nodes (take (min k (length missing - 1)) missing) Dir (fs s)\<rparr>))"

text \<open>Opening the file empties or creates it, then the text is formatted and written; the answer \<open>Some 0\<close> refuses to open it.\<close>

definition create_file :: "answers \<Rightarrow> path \<Rightarrow> string \<Rightarrow> (string \<times> string) list \<Rightarrow> os_action" where
  "create_file ans p template args s =
     (let s = s\<lparr>tick := tick s + 1\<rparr>
      in if p = [] \<or> fs s (butlast p) \<noteq> Some Dir \<or> fs s p = Some Dir \<or> ans (tick s) = Some 0 then (Some OSError, s)
         else case py_format args template of
                Inl e \<Rightarrow> (Some e, s\<lparr>fs := (fs s)(p \<mapsto> File [])\<rparr>)
              | Inr t \<Rightarrow> (case ans (tick s) of
                          None \<Rightarrow> (None, s\<lparr>fs := (fs s)(p \<mapsto> File t)\<rparr>)
                        | Some k \<Rightarrow> (Some OSError, s\<lparr>fs := (fs s)(p \<mapsto> File (take (k - 1) t))\<rparr>)))"

text \<open>\<open>shutil.rmtree\<close>: removes the whole tree, or fails and leaves some of it.\<close>

definition rmtree :: "(path \<Rightarrow> bool) option \<Rightarrow> path \<Rightarrow> os_action" where
  "rmtree stays p s =
     (case stays of
        None \<Rightarrow> (None, s\<lparr>fs := (\<lambda>q. if prefix p q then None else fs s q)\<rparr>)
      | Some left \<Rightarrow> (Some OSError, s\<lparr>fs := (\<lambda>q. if prefix p q \<and> \<not> left q then None else fs s q)\<rparr>))"

definition say :: "message \<Rightarrow> os \<Rightarrow> os" where
  "say x s = s\<lparr>messages := messages s @ [x]\<rparr>"

section \<open>Names\<close>

definition with_suffix :: "string \<Rightarrow> string \<Rightarrow> string" where
  "with_suffix n suf =
     (let tail = takeWhile (\<lambda>c. c \<noteq> CHR ''.'') (rev n); i = length n - length tail - 1
      in if CHR ''.'' \<in> set n \<and> 0 < i \<and> tail \<noteq> [] then take i n @ suf else n @ suf)"

definition upper_char :: "char \<Rightarrow> char" where
  "upper_char c = (if 97 \<le> (of_char c :: nat) \<and> (of_char c :: nat) \<le> 122 then char_of ((of_char c :: nat) - 32) else c)"

definition capitalize :: "string \<Rightarrow> string" where
  "capitalize w = (case w of [] \<Rightarrow> [] | c # cs \<Rightarrow> upper_char c # map lower cs)"

definition guard_name :: "string \<Rightarrow> string" where
  "guard_name modname = map (upper_char \<circ> (\<lambda>c. if c = CHR ''-'' then CHR ''_'' else c)) modname"

section \<open>The files of a module\<close>

definition make_cmakelists :: "answers \<Rightarrow> path \<Rightarrow> string \<Rightarrow> os_action" where
  "make_cmakelists ans moduledir modname = create_file ans (moduledir @ [''CMakeLists.txt'']) CMAKELISTS_TEMPLATE [(''MODULE'', modname)]"

definition make_model :: "answers \<Rightarrow> path \<Rightarrow> string \<Rightarrow> os_action" where
  "make_model ans moduledir modname =
     in_order
       [mkdir ans (moduledir @ [''model'']),
        create_file ans (moduledir @ [''model'', with_suffix modname ''.cc'']) MODEL_CC_TEMPLATE [(''MODULE'', modname)],
        create_file ans (moduledir @ [''model'', with_suffix modname ''.h'']) MODEL_H_TEMPLATE [(''MODULE'', modname), (''INCLUDE_GUARD'', guard_name modname @ ''_H'')]]"

definition make_test :: "answers \<Rightarrow> path \<Rightarrow> string \<Rightarrow> os_action" where
  "make_test ans moduledir modname =
     (let name_parts = split_char (CHR ''-'') modname
      in in_order
       [mkdir ans (moduledir @ [''test'']),
        create_file ans (moduledir @ [''test'', with_suffix (modname @ ''-test-suite'') ''.cc'']) TEST_CC_TEMPLATE
          [(''MODULE'', modname), (''CAPITALIZED'', concat (map capitalize name_parts)),
           (''COMPOUND'', concat (map (\<lambda>(i, w). if i > 0 then capitalize w else w) (enumerate 0 name_parts)))]])"

definition make_helper :: "answers \<Rightarrow> path \<Rightarrow> string \<Rightarrow> os_action" where
  "make_helper ans moduledir modname =
     in_order
       [mkdir ans (moduledir @ [''helper'']),
        create_file ans (moduledir @ [''helper'', with_suffix (modname @ ''-helper'') ''.cc'']) HELPER_CC_TEMPLATE [(''MODULE'', modname)],
        create_file ans (moduledir @ [''helper'', with_suffix (modname @ ''-helper'') ''.h'']) HELPER_H_TEMPLATE
          [(''MODULE'', modname), (''INCLUDE_GUARD'', guard_name modname @ ''_HELPER_H'')]]"

definition make_examples :: "answers \<Rightarrow> path \<Rightarrow> string \<Rightarrow> os_action" where
  "make_examples ans moduledir modname =
     in_order
       [mkdir ans (moduledir @ [''examples'']),
        create_file ans (moduledir @ [''examples'', ''CMakeLists.txt'']) EXAMPLES_CMAKELISTS_TEMPLATE [(''MODULE'', modname)],
        create_file ans (moduledir @ [''examples'', with_suffix (modname @ ''-example'') ''.cc'']) EXAMPLE_CC_TEMPLATE [(''MODULE'', modname)]]"

text \<open>The module directory lies below the current one, so its relative path is what follows the current directory.\<close>

definition mod_relpath :: "path \<Rightarrow> path \<Rightarrow> string" where
  "mod_relpath cwd moduledir = join_with ''/'' (drop (length cwd) moduledir)"

definition make_doc :: "answers \<Rightarrow> path \<Rightarrow> path \<Rightarrow> string \<Rightarrow> os_action" where
  "make_doc ans cwd moduledir modname =
     in_order
       [mkdir ans (moduledir @ [''doc'']),
        create_file ans (moduledir @ [''doc'', modname @ ''.rst'']) DOC_RST_TEMPLATE [(''MODULE'', modname), (''MODULE_DIR'', mod_relpath cwd moduledir)]]"

definition make_artifacts :: "answers \<Rightarrow> path \<Rightarrow> path \<Rightarrow> string \<Rightarrow> os_action" where
  "make_artifacts ans cwd modulepath modname =
     in_order
       [mkdir ans modulepath, make_cmakelists ans modulepath modname, make_model ans modulepath modname, make_test ans modulepath modname,
        make_helper ans modulepath modname, make_examples ans modulepath modname, make_doc ans cwd modulepath modname]"

text \<open>
  The module is made, or what was made of it is removed; an exception of the removal itself is not caught. \<open>Path.exists\<close> always answers, as
  it does from Python 3.14 on; before, it raises for a path that is too long or whose directory may not be read.
\<close>

definition make_module :: "answers \<Rightarrow> (path \<Rightarrow> bool) option \<Rightarrow> path \<Rightarrow> path \<times> string \<Rightarrow> os \<Rightarrow> bool result \<times> os" where
  "make_module ans stays cwd m s =
     (let (modpath, modname) = m; modulepath = modpath @ [modname]
      in if fs s modulepath \<noteq> None then (Inr False, say (Exists modname) s)
         else case make_artifacts ans cwd modulepath modname (say (Creating modulepath) s) of
                (None, s) \<Rightarrow> (Inr True, s)
              | (Some e, s) \<Rightarrow>
                  (case (if fs s modulepath \<noteq> None then rmtree stays modulepath s else (None, s)) of
                     (Some e', s) \<Rightarrow> (Inl e', s)
                   | (None, s) \<Rightarrow> (Inr False, say (Failed modname e) s)))"

section \<open>The command line\<close>

text \<open>The root of a path text and its components, without empty ones and dots; exactly two leading slashes are a root of their own.\<close>

definition path_root :: "string \<Rightarrow> string" where
  "path_root s = (case length (takeWhile (\<lambda>c. c = CHR ''/'') s) of 0 \<Rightarrow> [] | Suc 0 \<Rightarrow> ''/'' | Suc (Suc 0) \<Rightarrow> ''//'' | _ \<Rightarrow> ''/'')"

definition path_parts :: "string \<Rightarrow> string list" where
  "path_parts s = filter (\<lambda>p. p \<noteq> [] \<and> p \<noteq> ''.'') (split_char (CHR ''/'') s)"

text \<open>The expression \<open>^(\w|-)+$\<close>: its end also matches before a final line feed.\<close>

definition word_char :: "char \<Rightarrow> bool" where
  "word_char c \<longleftrightarrow> (let n = of_char c :: nat in 48 \<le> n \<and> n \<le> 57 \<or> 65 \<le> n \<and> n \<le> 90 \<or> 97 \<le> n \<and> n \<le> 122 \<or> c = CHR ''_'' \<or> c = CHR ''-'')"

definition allowedRE :: "string \<Rightarrow> bool" where
  "allowedRE s \<longleftrightarrow> (let t = (if s \<noteq> [] \<and> last s = CHR 0x0A then butlast s else s) in t \<noteq> [] \<and> list_all word_char t)"

datatype exit = Parser_error | Raised py_error | Exit int

text \<open>The directory below which the modules of a project are made: none without a project.\<close>

definition project_path :: "string \<Rightarrow> exit + path option" where
  "project_path project =
     (if project = [] then Inr None
      else if path_root project = ''//'' then Inl (Raised ValueError)
      else if \<not> list_all allowedRE (path_parts project) then Inl Parser_error
      else Inr (Some (path_parts project)))"

definition strip_sep :: "string \<Rightarrow> string" where
  "strip_sep s = rev (dropWhile (\<lambda>c. c = CHR ''/'') (rev (dropWhile (\<lambda>c. c = CHR ''/'') s)))"

text \<open>One name: the module it stands for, a message that it is skipped, or nothing for an empty name.\<close>

definition read_name :: "path \<Rightarrow> string \<Rightarrow> path option \<Rightarrow> string \<Rightarrow> exit + (path \<times> string) list \<times> message list" where
  "read_name cwd project pp name =
     (let name = strip_sep name; parts = path_parts name; src_path = cwd @ [''src'']; contrib_path = cwd @ [''contrib'']
      in if name = [] then Inr ([], [])
         else if length parts > 2 then Inr ([], [Skip_path name])
         else if parts = [] then Inl (Raised IndexError)
         else if hd parts = ''src'' \<and> project \<noteq> [] then Inl Parser_error
         else let modpath = (if hd parts = ''src'' then src_path else contrib_path);
                  parts = (if hd parts = ''src'' \<or> hd parts = ''contrib'' then tl parts else parts);
                  modpath = (case pp of None \<Rightarrow> modpath | Some p \<Rightarrow> contrib_path @ p)
              in if parts = [] then Inl (Raised IndexError)
                 else if \<not> allowedRE (hd parts) then Inr ([], [Skip_chars (hd parts)])
                 else Inr ([(modpath, hd parts)], []))"

text \<open>An error ends the loop; the messages before it have been printed.\<close>

fun read_names :: "path \<Rightarrow> string \<Rightarrow> path option \<Rightarrow> string list \<Rightarrow> exit option \<times> (path \<times> string) list \<times> message list" where
  "read_names cwd project pp [] = (None, [], [])"
| "read_names cwd project pp (n # ns) =
     (case read_name cwd project pp n of
        Inl x \<Rightarrow> (Some x, [], [])
      | Inr (m, out) \<Rightarrow> (case read_names cwd project pp ns of (x, ms, outs) \<Rightarrow> (x, m @ ms, out @ outs)))"

text \<open>\<open>all(...)\<close> stops at the first module that is not made.\<close>

fun make_modules :: "answers \<Rightarrow> (path \<Rightarrow> bool) option \<Rightarrow> path \<Rightarrow> (path \<times> string) list \<Rightarrow> os \<Rightarrow> bool result \<times> os" where
  "make_modules ans stays cwd [] s = (Inr True, s)"
| "make_modules ans stays cwd (m # ms) s =
     (case make_module ans stays cwd m s of
        (Inl e, s) \<Rightarrow> (Inl e, s)
      | (Inr False, s) \<Rightarrow> (Inr False, s)
      | (Inr True, s) \<Rightarrow> make_modules ans stays cwd ms s)"

definition create_module_main :: "answers \<Rightarrow> (path \<Rightarrow> bool) option \<Rightarrow> path \<Rightarrow> string \<Rightarrow> string list \<Rightarrow> os \<Rightarrow> exit \<times> os" where
  "create_module_main ans stays cwd project modnames s =
     (if fs s (cwd @ [''src'']) \<noteq> Some Dir \<or> fs s (cwd @ [''contrib'']) \<noteq> Some Dir then (Parser_error, s)
      else case project_path project of
             Inl x \<Rightarrow> (x, s)
           | Inr pp \<Rightarrow>
               (case read_names cwd project pp modnames of
                  (Some x, modules, out) \<Rightarrow> (x, s\<lparr>messages := messages s @ out\<rparr>)
                | (None, modules, out) \<Rightarrow>
                    (case make_modules ans stays cwd modules (s\<lparr>messages := messages s @ out\<rparr>) of
                       (Inl e, s) \<Rightarrow> (Raised e, s)
                     | (Inr b, s) \<Rightarrow> (Exit 0, if b then say Success s else s))))"

text \<open>The status of the process: the parser of the arguments ends with 2, an exception with 1.\<close>

definition exit_code :: "exit \<Rightarrow> int" where
  "exit_code x = (case x of Parser_error \<Rightarrow> 2 | Raised e \<Rightarrow> 1 | Exit n \<Rightarrow> n)"

section \<open>Nothing outside the module changes\<close>

text \<open>Outside the tree of a module only missing parent directories may appear.\<close>

definition tree_change :: "path \<Rightarrow> os \<Rightarrow> os \<Rightarrow> bool" where
  "tree_change M s s' \<longleftrightarrow> (\<forall>q. \<not> prefix M q \<longrightarrow> fs s' q = fs s q \<or> fs s q = None \<and> fs s' q = Some Dir \<and> strict_prefix q M)"

lemma tree_change_refl [simp]: "fs s' = fs s \<Longrightarrow> tree_change M s s'"
  by (simp add: tree_change_def)

lemma tree_change_trans: "tree_change M s t \<Longrightarrow> tree_change M t u \<Longrightarrow> tree_change M s u"
  unfolding tree_change_def by (metis option.distinct(1))

text \<open>What every action of a list does to the file system, the list does, when it is reflexive and transitive.\<close>

locale os_relation =
  fixes R :: "os \<Rightarrow> os \<Rightarrow> bool"
  assumes reflexive: "R s s" and transitive: "R s t \<Longrightarrow> R t u \<Longrightarrow> R s u"
begin

lemma related_in_order: "\<forall>a \<in> set as. \<forall>s. R s (snd (a s)) \<Longrightarrow> R s (snd (in_order as s))"
proof (induction as arbitrary: s)
  case (Cons a as)
  obtain r s' where a: "a s = (r, s')" by (cases "a s")
  then have "R s s'" using Cons.prems by (metis list.set_intros(1) snd_conv)
  then show ?case using a Cons by (auto split: option.split intro: transitive)
qed (simp add: reflexive)

end

interpretation tree: os_relation "tree_change M"
  by unfold_locales (auto intro: tree_change_trans)

definition confined :: "path \<Rightarrow> os_action \<Rightarrow> bool" where
  "confined M a \<longleftrightarrow> (\<forall>s. tree_change M s (snd (a s)))"

lemma confined_in_order: "\<forall>a \<in> set as. confined M a \<Longrightarrow> confined M (in_order as)"
  unfolding confined_def using tree.related_in_order by blast

lemma set_nodes_prefixes:
  assumes "set ps \<subseteq> set (prefixes p)" and "prefix M p" and "\<forall>q \<in> set ps. f q = None" and "\<not> prefix M q"
  shows "set_nodes ps Dir f q = f q \<or> f q = None \<and> set_nodes ps Dir f q = Some Dir \<and> strict_prefix q M"
proof (cases "q \<in> set ps")
  case True
  then have "prefix q p" using assms(1) by auto
  then have "strict_prefix q M" using assms(2,4) prefix_same_cases [of q p M] by (auto simp: strict_prefix_def)
  then show ?thesis using True assms(3) by (simp add: set_nodes_def)
qed (simp add: set_nodes_def)

lemma confined_mkdir: "prefix M p \<Longrightarrow> confined M (mkdir ans p)"
proof -
  assume M: "prefix M p"
  have "tree_change M s (snd (mkdir ans p s))" for s
  proof -
    let ?m = "filter (\<lambda>q. fs s q = None) (prefixes p)"
    have "set_nodes (take k ?m) Dir (fs s) q = fs s q \<or> fs s q = None \<and> set_nodes (take k ?m) Dir (fs s) q = Some Dir \<and> strict_prefix q M" if "\<not> prefix M q" for k q
      by (rule set_nodes_prefixes [OF _ M _ that]) (auto dest: in_set_takeD)
    from this [of _ "length ?m"] this show ?thesis unfolding tree_change_def mkdir_def Let_def by (auto split: option.split)
  qed
  then show ?thesis by (simp add: confined_def)
qed

lemma confined_create: "prefix M p \<Longrightarrow> confined M (create_file ans p template args)"
  unfolding confined_def tree_change_def create_file_def Let_def by (auto split: sum.split option.split)

lemma confined_artifacts: "confined M (make_artifacts ans cwd M modname)"
  unfolding make_artifacts_def make_cmakelists_def make_model_def make_test_def make_helper_def make_examples_def make_doc_def Let_def
  by (rule confined_in_order) (auto intro!: confined_in_order confined_mkdir confined_create)

section \<open>A finished module\<close>

text \<open>An action makes a node when its parents are directories and nothing is there, unless the operating system objects.\<close>

definition ready :: "(path \<Rightarrow> node option) \<Rightarrow> path \<Rightarrow> bool" where
  "ready f p \<longleftrightarrow> p \<noteq> [] \<and> f p = None \<and> (\<forall>q. prefix q (butlast p) \<longrightarrow> f q = Some Dir)"

definition makes :: "answers \<Rightarrow> os_action \<Rightarrow> path \<times> node \<Rightarrow> bool" where
  "makes ans a e \<longleftrightarrow> (\<forall>s. ready (fs s) (fst e) \<longrightarrow>
     (if ans (tick s + 1) = None then a s = (None, s\<lparr>tick := tick s + 1, fs := (fs s)(fst e \<mapsto> snd e)\<rparr>) else fst (a s) \<noteq> None))"

lemma filter_prefixes_ready:
  assumes "ready f p"
  shows "filter (\<lambda>q. f q = None) (prefixes p) = [p]" and "\<not> list_ex (\<lambda>q. f q \<noteq> None \<and> f q \<noteq> Some Dir) (prefixes p)"
proof -
  have p: "prefixes p = prefixes (butlast p) @ [p]" using assms by (metis append_butlast_last_id prefixes_snoc ready_def)
  have d: "\<forall>q \<in> set (prefixes (butlast p)). f q = Some Dir" using assms by (simp add: ready_def)
  then have "filter (\<lambda>q. f q = None) (prefixes (butlast p)) = []" by (simp add: filter_empty_conv)
  then show "filter (\<lambda>q. f q = None) (prefixes p) = [p]" unfolding p using assms by (simp add: ready_def)
  show "\<not> list_ex (\<lambda>q. f q \<noteq> None \<and> f q \<noteq> Some Dir) (prefixes p)" unfolding p using d assms by (auto simp: list_ex_iff ready_def)
qed

lemma makes_mkdir: "makes ans (mkdir ans p) (p, Dir)"
proof -
  have "set_nodes [p] Dir f = f(p \<mapsto> Dir)" for f by (auto simp: set_nodes_def)
  then show ?thesis unfolding makes_def mkdir_def Let_def using filter_prefixes_ready by (auto simp: ready_def split: option.split)
qed

definition formatted :: "string \<Rightarrow> (string \<times> string) list \<Rightarrow> string" where
  "formatted template args = (case py_format args template of Inl e \<Rightarrow> [] | Inr t \<Rightarrow> t)"

lemma makes_create: "has_fields template fds \<Longrightarrow> set fds \<subseteq> fst ` set args \<Longrightarrow> makes ans (create_file ans p template args) (p, File (formatted template args))"
  using format_fields [of template fds args] by (auto simp: makes_def create_file_def ready_def Let_def formatted_def split: option.split)

fun plan_ok :: "(path \<Rightarrow> node option) \<Rightarrow> (path \<times> node) list \<Rightarrow> bool" where
  "plan_ok f [] \<longleftrightarrow> True"
| "plan_ok f (e # es) \<longleftrightarrow> ready f (fst e) \<and> plan_ok (f(fst e \<mapsto> snd e)) es"

definition add_nodes :: "(path \<times> node) list \<Rightarrow> (path \<Rightarrow> node option) \<Rightarrow> path \<Rightarrow> node option" where
  "add_nodes es f = foldl (\<lambda>f e. f(fst e \<mapsto> snd e)) f es"

lemma run_plan:
  assumes "list_all2 (makes ans) as es" and "plan_ok (fs s) es"
  shows "case in_order as s of (None, s') \<Rightarrow> fs s' = add_nodes es (fs s) | (Some e, s') \<Rightarrow> \<exists>n. ans n \<noteq> None"
  using assms
proof (induction as es arbitrary: s rule: list_all2_induct)
  case (Cons a as e es)
  show ?case
  proof (cases "ans (tick s + 1) = None")
    case True
    then have a: "a s = (None, s\<lparr>tick := tick s + 1, fs := (fs s)(fst e \<mapsto> snd e)\<rparr>)" using Cons(1,4) by (auto simp: makes_def)
    have "plan_ok (fs (s\<lparr>tick := tick s + 1, fs := (fs s)(fst e \<mapsto> snd e)\<rparr>)) es" using Cons(4) by simp
    from Cons(3) [OF this] show ?thesis by (auto simp: a add_nodes_def fun_upd_def split: prod.splits option.splits)
  next
    case False
    then have "fst (a s) \<noteq> None" using Cons(1,4) by (auto simp: makes_def)
    then show ?thesis using False by (cases "a s") (auto split: option.split)
  qed
qed (simp add: add_nodes_def)

lemma in_order_append: "in_order (as @ bs) s = (case in_order as s of (None, s') \<Rightarrow> in_order bs s' | (Some e, s') \<Rightarrow> (Some e, s'))"
  by (induction as arbitrary: s) (auto split: prod.split option.split)

lemma in_order_concat: "in_order (map in_order ass) = in_order (concat ass)"
proof
  show "in_order (map in_order ass) s = in_order (concat ass) s" for s
    by (induction ass arbitrary: s) (auto simp: in_order_append split: prod.split option.split)
qed

lemma in_order_single: "in_order [a] = a"
  by (auto simp: fun_eq_iff split: prod.split option.split)

text \<open>What a module consists of, apart from its directory.\<close>

definition skeleton :: "path \<Rightarrow> path \<Rightarrow> string \<Rightarrow> (path \<times> node) list" where
  "skeleton cwd M n =
     (let only = [(''MODULE'', n)]; parts = split_char (CHR ''-'') n
      in [(M @ [''CMakeLists.txt''], File (formatted CMAKELISTS_TEMPLATE only)),
          (M @ [''model''], Dir),
          (M @ [''model'', with_suffix n ''.cc''], File (formatted MODEL_CC_TEMPLATE only)),
          (M @ [''model'', with_suffix n ''.h''], File (formatted MODEL_H_TEMPLATE [(''MODULE'', n), (''INCLUDE_GUARD'', guard_name n @ ''_H'')])),
          (M @ [''test''], Dir),
          (M @ [''test'', with_suffix (n @ ''-test-suite'') ''.cc''], File (formatted TEST_CC_TEMPLATE
             [(''MODULE'', n), (''CAPITALIZED'', concat (map capitalize parts)), (''COMPOUND'', concat (map (\<lambda>(i, w). if i > 0 then capitalize w else w) (enumerate 0 parts)))])),
          (M @ [''helper''], Dir),
          (M @ [''helper'', with_suffix (n @ ''-helper'') ''.cc''], File (formatted HELPER_CC_TEMPLATE only)),
          (M @ [''helper'', with_suffix (n @ ''-helper'') ''.h''], File (formatted HELPER_H_TEMPLATE [(''MODULE'', n), (''INCLUDE_GUARD'', guard_name n @ ''_HELPER_H'')])),
          (M @ [''examples''], Dir),
          (M @ [''examples'', ''CMakeLists.txt''], File (formatted EXAMPLES_CMAKELISTS_TEMPLATE only)),
          (M @ [''examples'', with_suffix (n @ ''-example'') ''.cc''], File (formatted EXAMPLE_CC_TEMPLATE only)),
          (M @ [''doc''], Dir),
          (M @ [''doc'', n @ ''.rst''], File (formatted DOC_RST_TEMPLATE [(''MODULE'', n), (''MODULE_DIR'', mod_relpath cwd M)]))])"

text \<open>Making directories and files removes nothing.\<close>

definition keeps_nodes :: "os \<Rightarrow> os \<Rightarrow> bool" where
  "keeps_nodes s t \<longleftrightarrow> (\<forall>q. fs s q \<noteq> None \<longrightarrow> fs t q \<noteq> None)"

interpretation nodes: os_relation keeps_nodes
  by unfold_locales (auto simp: keeps_nodes_def)

definition grows :: "os_action \<Rightarrow> bool" where
  "grows a \<longleftrightarrow> (\<forall>s. keeps_nodes s (snd (a s)))"

lemma grows_mkdir: "grows (mkdir ans p)"
  by (auto simp: grows_def keeps_nodes_def mkdir_def Let_def set_nodes_def split: option.split)

lemma grows_create: "grows (create_file ans p template args)"
  by (auto simp: grows_def keeps_nodes_def create_file_def Let_def split: sum.split option.split)

lemma grows_in_order: "\<forall>a \<in> set as. grows a \<Longrightarrow> grows (in_order as)"
  unfolding grows_def using nodes.related_in_order by blast

text \<open>The actions after the directory of the module, in one list.\<close>

lemma artifacts_plan:
  "\<exists>as. list_all2 (makes ans) as (skeleton cwd M n) \<and> (\<forall>a \<in> set as. grows a) \<and> make_artifacts ans cwd M n = in_order (mkdir ans M # as)"
proof -
  let ?mod = "[(''MODULE'', n)]" and ?parts = "split_char (CHR ''-'') n"
  let ?ass = "[[create_file ans (M @ [''CMakeLists.txt'']) CMAKELISTS_TEMPLATE ?mod],
    [mkdir ans (M @ [''model'']), create_file ans (M @ [''model'', with_suffix n ''.cc'']) MODEL_CC_TEMPLATE ?mod,
     create_file ans (M @ [''model'', with_suffix n ''.h'']) MODEL_H_TEMPLATE [(''MODULE'', n), (''INCLUDE_GUARD'', guard_name n @ ''_H'')]],
    [mkdir ans (M @ [''test'']), create_file ans (M @ [''test'', with_suffix (n @ ''-test-suite'') ''.cc'']) TEST_CC_TEMPLATE
       [(''MODULE'', n), (''CAPITALIZED'', concat (map capitalize ?parts)), (''COMPOUND'', concat (map (\<lambda>(i, w). if i > 0 then capitalize w else w) (enumerate 0 ?parts)))]],
    [mkdir ans (M @ [''helper'']), create_file ans (M @ [''helper'', with_suffix (n @ ''-helper'') ''.cc'']) HELPER_CC_TEMPLATE ?mod,
     create_file ans (M @ [''helper'', with_suffix (n @ ''-helper'') ''.h'']) HELPER_H_TEMPLATE [(''MODULE'', n), (''INCLUDE_GUARD'', guard_name n @ ''_HELPER_H'')]],
    [mkdir ans (M @ [''examples'']), create_file ans (M @ [''examples'', ''CMakeLists.txt'']) EXAMPLES_CMAKELISTS_TEMPLATE ?mod,
     create_file ans (M @ [''examples'', with_suffix (n @ ''-example'') ''.cc'']) EXAMPLE_CC_TEMPLATE ?mod],
    [mkdir ans (M @ [''doc'']), create_file ans (M @ [''doc'', n @ ''.rst'']) DOC_RST_TEMPLATE [(''MODULE'', n), (''MODULE_DIR'', mod_relpath cwd M)]]]"
  have "make_artifacts ans cwd M n = in_order (map in_order ([mkdir ans M] # ?ass))"
    unfolding make_artifacts_def make_cmakelists_def make_model_def make_test_def make_helper_def make_examples_def make_doc_def Let_def list.map in_order_single ..
  then have "make_artifacts ans cwd M n = in_order (mkdir ans M # concat ?ass)" unfolding in_order_concat by simp
  moreover have "list_all2 (makes ans) (concat ?ass) (skeleton cwd M n)"
    unfolding skeleton_def Let_def concat.simps append.simps
    by (intro list_all2_Cons [THEN iffD2] conjI makes_mkdir makes_create [OF CMAKELISTS_TEMPLATE_fields] makes_create [OF MODEL_CC_TEMPLATE_fields] makes_create [OF MODEL_H_TEMPLATE_fields]
        makes_create [OF TEST_CC_TEMPLATE_fields] makes_create [OF HELPER_CC_TEMPLATE_fields] makes_create [OF HELPER_H_TEMPLATE_fields]
        makes_create [OF EXAMPLES_CMAKELISTS_TEMPLATE_fields] makes_create [OF EXAMPLE_CC_TEMPLATE_fields] makes_create [OF DOC_RST_TEMPLATE_fields]) simp_all
  moreover have "\<forall>a \<in> set (concat ?ass). grows a" by (simp add: grows_mkdir grows_create)
  ultimately show ?thesis by blast
qed

lemma with_suffix_last: "suf \<noteq> [] \<Longrightarrow> last (with_suffix n suf) = last suf"
  by (auto simp: with_suffix_def Let_def)

lemma with_suffix_differ: "last a \<noteq> last b \<Longrightarrow> a \<noteq> [] \<Longrightarrow> b \<noteq> [] \<Longrightarrow> with_suffix n a \<noteq> with_suffix n b"
  by (metis with_suffix_last)

lemma example_file: "with_suffix n ''.cc'' \<noteq> ''CMakeLists.txt''"
proof
  assume "with_suffix n ''.cc'' = ''CMakeLists.txt''"
  then have "last (with_suffix n ''.cc'') = last ''CMakeLists.txt''" by simp
  then show False by (simp add: with_suffix_last)
qed

lemma prefix_below: "prefix q (M @ [a]) \<longleftrightarrow> q = M @ [a] \<or> prefix q M"
  by (simp add: prefix_snoc)

lemma below_not_prefix: "prefix q M \<Longrightarrow> q \<noteq> M @ a # b"
  by (auto simp: prefix_def)

lemma skeleton_plan:
  assumes "\<forall>q. prefix q M \<longrightarrow> f q = Some Dir" and "\<forall>x xs. f (M @ x # xs) = None"
  shows "plan_ok f (skeleton cwd M n)"
proof -
  have M: "f M = Some Dir" using assms(1) by simp
  have d: "with_suffix m ''.h'' \<noteq> with_suffix m ''.cc''" for m by (rule with_suffix_differ) simp_all
  show ?thesis unfolding skeleton_def Let_def plan_ok.simps ready_def
    using assms M d example_file by (auto simp: butlast_append prefix_below below_not_prefix)
qed

section \<open>All or nothing\<close>

text \<open>In a file system every node lies in a directory.\<close>

definition tree_ok :: "(path \<Rightarrow> node option) \<Rightarrow> bool" where
  "tree_ok f \<longleftrightarrow> (\<forall>p x. f (p @ [x]) \<noteq> None \<longrightarrow> f p = Some Dir)"

lemma tree_below: "tree_ok f \<Longrightarrow> f M = None \<Longrightarrow> prefix M q \<Longrightarrow> f q = None"
proof -
  assume t: "tree_ok f" "f M = None" and "prefix M q"
  then obtain xs where q: "q = M @ xs" by (auto simp: prefix_def)
  have "f (M @ xs) = None" using t
  proof (induction xs rule: rev_induct)
    case (snoc x xs)
    then show ?case unfolding tree_ok_def append_assoc [symmetric] by (metis option.distinct(1))
  qed simp
  then show ?thesis by (simp add: q)
qed

lemma prefixes_last: "\<exists>ps. prefixes p = ps @ [p] \<and> (\<forall>q \<in> set ps. strict_prefix q p)"
proof (cases p rule: rev_cases)
  case (snoc ys y)
  then show ?thesis by (intro exI [of _ "prefixes ys"]) (auto simp: strict_prefix_def)
qed simp

lemma mkdir_first:
  assumes "fs s M = None"
  shows "case mkdir ans M s of
      (None, s') \<Rightarrow> fs s' = set_nodes (prefixes M) Dir (fs s)
    | (Some e, s') \<Rightarrow> fs s' M = None \<and> (\<forall>q. prefix M q \<longrightarrow> fs s' q = fs s q) \<and> ((\<exists>n. ans n \<noteq> None) \<or> (\<exists>q. strict_prefix q M \<and> fs s q \<noteq> None \<and> fs s q \<noteq> Some Dir))"
proof -
  obtain ps where ps: "prefixes M = ps @ [M]" "\<forall>q \<in> set ps. strict_prefix q M" using prefixes_last by blast
  let ?m = "filter (\<lambda>q. fs s q = None) (prefixes M)"
  have m: "?m = filter (\<lambda>q. fs s q = None) ps @ [M]" using assms by (simp add: ps(1))
  then have "set (take (min k (length ?m - 1)) ?m) \<subseteq> set ps" for k by (auto dest: in_set_takeD)
  then have part: "set_nodes (take (min k (length ?m - 1)) ?m) Dir (fs s) q = fs s q" if "prefix M q" for k q
    using ps(2) that by (force simp: set_nodes_def strict_prefix_def dest: prefix_order.antisym)
  show ?thesis
  proof (cases "list_ex (\<lambda>q. fs s q \<noteq> None \<and> fs s q \<noteq> Some Dir) (prefixes M)")
    case True
    then have "\<exists>q. strict_prefix q M \<and> fs s q \<noteq> None \<and> fs s q \<noteq> Some Dir" using assms ps by (auto simp: list_ex_iff)
    then show ?thesis using True assms by (simp add: mkdir_def)
  next
    case False
    then have "set_nodes ?m Dir (fs s) = set_nodes (prefixes M) Dir (fs s)" by (auto simp: set_nodes_def list_ex_iff fun_eq_iff simp del: in_set_prefixes)
    then show ?thesis using False assms part [OF prefix_order.refl] part by (auto simp: mkdir_def Let_def split: option.split)
  qed
qed

lemma artifacts_outcome:
  assumes "fs s M = None" and "tree_ok (fs s)"
  shows "case make_artifacts ans cwd M n s of
      (None, s') \<Rightarrow> fs s' = add_nodes (skeleton cwd M n) (set_nodes (prefixes M) Dir (fs s))
    | (Some e, s') \<Rightarrow> (fs s' M = None \<longrightarrow> (\<forall>q. prefix M q \<longrightarrow> fs s' q = None)) \<and> ((\<exists>n. ans n \<noteq> None) \<or> (\<exists>q. strict_prefix q M \<and> fs s q \<noteq> None \<and> fs s q \<noteq> Some Dir))"
proof -
  obtain as where as: "list_all2 (makes ans) as (skeleton cwd M n)" "make_artifacts ans cwd M n = in_order (mkdir ans M # as)" "\<forall>a \<in> set as. grows a" using artifacts_plan by blast
  obtain r s1 where r: "mkdir ans M s = (r, s1)" by (cases "mkdir ans M s")
  note f = mkdir_first [OF assms(1), of ans, unfolded r]
  show ?thesis
  proof (cases r)
    case (Some e)
    then show ?thesis using f r tree_below [OF assms(2,1)] by (auto simp: as(2))
  next
    case None
    then have s1: "fs s1 = set_nodes (prefixes M) Dir (fs s)" using f by simp
    have "plan_ok (fs s1) (skeleton cwd M n)"
    proof (rule skeleton_plan)
      show "\<forall>q. prefix q M \<longrightarrow> fs s1 q = Some Dir" by (simp add: s1 set_nodes_def)
      show "\<forall>x xs. fs s1 (M @ x # xs) = None" using tree_below [OF assms(2,1)] by (auto simp: s1 set_nodes_def prefix_def)
    qed
    note p = run_plan [OF as(1) this]
    have M: "fs (snd (in_order as s1)) M \<noteq> None" using grows_in_order [OF as(3)] s1 by (simp add: grows_def keeps_nodes_def set_nodes_def)
    then show ?thesis using p r None s1 by (auto simp: as(2) split: prod.splits option.splits)
  qed
qed

text \<open>
  C22: Making a module is all or nothing, whatever the operating system refuses: when it succeeds the module did not exist before and the file system has gained its missing parent
  directories, its five directories and its nine files, each with its template filled in, and nothing else; when it reports a failure nothing of the module is left, or the module had
  been there before and nothing has changed; outside the module only missing parent directories can have appeared. The removal of an incomplete module is the only step that can
  raise. When the operating system refuses nothing and no parent is a file, a new module is made.
\<close>

theorem make_module_atomic:
  assumes "tree_ok (fs s)"
  shows "let M = modpath @ [modname]
    in (case make_module ans stays cwd (modpath, modname) s of
          (Inr b, s') \<Rightarrow> if b then fs s M = None \<and> fs s' = add_nodes (skeleton cwd M modname) (set_nodes (prefixes M) Dir (fs s))
                         else if fs s M = None then (\<forall>q. prefix M q \<longrightarrow> fs s' q = None) \<and> tree_change M s s' else fs s' = fs s
        | (Inl e, s') \<Rightarrow> stays \<noteq> None \<and> tree_change M s s') \<and>
       (fs s M = None \<and> (\<forall>n. ans n = None) \<and> (\<forall>q. prefix q modpath \<longrightarrow> fs s q = None \<or> fs s q = Some Dir) \<longrightarrow> fst (make_module ans stays cwd (modpath, modname) s) = Inr True)"
proof (cases "fs s (modpath @ [modname]) = None")
  case False
  then show ?thesis by (auto simp: make_module_def say_def Let_def)
next
  case True
  let ?M = "modpath @ [modname]" and ?s = "say (Creating (modpath @ [modname])) s"
  have f: "fs ?s = fs s" by (simp add: say_def)
  obtain r s1 where r: "make_artifacts ans cwd ?M modname ?s = (r, s1)" by (cases "make_artifacts ans cwd ?M modname ?s")
  note o = artifacts_outcome [where s = ?s and M = ?M and ans = ans and cwd = cwd and n = modname, unfolded r f, OF True assms]
  have c: "tree_change ?M s s1" using confined_artifacts [of ?M ans cwd modname] r f unfolding confined_def tree_change_def by (metis snd_conv)
  show ?thesis
  proof (cases r)
    case None
    then show ?thesis using o True r by (simp add: make_module_def)
  next
    case (Some e)
    have gone: "tree_change ?M s (s1\<lparr>fs := (\<lambda>q. if prefix ?M q \<and> P q then None else fs s1 q)\<rparr>)" for P using c by (simp add: tree_change_def)
    have no: "\<not> ((\<forall>n. ans n = None) \<and> (\<forall>q. prefix q modpath \<longrightarrow> fs s q = None \<or> fs s q = Some Dir))" using o Some by (auto simp: strict_prefix_def)
    show ?thesis
    proof (cases "fs s1 ?M = None")
      case True
      then show ?thesis using o c Some r no \<open>fs s ?M = None\<close> by (auto simp: make_module_def say_def tree_change_def)
    next
      case False
      then show ?thesis using Some r no \<open>fs s ?M = None\<close> gone [of "\<lambda>_. True"] gone
        by (cases stays) (auto simp: make_module_def rmtree_def say_def tree_change_def)
    qed
  qed
qed

text \<open>A checkout with its two directories, below the root.\<close>

definition checkout :: os where
  "checkout = \<lparr>fs = set_nodes [[], [''src''], [''contrib'']] Dir (\<lambda>_. None), tick = 0, messages = []\<rparr>"

lemma checkout_ok: "tree_ok (fs checkout)"
  by (simp add: tree_ok_def checkout_def set_nodes_def)

theorem make_module_atomic_witness:
  "fst (make_module (\<lambda>n. None) None [] ([''contrib''], ''rip'') checkout) = Inr True"
proof -
  have "fs checkout [''contrib'', ''rip''] = None" "\<forall>q. prefix q [''contrib''] \<longrightarrow> fs checkout q = None \<or> fs checkout q = Some Dir"
    by (auto simp: checkout_def set_nodes_def)
  then show ?thesis using make_module_atomic [OF checkout_ok, where modpath = "[''contrib'']" and modname = "''rip''" and ans = "\<lambda>n. None" and stays = None and cwd = "[]"] by (simp add: Let_def)
qed

section \<open>Names and the exit status\<close>

lemma allowed_no_sep: "allowedRE n \<Longrightarrow> CHR ''/'' \<notin> set n \<and> n \<noteq> [] \<and> n \<noteq> ''.''"
proof -
  assume a: "allowedRE n"
  obtain t where t: "t \<noteq> []" "\<forall>c \<in> set t. word_char c" "n = t \<or> n = t @ [CHR 0x0A]"
  proof (cases "n \<noteq> [] \<and> last n = CHR 0x0A")
    case True
    then have "n = butlast n @ [CHR 0x0A]" by (metis append_butlast_last_id)
    then show ?thesis using that [of "butlast n"] a True by (simp add: allowedRE_def Let_def list_all_iff)
  next
    case False
    then show ?thesis using that [of n] a by (auto simp: allowedRE_def Let_def list_all_iff split: if_splits)
  qed
  have "\<not> word_char (CHR ''/'')" "\<not> word_char (CHR ''.'')" by (simp_all add: word_char_def)
  then have w: "CHR ''/'' \<notin> set t" "CHR ''.'' \<notin> set t" using t(2) by blast+
  from t(3) show ?thesis
  proof
    assume "n = t"
    then show ?thesis using t(1) w by auto
  next
    assume "n = t @ [CHR 0x0A]"
    then show ?thesis using t(1) w by auto
  qed
qed

lemma strip_sep_id: "CHR ''/'' \<notin> {hd s, last s} \<Longrightarrow> s \<noteq> [] \<Longrightarrow> strip_sep s = s"
proof -
  assume s: "CHR ''/'' \<notin> {hd s, last s}" "s \<noteq> []"
  have d: "dropWhile (\<lambda>c. c = CHR ''/'') xs = xs" if "hd xs \<noteq> CHR ''/''" for xs using that by (cases xs) auto
  show ?thesis using s d [of s] d [of "rev s"] by (auto simp: strip_sep_def hd_rev)
qed

text \<open>
  C26: Where a module is made: a name by itself or below \<open>contrib\<close> stands for a module of \<open>contrib\<close>, or of the project, and below \<open>src\<close> for one of \<open>src\<close>, which is refused with a
  project. A name of two parts that begins with neither is not refused: its second part is dropped. The name \<open>src\<close> alone raises \<open>IndexError\<close> without a project, and \<open>contrib\<close> always.
\<close>

theorem name_target:
  assumes "allowedRE n" and "allowedRE m" and "n \<noteq> ''src''" and "n \<noteq> ''contrib''"
  shows "let dir = (case pp of None \<Rightarrow> cwd @ [''contrib''] | Some p \<Rightarrow> cwd @ [''contrib''] @ p)
    in read_name cwd project pp n = Inr ([(dir, n)], []) \<and>
       read_name cwd project pp (''contrib/'' @ m) = Inr ([(dir, m)], []) \<and>
       read_name cwd [] None (''src/'' @ m) = Inr ([(cwd @ [''src''], m)], []) \<and>
       (project \<noteq> [] \<longrightarrow> read_name cwd project pp (''src/'' @ m) = Inl Parser_error) \<and>
       read_name cwd project pp (n @ ''/'' @ m) = Inr ([(dir, n)], []) \<and>
       read_name cwd [] None ''src'' = Inl (Raised IndexError) \<and> read_name cwd project pp ''contrib'' = Inl (Raised IndexError)"
proof -
  have n: "CHR ''/'' \<notin> set n" "n \<noteq> []" "n \<noteq> ''.''" and m: "CHR ''/'' \<notin> set m" "m \<noteq> []" "m \<noteq> ''.''" using allowed_no_sep [OF assms(1)] allowed_no_sep [OF assms(2)] by simp_all
  have ends: "hd n \<noteq> CHR ''/''" "last n \<noteq> CHR ''/''" "last m \<noteq> CHR ''/''" using n m by (metis hd_in_set last_in_set)+
  have s: "strip_sep n = n" "strip_sep (n @ ''/'' @ m) = n @ ''/'' @ m" "strip_sep (''src/'' @ m) = ''src/'' @ m" "strip_sep (''contrib/'' @ m) = ''contrib/'' @ m"
    "strip_sep ''src'' = ''src''" "strip_sep ''contrib'' = ''contrib''"
    by (rule strip_sep_id; use n m ends in simp)+
  have p: "path_parts n = [n]" "path_parts (n @ ''/'' @ m) = [n, m]" using n m by (simp_all add: path_parts_def split_char_word split_char_append)
  have q: "path_parts (''src/'' @ m) = [''src'', m]" "path_parts (''contrib/'' @ m) = [''contrib'', m]" "path_parts ''src'' = [''src'']" "path_parts ''contrib'' = [''contrib'']"
    using m split_char_append [of "CHR ''/''" "''src''" m] split_char_append [of "CHR ''/''" "''contrib''" m] by (simp_all add: path_parts_def split_char_word)
  show ?thesis unfolding read_name_def s Let_def p q using assms n by (auto split: option.split)
qed

theorem name_target_witness: "read_name [] [] None ''rip/model'' = Inr ([([''contrib''], ''rip'')], [])"
  using name_target [where n = "''rip''" and m = "''model''" and pp = None and cwd = "[]" and project = "[]"] by (simp add: allowedRE_def word_char_def Let_def)

text \<open>The process ends with status 0 also when a module could not be made; the messages tell them apart.\<close>

lemma failed_module_status:
  assumes "fs s (cwd @ [''src'']) = Some Dir" and "fs s (cwd @ [''contrib'']) = Some Dir" and "project_path project = Inr pp"
    and "read_names cwd project pp names = (None, modules, out)" and "make_modules ans stays cwd modules (s\<lparr>messages := messages s @ out\<rparr>) = (Inr b, s')"
  shows "exit_code (fst (create_module_main ans stays cwd project names s)) = 0"
  using assms by (simp add: create_module_main_def exit_code_def)

end
