(* ===== verification/Mobility.thy ===== *)
theory Mobility
  imports PyString
begin

text \<open>
  The preparation of mobility data (\<^verbatim>\<open>mobil_data\<close>): \<open>gen_mobility.py\<close>, which turns the positions of users into the movement commands the simulator reads, and the windows that
  \<open>user_predictions.py\<close> cuts for its model. Reading the files with NumPy, the text of a float and the neural network are left to the caller.
\<close>

section \<open>Movement commands\<close>

text \<open>\<open>np.genfromtxt\<close> gives a table, a vector for a file of one line, or a single number.\<close>

datatype array = Table "rat list list" | Vector "rat list" | Scalar rat

definition print_first_pos :: "(rat \<Rightarrow> string) \<Rightarrow> nat \<Rightarrow> rat \<Rightarrow> rat \<Rightarrow> int \<Rightarrow> string" where
  "print_first_pos str_float nodeid x y z =
     ''$node_('' @ str_of_nat nodeid @ '') set X_ '' @ str_float x @ [CHR 0x0A] @
     ''$node_('' @ str_of_nat nodeid @ '') set Y_ '' @ str_float y @ [CHR 0x0A] @
     ''$node_('' @ str_of_nat nodeid @ '') set Z_ '' @ str_of_int z @ [CHR 0x0A]"

definition print_pos :: "(rat \<Rightarrow> string) \<Rightarrow> nat \<Rightarrow> nat \<Rightarrow> rat \<Rightarrow> rat \<Rightarrow> int \<Rightarrow> string" where
  "print_pos str_float nodeid timestamp x y speed =
     ''$ns_ at '' @ str_of_nat timestamp @ '' '' @ [CHR 0x22] @ ''$node_('' @ str_of_nat nodeid @ '') setdest '' @ str_float x @ '' '' @ str_float y @ '' '' @ str_of_int speed @
     [CHR 0x22, CHR 0x0A]"

definition sample_text :: "(rat \<Rightarrow> string) \<Rightarrow> nat \<Rightarrow> nat \<times> rat list \<Rightarrow> string result" where
  "sample_text str_float nodeid s =
     (let (i, sample) = s
      in bind_r (py_index sample 0) (\<lambda>x. bind_r (py_index sample 1) (\<lambda>y.
           Inr (if i = 0 then print_first_pos str_float nodeid x y 1 else print_pos str_float nodeid i x y 1))))"

text \<open>The samples of a vector are numbers, which have no index; a single number cannot be cut.\<close>

definition make_writeable :: "(rat \<Rightarrow> string) \<Rightarrow> nat \<Rightarrow> array \<Rightarrow> nat option \<Rightarrow> string result" where
  "make_writeable str_float nodeid user_array num_samples =
     (case user_array of
        Table rows \<Rightarrow> bind_r (mapM_r (sample_text str_float nodeid) (enumerate 0 (case num_samples of None \<Rightarrow> rows | Some n \<Rightarrow> take n rows))) (\<lambda>ts. Inr (concat ts))
      | Vector xs \<Rightarrow> if (case num_samples of None \<Rightarrow> xs | Some n \<Rightarrow> take n xs) = [] then Inr [] else Inl IndexError
      | Scalar x \<Rightarrow> Inl (if num_samples = None then TypeError else IndexError))"

text \<open>The file is emptied first, and the text of each user is appended when it is ready: what has been written stays when a later user fails.\<close>

fun write_users :: "(rat \<Rightarrow> string) \<Rightarrow> nat \<Rightarrow> string \<Rightarrow> (nat \<times> array) list \<Rightarrow> py_error option \<times> string" where
  "write_users str_float num_samples out [] = (None, out)"
| "write_users str_float num_samples out ((userid, data) # us) =
     (case make_writeable str_float userid data (Some num_samples) of
        Inl e \<Rightarrow> (Some e, out)
      | Inr t \<Rightarrow> write_users str_float num_samples (out @ t) us)"

definition gen_mobility :: "(rat \<Rightarrow> string) \<Rightarrow> array list \<Rightarrow> py_error option \<times> string" where
  "gen_mobility str_float user_files = write_users str_float 1000 [] (enumerate 0 (take 100 user_files))"

section \<open>Training windows\<close>

definition create_dataset :: "'a list \<Rightarrow> nat \<Rightarrow> 'a list list \<times> 'a list" where
  "create_dataset dataset look_back =
     (let is = [0..<length dataset - look_back - 1]
      in (map (\<lambda>i. take look_back (drop i dataset)) is, map (\<lambda>i. dataset ! (i + look_back)) is))"

section \<open>Properties\<close>

text \<open>The commands of a user: the first sample sets the position, each later one within the limit is a destination at the second of its number.\<close>

definition user_text :: "(rat \<Rightarrow> string) \<Rightarrow> nat \<Rightarrow> rat list list \<Rightarrow> string" where
  "user_text str_float u rows =
     concat (map (\<lambda>i. if i = 0 then print_first_pos str_float u (rows ! 0 ! 0) (rows ! 0 ! 1) 1 else print_pos str_float u i (rows ! i ! 0) (rows ! i ! 1) 1)
       [0..<min 1000 (length rows)])"

lemma make_writeable_table:
  assumes "\<forall>r \<in> set rows. 2 \<le> length r"
  shows "make_writeable str_float u (Table rows) (Some 1000) = Inr (user_text str_float u rows)"
proof -
  let ?t = "take 1000 rows"
  have t: "\<forall>r \<in> set ?t. 2 \<le> length r" using assms by (meson in_set_takeD)
  have "mapM_r (sample_text str_float u) (enumerate 0 ?t) =
      Inr (map (\<lambda>(i, r). if i = 0 then print_first_pos str_float u (r ! 0) (r ! 1) 1 else print_pos str_float u i (r ! 0) (r ! 1) 1) (enumerate 0 ?t))"
  proof (rule mapM_r_total)
    fix x
    assume "x \<in> set (enumerate 0 ?t)"
    then have "2 \<le> length (snd x)" using t by (metis in_set_enumerate_eq nth_mem add.commute add_0 diff_zero)
    then have "py_index (snd x) 0 = Inr (snd x ! 0)" "py_index (snd x) 1 = Inr (snd x ! 1)" by (auto simp: py_index_def)
    then show "sample_text str_float u x = Inr (case x of (i, r) \<Rightarrow> if i = 0 then print_first_pos str_float u (r ! 0) (r ! 1) 1 else print_pos str_float u i (r ! 0) (r ! 1) 1)"
      by (cases x) (simp add: sample_text_def)
  qed
  moreover have "enumerate 0 ?t = map (\<lambda>i. (i, rows ! i)) [0..<min 1000 (length rows)]" by (rule nth_equalityI) (auto simp: nth_enumerate_eq)
  ultimately show ?thesis by (simp add: make_writeable_def user_text_def comp_def cong: if_cong)
qed

lemma write_users_tables:
  assumes "\<forall>(u, rows) \<in> set us. \<forall>r \<in> set rows. 2 \<le> length r"
  shows "write_users str_float 1000 out (map (map_prod id Table) us) = (None, out @ concat (map (\<lambda>(u, rows). user_text str_float u rows) us))"
  using assms
proof (induction us arbitrary: out)
  case (Cons a us)
  then show ?case using make_writeable_table by (cases a) auto
qed simp

text \<open>
  For tables with two columns the file holds the commands of the first hundred users in order, each with the number of its user, the first thousand samples, and the seconds as times.
\<close>

theorem mobility_commands:
  assumes "\<forall>rows \<in> set tables. \<forall>r \<in> set rows. 2 \<le> length r"
  shows "gen_mobility str_float (map Table tables) = (None, concat (map (\<lambda>u. user_text str_float u (tables ! u)) [0..<min 100 (length tables)]))"
proof -
  let ?us = "enumerate 0 (take 100 tables)"
  have e: "?us = map (\<lambda>u. (u, tables ! u)) [0..<min 100 (length tables)]" by (rule nth_equalityI) (auto simp: nth_enumerate_eq)
  have m: "enumerate 0 (take 100 (map Table tables)) = map (map_prod id Table) ?us" by (rule nth_equalityI) (auto simp: nth_enumerate_eq)
  have "\<forall>(u, rows) \<in> set ?us. \<forall>r \<in> set rows. 2 \<le> length r" unfolding e using assms by auto
  from write_users_tables [OF this] show ?thesis unfolding gen_mobility_def m by (simp add: e comp_def)
qed

theorem mobility_commands_witness:
  "gen_mobility (\<lambda>x. ''x'') (map Table [[[1, 2], [3, 4]]]) =
     (None, print_first_pos (\<lambda>x. ''x'') 0 1 2 1 @ print_pos (\<lambda>x. ''x'') 0 1 3 4 1)"
  using mobility_commands [of "[[[1, 2], [3, 4]]]"] by (simp add: user_text_def upt_rec)

text \<open>Each window is followed by its target; the last window that has a target is left out.\<close>

lemma windows:
  assumes "length dataset = look_back + k + 2" and "i \<le> k"
  shows "length (fst (create_dataset dataset look_back)) = k + 1" and "fst (create_dataset dataset look_back) ! i @ [snd (create_dataset dataset look_back) ! i] = take (look_back + 1) (drop i dataset)"
  using assms by (auto simp: create_dataset_def Let_def take_Suc_conv_app_nth add.commute nth_append le_less)

end
