(* ===== verification/Spec2Isabelle.thy ===== *)
theory Spec2Isabelle
  imports RadBinary RadNumbers RadSequences Topsort FindCycles FogServers FogPolicies FogRun CheckStyle GridGtk UavGenetic FlowmonResults TestJobs TestReport
    VizThreads VizAxes VizPlugins FogGraphs CreateModule Mobility
begin

text \<open>
  Verification of the Python programs of the repository: a copy of the network simulator ns-3 with the model
  Fog4VR, the scripts that place services and drones, and the tools of ns-3 written in Python.

  \<^bold>\<open>The programs and their theories.\<close>
  \<^item> \<^verbatim>\<open>utils/grid.py\<close>, the timeline viewer. \<open>GridData\<close>: data ranges, events, timelines, colours, the binary searches
    and the reader \<open>read_data\<close>, which builds the timelines from the lines of a log. \<open>GridRender\<close>: the renderers of legend, timelines,
    scale and the whole graphic; drawing is the list of the cairo calls. \<open>GridGtk\<close>: the widget with its mouse, size and
    expose handlers, the buttons of the main window, and \<open>main\<close> up to the first window. The reader feeds
    the renderers, and every handler of the widget calls \<open>set_range\<close> or \<open>layout\<close> of the graphic.
  \<^item> \<^verbatim>\<open>utils/check-style.py\<close>. \<open>CheckStyle\<close>: the classes of patches, the diff parser, the removal of changes of
    trailing white space, \<open>indent\<close>, \<open>indent_files\<close> and the command line.
  \<^item> \<^verbatim>\<open>bindings/python/rad_util.py\<close>: \<open>RadBinary\<close> (conversions between integers and bit strings), \<open>RadNumbers\<close> (greatest common
    factor, quantiles, areas, rounding, units), \<open>RadSequences\<close> (permutations, uniqueness, common prefixes,
    rotations, options). \<^verbatim>\<open>bindings/python/topsort.py\<close>: \<open>Topsort\<close> and \<open>FindCycles\<close>.
  \<^item> \<^verbatim>\<open>src/Fog4VR\<close>. \<open>FogServers\<close>: the table of candidate servers that four scripts build from the same files.
    \<open>FogPolicies\<close>: the analytic hierarchy process, the greedy and the random policy and the lookups of the linear program, with
    the main functions. \<open>FogRun\<close>: \<^verbatim>\<open>Run.py\<close>, which starts simulations while cores are free, the stall statistics
    of \<^verbatim>\<open>StallRebuffer.py\<close> and the matrix of \<^verbatim>\<open>Delays.py\<close>. \<open>FogGraphs\<close>: the figures that \<^verbatim>\<open>graficos.py\<close> and \<^verbatim>\<open>graficos2.py\<close> compute from the
    logs of the simulations that \<^verbatim>\<open>Run.py\<close> starts.
  \<^item> \<^verbatim>\<open>scratch/uavs_ag.py\<close>. \<open>UavGenetic\<close>: the placement of drones by a genetic algorithm.
  \<^item> \<^verbatim>\<open>mobil_data\<close>. \<open>Mobility\<close>: the movement commands for the simulator and the windows for the prediction.
  \<^item> \<^verbatim>\<open>utils/create-module.py\<close>. \<open>ModuleTemplates\<close>: the templates and \<open>str.format\<close>. \<open>CreateModule\<close>: a file system, the files of a module, the removal of an incomplete one, the names
    and the exit status.
  \<^item> \<^verbatim>\<open>src/visualizer/visualizer\<close>, the viewer of a running simulation. \<open>VizBase\<close>: \<^verbatim>\<open>base.py\<close> and \<^verbatim>\<open>svgitem.py\<close>. \<open>VizScene\<close>: nodes, channels and links of \<^verbatim>\<open>core.py\<close> with their canvas items.
    \<open>VizView\<close>: the scan of the topology, selection, dragging, panning, zoom and modes. \<open>VizThreads\<close>: the simulation thread and the thread of the view, with the lock, the event that
    ends the program, the timers and the pause messages, as steps in any order. \<open>VizTraffic\<close>: transmissions and drops. \<open>VizAxes\<close>: \<^verbatim>\<open>hud.py\<close>. \<open>VizPlugins\<close>: interface statistics, wireless links,
    routing tables and captured packets. The periodic updates of the threads feed the memories of \<open>VizTraffic\<close> and \<open>VizPlugins\<close>, whose views lay items over the scene.
  \<^item> \<^verbatim>\<open>utils.py\<close>. \<open>ConfigFile\<close>: the reader of \<^verbatim>\<open>.ns3rc\<close>.
  \<^item> \<^verbatim>\<open>src/flow-monitor/examples/flowmon-parse-results.py\<close>. \<open>FlowmonResults\<close>: the report on monitored flows.
  \<^item> \<^verbatim>\<open>test.py\<close>, the test runner. \<open>TestJobs\<close>: the choice of suites and examples, their jobs and commands. \<open>TestPool\<close>: the worker
    threads, the two queues, the main thread and the interrupt as a step relation. \<open>TestSummary\<close>: counting the results, the results file
    and the exit status. \<open>TestReport\<close>: its translation to text and HTML. The jobs of the first go through the pool in any order, and what the pool
    gives back is counted; \<open>XmlTree\<close> has the element trees that the reports are made of. The lists of examples are read with \<open>ConfigFile\<close>.

  \<^bold>\<open>Shared ground.\<close> \<open>Prelude\<close> has Python's exceptions as values, the sequencing of fallible steps, indexing
  and slicing, dictionaries, sorting, and the interfaces \<open>key_order\<close> (the order in which a dictionary is iterated),
  \<open>event_system\<close> (what every reaction keeps holds after any sequence of events) and \<open>finite_system\<close> (steps in any order that keep an
  invariant, lower a rank and are never stuck before the end); \<open>PyString\<close> the string functions, the
  reading of numbers and the regular expressions in use; \<open>PyNum\<close> the numbers of Python 2, where the division of integers
  rounds down, for the timeline viewer. \<open>GridData\<close> has the interfaces \<open>named_store\<close> and \<open>named_objects\<close> of the lists that are searched by name.
  \<open>CreateModule\<close> has \<open>os_relation\<close> (what each of several actions does to the file system, all of them do). Every interface is interpreted on the definitions of the model.

  \<^bold>\<open>How the code is represented.\<close> A class is a record and a method a function of the record that returns the
  new one; a function that can raise returns \<open>py_error + 'a\<close>, and its branches follow the source, in the order in which the
  source evaluates. Objects shared by several containers are positions in one list (the flows of \<open>FlowmonResults\<close>),
  and the writes through NumPy views in \<open>UavGenetic\<close> are the two writes that happen. A generator is the list of
  what it yields and how it ends. In \<open>CreateModule\<close> an action keeps its state when it raises, since the program undoes what was done. A loop that may not end is a partial function, whose value is None when it does not (\<open>float_range\<close>,
  \<open>binary_range\<close>), or has fuel (\<open>run_main\<close>, where one round per simulation is enough as soon as a core is free in every round); the
  theorems on them say when they end and with what, or that they do not. Every other loop is a total function.

  \<^bold>\<open>What the theorems show.\<close>
  \<^item> Timeline viewer: the searches return exactly the ranges and events of the window they were written for, with the cases in which they do
    not; reading a log refines the abstract specification of what each line adds, keeps every datum and gives every
    name one timeline; the scale marks exactly the multiples of its step after its lower end; every window is either laid out or fails
    for a stated reason, with the case in which it comes out inverted, and every sequence of user events keeps the invariant of the widget; dragging the left end of the window puts it
    at the time of the column of the pointer, and on the right an edge is lost; zooming in fails after finitely many clicks.
  \<^item> Style checker: writing and parsing a patch is the identity; trailing blanks are restored, with the exceptions.
  \<^item> Fog4VR: which inputs the candidate table accepts; the hierarchy process chooses the least score, the greedy
    policy the least delay; every simulation is started once, or the program never ends; the stall totals are the sums over
    the log lines; the quality levels, clients and switches of a run are those of its logs; the index of fairness lies between one over the number of servers and one, unless a server is full; which client
    is shown as the worst, and when there is none.
  \<^item> Module generator: a module is made completely or not at all, whatever the operating system refuses; where a name puts it.
  \<^item> Visualizer: the two threads never use the simulation together, except in \<open>autoscale_view\<close>; closing the window ends the program within six steps of the threads, pause messages are kept in order and lost only
    when an update of the view raises, and which end of a callback leaves two timers; the scan builds the scene the simulation describes, every event keeps the scene well formed, a dragged node follows the pointer, and panning fails after a double click;
    the arrows shown are the averages of the samples kept; the axes have their ticks on the multiples of a division; stations are linked to the access points they name, up to the one where the update raises.
  \<^item> Graphs: a topological order is returned exactly for acyclic graphs; levels; every cycle is reported once.
  \<^item> Utilities: conversions are inverse to each other, with the exception of the width 0, the greatest common factor, permutations and rotations are the mathematical ones.
  \<^item> Drones: the genetic algorithm ends, never loses ground, and stays in reach; its crossover copies instead of swapping.
  \<^item> Test runner: every schedule of the threads ends, with every job given back exactly once, and the exit status is 0 exactly when
    all of them passed or were skipped and none was given back because of an interrupt; a negative limit on the workers makes the program wait for ever; performance tests run only on request;
    the recursive text report is the flat one, and the HTML report leaves the rows of failures open.
  \<^item> Configuration: exactly the text of the assignment is evaluated. Flow report: reading with shared objects is
    a join of three tables, only the root element counts, and the figures are in range.

  \<^bold>\<open>Parameters.\<close> The contents of files, command lines and load averages are arguments. So are: the programs uncrustify,
  patch and diff of the style checker; the extents of a text that cairo computes; the solver behind \<^verbatim>\<open>pliLocal.py\<close>; the random
  numbers, as arbitrary sequences; the iteration order of dictionaries; Python's \<open>eval\<close>; the parsing of XML, of which the model takes the tree;
  what the processes started by the test runner print and return; the layout of Graphviz, the sizes of pictures, the conversion and clipping of lines, the logarithm and the names of colours
  of the visualizer; the tables that pandas and NumPy read; the answers of the operating system to the module generator.

  \<^bold>\<open>Bounds.\<close> Floats are exact rational or real numbers: rounding errors, infinities and the value of a literal such as 0.1 in
  binary are not modelled, except that \<open>FogGraphs\<close> marks a float that is not a finite number, and represents a standard deviation by its square. Integers are unbounded, as in Python. The state that an object is left in when a handler raises is not
  modelled: after an exception there is only the exception; but it is for \<open>CreateModule\<close>, for the updates of the wireless links in \<open>VizPlugins\<close> and for an update of the view
  that raises in \<open>VizThreads\<close>.

  \<^bold>\<open>Not modelled.\<close> The files \<^verbatim>\<open>modulegen__gcc_*.py\<close> are generated from the C++ headers and hold registration calls
  only; they are more than nine tenths of the lines of Python in the repository. The customizations of the bindings, the build files and the scripts that drive pybindgen and castxml are
  calls into these tools. The examples, the documentation settings and the scripts of test suites call into the bindings or list names. Of \<^verbatim>\<open>test.py\<close>, the reading of the configuration by
  executing lines of a file and the messages in verbose mode are left out. Of the visualizer, building windows and menus, tooltips, saving a picture, and the embedded shell
  (\<^verbatim>\<open>ipython_view.py\<close>) are calls of GTK, Cairo and IPython. Of the scripts of the plots, the drawing itself; the neural network of \<^verbatim>\<open>user_predictions.py\<close>, the clustering
  and the campaign scripts (\<^verbatim>\<open>run-Fog4VR.py\<close>, \<^verbatim>\<open>run-simulations.py\<close>) are calls of Keras, scikit-learn, SciPy and sem. The C++ simulator itself is not part of this development.
\<close>

end
